(* ===== verification/Mux_Prelude.thy ===== *)
theory Mux_Prelude
  imports Main "HOL-Library.Word" "HOL-Library.AList"
begin

text \<open>
  Shared vocabulary of the development: bytes, Go errors and \<open>errors.Is\<close>, Go contexts,
  Go maps as association lists with distinct keys, the big-endian integer codec of
  \<open>encoding/binary\<close>, labelled traces of a step relation, and the two interfaces that
  several components share (a fixed-width codec and a byte-accounted FIFO queue).
\<close>

unbundle bit_operations_syntax

named_theorems accounting \<open>facts about byte counters of queues and maps\<close>
named_theorems step_inv \<open>one preservation fact per operation\<close>

section \<open>Bytes, errors, contexts\<close>

type_synonym byte = "8 word"
type_synonym bytes = "byte list"

text \<open>
  The package-level error variables the sources compare with \<open>errors.Is\<close>: those of package
  \<open>streammux\<close>, those of package \<open>pty\<close>, and those of the standard library and the system calls.
\<close>

datatype (plugins only: code size) mux_error =
    ErrFrameTooLarge | ErrInvalidFrameLength | ErrUnsupportedVersion
  | ErrInvalidMessageType | ErrInvalidFlags | ErrInvalidCorrelation
  | ErrNilStream | ErrInvalidVersionRange | ErrConnClosed
  | ErrNilConn | ErrPeerClosed | ErrPeerAlreadyServing | ErrHandlerRegistered
  | ErrHandlerNotFound | ErrUnexpectedResponse | ErrPeerQueueOverflow
  | ErrTooManyActiveStreams

datatype (plugins only: code size) pty_error =
    ErrCommandRequired | ErrInvalidSize | ErrInvalidMessageTypes | ErrSessionNotFound
  | ErrUnexpectedFrame | ErrInvalidPayload | ErrProcessIDUnavailable
  | ErrNilProcess | ErrNilSender | ErrInvalidStreamID | ErrInvalidInputType
  | ErrNilManagedFactory | ErrManagerClosed | ErrSessionLimit | ErrAttachmentLimit
  | ErrObserverLimit | ErrQueueOverflow | ErrAlreadyAttached | ErrFutureSequence
  | ErrAttachmentClosed | ErrObserverClosed | ErrSessionRunning | ErrSessionExited
  | ErrUnsupportedProtocolVersion

datatype (plugins only: code size) lib_error =
    IoEOF | IoErrUnexpectedEOF | IoErrShortWrite | IoErrNoProgress | IoErrClosedPipe
  | OsErrClosed | OsErrProcessDone | CtxCanceled | CtxDeadlineExceeded
  | UnixEIO | UnixESRCH | WindowsErrorBrokenPipe

text \<open>
  A Go error value: a package-level variable, an anonymous \<open>errors.New\<close> (or an error made
  by the environment) known by its text, \<open>fmt.Errorf\<close> with one \<open>%w\<close> operand and the
  numbers it prints after it, or \<open>errors.Join\<close>.
\<close>

datatype gerror =
    Mux mux_error
  | Pty pty_error
  | Lib lib_error
  | ErrNew string
  | Errorf gerror "int list"
  | ErrJoin "gerror list"

type_synonym 'a result = "gerror + 'a"

fun errorsIs :: "gerror \<Rightarrow> gerror \<Rightarrow> bool" where
  "errorsIs (Mux s) t = (Mux s = t)"
| "errorsIs (Pty s) t = (Pty s = t)"
| "errorsIs (Lib s) t = (Lib s = t)"
| "errorsIs (ErrNew s) t = (ErrNew s = t)"
| "errorsIs (Errorf e ds) t = (Errorf e ds = t \<or> errorsIs e t)"
| "errorsIs (ErrJoin es) t = (ErrJoin es = t \<or> (\<exists>e\<in>set es. errorsIs e t))"

lemma errorsIs_refl [simp]: "errorsIs e e"
  by (cases e) auto

definition errors_Join :: "gerror option list \<Rightarrow> gerror option" where
  "errors_Join es = (case List.map_filter id es of [] \<Rightarrow> None | xs \<Rightarrow> Some (ErrJoin xs))"

text \<open>
  A context is seen through \<open>ctx.Err()\<close>: \<open>None\<close> while it is live, the cause once it is
  done. A nil context argument is \<open>None\<close> of the type \<^typ>\<open>gerror option option\<close>.
\<close>

type_synonym gctx = "gerror option"

text \<open>A Go panic (nil dereference, index out of range) is an outcome of its own.\<close>

datatype 'a outcome = Ret 'a | Panic

text \<open>A counter of machine width that has not reached its end grows.\<close>

lemma word_less_succ: "(w :: 'a::len word) \<noteq> - 1 \<Longrightarrow> w < w + 1"
proof -
  assume ne: "w \<noteq> - 1"
  have "uint w < 2 ^ LENGTH('a)" by (rule uint_lt2p)
  moreover have "uint w \<noteq> 2 ^ LENGTH('a) - 1"
  proof
    assume "uint w = 2 ^ LENGTH('a) - 1"
    then have "uint w = uint (- 1 :: 'a word)" by (simp add: unsigned_minus_1_eq_mask mask_eq_exp_minus_1)
    then show False using ne by (simp add: word_uint_eq_iff)
  qed
  ultimately have "uint w + 1 < 2 ^ LENGTH('a)" by linarith
  then have "uint (w + 1) = uint w + 1" by (simp add: uint_word_ariths)
  then show ?thesis by (simp add: word_less_def)
qed

section \<open>Go maps\<close>

text \<open>
  A Go map is an association list with distinct keys. The order of the list is one of the
  iteration orders Go may choose, so a theorem about every such list covers every order.
\<close>

type_synonym ('k, 'v) gomap = "('k \<times> 'v) list"

abbreviation mget :: "('k, 'v) gomap \<Rightarrow> 'k \<Rightarrow> 'v option" where
  "mget \<equiv> map_of"

abbreviation mput :: "'k \<Rightarrow> 'v \<Rightarrow> ('k, 'v) gomap \<Rightarrow> ('k, 'v) gomap" where
  "mput \<equiv> AList.update"

abbreviation mdel :: "'k \<Rightarrow> ('k, 'v) gomap \<Rightarrow> ('k, 'v) gomap" where
  "mdel \<equiv> AList.delete"

definition is_map :: "('k, 'v) gomap \<Rightarrow> bool" where
  "is_map m = distinct (map fst m)"

definition msum :: "('v \<Rightarrow> int) \<Rightarrow> ('k, 'v) gomap \<Rightarrow> int" where
  "msum f m = sum_list (map (f \<circ> snd) m)"

lemma is_map_Nil [simp]: "is_map []"
  by (simp add: is_map_def)

lemma is_map_mput [simp]: "is_map m \<Longrightarrow> is_map (mput k v m)"
  by (simp add: is_map_def distinct_update)

lemma is_map_mdel [simp]: "is_map m \<Longrightarrow> is_map (mdel k m)"
  by (simp add: is_map_def distinct_delete)

lemma mget_mput [simp]: "mget (mput k v m) j = (if j = k then Some v else mget m j)"
  by (simp add: update_conv')

lemma mget_mdel [simp]: "mget (mdel k m) j = (if j = k then None else mget m j)"
  by (simp add: delete_conv')

lemma mget_is_map_mem: "is_map m \<Longrightarrow> mget m k = Some v \<longleftrightarrow> (k, v) \<in> set m"
  by (auto simp: is_map_def map_of_eq_Some_iff)

lemma mget_None_keys: "mget m k = None \<longleftrightarrow> k \<notin> fst ` set m"
  by (simp add: map_of_eq_None_iff)

lemma msum_Nil [simp]: "msum f [] = 0"
  by (simp add: msum_def)

lemma msum_Cons [simp]: "msum f (x # m) = f (snd x) + msum f m"
  by (simp add: msum_def)

lemma mput_new: "mget m k = None \<Longrightarrow> mput k v m = m @ [(k, v)]"
  by (induction m) auto

lemma mdel_absent: "mget m k = None \<Longrightarrow> mdel k m = m"
  by (induction m) (auto split: if_splits)

lemma msum_append [simp]: "msum f (m @ m') = msum f m + msum f m'"
  by (simp add: msum_def)

lemma msum_mput [accounting]:
  "msum f (mput k v m) =
     msum f m - (case mget m k of None \<Rightarrow> 0 | Some x \<Rightarrow> f x) + f v"
  by (induction m) auto

lemma mdel_Cons_same: "mdel k ((k, v) # m) = mdel k m"
  by simp

lemma msum_mdel [accounting]:
  "is_map m \<Longrightarrow> msum f (mdel k m) = msum f m - (case mget m k of None \<Rightarrow> 0 | Some x \<Rightarrow> f x)"
  by (induction m) (auto simp: is_map_def mdel_absent map_of_eq_None_iff)

lemma msum_nonneg: "\<forall>v \<in> snd ` set m. 0 \<le> f v \<Longrightarrow> 0 \<le> msum f m"
  by (induction m) auto

lemma msum_ge_member:
  assumes "mget m k = Some v" and "\<forall>w \<in> snd ` set m. 0 \<le> f w"
  shows "f v \<le> msum f m"
  using assms
proof (induction m)
  case (Cons p m)
  have "0 \<le> msum f m" using Cons.prems(2) by (intro msum_nonneg) auto
  moreover have "0 \<le> f (snd p)" using Cons.prems(2) by simp
  ultimately show ?case using Cons by (cases p) (auto split: if_splits)
qed simp

lemma length_mput [accounting]:
  "length (mput k v m) = (case mget m k of None \<Rightarrow> Suc (length m) | Some _ \<Rightarrow> length m)"
  by (induction m) (auto split: option.splits)

lemma length_mdel [accounting]:
  assumes "is_map m"
  shows "length (mdel k m) + (case mget m k of None \<Rightarrow> 0 | Some _ \<Rightarrow> 1) = length m"
  using assms
  by (induction m) (auto simp: is_map_def mdel_absent map_of_eq_None_iff)

lemma keys_mput: "fst ` set (mput k v m) = insert k (fst ` set m)"
  by (induction m) auto

lemma keys_mdel: "fst ` set (mdel k m) = fst ` set m - {k}"
  by (induction m) auto

section \<open>Traces of a step relation\<close>

text \<open>
  The components run concurrently; each critical section of the code is one labelled step.
  A trace is a sequence of such steps in any interleaving.
\<close>

inductive trace :: "('s \<Rightarrow> 'l \<Rightarrow> 's \<Rightarrow> bool) \<Rightarrow> 's \<Rightarrow> 'l list \<Rightarrow> 's \<Rightarrow> bool"
  for step where
  trace_refl: "trace step s [] s"
| trace_snoc: "trace step s ls t \<Longrightarrow> step t l u \<Longrightarrow> trace step s (ls @ [l]) u"

lemma trace_one: "step s l t \<Longrightarrow> trace step s [l] t"
  using trace_snoc [of step s "[]" s l t] by (simp add: trace_refl)

lemma trace_append:
  "trace step t ls' u \<Longrightarrow> trace step s ls t \<Longrightarrow> trace step s (ls @ ls') u"
  by (induction rule: trace.induct) (simp_all flip: append_assoc add: trace.trace_snoc)

locale step_invariant =
  fixes step :: "'s \<Rightarrow> 'l \<Rightarrow> 's \<Rightarrow> bool" and inv :: "'s \<Rightarrow> bool"
  assumes step_keeps: "inv s \<Longrightarrow> step s l t \<Longrightarrow> inv t"
begin

lemma trace_keeps: "trace step s ls t \<Longrightarrow> inv s \<Longrightarrow> inv t"
  by (induction rule: trace.induct) (auto intro: step_keeps)

end

text \<open>
  An observation that each step extends: what was put in is what came out followed by
  what is still held. Used for the per-stream order of frames and of terminal output.
\<close>

locale fifo_observation = step_invariant +
  fixes ins :: "'l \<Rightarrow> 'x list" and outs :: "'l \<Rightarrow> 'x list" and held :: "'s \<Rightarrow> 'x list"
  assumes step_fifo: "inv s \<Longrightarrow> step s l t \<Longrightarrow> held s @ ins l = outs l @ held t"
begin

lemma trace_fifo:
  "trace step s ls t \<Longrightarrow> inv s \<Longrightarrow>
     held s @ concat (map ins ls) = concat (map outs ls) @ held t"
proof (induction rule: trace.induct)
  case (trace_snoc s ls t l u)
  then have "inv t" by (blast intro: trace_keeps)
  with trace_snoc.hyps have "held t @ ins l = outs l @ held u" by (blast intro: step_fifo)
  moreover have "held s @ concat (map ins ls) = concat (map outs ls) @ held t"
    using trace_snoc by blast
  ultimately show ?case by (simp flip: append_assoc) simp
qed simp

end

section \<open>Byte-accounted FIFO queues\<close>

text \<open>
  The contract the four bounded queues of the code share (inbound stream, outbound stream,
  attachment, observer): items leave in the order they came, the byte counter follows the
  items, and the admission test keeps the counter within the limit.
\<close>

locale byte_queue =
  fixes items :: "'q \<Rightarrow> 'a list" and load :: "'q \<Rightarrow> int" and weight :: "'a \<Rightarrow> int"
    and push :: "'a \<Rightarrow> 'q \<Rightarrow> 'q" and pop :: "'q \<Rightarrow> ('a \<times> 'q) option"
    and admits :: "int \<Rightarrow> 'a \<Rightarrow> 'q \<Rightarrow> bool"
  assumes push_items: "items (push x q) = items q @ [x]"
    and push_load: "load (push x q) = load q + weight x"
    and pop_empty: "items q = [] \<Longrightarrow> pop q = None"
    and pop_items: "items q = x # xs \<Longrightarrow>
          \<exists>q'. pop q = Some (x, q') \<and> items q' = xs \<and> load q' = load q - weight x"
    and admits_load: "admits limit x q \<Longrightarrow> load q + weight x \<le> limit"
begin

abbreviation accounted :: "'q \<Rightarrow> bool" where
  "accounted q \<equiv> load q = sum_list (map weight (items q))"

lemma accounted_push: "accounted q \<Longrightarrow> accounted (push x q)"
  by (simp add: push_items push_load)

lemma accounted_pop: "accounted q \<Longrightarrow> pop q = Some (x, q') \<Longrightarrow> accounted q'"
  using pop_items [of q] pop_empty [of q] by (cases "items q") auto

lemma load_nonneg: "accounted q \<Longrightarrow> \<forall>x \<in> set (items q). 0 \<le> weight x \<Longrightarrow> 0 \<le> load q"
  by (simp, intro sum_list_nonneg) auto

lemma load_push_bound: "admits limit x q \<Longrightarrow> load (push x q) \<le> limit"
  by (simp add: push_load admits_load)

lemma load_pop: "pop q = Some (x, q') \<Longrightarrow> load q' = load q - weight x"
  using pop_items [of q] pop_empty [of q] by (cases "items q") auto

lemma pop_fifo: "pop q = Some (x, q') \<Longrightarrow> items q = x # items q'"
  using pop_items [of q] pop_empty [of q] by (cases "items q") auto

lemma pop_iff: "pop q = None \<longleftrightarrow> items q = []"
  using pop_items [of q] pop_empty [of q] by (cases "items q") auto

lemma push_all_items: "items (fold push xs q) = items q @ xs"
  by (induction xs arbitrary: q) (simp_all add: push_items)

end

end
