(* ===== verification/Go_Lib.thy ===== *)
theory Go_Lib
  imports Mux_Prelude
begin

text \<open>
  What the sources use of Go's standard library: the big-endian integers of
  \<open>encoding/binary\<close>, \<open>io.ReadFull\<close> over a reader, and writers. The locale \<open>fixed_codec\<close> is
  the contract of a fixed-width encoding; the integer widths used on the wire are
  interpretations of it, and so are the frame header and the terminal size later on.
\<close>

section \<open>encoding/binary.BigEndian\<close>

definition be_encode :: "nat \<Rightarrow> 'a::len word \<Rightarrow> bytes" where
  "be_encode n v = map (\<lambda>i. ucast (drop_bit (8 * i) v)) (rev [0..<n])"

definition be_decode :: "bytes \<Rightarrow> 'a::len word" where
  "be_decode bs = foldl (\<lambda>acc b. push_bit 8 acc OR ucast b) 0 bs"

definition putUint16 :: "16 word \<Rightarrow> bytes" where "putUint16 v = be_encode 2 v"
definition putUint32 :: "32 word \<Rightarrow> bytes" where "putUint32 v = be_encode 4 v"
definition putUint64 :: "64 word \<Rightarrow> bytes" where "putUint64 v = be_encode 8 v"
definition getUint16 :: "bytes \<Rightarrow> 16 word" where "getUint16 bs = be_decode bs"
definition getUint32 :: "bytes \<Rightarrow> 32 word" where "getUint32 bs = be_decode bs"
definition getUint64 :: "bytes \<Rightarrow> 64 word" where "getUint64 bs = be_decode bs"

lemma length_be_encode [simp]: "length (be_encode n v) = n"
  by (simp add: be_encode_def)

lemma be_decode_snoc: "be_decode (bs @ [b]) = push_bit 8 (be_decode bs) OR ucast b"
  by (simp add: be_decode_def)

lemma bit_be_decode:
  "bit (be_decode bs :: 'a::len word) i \<longleftrightarrow>
     i < LENGTH('a) \<and> i < 8 * length bs \<and> bit (rev bs ! (i div 8)) (i mod 8)"
proof (induction bs arbitrary: i rule: rev_induct)
  case Nil
  then show ?case by (simp add: be_decode_def)
next
  case (snoc b bs)
  show ?case
  proof (cases "i < 8")
    case True
    then show ?thesis
      by (auto simp: be_decode_snoc bit_simps snoc.IH)
  next
    case False
    then have "i div 8 = Suc ((i - 8) div 8)" and "i mod 8 = (i - 8) mod 8"
      by (simp_all add: le_div_geq le_mod_geq)
    moreover have "\<not> bit b i"
      using False bit_imp_le_length [of b i] by auto
    ultimately show ?thesis using False
      by (auto simp: be_decode_snoc bit_simps snoc.IH)
  qed
qed

lemma nth_rev_be_encode: "i < n \<Longrightarrow> rev (be_encode n v) ! i = ucast (drop_bit (8 * i) v)"
  by (simp add: be_encode_def rev_map [symmetric])

lemma be_decode_encode:
  fixes v :: "'a::len word"
  assumes "LENGTH('a) = 8 * n"
  shows "be_decode (be_encode n v) = v"
proof (rule bit_word_eqI)
  fix i assume "i < LENGTH('a)"
  then have "i div 8 < n" using assms by linarith
  then have "bit (rev (be_encode n v) ! (i div 8)) (i mod 8) = bit v i"
    by (simp add: nth_rev_be_encode bit_simps)
  then show "bit (be_decode (be_encode n v) :: 'a word) i = bit v i"
    using \<open>i < LENGTH('a)\<close> assms by (simp add: bit_be_decode)
qed

lemma be_encode_decode:
  assumes "LENGTH('a::len) = 8 * length bs"
  shows "be_encode (length bs) (be_decode bs :: 'a word) = bs"
proof -
  have "rev (be_encode (length bs) (be_decode bs :: 'a word)) = rev bs"
  proof (rule nth_equalityI)
    fix i assume "i < length (rev (be_encode (length bs) (be_decode bs :: 'a word)))"
    then have i: "i < length bs" by simp
    show "rev (be_encode (length bs) (be_decode bs :: 'a word)) ! i = rev bs ! i"
    proof (rule bit_word_eqI)
      fix k assume "k < LENGTH(8)"
      then show "bit (rev (be_encode (length bs) (be_decode bs :: 'a word)) ! i) k = bit (rev bs ! i) k"
        using i assms by (simp add: nth_rev_be_encode bit_simps bit_be_decode div_add1_eq)
    qed
  qed simp
  then show ?thesis by simp
qed

section \<open>Fixed-width codecs\<close>

locale fixed_codec =
  fixes enc :: "'x \<Rightarrow> bytes" and dec :: "bytes \<Rightarrow> 'x" and width :: nat
  assumes enc_width: "length (enc x) = width"
    and dec_enc: "dec (enc x) = x"
    and enc_dec: "length bs = width \<Longrightarrow> enc (dec bs) = bs"
begin

lemma enc_inj: "enc x = enc y \<longleftrightarrow> x = y"
  by (metis dec_enc)

lemma take_enc [simp]: "take width (enc x @ rest) = enc x"
  by (simp add: enc_width)

lemma drop_enc [simp]: "drop width (enc x @ rest) = rest"
  by (simp add: enc_width)

lemma dec_take_enc [simp]: "dec (take width (enc x @ rest)) = x"
  by (simp add: dec_enc enc_width)

lemma enc_surj: "length bs = width \<Longrightarrow> \<exists>x. enc x = bs"
  using enc_dec by blast

end

interpretation u16: fixed_codec putUint16 getUint16 2
  by unfold_locales
    (use be_encode_decode [where 'a = 16] in
      \<open>auto simp: putUint16_def getUint16_def be_decode_encode\<close>)

interpretation u32: fixed_codec putUint32 getUint32 4
  by unfold_locales
    (use be_encode_decode [where 'a = 32] in
      \<open>auto simp: putUint32_def getUint32_def be_decode_encode\<close>)

interpretation u64: fixed_codec putUint64 getUint64 8
  by unfold_locales
    (use be_encode_decode [where 'a = 64] in
      \<open>auto simp: putUint64_def getUint64_def be_decode_encode\<close>)

section \<open>io.Reader and io.ReadFull\<close>

text \<open>
  A reader is the script of what its successive \<open>Read\<close> calls have to offer: a run of bytes
  and the error that comes with its last byte. A buffer shorter than the run takes a part
  of it and leaves the rest; an exhausted script reports \<open>io.EOF\<close>.
\<close>

type_synonym reader = "(bytes \<times> gerror option) list"

fun readLoop :: "reader \<Rightarrow> nat \<Rightarrow> bytes \<Rightarrow> bytes \<times> gerror option \<times> reader" where
  "readLoop r 0 acc = (acc, None, r)"
| "readLoop [] (Suc n) acc = (acc, Some (Lib IoEOF), [])"
| "readLoop ((bs, e) # r) (Suc n) acc =
     (if Suc n < length bs
      then (acc @ take (Suc n) bs, None, (drop (Suc n) bs, e) # r)
      else case e of
             Some err \<Rightarrow> (acc @ bs, Some err, r)
           | None \<Rightarrow> readLoop r (Suc n - length bs) (acc @ bs))"

definition readFull :: "reader \<Rightarrow> nat \<Rightarrow> bytes result \<times> reader" where
  "readFull r n =
     (case readLoop r n [] of (acc, e, r') \<Rightarrow>
        (if n \<le> length acc then Inr acc
         else case e of
                None \<Rightarrow> Inr acc
              | Some err \<Rightarrow> Inl (if acc \<noteq> [] \<and> err = Lib IoEOF then Lib IoErrUnexpectedEOF else err),
         r'))"

text \<open>All bytes a reader still holds, when no error comes before its end.\<close>

definition clean :: "reader \<Rightarrow> bool" where
  "clean r = (\<forall>(bs, e) \<in> set r. e = None)"

definition content :: "reader \<Rightarrow> bytes" where
  "content r = concat (map fst r)"

lemma clean_simps [simp]:
  "clean []" "clean ((bs, e) # r) \<longleftrightarrow> e = None \<and> clean r"
  by (auto simp: clean_def)

lemma content_simps [simp]:
  "content [] = []" "content ((bs, e) # r) = bs @ content r"
  by (simp_all add: content_def)

lemma readLoop_clean:
  assumes "clean r"
  shows "\<exists>r'. readLoop r n acc =
    (acc @ take n (content r),
     (if n \<le> length (content r) then None else Some (Lib IoEOF)), r')
     \<and> clean r' \<and> content r' = drop n (content r)"
  using assms by (induction r n acc rule: readLoop.induct) auto

lemma readFull_clean:
  assumes "clean r" and "n \<le> length (content r)"
  obtains r' where "readFull r n = (Inr (take n (content r)), r')" "clean r'"
    "content r' = drop n (content r)"
  using readLoop_clean [OF assms(1), of n "[]"] assms(2) that
  by (auto simp: readFull_def)

lemma readFull_short:
  assumes "clean r" and "length (content r) < n"
  obtains r' where
    "readFull r n = (Inl (if content r = [] then Lib IoEOF else Lib IoErrUnexpectedEOF), r')"
    "clean r'" "content r' = []"
  using readLoop_clean [OF assms(1), of n "[]"] assms(2) that
  by (auto simp: readFull_def)

lemma readLoop_length:
  assumes "readLoop r n acc = (acc', e, r')"
  shows "length acc' \<le> length acc + n
    \<and> acc' @ content r' = acc @ content r
    \<and> (e = None \<longrightarrow> length acc' = length acc + n)"
  using assms
proof (induction r n acc arbitrary: acc' e r' rule: readLoop.induct)
  case (3 bs e0 r n acc)
  show ?case
  proof (cases "Suc n < length bs")
    case True
    with "3.prems" show ?thesis by auto
  next
    case False
    show ?thesis
    proof (cases e0)
      case None
      with False "3.prems" have "readLoop r (Suc n - length bs) (acc @ bs) = (acc', e, r')" by simp
      from "3.IH" [OF False None this] False None show ?thesis by auto
    next
      case (Some err)
      with False "3.prems" show ?thesis by auto
    qed
  qed
qed auto

text \<open>Whatever a reader does, a successful \<open>ReadFull\<close> is exactly the next bytes of its content.\<close>

lemma readFull_Inr:
  assumes "readFull r n = (Inr bs, r')"
  shows "length bs = n \<and> content r = bs @ content r'"
proof -
  obtain acc e q where q: "readLoop r n [] = (acc, e, q)" by (cases "readLoop r n []") auto
  from readLoop_length [OF q] assms q show ?thesis
    by (auto simp: readFull_def split: if_splits option.splits)
qed

end
