(* ===== verification/Mux_Frame.thy ===== *)
theory Mux_Frame
  imports Go_Lib
begin

text \<open>
  \<open>frame.go\<close> and the configuration of \<open>codec.go\<close>: headers, frames, the limits a connection
  enforces, and the validation every frame passes before it is sent or delivered.
\<close>

section \<open>Constants and data\<close>

definition HeaderSize :: nat where "HeaderSize = 28"
definition DefaultMaxFrameBytes :: int where "DefaultMaxFrameBytes = 4 * 1024 * 1024"

type_synonym MessageType = "16 word"
type_synonym Flags = "32 word"
type_synonym CorrelationID = "64 word"
type_synonym StreamID = "64 word"

definition FlagRequest :: Flags where "FlagRequest = push_bit 0 1"
definition FlagResponse :: Flags where "FlagResponse = push_bit 1 1"
definition FlagEvent :: Flags where "FlagEvent = push_bit 2 1"
definition knownFlags :: Flags where "knownFlags = FlagRequest OR FlagResponse OR FlagEvent"

record header =
  PayloadLength :: "32 word"
  Version :: "16 word"
  MessageType :: MessageType
  Flags :: Flags
  CorrelationID :: CorrelationID
  StreamID :: StreamID

record frame =
  Header :: header
  Payload :: bytes

text \<open>\<open>Validate\<close> is the application's optional validator; \<open>None\<close> is a nil function.\<close>

record config =
  MinVersion :: "16 word"
  MaxVersion :: "16 word"
  MaxFrameBytes :: int
  WriteQueue :: int
  Validator :: "(frame \<Rightarrow> gerror option) option"

definition DefaultConfig :: config where
  "DefaultConfig = \<lparr>MinVersion = 1, MaxVersion = 1, MaxFrameBytes = DefaultMaxFrameBytes,
     WriteQueue = 64, Validator = None\<rparr>"

definition withDefaults :: "config \<Rightarrow> config" where
  "withDefaults c0 =
     (let c1 = (if MinVersion c0 = 0 then c0\<lparr>MinVersion := 1\<rparr> else c0);
          c2 = (if MaxVersion c1 = 0 then c1\<lparr>MaxVersion := MinVersion c1\<rparr> else c1);
          c3 = (if MaxFrameBytes c2 \<le> 0 then c2\<lparr>MaxFrameBytes := DefaultMaxFrameBytes\<rparr> else c2);
          c4 = (if WriteQueue c3 < 0 then c3\<lparr>WriteQueue := 0\<rparr> else c3)
      in c4)"

section \<open>Validation\<close>

definition classCount :: "Flags \<Rightarrow> int" where
  "classCount flags =
     foldl (\<lambda>count flag. if flags AND flag \<noteq> 0 then count + 1 else count) 0
       [FlagRequest, FlagResponse, FlagEvent]"

definition header_validate :: "config \<Rightarrow> header \<Rightarrow> gerror option" where
  "header_validate c h =
     (if uint (PayloadLength h) > uint (word_of_int (MaxFrameBytes c) :: 64 word)
      then Some (Errorf (Mux ErrFrameTooLarge) [uint (PayloadLength h)])
      else if Version h < MinVersion c \<or> Version h > MaxVersion c
      then Some (Errorf (Mux ErrUnsupportedVersion) [uint (Version h)])
      else if MessageType h = 0 then Some (Mux ErrInvalidMessageType)
      else if Flags h AND NOT knownFlags \<noteq> 0 \<or> classCount (Flags h) \<noteq> 1
      then Some (Errorf (Mux ErrInvalidFlags) [uint (Flags h)])
      else if Flags h AND (FlagRequest OR FlagResponse) \<noteq> 0 \<and> CorrelationID h = 0
      then Some (Mux ErrInvalidCorrelation)
      else if Flags h = FlagEvent \<and> CorrelationID h \<noteq> 0
      then Some (Mux ErrInvalidCorrelation)
      else None)"

definition Validate :: "config \<Rightarrow> frame \<Rightarrow> gerror option" where
  "Validate c0 f =
     (let c = withDefaults c0; n = int (length (Payload f)) in
      if n > MaxFrameBytes c \<or> n > 2 ^ 32 - 1 then Some (Errorf (Mux ErrFrameTooLarge) [n])
      else case header_validate c (Header f) of
        Some e \<Rightarrow> Some e
      | None \<Rightarrow>
          if (word_of_int n :: 32 word) \<noteq> PayloadLength (Header f)
          then Some (Errorf (Mux ErrInvalidFrameLength) [uint (PayloadLength (Header f)), n])
          else case Validator c of
            Some v \<Rightarrow> v f
          | None \<Rightarrow> None)"

definition lenLimit :: "bytes \<Rightarrow> config" where
  "lenLimit payload =
     (let limit = (if length payload = 0 then 1 else int (length payload)) in
      \<lparr>MinVersion = 1, MaxVersion = - 1, MaxFrameBytes = limit, WriteQueue = 0, Validator = None\<rparr>)"

definition newFrame :: "header \<Rightarrow> bytes \<Rightarrow> frame result" where
  "newFrame h payload =
     (if int (length payload) > 2 ^ 32 - 1 then Inl (Mux ErrFrameTooLarge)
      else let f = \<lparr>Header = h\<lparr>PayloadLength := of_nat (length payload)\<rparr>, Payload = payload\<rparr>
           in case Validate (lenLimit payload) f of
                Some e \<Rightarrow> Inl e
              | None \<Rightarrow> Inr f)"

text \<open>
  \<open>NewFrame\<close> and \<open>Clone\<close> copy the payload; bytes are values here, so a copy is the same list
  and the ownership rule of \<open>NewOwnedFrame\<close> (never mutate afterwards) is what makes both
  constructors the same function.
\<close>

definition NewFrame :: "header \<Rightarrow> bytes \<Rightarrow> frame result" where
  "NewFrame h payload = newFrame h ([] @ payload)"

definition NewOwnedFrame :: "header \<Rightarrow> bytes \<Rightarrow> frame result" where
  "NewOwnedFrame h payload = newFrame h payload"

definition Clone :: "frame \<Rightarrow> frame" where
  "Clone f = f\<lparr>Payload := [] @ Payload f\<rparr>"

section \<open>What validation accepts\<close>

text \<open>The range of Go's \<open>int\<close> on the 64-bit targets.\<close>

definition go_int :: "int \<Rightarrow> bool" where
  "go_int i \<longleftrightarrow> - (2 ^ 63) \<le> i \<and> i < 2 ^ 63"

text \<open>
  The readable form of the wire rules: exactly one class flag, a correlation number on
  requests and responses and none on events.
\<close>

definition well_formed :: "config \<Rightarrow> header \<Rightarrow> bool" where
  "well_formed c h \<longleftrightarrow>
     uint (PayloadLength h) \<le> MaxFrameBytes c
     \<and> MinVersion c \<le> Version h \<and> Version h \<le> MaxVersion c
     \<and> MessageType h \<noteq> 0
     \<and> (Flags h = 1 \<and> CorrelationID h \<noteq> 0 \<or> Flags h = 2 \<and> CorrelationID h \<noteq> 0
        \<or> Flags h = 4 \<and> CorrelationID h = 0)"

lemmas flag_defs = FlagRequest_def FlagResponse_def FlagEvent_def knownFlags_def

lemma flag_values [simp]: "FlagRequest = 1" "FlagResponse = 2" "FlagEvent = 4" "knownFlags = 7"
  by (simp_all add: flag_defs push_bit_eq_mult)

lemma known_flags_cases:
  fixes w :: Flags
  assumes "w AND NOT 7 = 0"
  shows "w \<in> {0, 1, 2, 3, 4, 5, 6, 7}"
proof -
  have "w = (w AND 7) OR (w AND NOT 7)"
    by (simp flip: bit.conj_disj_distrib)
  with assms have "w = take_bit 3 w"
    by (simp add: take_bit_eq_mask mask_numeral)
  then have "unat w = unat (take_bit 3 w)" by (rule arg_cong)
  also have "\<dots> = take_bit 3 (unat w)" by (rule unsigned_take_bit_eq)
  also have "\<dots> < 8" using take_bit_nat_less_exp [of 3 "unat w"] by simp
  finally have "unat w \<in> {0, 1, 2, 3, 4, 5, 6, 7}" by auto
  then have "word_of_nat (unat w) \<in> (word_of_nat :: nat \<Rightarrow> Flags) ` {0, 1, 2, 3, 4, 5, 6, 7}"
    by (rule imageI)
  then show ?thesis by simp
qed

lemma one_class_flag:
  "w AND NOT knownFlags = 0 \<and> classCount w = 1 \<longleftrightarrow> w = 1 \<or> w = 2 \<or> w = 4"
proof
  assume "w AND NOT knownFlags = 0 \<and> classCount w = 1"
  then show "w = 1 \<or> w = 2 \<or> w = 4"
    using known_flags_cases [of w] by (auto simp: classCount_def)
qed (auto simp: classCount_def)

lemma uint_max_frame:
  "0 \<le> m \<Longrightarrow> go_int m \<Longrightarrow> uint (word_of_int m :: 64 word) = m"
  by (simp add: go_int_def uint_word_of_int_eq take_bit_int_eq_self)

lemma header_validate_iff:
  assumes "0 \<le> MaxFrameBytes c" and "go_int (MaxFrameBytes c)"
  shows "header_validate c h = None \<longleftrightarrow> well_formed c h"
  using one_class_flag [of "Flags h"]
  by (auto simp: header_validate_def well_formed_def uint_max_frame [OF assms] not_le not_less)

lemma withDefaults_idem [simp]: "withDefaults (withDefaults c) = withDefaults c"
  by (simp add: withDefaults_def DefaultMaxFrameBytes_def Let_def)

lemma withDefaults_MaxFrameBytes:
  "MaxFrameBytes (withDefaults c) =
     (if MaxFrameBytes c \<le> 0 then DefaultMaxFrameBytes else MaxFrameBytes c)"
  by (simp add: withDefaults_def Let_def)

lemma withDefaults_pos [simp]: "0 < MaxFrameBytes (withDefaults c)"
  by (simp add: withDefaults_MaxFrameBytes DefaultMaxFrameBytes_def)

lemma withDefaults_go_int: "go_int (MaxFrameBytes c) \<Longrightarrow> go_int (MaxFrameBytes (withDefaults c))"
  by (simp add: withDefaults_MaxFrameBytes DefaultMaxFrameBytes_def go_int_def)

lemma withDefaults_Validator [simp]: "Validator (withDefaults c) = Validator c"
  by (simp add: withDefaults_def Let_def)

lemma Validate_withDefaults [simp]: "Validate (withDefaults c) f = Validate c f"
  by (simp add: Validate_def)

lemma Validate_iff:
  assumes "go_int (MaxFrameBytes c)"
  shows "Validate c f = None \<longleftrightarrow>
    well_formed (withDefaults c) (Header f)
    \<and> int (length (Payload f)) = uint (PayloadLength (Header f))
    \<and> (\<forall>v. Validator c = Some v \<longrightarrow> v f = None)"
proof -
  let ?c = "withDefaults c" and ?n = "int (length (Payload f))"
  have hv: "header_validate ?c (Header f) = None \<longleftrightarrow> well_formed ?c (Header f)"
    by (rule header_validate_iff)
      (simp_all add: withDefaults_go_int assms less_imp_le)
  have len: "(word_of_int ?n = PayloadLength (Header f)) = (?n = uint (PayloadLength (Header f)))"
    if "?n \<le> 2 ^ 32 - 1"
  proof -
    have "uint (word_of_int ?n :: 32 word) = ?n"
      using that by (simp add: unsigned_of_nat take_bit_nat_eq_self)
    then show ?thesis by (metis word_of_int_uint)
  qed
  have bound: "uint (PayloadLength (Header f)) \<le> 2 ^ 32 - 1"
    using uint_lt2p [of "PayloadLength (Header f)"] by simp
  show ?thesis
    using hv len bound
    by (auto simp: Validate_def Let_def well_formed_def split: option.splits if_splits)
qed

section \<open>Constructing frames\<close>

lemma lenLimit_defaults:
  "withDefaults (lenLimit p) =
     \<lparr>MinVersion = 1, MaxVersion = - 1, MaxFrameBytes = (if p = [] then 1 else int (length p)),
      WriteQueue = 0, Validator = None\<rparr>"
  by (auto simp: lenLimit_def withDefaults_def Let_def)

lemma uint_stamp: "length p < 2 ^ 32 \<Longrightarrow> uint (word_of_nat (length p) :: 32 word) = int (length p)"
  by (simp add: unsigned_of_nat take_bit_nat_eq_self)

lemma version_positive: "(1 :: 16 word) \<le> v \<longleftrightarrow> v \<noteq> 0"
  using unat_gt_0 [of v] by (simp add: word_le_nat_alt Suc_le_eq)

lemma lenLimit_Validator [simp]: "Validator (lenLimit p) = None"
  by (simp add: lenLimit_def Let_def)

lemma lenLimit_accepts:
  assumes "length p < 2 ^ 32"
  shows "Validate (lenLimit p) \<lparr>Header = h\<lparr>PayloadLength := of_nat (length p)\<rparr>, Payload = p\<rparr> = None
    \<longleftrightarrow> Version h \<noteq> 0 \<and> MessageType h \<noteq> 0
      \<and> (Flags h = 1 \<and> CorrelationID h \<noteq> 0 \<or> Flags h = 2 \<and> CorrelationID h \<noteq> 0
         \<or> Flags h = 4 \<and> CorrelationID h = 0)"
proof -
  have "go_int (MaxFrameBytes (lenLimit p))"
    using assms by (simp add: lenLimit_def go_int_def)
  then show ?thesis
    using assms by (simp add: Validate_iff lenLimit_defaults well_formed_def uint_stamp version_positive)
qed

text \<open>
  (C21) A header passes \<open>Header.validate\<close> exactly when its payload fits the limit, its version is
  in the configured range, its message type is non-zero, exactly one of the three class flags
  is set and no unknown bit, and it carries a correlation number if and only if it is a
  request or a response.
\<close>

theorem header_validate_exact:
  assumes "0 \<le> MaxFrameBytes c" and "go_int (MaxFrameBytes c)"
  shows "header_validate c h = None \<longleftrightarrow>
    uint (PayloadLength h) \<le> MaxFrameBytes c
    \<and> MinVersion c \<le> Version h \<and> Version h \<le> MaxVersion c
    \<and> MessageType h \<noteq> 0
    \<and> (Flags h = FlagRequest \<and> CorrelationID h \<noteq> 0
       \<or> Flags h = FlagResponse \<and> CorrelationID h \<noteq> 0
       \<or> Flags h = FlagEvent \<and> CorrelationID h = 0)"
  using header_validate_iff [OF assms, of h] by (simp add: well_formed_def)

theorem header_validate_exact_witness:
  "header_validate DefaultConfig
     \<lparr>PayloadLength = 5, Version = 1, MessageType = 7, Flags = 4, CorrelationID = 0, StreamID = 9\<rparr> = None"
proof -
  have "0 \<le> MaxFrameBytes DefaultConfig" "go_int (MaxFrameBytes DefaultConfig)"
    by (simp_all add: DefaultConfig_def DefaultMaxFrameBytes_def go_int_def)
  from header_validate_exact [OF this] show ?thesis
    by (simp add: DefaultConfig_def DefaultMaxFrameBytes_def)
qed

lemma newFrame_Inr_iff:
  "newFrame h p = Inr f \<longleftrightarrow>
     length p < 2 ^ 32 \<and> f = \<lparr>Header = h\<lparr>PayloadLength := of_nat (length p)\<rparr>, Payload = p\<rparr>
     \<and> Version h \<noteq> 0 \<and> MessageType h \<noteq> 0
     \<and> (Flags h = 1 \<and> CorrelationID h \<noteq> 0 \<or> Flags h = 2 \<and> CorrelationID h \<noteq> 0
        \<or> Flags h = 4 \<and> CorrelationID h = 0)"
proof (cases "length p < 2 ^ 32")
  case True
  then have "\<not> int (length p) > 2 ^ 32 - 1" by simp
  with lenLimit_accepts [OF True, of h] show ?thesis
    using True by (auto simp: newFrame_def Let_def split: option.splits)
qed (simp add: newFrame_def)

text \<open>
  \<open>newFrame\<close> succeeds exactly when the payload is shorter than 2 to the 32 bytes and the
  header obeys the wire rules, and then returns the header stamped with the payload length;
  and a frame it returns passes \<open>Frame.Validate\<close> under every configuration without a validator
  whose version range and size limit cover it.
\<close>

theorem newFrame_correct:
  "(newFrame h p = Inr f \<longleftrightarrow>
     length p < 2 ^ 32 \<and> f = \<lparr>Header = h\<lparr>PayloadLength := of_nat (length p)\<rparr>, Payload = p\<rparr>
     \<and> Version h \<noteq> 0 \<and> MessageType h \<noteq> 0
     \<and> (Flags h = FlagRequest \<and> CorrelationID h \<noteq> 0
        \<or> Flags h = FlagResponse \<and> CorrelationID h \<noteq> 0
        \<or> Flags h = FlagEvent \<and> CorrelationID h = 0))
   \<and> (newFrame h p = Inr f \<and> go_int (MaxFrameBytes c) \<and> Validator c = None
       \<and> MinVersion (withDefaults c) \<le> Version h \<and> Version h \<le> MaxVersion (withDefaults c)
       \<and> int (length p) \<le> MaxFrameBytes (withDefaults c)
      \<longrightarrow> Validate c f = None)"
  by (auto simp: newFrame_Inr_iff Validate_iff well_formed_def uint_stamp)

theorem newFrame_correct_witness:
  "Validate DefaultConfig
     \<lparr>Header = \<lparr>PayloadLength = 2, Version = 1, MessageType = 7, Flags = 1, CorrelationID = 3, StreamID = 9\<rparr>,
      Payload = [1, 2]\<rparr> = None"
proof -
  let ?h = "\<lparr>PayloadLength = 0, Version = 1, MessageType = 7, Flags = 1, CorrelationID = 3, StreamID = 9\<rparr>"
  have "newFrame ?h [1, 2] = Inr \<lparr>Header = ?h\<lparr>PayloadLength := 2\<rparr>, Payload = [1, 2]\<rparr>"
    by (simp add: newFrame_Inr_iff)
  with newFrame_correct [of ?h "[1, 2]" "\<lparr>Header = ?h\<lparr>PayloadLength := 2\<rparr>, Payload = [1, 2]\<rparr>" DefaultConfig]
  show ?thesis
    by (simp add: DefaultConfig_def DefaultMaxFrameBytes_def withDefaults_def go_int_def)
qed

end
