(* ===== verification/Mux_Codec.thy ===== *)
theory Mux_Codec
  imports Mux_Frame
begin

text \<open>
  \<open>codec.go\<close>: the 28-byte header encoding, \<open>Decoder.ReadFrame\<close> and \<open>Encoder.WriteFrame\<close> with
  the write loop under them. The header codec is an interpretation of \<open>fixed_codec\<close>; reading
  back what was written is proved for every way the transport may cut the bytes.
\<close>

section \<open>Headers on the wire\<close>

definition encodeHeader :: "header \<Rightarrow> bytes" where
  "encodeHeader h =
     putUint32 (PayloadLength h) @ putUint16 (Version h) @ putUint16 (MessageType h)
     @ putUint32 (Flags h) @ putUint64 (CorrelationID h) @ putUint64 (StreamID h)"

abbreviation slice :: "nat \<Rightarrow> nat \<Rightarrow> 'a list \<Rightarrow> 'a list" where
  "slice a b xs \<equiv> take (b - a) (drop a xs)"

definition decodeHeader :: "bytes \<Rightarrow> header" where
  "decodeHeader source =
     \<lparr>PayloadLength = getUint32 (slice 0 4 source),
      Version = getUint16 (slice 4 6 source),
      MessageType = getUint16 (slice 6 8 source),
      Flags = getUint32 (slice 8 12 source),
      CorrelationID = getUint64 (slice 12 20 source),
      StreamID = getUint64 (slice 20 28 source)\<rparr>"

section \<open>The write loop\<close>

text \<open>
  A writer is a state and a \<open>Write\<close> that reports how many bytes it took, an error, and its
  next state; the count is whatever the writer says, so the loop checks it.
\<close>

type_synonym 'w writer = "'w \<Rightarrow> bytes \<Rightarrow> int \<times> gerror option \<times> 'w"

function writeFull :: "'w writer \<Rightarrow> 'w \<Rightarrow> bytes \<Rightarrow> nat \<Rightarrow> gerror option \<times> 'w" where
  "writeFull wr w data written =
     (if written < length data
      then case wr w (drop written data) of (n, err, w') \<Rightarrow>
             if n < 0 \<or> n > int (length data) - int written
             then (Some (Lib IoErrShortWrite), w')
             else case err of
               Some e \<Rightarrow> (Some e, w')
             | None \<Rightarrow>
                 if n = 0 then (Some (Lib IoErrShortWrite), w')
                 else writeFull wr w' data (written + nat n)
      else (None, w))"
  by pat_completeness auto
termination
  by (relation "measure (\<lambda>(wr, w, data, written). length data - written)") auto

declare writeFull.simps [simp del]

section \<open>Encoder and Decoder\<close>

definition WriteFrame :: "config \<Rightarrow> 'w writer \<Rightarrow> 'w \<Rightarrow> frame \<Rightarrow> gerror option \<times> 'w" where
  "WriteFrame c wr w f0 =
     (let f = f0\<lparr>Header := (Header f0)\<lparr>PayloadLength := of_nat (length (Payload f0))\<rparr>\<rparr> in
      case Validate c f of
        Some e \<Rightarrow> (Some e, w)
      | None \<Rightarrow>
          (case writeFull wr w (encodeHeader (Header f)) 0 of
             (Some e, w') \<Rightarrow> (Some e, w')
           | (None, w') \<Rightarrow> writeFull wr w' (Payload f) 0))"

definition ReadFrame :: "config \<Rightarrow> reader \<Rightarrow> frame result \<times> reader" where
  "ReadFrame c r =
     (case readFull r HeaderSize of
        (Inl e, r') \<Rightarrow> (Inl e, r')
      | (Inr headerBytes, r') \<Rightarrow>
          let h = decodeHeader headerBytes in
          case header_validate c h of
            Some e \<Rightarrow> (Inl e, r')
          | None \<Rightarrow>
              (case readFull r' (unat (PayloadLength h)) of
                 (Inl e, r'') \<Rightarrow>
                   (Inl (if errorsIs e (Lib IoEOF) then Lib IoErrUnexpectedEOF else e), r'')
               | (Inr payload, r'') \<Rightarrow>
                   let f = \<lparr>Header = h, Payload = payload\<rparr> in
                   case Validate c f of
                     Some e \<Rightarrow> (Inl e, r'')
                   | None \<Rightarrow> (Inr f, r'')))"

text \<open>\<open>NewDecoder\<close> and \<open>NewEncoder\<close> store the configuration with its defaults filled in.\<close>

definition NewDecoder :: "config \<Rightarrow> config" where "NewDecoder c = withDefaults c"
definition NewEncoder :: "config \<Rightarrow> config" where "NewEncoder c = withDefaults c"

section \<open>The header codec\<close>

lemma length_encodeHeader [simp]: "length (encodeHeader h) = 28"
  by (simp add: encodeHeader_def u16.enc_width u32.enc_width u64.enc_width)

lemma decode_encodeHeader [simp]: "decodeHeader (encodeHeader h) = h"
  by (cases h)
    (simp add: decodeHeader_def encodeHeader_def u16.enc_width u32.enc_width u64.enc_width
      u16.dec_enc u32.dec_enc u64.dec_enc)

lemma slices_cover:
  "slice 0 4 bs @ slice 4 6 bs @ slice 6 8 bs @ slice 8 12 bs @ slice 12 20 bs @ slice 20 28 bs
     = take 28 bs"
proof -
  have join: "slice a b bs @ slice b d bs = slice a d bs" if "a \<le> b" "b \<le> d" for a b d
    using that take_add [of "b - a" "d - b" "drop a bs"] by simp
  show ?thesis
    by (simp only: join) (simp add: join)
qed

lemma encode_decodeHeader: "length bs = 28 \<Longrightarrow> encodeHeader (decodeHeader bs) = bs"
  using slices_cover [of bs]
  by (simp add: encodeHeader_def decodeHeader_def u16.enc_dec u32.enc_dec u64.enc_dec)

interpretation header_codec: fixed_codec encodeHeader decodeHeader HeaderSize
  by unfold_locales (auto simp: HeaderSize_def encode_decodeHeader)

section \<open>Frames as bytes\<close>

text \<open>What a frame looks like on the wire, and the frame the encoder really sends.\<close>

definition stamped :: "frame \<Rightarrow> frame" where
  "stamped f = f\<lparr>Header := (Header f)\<lparr>PayloadLength := of_nat (length (Payload f))\<rparr>\<rparr>"

definition wire :: "frame \<Rightarrow> bytes" where
  "wire f = encodeHeader (Header f) @ Payload f"

text \<open>
  The documented contract of \<open>io.Writer\<close> that the round trip relies on: the count is in
  range and that many bytes of the argument went out, in order.
\<close>

definition honest_writer :: "'w writer \<Rightarrow> ('w \<Rightarrow> bytes) \<Rightarrow> bool" where
  "honest_writer wr sink \<longleftrightarrow>
     (\<forall>w data n e w'. wr w data = (n, e, w') \<longrightarrow>
        0 \<le> n \<and> n \<le> int (length data) \<and> sink w' = sink w @ take (nat n) data)"

lemma honest_writerD:
  assumes "honest_writer wr sink" and "wr w data = (n, e, w')"
  shows "0 \<le> n \<and> n \<le> int (length data) \<and> sink w' = sink w @ take (nat n) data"
  using assms unfolding honest_writer_def by blast

lemma writeFull_honest:
  assumes "honest_writer wr sink"
  shows "writeFull wr w data k = (e, w') \<Longrightarrow>
    \<exists>j \<le> length data - k. sink w' = sink w @ take j (drop k data)
      \<and> (e = None \<longrightarrow> j = length data - k)"
proof (induction "length data - k" arbitrary: w k rule: less_induct)
  case less
  obtain n err v where wr: "wr w (drop k data) = (n, err, v)" by (cases "wr w (drop k data)") auto
  from honest_writerD [OF assms wr]
  have n: "0 \<le> n" "n \<le> int (length data - k)" and v: "sink v = sink w @ take (nat n) (drop k data)"
    by simp_all
  have unf: "writeFull wr w data k =
     (if k < length data
      then case err of Some e \<Rightarrow> (Some e, v)
           | None \<Rightarrow> if n = 0 then (Some (Lib IoErrShortWrite), v) else writeFull wr v data (k + nat n)
      else (None, w))"
    using wr n by (subst writeFull.simps) auto
  show ?case
  proof (cases "k < length data \<and> err = None \<and> n \<noteq> 0")
    case True
    with unf less.prems have "writeFull wr v data (k + nat n) = (e, w')" by simp
    moreover have "length data - (k + nat n) < length data - k" using True n by linarith
    ultimately obtain j where j: "j \<le> length data - (k + nat n)"
      "sink w' = sink v @ take j (drop (k + nat n) data)" "e = None \<longrightarrow> j = length data - (k + nat n)"
      using less.hyps by blast
    have "take (nat n + j) (drop k data) = take (nat n) (drop k data) @ take j (drop (k + nat n) data)"
      by (simp add: take_add) (simp add: add.commute)
    then show ?thesis using j n v True by (intro exI [of _ "nat n + j"]) auto
  next
    case False
    then have "e \<noteq> None \<and> w' = v \<and> k < length data \<or> e = None \<and> w' = w \<and> length data \<le> k"
      using unf less.prems by (auto split: option.splits if_splits)
    then show ?thesis
    proof
      assume "e \<noteq> None \<and> w' = v \<and> k < length data"
      then show ?thesis using v n by (intro exI [of _ "nat n"]) auto
    qed simp
  qed
qed

lemma writeFull_complete:
  assumes "honest_writer wr sink" and "writeFull wr w data 0 = (None, w')"
  shows "sink w' = sink w @ data"
  using writeFull_honest [OF assms] by auto

lemma writeFull_prefix:
  assumes "honest_writer wr sink" and "writeFull wr w data 0 = (e, w')"
  shows "\<exists>j \<le> length data. sink w' = sink w @ take j data"
  using writeFull_honest [OF assms] by auto

section \<open>Writing\<close>

lemma WriteFrame_complete:
  assumes "honest_writer wr sink" and "WriteFrame c wr w f = (None, w')"
  shows "Validate c (stamped f) = None \<and> sink w' = sink w @ wire (stamped f)"
proof -
  from assms(2) obtain v where v: "Validate c (stamped f) = None"
    "writeFull wr w (encodeHeader (Header (stamped f))) 0 = (None, v)"
    "writeFull wr v (Payload f) 0 = (None, w')"
    by (auto simp: WriteFrame_def stamped_def Let_def split: option.splits prod.splits)
  with writeFull_complete [OF assms(1)] show ?thesis
    by (simp add: wire_def stamped_def)
qed

lemma WriteFrame_prefix:
  assumes "honest_writer wr sink" and "WriteFrame c wr w f = (e, w')"
  shows "\<exists>j \<le> length (wire (stamped f)). sink w' = sink w @ take j (wire (stamped f))"
proof (cases "Validate c (stamped f)")
  case None
  obtain e1 v where v: "writeFull wr w (encodeHeader (Header (stamped f))) 0 = (e1, v)"
    by (cases "writeFull wr w (encodeHeader (Header (stamped f))) 0") auto
  show ?thesis
  proof (cases e1)
    case (Some x)
    with assms(2) v None have "w' = v"
      by (auto simp: WriteFrame_def stamped_def Let_def split: option.splits)
    with writeFull_prefix [OF assms(1) v] obtain j where
      "j \<le> 28" "sink w' = sink w @ take j (encodeHeader (Header (stamped f)))" by auto
    then show ?thesis by (intro exI [of _ j]) (simp add: wire_def)
  next
    case None2: None
    with assms(2) v None have "writeFull wr v (Payload f) 0 = (e, w')"
      by (auto simp: WriteFrame_def stamped_def Let_def split: option.splits)
    from writeFull_prefix [OF assms(1) this] obtain j where
      j: "j \<le> length (Payload f)" "sink w' = sink v @ take j (Payload f)" by blast
    have "sink v = sink w @ encodeHeader (Header (stamped f))"
      using writeFull_complete [OF assms(1)] v None2 by blast
    with j show ?thesis by (intro exI [of _ "28 + j"]) (simp add: wire_def stamped_def)
  qed
next
  case (Some x)
  with assms(2) have "w' = w" by (simp add: WriteFrame_def stamped_def Let_def)
  then show ?thesis by (intro exI [of _ 0]) simp
qed

section \<open>Reading\<close>

text \<open>A delivered frame is valid and is exactly the next bytes of the stream.\<close>

lemma ReadFrame_Inr:
  assumes "ReadFrame c r = (Inr f, r')"
  shows "Validate c f = None \<and> header_validate c (Header f) = None
    \<and> unat (PayloadLength (Header f)) = length (Payload f)
    \<and> content r = wire f @ content r'"
proof -
  from assms obtain hb q p where
    h: "readFull r HeaderSize = (Inr hb, q)" and
    p: "readFull q (unat (PayloadLength (decodeHeader hb))) = (Inr p, r')" and
    f: "f = \<lparr>Header = decodeHeader hb, Payload = p\<rparr>" and
    v: "Validate c f = None" "header_validate c (Header f) = None"
    by (auto simp: ReadFrame_def Let_def split: sum.splits option.splits prod.splits)
  from readFull_Inr [OF h] readFull_Inr [OF p] f v show ?thesis
    by (simp add: wire_def HeaderSize_def encode_decodeHeader)
qed

lemma ReadFrame_wire:
  assumes "clean r" and "content r = wire f @ rest"
    and "header_validate c (Header f) = None" and "Validate c f = None"
    and "unat (PayloadLength (Header f)) = length (Payload f)"
  obtains r' where "ReadFrame c r = (Inr f, r')" "clean r'" "content r' = rest"
proof -
  have "HeaderSize \<le> length (content r)" using assms(2) by (simp add: wire_def HeaderSize_def)
  from readFull_clean [OF assms(1) this] obtain q where
    q: "readFull r HeaderSize = (Inr (encodeHeader (Header f)), q)" "clean q"
      "content q = Payload f @ rest"
    using assms(2) by (auto simp: wire_def HeaderSize_def)
  have "length (Payload f) \<le> length (content q)" using q by simp
  from readFull_clean [OF q(2) this] obtain r' where
    r': "readFull q (length (Payload f)) = (Inr (Payload f), r')" "clean r'" "content r' = rest"
    using q by auto
  have "ReadFrame c r = (Inr f, r')"
    using assms q r' by (cases f) (simp add: ReadFrame_def Let_def)
  with r' that show ?thesis by blast
qed

lemma Validate_header:
  assumes "Validate c f = None"
  shows "header_validate (withDefaults c) (Header f) = None"
    and "unat (PayloadLength (Header f)) = length (Payload f)"
proof -
  show "header_validate (withDefaults c) (Header f) = None"
    using assms by (auto simp: Validate_def Let_def split: if_splits option.splits)
  have "word_of_nat (length (Payload f)) = PayloadLength (Header f)"
    and "int (length (Payload f)) \<le> 2 ^ 32 - 1"
    using assms by (auto simp: Validate_def Let_def split: if_splits option.splits)
  then show "unat (PayloadLength (Header f)) = length (Payload f)"
    by (simp flip: \<open>word_of_nat _ = _\<close>) (simp add: unsigned_of_nat take_bit_nat_eq_self)
qed

lemma ReadFrame_valid:
  assumes "clean r" and "content r = wire f @ rest" and "Validate c f = None"
  obtains r' where "ReadFrame (NewDecoder c) r = (Inr f, r')" "clean r'" "content r' = rest"
proof (rule ReadFrame_wire [OF assms(1,2)])
  show "header_validate (NewDecoder c) (Header f) = None" "Validate (NewDecoder c) f = None"
    "unat (PayloadLength (Header f)) = length (Payload f)"
    using Validate_header [OF assms(3)] assms(3) by (simp_all add: NewDecoder_def)
qed (use that in blast)

text \<open>Sending a list of frames one after another, and receiving a number of them.\<close>

fun sendAll :: "config \<Rightarrow> 'w writer \<Rightarrow> 'w \<Rightarrow> frame list \<Rightarrow> gerror option \<times> 'w" where
  "sendAll c wr w [] = (None, w)"
| "sendAll c wr w (f # fs) =
     (case WriteFrame (NewEncoder c) wr w f of
        (Some e, w') \<Rightarrow> (Some e, w')
      | (None, w') \<Rightarrow> sendAll c wr w' fs)"

fun receiveAll :: "config \<Rightarrow> nat \<Rightarrow> reader \<Rightarrow> frame list \<times> gerror option \<times> reader" where
  "receiveAll c 0 r = ([], None, r)"
| "receiveAll c (Suc n) r =
     (case ReadFrame (NewDecoder c) r of
        (Inl e, r') \<Rightarrow> ([], Some e, r')
      | (Inr f, r') \<Rightarrow> (case receiveAll c n r' of (fs, e, r'') \<Rightarrow> (f # fs, e, r'')))"

lemma sendAll_wire:
  assumes "honest_writer wr sink"
  shows "sendAll c wr w fs = (None, w') \<Longrightarrow>
    sink w' = sink w @ concat (map (wire \<circ> stamped) fs)
    \<and> (\<forall>f \<in> set fs. Validate c (stamped f) = None)"
proof (induction fs arbitrary: w)
  case (Cons f fs)
  then obtain v where v: "WriteFrame (NewEncoder c) wr w f = (None, v)" "sendAll c wr v fs = (None, w')"
    by (auto split: prod.splits option.splits)
  from WriteFrame_complete [OF assms v(1)] Cons.IH [OF v(2)] show ?case
    by (auto simp: NewEncoder_def)
qed simp

lemma receiveAll_wire:
  assumes "clean r" and "content r = concat (map wire fs) @ rest"
    and "\<forall>f \<in> set fs. Validate c f = None"
  shows "\<exists>r'. receiveAll c (length fs) r = (fs, None, r') \<and> clean r' \<and> content r' = rest"
  using assms
proof (induction fs arbitrary: r)
  case (Cons f fs)
  then have "content r = wire f @ (concat (map wire fs) @ rest)" and "Validate c f = None"
    by simp_all
  from ReadFrame_valid [OF Cons.prems(1) this] obtain q where
    q: "ReadFrame (NewDecoder c) r = (Inr f, q)" "clean q" "content q = concat (map wire fs) @ rest"
    by blast
  with Cons.IH [OF q(2,3)] Cons.prems(3) show ?case by auto
qed auto

lemma ReadFrame_truncated:
  assumes "clean r" and "content r = take k (wire f)" and "k < length (wire f)"
    and "Validate c f = None"
  obtains r' where
    "ReadFrame (NewDecoder c) r = (Inl (if k = 0 then Lib IoEOF else Lib IoErrUnexpectedEOF), r')"
proof (cases "k < 28")
  case True
  then have c: "content r = take k (encodeHeader (Header f))"
    using assms(2) by (simp add: wire_def)
  then have "length (content r) < HeaderSize" using True by (simp add: HeaderSize_def)
  from readFull_short [OF assms(1) this] obtain r' where r': "readFull r HeaderSize =
      (Inl (if content r = [] then Lib IoEOF else Lib IoErrUnexpectedEOF), r')" by blast
  have "content r = [] \<longleftrightarrow> k = 0"
    unfolding c using length_encodeHeader [of "Header f"] by (auto simp del: length_encodeHeader)
  with r' have "ReadFrame (NewDecoder c) r =
      (Inl (if k = 0 then Lib IoEOF else Lib IoErrUnexpectedEOF), r')"
    by (simp add: ReadFrame_def)
  then show ?thesis by (rule that)
next
  case False
  have "HeaderSize \<le> length (content r)"
    using assms(2,3) False by (simp add: wire_def HeaderSize_def)
  from readFull_clean [OF assms(1) this] obtain q where
    q: "readFull r HeaderSize = (Inr (encodeHeader (Header f)), q)" "clean q"
      "content q = take (k - 28) (Payload f)"
    using assms(2) False by (auto simp: wire_def HeaderSize_def)
  moreover have "length (content q) < length (Payload f)"
    using q(3) assms(3) False by (simp add: wire_def)
  from readFull_short [OF q(2) this] obtain r' where "readFull q (length (Payload f)) =
      (Inl (if content q = [] then Lib IoEOF else Lib IoErrUnexpectedEOF), r')" by blast
  ultimately have "ReadFrame (NewDecoder c) r = (Inl (Lib IoErrUnexpectedEOF), r')"
    using Validate_header [OF assms(4)] by (simp add: ReadFrame_def Let_def NewDecoder_def)
  then show ?thesis using that [of r'] False by simp
qed

section \<open>Properties of the codec\<close>

text \<open>A buffer as a writer and two frames, for the examples.\<close>

definition bufferWrite :: "bytes writer" where
  "bufferWrite w data = (int (length data), None, w @ data)"

definition pingFrame :: frame where
  "pingFrame = \<lparr>Header = \<lparr>PayloadLength = 0, Version = 1, MessageType = 7, Flags = 4,
     CorrelationID = 0, StreamID = 9\<rparr>, Payload = [1, 2, 3]\<rparr>"

lemma bufferWrite_honest: "honest_writer bufferWrite (\<lambda>w. w)"
  by (simp add: honest_writer_def bufferWrite_def)

lemma bufferWrite_full: "writeFull bufferWrite w data 0 = (None, w @ data)"
proof -
  have fin: "writeFull bufferWrite (w @ data) data (length data) = (None, w @ data)"
    by (subst writeFull.simps) simp
  show ?thesis by (subst writeFull.simps) (simp add: bufferWrite_def fin)
qed

lemma ping_valid: "Validate DefaultConfig (stamped pingFrame) = None"
  by (simp add: Validate_iff go_int_def DefaultConfig_def DefaultMaxFrameBytes_def pingFrame_def
      stamped_def well_formed_def withDefaults_def)

lemma ping_written:
  "WriteFrame (NewEncoder DefaultConfig) bufferWrite w pingFrame = (None, w @ wire (stamped pingFrame))"
  using ping_valid
  by (simp add: WriteFrame_def Let_def NewEncoder_def bufferWrite_full wire_def stamped_def)

text \<open>
  (C1) Round trip of one frame: whatever \<open>WriteFrame\<close> reports as sent, \<open>ReadFrame\<close> on the other
  side returns unchanged (with the length field filled in), consuming exactly those bytes,
  however the transport splits them into reads. The writer may write short; it only has to
  report what it wrote.
\<close>

theorem frame_roundtrip:
  assumes "honest_writer wr sink"
    and "WriteFrame (NewEncoder c) wr w f = (None, w')"
    and "sink w' = sink w @ sent"
    and "clean r" and "content r = sent @ rest"
  shows "\<exists>r'. ReadFrame (NewDecoder c) r = (Inr (stamped f), r') \<and> clean r' \<and> content r' = rest"
proof -
  from WriteFrame_complete [OF assms(1,2)] assms(3)
  have "Validate c (stamped f) = None" and "sent = wire (stamped f)"
    by (simp_all add: NewEncoder_def)
  with ReadFrame_valid [OF assms(4), of "stamped f" rest c] assms(5) show ?thesis by blast
qed

theorem frame_roundtrip_witness:
  "\<exists>r'. ReadFrame (NewDecoder DefaultConfig)
      [(take 10 (wire (stamped pingFrame)), None), (drop 10 (wire (stamped pingFrame)), None), ([9], None)]
     = (Inr (stamped pingFrame), r') \<and> clean r' \<and> content r' = [9]"
  by (rule frame_roundtrip [OF bufferWrite_honest ping_written])
    (simp_all only: append_take_drop_id clean_simps content_simps, simp_all flip: append_assoc)

text \<open>
  Round trip of a connection: a list of frames sent in order arrives as the same list in
  the same order, and then the reader reports a clean end of stream.
\<close>

theorem stream_roundtrip:
  assumes "honest_writer wr sink"
    and "sendAll c wr w fs = (None, w')"
    and "sink w = []" and "clean r" and "content r = sink w'"
  shows "\<exists>r' r''. receiveAll c (length fs) r = (map stamped fs, None, r')
    \<and> ReadFrame (NewDecoder c) r' = (Inl (Lib IoEOF), r'')"
proof -
  from sendAll_wire [OF assms(1,2)] assms(3,5)
  have "content r = concat (map wire (map stamped fs)) @ []"
    and valid: "\<forall>f \<in> set (map stamped fs). Validate c f = None"
    by simp_all
  from receiveAll_wire [OF assms(4) this] obtain r' where
    r': "receiveAll c (length fs) r = (map stamped fs, None, r')" "clean r'" "content r' = []"
    by auto
  have "length (content r') < HeaderSize" using r'(3) by (simp add: HeaderSize_def)
  from readFull_short [OF r'(2) this] r'(3) obtain r'' where
    "readFull r' HeaderSize = (Inl (Lib IoEOF), r'')" by auto
  with r'(1) show ?thesis by (auto simp: ReadFrame_def)
qed

theorem stream_roundtrip_witness:
  "\<exists>r' r''. receiveAll DefaultConfig (length [pingFrame, pingFrame])
      [(wire (stamped pingFrame) @ wire (stamped pingFrame), None)]
        = (map stamped [pingFrame, pingFrame], None, r')
    \<and> ReadFrame (NewDecoder DefaultConfig) r' = (Inl (Lib IoEOF), r'')"
proof (rule stream_roundtrip [OF bufferWrite_honest])
  show "sendAll DefaultConfig bufferWrite [] [pingFrame, pingFrame] =
      (None, wire (stamped pingFrame) @ wire (stamped pingFrame))"
    by (simp add: ping_written)
qed simp_all

text \<open>
  (C22) What \<open>ReadFrame\<close> delivers, from any reader, is valid under the decoder's configuration and
  is byte for byte the front of the stream: a frame has one encoding and nothing is skipped.
\<close>

theorem ReadFrame_exact:
  assumes "ReadFrame (NewDecoder c) r = (Inr f, r')"
  shows "Validate c f = None \<and> content r = encodeHeader (Header f) @ Payload f @ content r'
    \<and> int (length (Payload f)) \<le> MaxFrameBytes (withDefaults c)"
  using ReadFrame_Inr [OF assms]
  by (auto simp: NewDecoder_def wire_def Validate_def Let_def split: if_splits)

theorem ReadFrame_exact_witness:
  "content [(wire (stamped pingFrame), None)] =
     encodeHeader (Header (stamped pingFrame)) @ Payload (stamped pingFrame) @ content []"
proof -
  have "clean [(wire (stamped pingFrame), None)]" by simp
  from ReadFrame_valid [OF this _ ping_valid, of "[]"] obtain r' where
    "ReadFrame (NewDecoder DefaultConfig) [(wire (stamped pingFrame), None)] = (Inr (stamped pingFrame), r')"
    "content r' = []" by auto
  from ReadFrame_exact [OF this(1)] this(2) show ?thesis by simp
qed

text \<open>
  A connection that ends inside a frame is reported: cut at a frame boundary the reader
  sees \<open>io.EOF\<close>, cut anywhere else, in the header or in the payload, it sees
  \<open>io.ErrUnexpectedEOF\<close>, and no frame is delivered.
\<close>

theorem ReadFrame_cut:
  assumes "clean r" and "content r = take k (wire f)" and "k < length (wire f)"
    and "Validate c f = None"
  shows "fst (ReadFrame (NewDecoder c) r) = Inl (if k = 0 then Lib IoEOF else Lib IoErrUnexpectedEOF)"
  using ReadFrame_truncated [OF assms] by fastforce

theorem ReadFrame_cut_witness:
  "fst (ReadFrame (NewDecoder DefaultConfig) [(take 29 (wire (stamped pingFrame)), None)])
     = Inl (Lib IoErrUnexpectedEOF)"
  using ReadFrame_cut [OF _ _ _ ping_valid, of "[(take 29 (wire (stamped pingFrame)), None)]" 29]
  by (simp add: wire_def stamped_def pingFrame_def)

text \<open>
  A failed \<open>WriteFrame\<close> never leaves foreign bytes behind: what reached the transport is a
  prefix of the frame's encoding, and nothing at all if the frame was refused by validation.
\<close>

theorem WriteFrame_failure:
  assumes "honest_writer wr sink" and "WriteFrame (NewEncoder c) wr w f = (Some e, w')"
  shows "\<exists>j \<le> length (wire (stamped f)). sink w' = sink w @ take j (wire (stamped f))
    \<and> (Validate c (stamped f) \<noteq> None \<longrightarrow> w' = w \<and> Validate c (stamped f) = Some e)"
proof -
  have "Validate c (stamped f) \<noteq> None \<longrightarrow> w' = w \<and> Validate c (stamped f) = Some e"
    using assms(2) by (auto simp: WriteFrame_def Let_def stamped_def NewEncoder_def)
  with WriteFrame_prefix [OF assms] show ?thesis by blast
qed

text \<open>A transport that takes two bytes and then fails.\<close>

definition brokenWrite :: "bytes writer" where
  "brokenWrite w data = (int (min 2 (length data)), Some (Lib IoErrClosedPipe), w @ take 2 data)"

theorem WriteFrame_failure_witness:
  "\<exists>j \<le> length (wire (stamped pingFrame)).
     take 2 (encodeHeader (Header (stamped pingFrame))) = [] @ take j (wire (stamped pingFrame))"
proof -
  have h: "honest_writer brokenWrite (\<lambda>w. w)"
    by (auto simp: honest_writer_def brokenWrite_def min_def)
  have "WriteFrame (NewEncoder DefaultConfig) brokenWrite [] pingFrame
      = (Some (Lib IoErrClosedPipe), take 2 (encodeHeader (Header (stamped pingFrame))))"
    using ping_valid
    by (simp add: WriteFrame_def Let_def NewEncoder_def brokenWrite_def writeFull.simps stamped_def)
  from WriteFrame_failure [OF h this] show ?thesis by auto
qed

end
