(* ===== verification/Mux_Conn.thy ===== *)
theory Mux_Conn
  imports Mux_Codec
begin

text \<open>
  \<open>conn.go\<close>: one full-duplex stream with a bounded write queue, the write loop that is its
  only writer, the sole reader, and shutdown. Every critical section or channel operation is
  one labelled step, so the theorems cover all interleavings of senders, reader, write loop
  and shutdown. The transport's \<open>Write\<close> and \<open>Close\<close> are parameters.
\<close>

section \<open>State\<close>

text \<open>
  \<open>result\<close> of a write request is a channel of capacity one, created by \<open>send\<close>; here it is a
  number, and \<open>cn_results\<close> holds what was put into each channel.
\<close>

record writeRequest =
  wr_frame :: frame
  wr_result :: nat

record 'w conn =
  cn_stream :: 'w
  cn_streamClosed :: bool
  cn_reader :: reader
  cn_config :: config
  cn_ctx :: gctx
  cn_writes :: "writeRequest list"
  cn_done :: bool
  cn_closeOnce :: bool
  cn_err :: "gerror option"
  cn_results :: "nat \<Rightarrow> gerror option option"
  cn_next :: nat

section \<open>Operations\<close>

definition Open_conn :: "gctx option \<Rightarrow> ('w \<times> reader) option \<Rightarrow> config \<Rightarrow> 'w conn result" where
  "Open_conn parent stream c0 =
     (case parent of
        None \<Rightarrow> Inl (ErrNew ''streammux: nil context'')
      | Some ctx \<Rightarrow>
          (case stream of
             None \<Rightarrow> Inl (Mux ErrNilStream)
           | Some (w, r) \<Rightarrow>
               let c = withDefaults c0 in
               if MinVersion c > MaxVersion c then Inl (Mux ErrInvalidVersionRange)
               else Inr \<lparr>cn_stream = w, cn_streamClosed = False, cn_reader = r, cn_config = c,
                         cn_ctx = ctx, cn_writes = [], cn_done = False, cn_closeOnce = False,
                         cn_err = None, cn_results = (\<lambda>_. None), cn_next = 0\<rparr>))"

definition setError :: "gerror option \<Rightarrow> 'w conn \<Rightarrow> 'w conn" where
  "setError e c =
     (case e of
        None \<Rightarrow> c
      | Some _ \<Rightarrow> if cn_err c = None then c\<lparr>cn_err := e\<rparr> else c)"

text \<open>\<open>cancel\<close> of the derived context: the first cause stays.\<close>

definition cancel :: "'w conn \<Rightarrow> 'w conn" where
  "cancel c = (if cn_ctx c = None then c\<lparr>cn_ctx := Some (Lib CtxCanceled)\<rparr> else c)"

definition closeStream :: "('w \<Rightarrow> 'w \<times> gerror option) \<Rightarrow> 'w conn \<Rightarrow> gerror option \<times> 'w conn" where
  "closeStream cl c =
     (case cl (cn_stream c) of (w, e) \<Rightarrow> (e, c\<lparr>cn_stream := w, cn_streamClosed := True\<rparr>))"

definition conn_ReadFrame :: "'w conn \<Rightarrow> frame result \<times> 'w conn" where
  "conn_ReadFrame c =
     (case ReadFrame (NewDecoder (cn_config c)) (cn_reader c) of
        (Inl e, r') \<Rightarrow> (Inl e, cancel (setError (Some e) (c\<lparr>cn_reader := r'\<rparr>)))
      | (Inr f, r') \<Rightarrow> (Inr f, c\<lparr>cn_reader := r'\<rparr>))"

definition conn_result :: "'w conn \<Rightarrow> gerror" where
  "conn_result c = (case cn_err c of Some e \<Rightarrow> e | None \<Rightarrow> Mux ErrConnClosed)"

text \<open>
  \<open>send\<close> up to its first \<open>select\<close>: the checks, then the request it offers to the channel.
  \<open>Send\<close> clones the frame first, which is the identity on values.
\<close>

definition send_prepare :: "gctx option \<Rightarrow> frame \<Rightarrow> 'w conn \<Rightarrow> writeRequest result" where
  "send_prepare ctx f c =
     (case ctx of
        None \<Rightarrow> Inl (ErrNew ''streammux: nil send context'')
      | Some _ \<Rightarrow>
          (case Validate (cn_config c) f of
             Some e \<Rightarrow> Inl e
           | None \<Rightarrow> Inr \<lparr>wr_frame = f, wr_result = cn_next c\<rparr>))"

text \<open>What the second \<open>select\<close> of \<open>send\<close> may return in a state.\<close>

definition send_returns :: "gerror option \<Rightarrow> nat \<Rightarrow> 'w conn \<Rightarrow> gerror option set" where
  "send_returns ctx t c =
     (case cn_results c t of Some e \<Rightarrow> {e} | None \<Rightarrow> {})
     \<union> (if ctx \<noteq> None then {ctx} else {})
     \<union> (if cn_done c then {Some (conn_result c)} else {})"

text \<open>One turn of \<open>writeLoop\<close> with a request in hand, and its exit on cancellation.\<close>

definition loop_write ::
    "'w writer \<Rightarrow> ('w \<Rightarrow> 'w \<times> gerror option) \<Rightarrow> writeRequest \<Rightarrow> 'w conn \<Rightarrow> gerror option \<times> 'w conn" where
  "loop_write wr cl req c =
     (case WriteFrame (NewEncoder (cn_config c)) wr (cn_stream c) (wr_frame req) of
        (e, w') \<Rightarrow>
          let c1 = c\<lparr>cn_stream := w', cn_results := (cn_results c)(wr_result req := Some e)\<rparr> in
          case e of
            None \<Rightarrow> (None, c1)
          | Some _ \<Rightarrow>
              (e, (snd (closeStream cl (cancel (setError e c1))))\<lparr>cn_done := True\<rparr>))"

definition loop_stop :: "'w conn \<Rightarrow> 'w conn" where
  "loop_stop c = (setError (cn_ctx c) c)\<lparr>cn_done := True\<rparr>"

text \<open>
  \<open>Close\<close> runs its body once: it cancels, closes the stream, waits for the write loop, and
  records an unexpected close error; every call then reads the final error.
\<close>

definition Close_begin :: "('w \<Rightarrow> 'w \<times> gerror option) \<Rightarrow> 'w conn \<Rightarrow> gerror option \<times> 'w conn" where
  "Close_begin cl c = closeStream cl ((cancel c)\<lparr>cn_closeOnce := True\<rparr>)"

definition Close_end :: "gerror option \<Rightarrow> 'w conn \<Rightarrow> 'w conn" where
  "Close_end streamErr c =
     (case streamErr of
        Some e \<Rightarrow> if errorsIs e (Lib IoErrClosedPipe) then c else setError streamErr c
      | None \<Rightarrow> c)"

definition Close_returns :: "'w conn \<Rightarrow> gerror option" where
  "Close_returns c =
     (case cn_err c of
        Some e \<Rightarrow>
          if errorsIs e (Lib CtxCanceled) \<or> errorsIs e (Lib IoErrClosedPipe) then None else Some e
      | None \<Rightarrow> None)"

section \<open>Steps\<close>

datatype conn_label =
    Accepted frame                       \<comment> \<open>a request entered the buffered channel\<close>
  | Taken nat frame "gerror option"      \<comment> \<open>the loop received a queued request and wrote it\<close>
  | Handed nat frame "gerror option"     \<comment> \<open>the loop received it directly from the sender\<close>
  | LoopStopped
  | ReadDone
  | ParentDone gerror
  | StreamWatch                          \<comment> \<open>the goroutine that closes the stream on cancellation\<close>
  | CloseBegun
  | CloseEnded "gerror option"

inductive conn_step ::
    "'w writer \<Rightarrow> ('w \<Rightarrow> 'w \<times> gerror option) \<Rightarrow> 'w conn \<Rightarrow> conn_label \<Rightarrow> 'w conn \<Rightarrow> bool"
  for wr cl where
  accept: "send_prepare ctx f c = Inr req \<Longrightarrow> int (length (cn_writes c)) < WriteQueue (cn_config c) \<Longrightarrow>
     conn_step wr cl c (Accepted f)
       (c\<lparr>cn_writes := cn_writes c @ [req], cn_next := Suc (cn_next c)\<rparr>)"
| take: "\<not> cn_done c \<Longrightarrow> cn_writes c = req # rest \<Longrightarrow>
     loop_write wr cl req (c\<lparr>cn_writes := rest\<rparr>) = (e, c') \<Longrightarrow>
     conn_step wr cl c (Taken (wr_result req) (wr_frame req) e) c'"
| hand: "\<not> cn_done c \<Longrightarrow> cn_writes c = [] \<Longrightarrow> send_prepare ctx f c = Inr req \<Longrightarrow>
     loop_write wr cl req (c\<lparr>cn_next := Suc (cn_next c)\<rparr>) = (e, c') \<Longrightarrow>
     conn_step wr cl c (Handed (wr_result req) f e) c'"
| stop: "\<not> cn_done c \<Longrightarrow> cn_ctx c \<noteq> None \<Longrightarrow> conn_step wr cl c LoopStopped (loop_stop c)"
| read: "conn_step wr cl c ReadDone (snd (conn_ReadFrame c))"
| parent: "cn_ctx c = None \<Longrightarrow> conn_step wr cl c (ParentDone e) (c\<lparr>cn_ctx := Some e\<rparr>)"
| watch: "cn_ctx c \<noteq> None \<Longrightarrow> conn_step wr cl c StreamWatch (snd (closeStream cl c))"
| close_begin: "\<not> cn_closeOnce c \<Longrightarrow> conn_step wr cl c CloseBegun (snd (Close_begin cl c))"
| close_end: "cn_done c \<Longrightarrow> cn_closeOnce c \<Longrightarrow> conn_step wr cl c (CloseEnded e) (Close_end e c)"

inductive_cases conn_stepE: "conn_step wr cl c l c'"

section \<open>Invariant\<close>

text \<open>
  Queued requests have distinct, unanswered result channels, the queue respects its capacity,
  and a finished write loop has left an error and a cancelled context behind.
\<close>

definition conn_ok :: "'w conn \<Rightarrow> bool" where
  "conn_ok c \<longleftrightarrow>
     (cn_done c \<longrightarrow> cn_err c \<noteq> None \<and> cn_ctx c \<noteq> None)
     \<and> distinct (map wr_result (cn_writes c))
     \<and> (\<forall>req \<in> set (cn_writes c). wr_result req < cn_next c \<and> cn_results c (wr_result req) = None)
     \<and> (\<forall>t \<ge> cn_next c. cn_results c t = None)
     \<and> int (length (cn_writes c)) \<le> max 0 (WriteQueue (cn_config c))"

lemma setError_fields [simp]:
  "cn_stream (setError e c) = cn_stream c" "cn_writes (setError e c) = cn_writes c"
  "cn_results (setError e c) = cn_results c" "cn_next (setError e c) = cn_next c"
  "cn_config (setError e c) = cn_config c" "cn_done (setError e c) = cn_done c"
  "cn_ctx (setError e c) = cn_ctx c" "cn_closeOnce (setError e c) = cn_closeOnce c"
  by (auto simp: setError_def split: option.splits)

lemma cancel_fields [simp]:
  "cn_stream (cancel c) = cn_stream c" "cn_writes (cancel c) = cn_writes c"
  "cn_results (cancel c) = cn_results c" "cn_next (cancel c) = cn_next c"
  "cn_config (cancel c) = cn_config c" "cn_done (cancel c) = cn_done c"
  "cn_err (cancel c) = cn_err c" "cn_closeOnce (cancel c) = cn_closeOnce c"
  by (auto simp: cancel_def)

lemma closeStream_fields [simp]:
  "cn_writes (snd (closeStream cl c)) = cn_writes c"
  "cn_results (snd (closeStream cl c)) = cn_results c" "cn_next (snd (closeStream cl c)) = cn_next c"
  "cn_config (snd (closeStream cl c)) = cn_config c" "cn_done (snd (closeStream cl c)) = cn_done c"
  "cn_err (snd (closeStream cl c)) = cn_err c" "cn_ctx (snd (closeStream cl c)) = cn_ctx c"
  "cn_stream (snd (closeStream cl c)) = fst (cl (cn_stream c))"
  by (auto simp: closeStream_def split: prod.splits)

lemma Close_end_fields [simp]:
  "cn_stream (Close_end e c) = cn_stream c" "cn_writes (Close_end e c) = cn_writes c"
  "cn_results (Close_end e c) = cn_results c" "cn_next (Close_end e c) = cn_next c"
  "cn_config (Close_end e c) = cn_config c" "cn_done (Close_end e c) = cn_done c"
  "cn_ctx (Close_end e c) = cn_ctx c"
  by (auto simp: Close_end_def split: option.splits)

lemma conn_ReadFrame_fields [simp]:
  "cn_stream (snd (conn_ReadFrame c)) = cn_stream c" "cn_writes (snd (conn_ReadFrame c)) = cn_writes c"
  "cn_results (snd (conn_ReadFrame c)) = cn_results c" "cn_next (snd (conn_ReadFrame c)) = cn_next c"
  "cn_config (snd (conn_ReadFrame c)) = cn_config c" "cn_done (snd (conn_ReadFrame c)) = cn_done c"
  by (auto simp: conn_ReadFrame_def split: prod.splits sum.splits)

lemma setError_err:
  "cn_err (setError e c) = (case cn_err c of Some x \<Rightarrow> Some x | None \<Rightarrow> e)"
  by (auto simp: setError_def split: option.splits)

lemma cancel_ctx [simp]:
  "cn_ctx (cancel c) = Some (case cn_ctx c of Some x \<Rightarrow> x | None \<Rightarrow> Lib CtxCanceled)"
  by (auto simp: cancel_def)

lemma conn_ReadFrame_mono:
  "cn_err c = Some e \<Longrightarrow> cn_err (snd (conn_ReadFrame c)) = Some e"
  "cn_ctx c = Some e \<Longrightarrow> cn_ctx (snd (conn_ReadFrame c)) = Some e"
  by (auto simp: conn_ReadFrame_def setError_err split: prod.splits sum.splits)

lemma Close_end_mono: "cn_err c = Some e \<Longrightarrow> cn_err (Close_end x c) = Some e"
  by (auto simp: Close_end_def setError_err split: option.splits)

lemma loop_write_fields:
  assumes "loop_write wr cl req c = (e, c')"
  shows "cn_writes c' = cn_writes c" "cn_results c' = (cn_results c)(wr_result req := Some e)"
    "cn_next c' = cn_next c" "cn_config c' = cn_config c"
    "cn_done c' \<longleftrightarrow> cn_done c \<or> e \<noteq> None"
    "cn_err c' = (case cn_err c of Some x \<Rightarrow> Some x | None \<Rightarrow> e)"
    "cn_ctx c' = (if e = None then cn_ctx c
       else Some (case cn_ctx c of Some x \<Rightarrow> x | None \<Rightarrow> Lib CtxCanceled))"
  using assms
  by (auto simp: loop_write_def Let_def setError_err split: prod.splits option.splits)

lemma send_prepare_Inr:
  "send_prepare ctx f c = Inr req \<Longrightarrow>
     wr_frame req = f \<and> wr_result req = cn_next c \<and> Validate (cn_config c) f = None"
  by (auto simp: send_prepare_def split: option.splits)

lemma conn_step_ok:
  assumes "conn_ok c" and "conn_step wr cl c l c'"
  shows "conn_ok c'"
  using assms(2)
proof cases
  case (accept ctx f req)
  with assms(1) send_prepare_Inr [of ctx f c req] show ?thesis
    by (auto simp: conn_ok_def less_Suc_eq_le)
next
  case (take req rest e)
  with assms(1) loop_write_fields [OF take(4)] show ?thesis
    by (auto simp: conn_ok_def image_iff split: option.splits)
next
  case (hand ctx f req e)
  with assms(1) send_prepare_Inr [of ctx f c req] loop_write_fields [OF hand(5)] show ?thesis
    by (auto simp: conn_ok_def split: option.splits)
next
  case stop
  with assms(1) show ?thesis by (auto simp: conn_ok_def loop_stop_def setError_err split: option.splits)
next
  case read
  with assms(1) show ?thesis by (auto simp: conn_ok_def dest: conn_ReadFrame_mono)
next
  case (close_begin)
  with assms(1) show ?thesis by (auto simp: conn_ok_def Close_begin_def)
next
  case (close_end e)
  with assms(1) show ?thesis by (auto simp: conn_ok_def dest: Close_end_mono)
qed (use assms(1) in \<open>auto simp: conn_ok_def\<close>)

interpretation conn_inv: step_invariant "conn_step wr cl" conn_ok for wr cl
  by unfold_locales (rule conn_step_ok)

lemma Open_conn_ok:
  "Open_conn parent stream c0 = Inr c \<Longrightarrow>
     conn_ok c \<and> \<not> cn_done c \<and> cn_err c = None \<and> cn_writes c = [] \<and> cn_config c = withDefaults c0"
  by (auto simp: Open_conn_def conn_ok_def Let_def split: option.splits prod.splits if_splits)

section \<open>First error wins\<close>

lemma conn_step_err: "conn_step wr cl c l c' \<Longrightarrow> cn_err c = Some e \<Longrightarrow> cn_err c' = Some e"
  by (erule conn_step.cases)
    (auto simp: loop_stop_def setError_err Close_begin_def
      dest: loop_write_fields(6) conn_ReadFrame_mono Close_end_mono)

interpretation conn_sticky: step_invariant "conn_step wr cl" "\<lambda>c. cn_err c = Some e" for wr cl e
  by unfold_locales (rule conn_step_err)

lemma conn_step_done: "conn_step wr cl c l c' \<Longrightarrow> cn_done c \<Longrightarrow> cn_done c' \<and> cn_results c' = cn_results c"
  by (erule conn_step.cases) (auto simp: loop_stop_def Close_begin_def)

lemma conn_step_results:
  assumes "conn_ok c \<and> cn_results c t = Some e" and "conn_step wr cl c l c'"
  shows "conn_ok c' \<and> cn_results c' t = Some e"
proof -
  have "cn_results c' t = Some e"
    using assms(2)
    by cases (use assms(1) in \<open>auto simp: loop_stop_def Close_begin_def conn_ok_def
        loop_write_fields(2) dest!: send_prepare_Inr\<close>)
  with assms conn_step_ok show ?thesis by blast
qed

interpretation conn_answered: step_invariant "conn_step wr cl"
    "\<lambda>c. conn_ok c \<and> cn_results c t = Some e" for wr cl t e
  by unfold_locales (rule conn_step_results)

section \<open>Order of the write queue\<close>

fun label_in :: "conn_label \<Rightarrow> frame list" where
  "label_in (Accepted f) = [f]"
| "label_in (Handed t f e) = [f]"
| "label_in _ = []"

fun label_out :: "conn_label \<Rightarrow> frame list" where
  "label_out (Taken t f e) = [f]"
| "label_out (Handed t f e) = [f]"
| "label_out _ = []"

fun label_bytes :: "conn_label \<Rightarrow> bytes" where
  "label_bytes (Taken t f None) = wire (stamped f)"
| "label_bytes (Handed t f None) = wire (stamped f)"
| "label_bytes _ = []"

interpretation conn_fifo: fifo_observation "conn_step wr cl" conn_ok label_in label_out
    "\<lambda>c. map wr_frame (cn_writes c)" for wr cl
proof unfold_locales
  fix s l t
  assume "conn_ok s" and "conn_step wr cl s l t"
  from this(2) show "map wr_frame (cn_writes s) @ label_in l = label_out l @ map wr_frame (cn_writes t)"
    by cases (auto simp: loop_stop_def Close_begin_def loop_write_fields(1) dest: send_prepare_Inr)
qed

section \<open>Integrity of the byte stream\<close>

fun failed_frame :: "conn_label \<Rightarrow> frame option" where
  "failed_frame (Taken t f (Some e)) = Some f"
| "failed_frame (Handed t f (Some e)) = Some f"
| "failed_frame _ = None"

lemma loop_write_bytes:
  assumes "honest_writer wr sink" and "\<And>w. sink (fst (cl w)) = sink w"
    and "loop_write wr cl req c = (e, c')"
  shows "\<exists>j. sink (cn_stream c') = sink (cn_stream c) @ take j (wire (stamped (wr_frame req)))
    \<and> (e = None \<longrightarrow> sink (cn_stream c') = sink (cn_stream c) @ wire (stamped (wr_frame req)))"
proof -
  obtain w' where w': "WriteFrame (NewEncoder (cn_config c)) wr (cn_stream c) (wr_frame req) = (e, w')"
    using assms(3) by (auto simp: loop_write_def Let_def split: prod.splits option.splits)
  then have "sink (cn_stream c') = sink w'"
    using assms(2,3) by (auto simp: loop_write_def Let_def split: option.splits)
  with WriteFrame_prefix [OF assms(1) w'] WriteFrame_complete [OF assms(1)] w' show ?thesis
    by auto
qed

text \<open>
  What is on the wire after a run: the frames written completely, in the order the loop took
  them, and then at most a part of one frame whose write failed and ended the loop.
\<close>

definition wire_state :: "('w \<Rightarrow> bytes) \<Rightarrow> bytes \<Rightarrow> conn_label list \<Rightarrow> 'w conn \<Rightarrow> bool" where
  "wire_state sink start ls c \<longleftrightarrow>
     (\<exists>part. sink (cn_stream c) = start @ concat (map label_bytes ls) @ part
        \<and> (part = [] \<or> cn_done c
            \<and> (\<exists>l f j. l \<in> set ls \<and> failed_frame l = Some f \<and> part = take j (wire (stamped f)))))"

lemma wire_state_write:
  assumes "honest_writer wr sink" and "\<And>w. sink (fst (cl w)) = sink w"
    and "wire_state sink start ls c" and "\<not> cn_done c"
    and "loop_write wr cl req c1 = (e, c')" and "cn_stream c1 = cn_stream c"
    and "l = Taken t (wr_frame req) e \<or> l = Handed t (wr_frame req) e"
  shows "wire_state sink start (ls @ [l]) c'"
proof -
  from assms(3,4) have start: "sink (cn_stream c) = start @ concat (map label_bytes ls)"
    by (auto simp: wire_state_def)
  from loop_write_bytes [OF assms(1,2,5)] obtain j where
    j: "sink (cn_stream c') = sink (cn_stream c) @ take j (wire (stamped (wr_frame req)))"
    "e = None \<longrightarrow> sink (cn_stream c') = sink (cn_stream c) @ wire (stamped (wr_frame req))"
    unfolding assms(6) by blast
  show ?thesis
  proof (cases e)
    case None
    with j(2) start assms(7) show ?thesis by (auto simp: wire_state_def)
  next
    case (Some x)
    then have "label_bytes l = []" "failed_frame l = Some (wr_frame req)" "cn_done c'"
      using assms(7) loop_write_fields(5) [OF assms(5)] by auto
    with j(1) start show ?thesis
      by (fastforce simp: wire_state_def)
  qed
qed

lemma wire_state_keep:
  "wire_state sink start ls c \<Longrightarrow> sink (cn_stream c') = sink (cn_stream c) \<Longrightarrow>
     cn_done c \<longrightarrow> cn_done c' \<Longrightarrow> label_bytes l = [] \<Longrightarrow> wire_state sink start (ls @ [l]) c'"
  by (fastforce simp: wire_state_def)

lemma conn_step_wire:
  assumes "honest_writer wr sink" and "\<And>w. sink (fst (cl w)) = sink w"
    and "wire_state sink start ls c" and "conn_step wr cl c l c'"
  shows "wire_state sink start (ls @ [l]) c'"
  using assms(4)
proof cases
  case (take req rest e)
  then show ?thesis
    using wire_state_write [OF assms(1-3) take(2,4), of l] by auto
next
  case (hand ctx f req e)
  then show ?thesis
    using wire_state_write [OF assms(1-3) hand(2,5), of l] send_prepare_Inr [OF hand(4)] by auto
qed (auto intro!: wire_state_keep [OF assms(3)] simp: assms(2) loop_stop_def Close_begin_def)

lemma conn_trace_wire:
  assumes "honest_writer wr sink" and "\<And>w. sink (fst (cl w)) = sink w"
    and "trace (conn_step wr cl) c ls c'"
  shows "wire_state sink (sink (cn_stream c)) ls c'"
  using assms(3)
proof (induction rule: trace.induct)
  case (trace_refl s)
  show ?case by (simp add: wire_state_def)
next
  case (trace_snoc s ls t l u)
  then show ?case using conn_step_wire [OF assms(1,2)] by blast
qed

section \<open>Answers to senders\<close>

lemma answered_label:
  assumes "trace (conn_step wr cl) c ls c'" and "conn_ok c" and "cn_results c t = None"
    and "cn_results c' t = Some e"
  shows "\<exists>f. Taken t f e \<in> set ls \<or> Handed t f e \<in> set ls"
  using assms(1,2,3,4)
proof (induction rule: trace.induct)
  case (trace_snoc s ls v l u)
  show ?case
  proof (cases "cn_results v t")
    case None
    with trace_snoc.hyps(2) trace_snoc.prems(3) show ?thesis
      by cases (auto simp: loop_stop_def Close_begin_def loop_write_fields(2)
          split: if_splits dest!: send_prepare_Inr)
  next
    case (Some e')
    have "conn_ok v" using trace_snoc.hyps(1) trace_snoc.prems(1) by (rule conn_inv.trace_keeps)
    with Some trace_snoc.hyps(2) trace_snoc.prems(3) have "e' = e"
      using conn_step_results by fastforce
    with trace_snoc Some show ?thesis by auto
  qed
qed simp

lemma valid_stamped:
  assumes "Validate c f = None"
  shows "stamped f = f"
proof -
  have "word_of_nat (length (Payload f)) = PayloadLength (Header f)"
    using arg_cong [OF Validate_header(2) [OF assms], of "word_of_nat :: nat \<Rightarrow> 32 word"] by simp
  then show ?thesis by (cases f, cases "Header f") (simp add: stamped_def)
qed

section \<open>Properties of connections\<close>

text \<open>
  A run for the examples: a connection over a buffer on which one frame is queued and written.
\<close>

definition quietClose :: "bytes \<Rightarrow> bytes \<times> gerror option" where
  "quietClose w = (w, None)"

definition conn0 :: "bytes conn" where
  "conn0 = \<lparr>cn_stream = [], cn_streamClosed = False, cn_reader = [], cn_config = DefaultConfig,
     cn_ctx = None, cn_writes = [], cn_done = False, cn_closeOnce = False, cn_err = None,
     cn_results = (\<lambda>_. None), cn_next = 0\<rparr>"

definition conn1 :: "bytes conn" where
  "conn1 = conn0\<lparr>cn_writes := [\<lparr>wr_frame = stamped pingFrame, wr_result = 0\<rparr>], cn_next := 1\<rparr>"

definition conn2 :: "bytes conn" where
  "conn2 = conn0\<lparr>cn_stream := wire (stamped pingFrame), cn_next := 1,
     cn_results := (cn_results conn0)(0 := Some None)\<rparr>"

lemma DefaultConfig_defaults [simp]: "withDefaults DefaultConfig = DefaultConfig"
  by (simp add: withDefaults_def DefaultConfig_def DefaultMaxFrameBytes_def)

lemma conn0_open: "Open_conn (Some None) (Some ([], [])) DefaultConfig = Inr conn0"
  by (simp add: Open_conn_def conn0_def Let_def) (simp add: DefaultConfig_def)

lemma stamped_stamped [simp]: "stamped (stamped f) = stamped f"
  by (simp add: stamped_def)

lemma ping_stamped_written:
  "WriteFrame (NewEncoder DefaultConfig) bufferWrite w (stamped pingFrame)
     = (None, w @ wire (stamped pingFrame))"
  using ping_valid
  by (simp add: WriteFrame_def Let_def NewEncoder_def bufferWrite_full wire_def stamped_def)

lemma conn_run:
  "trace (conn_step bufferWrite quietClose) conn0
     [Accepted (stamped pingFrame), Taken 0 (stamped pingFrame) None] conn2"
proof -
  have "send_prepare (Some None) (stamped pingFrame) conn0
      = Inr \<lparr>wr_frame = stamped pingFrame, wr_result = 0\<rparr>"
    using ping_valid by (simp add: send_prepare_def conn0_def)
  then have "conn_step bufferWrite quietClose conn0 (Accepted (stamped pingFrame)) conn1"
    using conn_step.accept [of "Some None" "stamped pingFrame" conn0]
    by (simp add: conn1_def conn0_def DefaultConfig_def)
  then have run1: "trace (conn_step bufferWrite quietClose) conn0 [Accepted (stamped pingFrame)] conn1"
    by (rule trace_one)
  have "loop_write bufferWrite quietClose \<lparr>wr_frame = stamped pingFrame, wr_result = 0\<rparr>
      (conn1\<lparr>cn_writes := []\<rparr>) = (None, conn2)"
    by (simp add: loop_write_def conn1_def conn2_def conn0_def ping_stamped_written)
  then have "conn_step bufferWrite quietClose conn1 (Taken 0 (stamped pingFrame) None) conn2"
    using conn_step.take [of conn1 "\<lparr>wr_frame = stamped pingFrame, wr_result = 0\<rparr>" "[]"]
    by (simp add: conn1_def conn0_def)
  from trace_snoc [OF run1 this] show ?thesis by simp
qed

text \<open>
  (C9) Integrity of the outgoing stream under every interleaving of senders, the write loop,
  reader errors and shutdown: the frames the loop takes are the frames the senders queued, in
  that order and without loss; and the bytes on the transport are the encodings of the frames
  reported as written, one after another, followed at most by a part of the single frame whose
  write failed.
\<close>

theorem conn_stream_integrity:
  assumes "honest_writer wr sink" and "\<And>w. sink (fst (cl w)) = sink w"
    and "Open_conn parent stream config = Inr c"
    and "trace (conn_step wr cl) c ls c'"
  shows "concat (map label_in ls) = concat (map label_out ls) @ map wr_frame (cn_writes c')
    \<and> (\<exists>part. sink (cn_stream c') = sink (cn_stream c) @ concat (map label_bytes ls) @ part
        \<and> (part = [] \<or> cn_done c'
            \<and> (\<exists>l f j. l \<in> set ls \<and> failed_frame l = Some f \<and> part = take j (wire (stamped f)))))"
  using conn_fifo.trace_fifo [OF assms(4)] conn_trace_wire [OF assms(1,2,4)] Open_conn_ok [OF assms(3)]
  by (simp add: wire_state_def)

theorem conn_stream_integrity_witness:
  "\<exists>part. wire (stamped pingFrame) = [] @ wire (stamped pingFrame) @ part"
proof -
  have cl: "\<And>w. (\<lambda>w. w) (fst (quietClose w)) = w" by (simp add: quietClose_def)
  from conn_stream_integrity [where sink = "\<lambda>w. w", OF bufferWrite_honest cl conn0_open conn_run] show ?thesis
    by (simp add: conn2_def conn0_def)
qed

text \<open>
  A sender is told nil only if the write loop wrote its frame completely: a nil from
  \<open>send\<close> on channel \<open>t\<close> means the loop took the request with that channel and wrote it without
  an error. In particular a shutdown never turns into a nil result.
\<close>

theorem send_nil_written:
  assumes "Open_conn parent stream config = Inr c"
    and "trace (conn_step wr cl) c ls c'"
    and "None \<in> send_returns ctx t c'"
  shows "\<exists>f. Taken t f None \<in> set ls \<or> Handed t f None \<in> set ls"
proof -
  have "cn_results c t = None"
    using assms(1) by (auto simp: Open_conn_def Let_def split: option.splits if_splits)
  moreover have "cn_results c' t = Some None"
    using assms(3) by (auto simp: send_returns_def split: option.splits if_splits)
  ultimately show ?thesis
    using answered_label [OF assms(2)] Open_conn_ok [OF assms(1)] by blast
qed

theorem send_nil_written_witness:
  "\<exists>f. Taken 0 f None \<in> set [Accepted (stamped pingFrame), Taken 0 (stamped pingFrame) None]
     \<or> Handed 0 f None \<in> set [Accepted (stamped pingFrame), Taken 0 (stamped pingFrame) None]"
  by (rule send_nil_written [OF conn0_open conn_run, of None])
    (simp add: send_returns_def conn2_def)

text \<open>
  The first error is the one everybody sees: once \<open>Err\<close> is set no later step changes it,
  and after the write loop has ended \<open>Err\<close> is set, so a blocked sender gets that error and the
  fallback \<open>ErrConnClosed\<close> is never needed.
\<close>

theorem conn_first_error:
  assumes "Open_conn parent stream config = Inr c"
    and "trace (conn_step wr cl) c ls c'" and "trace (conn_step wr cl) c' ls' c''"
    and "cn_done c' \<or> cn_err c' \<noteq> None"
  shows "\<exists>e. cn_err c' = Some e \<and> cn_err c'' = Some e \<and> conn_result c'' = e"
proof -
  have "conn_ok c'" using conn_inv.trace_keeps [OF assms(2)] Open_conn_ok [OF assms(1)] by blast
  with assms(4) obtain e where e: "cn_err c' = Some e" by (auto simp: conn_ok_def)
  with conn_sticky.trace_keeps [OF assms(3)] have "cn_err c'' = Some e" by blast
  with e show ?thesis by (simp add: conn_result_def)
qed

definition conn_read_failed :: "bytes conn" where
  "conn_read_failed = conn0\<lparr>cn_ctx := Some (Lib CtxCanceled), cn_err := Some (Lib IoEOF)\<rparr>"

theorem conn_first_error_witness:
  "\<exists>e. cn_err conn_read_failed = Some e \<and> cn_err (loop_stop conn_read_failed) = Some e
     \<and> conn_result (loop_stop conn_read_failed) = e"
proof -
  have "snd (conn_ReadFrame conn0) = conn_read_failed"
    by (simp add: conn_ReadFrame_def conn0_def conn_read_failed_def NewDecoder_def ReadFrame_def
        readFull_def HeaderSize_def numeral_eq_Suc cancel_def setError_def)
  then have "conn_step bufferWrite quietClose conn0 ReadDone conn_read_failed"
    using conn_step.read [of bufferWrite quietClose conn0] by simp
  then have r: "trace (conn_step bufferWrite quietClose) conn0 [ReadDone] conn_read_failed"
    by (rule trace_one)
  have "conn_step bufferWrite quietClose conn_read_failed LoopStopped (loop_stop conn_read_failed)"
    by (rule conn_step.stop) (simp_all add: conn_read_failed_def conn0_def)
  then have "trace (conn_step bufferWrite quietClose) conn_read_failed [LoopStopped]
      (loop_stop conn_read_failed)" by (rule trace_one)
  then show ?thesis
    by (rule conn_first_error [OF conn0_open r]) (simp add: conn_read_failed_def)
qed

end
