(* ===== verification/Mux_Peer.thy ===== *)
theory Mux_Peer
  imports Mux_Codec
begin

text \<open>
  \<open>peer.go\<close>, the operations: configuration, handler registration, request correlation,
  the bounded outbound queues with their weighted scheduler, the bounded inbound queues with
  one worker per stream, and shutdown. Each definition is one critical section of \<open>p.mu\<close>
  (or the code between two of them); \<open>Mux_Peer_Out\<close>, \<open>Mux_Peer_In\<close> and \<open>Mux_Peer_Sys\<close> prove
  what they guarantee when they interleave.
\<close>

section \<open>Configuration\<close>

type_synonym TrafficClass = "8 word"

definition TrafficControl :: TrafficClass where "TrafficControl = 0 + 1"
definition TrafficInteractive :: TrafficClass where "TrafficInteractive = 1 + 1"
definition TrafficBulk :: TrafficClass where "TrafficBulk = 2 + 1"

type_synonym InboundQueuePolicy = "8 word"

definition InboundQueueFail :: InboundQueuePolicy where "InboundQueueFail = 0"
definition InboundQueueBackpressure :: InboundQueuePolicy where "InboundQueueBackpressure = 1"

record peer_config =
  OutboundQueueBytes :: int
  OutboundQueueFrames :: int
  PerStreamQueueBytes :: int
  PerStreamQueueFrames :: int
  QueuePolicy :: InboundQueuePolicy
  MaxActiveStreams :: int
  MaxCanceledRequests :: int
  ControlWeight :: int
  InteractiveWeight :: int
  BulkWeight :: int
  Classify :: "(frame \<Rightarrow> TrafficClass) option"

definition DefaultPeerConfig :: peer_config where
  "DefaultPeerConfig =
     \<lparr>OutboundQueueBytes = 16 * 2 ^ 20, OutboundQueueFrames = 4096,
      PerStreamQueueBytes = 2 ^ 20, PerStreamQueueFrames = 256, QueuePolicy = InboundQueueFail,
      MaxActiveStreams = 1024, MaxCanceledRequests = 4096,
      ControlWeight = 8, InteractiveWeight = 4, BulkWeight = 1, Classify = None\<rparr>"

definition defaultClassify :: "frame \<Rightarrow> TrafficClass" where
  "defaultClassify f =
     (if Flags (Header f) \<noteq> FlagEvent then TrafficControl else TrafficInteractive)"

definition peer_fillDefaults :: "peer_config \<Rightarrow> peer_config" where
  "peer_fillDefaults c0 =
     c0\<lparr>
            OutboundQueueBytes := (if OutboundQueueBytes c0 = 0 then OutboundQueueBytes DefaultPeerConfig else OutboundQueueBytes c0),
            PerStreamQueueBytes := (if PerStreamQueueBytes c0 = 0 then PerStreamQueueBytes DefaultPeerConfig else PerStreamQueueBytes c0),
            OutboundQueueFrames := (if OutboundQueueFrames c0 = 0 then OutboundQueueFrames DefaultPeerConfig else OutboundQueueFrames c0),
            PerStreamQueueFrames := (if PerStreamQueueFrames c0 = 0 then PerStreamQueueFrames DefaultPeerConfig else PerStreamQueueFrames c0),
            MaxActiveStreams := (if MaxActiveStreams c0 = 0 then MaxActiveStreams DefaultPeerConfig else MaxActiveStreams c0),
            MaxCanceledRequests := (if MaxCanceledRequests c0 = 0 then MaxCanceledRequests DefaultPeerConfig else MaxCanceledRequests c0),
            ControlWeight := (if ControlWeight c0 = 0 then ControlWeight DefaultPeerConfig else ControlWeight c0),
            InteractiveWeight := (if InteractiveWeight c0 = 0 then InteractiveWeight DefaultPeerConfig else InteractiveWeight c0),
            BulkWeight := (if BulkWeight c0 = 0 then BulkWeight DefaultPeerConfig else BulkWeight c0)\<rparr>"

definition peer_withDefaults :: "peer_config \<Rightarrow> peer_config result" where
  "peer_withDefaults c0 =
     (let c = peer_fillDefaults c0
      in if OutboundQueueBytes c \<le> 0 \<or> OutboundQueueFrames c \<le> 0 \<or> PerStreamQueueBytes c \<le> 0
            \<or> PerStreamQueueFrames c \<le> 0 \<or> MaxActiveStreams c \<le> 0 \<or> MaxCanceledRequests c \<le> 0
            \<or> ControlWeight c \<le> 0 \<or> InteractiveWeight c \<le> 0 \<or> BulkWeight c \<le> 0
         then Inl (ErrNew ''streammux: invalid PeerConfig'')
         else if PerStreamQueueBytes c > OutboundQueueBytes c
         then Inl (ErrNew ''streammux: per-stream queue exceeds outbound queue'')
         else if PerStreamQueueFrames c > OutboundQueueFrames c
         then Inl (ErrNew ''streammux: per-stream frame queue exceeds outbound queue'')
         else if QueuePolicy c \<noteq> InboundQueueFail \<and> QueuePolicy c \<noteq> InboundQueueBackpressure
         then Inl (ErrNew ''streammux: invalid inbound queue policy'')
         else Inr (case Classify c of
                     None \<Rightarrow> c\<lparr>Classify := Some defaultClassify\<rparr>
                   | Some _ \<Rightarrow> c))"

section \<open>State\<close>

text \<open>
  Channels of capacity one (\<open>response\<close>, \<open>result\<close>) are numbers; \<open>p_responses\<close> and
  \<open>p_results\<close> hold everything ever sent on each, so that a second send, which would block,
  can be seen. A response is a frame or an error.
\<close>

record peerPending =
  pp_messageType :: MessageType
  pp_streamID :: StreamID
  pp_response :: nat

record inboundStream =
  is_frames :: "frame list"
  is_bytes :: int

record outboundRequest =
  or_frame :: frame
  or_class :: TrafficClass
  or_bytes :: int
  or_result :: nat

record outboundStream =
  os_id :: StreamID
  os_queue :: "outboundRequest list"
  os_bytes :: int

text \<open>A stream worker (\<open>runInbound\<close>) is between frames, or inside a handler call.\<close>

datatype worker = Waiting | Handling frame

record 'h peer =
  p_maxFrameBytes :: int
  p_config :: peer_config
  p_handlers :: "(MessageType, 'h) gomap"
  p_pending :: "(CorrelationID, peerPending) gomap"
  p_canceled :: "(CorrelationID, peerPending) gomap"
  p_canceledOrder :: "CorrelationID list"
  p_inbound :: "(StreamID, inboundStream) gomap"
  p_outbound :: "(StreamID, outboundStream) gomap"
  p_outboundOrder :: "StreamID list"
  p_outboundBytes :: int
  p_outboundFrames :: int
  p_receivedFrames :: "64 word"
  p_receivedBytes :: "64 word"
  p_sentFrames :: "64 word"
  p_sentBytes :: "64 word"
  p_protocolErrors :: "64 word"
  p_queueOverflows :: "64 word"
  p_backpressureWaits :: "64 word"
  p_changed :: nat
  p_closed :: bool
  p_err :: "gerror option"
  p_next :: "64 word"
  p_serveOnce :: bool
  p_ctx :: gctx
  p_done :: bool
  p_connClosed :: bool
  p_workers :: "(StreamID, worker) gomap"
  p_responses :: "nat \<Rightarrow> frame result list"
  p_results :: "nat \<Rightarrow> gerror option list"
  p_chans :: nat

definition fresh_peer :: "int \<Rightarrow> peer_config \<Rightarrow> 'h peer" where
  "fresh_peer maxFrameBytes validated =
     \<lparr>p_maxFrameBytes = maxFrameBytes, p_config = validated,
      p_handlers = [], p_pending = [], p_canceled = [], p_canceledOrder = [],
      p_inbound = [], p_outbound = [], p_outboundOrder = [], p_outboundBytes = 0,
      p_outboundFrames = 0, p_receivedFrames = 0, p_receivedBytes = 0,
      p_sentFrames = 0, p_sentBytes = 0, p_protocolErrors = 0, p_queueOverflows = 0,
      p_backpressureWaits = 0, p_changed = 0, p_closed = False, p_err = None,
      p_next = 0, p_serveOnce = False, p_ctx = None, p_done = False,
      p_connClosed = False, p_workers = [], p_responses = (\<lambda>_. []),
      p_results = (\<lambda>_. []), p_chans = 0\<rparr>"

definition NewPeer :: "config option \<Rightarrow> peer_config \<Rightarrow> 'h peer result" where
  "NewPeer conn c =
     (case conn of
        None \<Rightarrow> Inl (Mux ErrNilConn)
      | Some connConfig \<Rightarrow>
          (case peer_withDefaults c of
             Inl e \<Rightarrow> Inl e
           | Inr validated \<Rightarrow> Inr (fresh_peer (MaxFrameBytes connConfig) validated)))"

definition peer_result :: "'h peer \<Rightarrow> gerror" where
  "peer_result p = (case p_err p of Some e \<Rightarrow> e | None \<Rightarrow> Mux ErrPeerClosed)"

definition signalLocked :: "'h peer \<Rightarrow> 'h peer" where
  "signalLocked p = p\<lparr>p_changed := Suc (p_changed p)\<rparr>"

definition frameBytes :: "frame \<Rightarrow> int" where
  "frameBytes f = int (length (Payload f)) + int HeaderSize"

section \<open>Handlers\<close>

text \<open>A nil handler in the argument map is \<open>None\<close>.\<close>

fun register_check ::
    "(MessageType, 'h) gomap \<Rightarrow> (MessageType, 'h option) gomap \<Rightarrow> gerror option" where
  "register_check known [] = None"
| "register_check known ((t, h) # hs) =
     (if t = 0 \<or> h = None then Some (Mux ErrHandlerNotFound)
      else if mget known t \<noteq> None then Some (Errorf (Mux ErrHandlerRegistered) [uint t])
      else register_check known hs)"

definition RegisterHandlers ::
    "(MessageType, 'h option) gomap \<Rightarrow> 'h peer \<Rightarrow> gerror option \<times> 'h peer" where
  "RegisterHandlers hs p =
     (if length hs = 0 then (Some (Mux ErrHandlerNotFound), p)
      else if p_closed p then (Some (Mux ErrPeerClosed), p)
      else case register_check (p_handlers p) hs of
        Some e \<Rightarrow> (Some e, p)
      | None \<Rightarrow>
          (None, p\<lparr>p_handlers :=
             fold (\<lambda>(t, h) m. case h of Some x \<Rightarrow> mput t x m | None \<Rightarrow> m) hs (p_handlers p)\<rparr>))"

definition Register :: "MessageType \<Rightarrow> 'h option \<Rightarrow> 'h peer \<Rightarrow> gerror option \<times> 'h peer" where
  "Register t h p = RegisterHandlers [(t, h)] p"

section \<open>Request correlation\<close>

lemma attempts_decrease:
  fixes a :: "64 word"
  assumes "a < - 1"
  shows "unat (- 2 - a) < unat (- 1 - a)"
proof -
  have "- 1 - a \<noteq> 0" using assms by auto
  then have "unat (- 1 - a - 1) < unat (- 1 - a)" by (rule measure_unat)
  then show ?thesis by simp
qed

function reserve_loop :: "64 word \<Rightarrow> 'h peer \<Rightarrow> CorrelationID result \<times> 'h peer" where
  "reserve_loop attempts p =
     (if attempts < - 1
      then let cid = p_next p + 1; p1 = p\<lparr>p_next := cid\<rparr> in
           if cid = 0 then reserve_loop (attempts + 1) p1
           else if mget (p_pending p1) cid = None \<and> mget (p_canceled p1) cid = None
           then (Inr cid, p1\<lparr>p_pending := mput cid \<lparr>pp_messageType = 0, pp_streamID = 0, pp_response = p_chans p1\<rparr> (p_pending p1),
                            p_chans := Suc (p_chans p1)\<rparr>)
           else reserve_loop (attempts + 1) p1
      else (Inl (Mux ErrInvalidCorrelation), p))"
  by pat_completeness auto
termination
  by (relation "measure (\<lambda>(attempts, p). unat (- 1 - attempts))")
    (auto simp: attempts_decrease)

declare reserve_loop.simps [simp del]

definition reservePending :: "'h peer \<Rightarrow> CorrelationID result \<times> 'h peer" where
  "reservePending p =
     (if p_closed p then (Inl (Mux ErrPeerClosed), p) else reserve_loop 0 p)"

definition abandonPending :: "CorrelationID \<Rightarrow> 'h peer \<Rightarrow> 'h peer" where
  "abandonPending cid p =
     (case mget (p_pending p) cid of
        None \<Rightarrow> p
      | Some pe \<Rightarrow>
          let p1 = p\<lparr>p_pending := mdel cid (p_pending p), p_canceled := mput cid pe (p_canceled p),
                     p_canceledOrder := p_canceledOrder p @ [cid]\<rparr> in
          if int (length (p_canceledOrder p1)) > MaxCanceledRequests (p_config p1)
          then (case p_canceledOrder p1 of
                  oldest # rest \<Rightarrow>
                    p1\<lparr>p_canceledOrder := rest, p_canceled := mdel oldest (p_canceled p1)\<rparr>
                | [] \<Rightarrow> p1)
          else p1)"

text \<open>
  \<open>resolve\<close>: the matching call gets the frame; a response to an abandoned call is absorbed by
  its tombstone; anything else is a protocol error.
\<close>

abbreviation matches :: "peerPending \<Rightarrow> header \<Rightarrow> bool" where
  "matches pe h \<equiv> pp_messageType pe = MessageType h \<and> pp_streamID pe = StreamID h"

definition resolve :: "frame \<Rightarrow> 'h peer \<Rightarrow> gerror option \<times> 'h peer" where
  "resolve f p =
     (let h = Header f; cid = CorrelationID h in
      case mget (p_pending p) cid of
        Some pe \<Rightarrow>
          if matches pe h
          then (None, p\<lparr>p_pending := mdel cid (p_pending p),
                        p_responses := (p_responses p)(pp_response pe := p_responses p (pp_response pe) @ [Inr f])\<rparr>)
          else (Some (Mux ErrUnexpectedResponse), p)
      | None \<Rightarrow>
          (case mget (p_canceled p) cid of
             Some pe \<Rightarrow>
               if matches pe h
               then (None, p\<lparr>p_canceled := mdel cid (p_canceled p),
                             p_canceledOrder := remove1 cid (p_canceledOrder p)\<rparr>)
               else (Some (Mux ErrUnexpectedResponse), p)
           | None \<Rightarrow> (Some (Mux ErrUnexpectedResponse), p)))"

text \<open>
  \<open>Call\<close> between reserving its number and sending: it looks its entry up again and writes
  through the pointer, which is a nil dereference when the entry is gone.
\<close>

definition call_check :: "gctx option \<Rightarrow> frame \<Rightarrow> gerror option" where
  "call_check ctx f =
     (if ctx = None then Some (ErrNew ''streammux: nil call context'')
      else if Flags (Header f) \<noteq> FlagRequest then Some (Mux ErrInvalidFlags) else None)"

definition call_bind :: "CorrelationID \<Rightarrow> frame \<Rightarrow> 'h peer \<Rightarrow> 'h peer outcome" where
  "call_bind cid f p =
     (case mget (p_pending p) cid of
        None \<Rightarrow> Panic
      | Some pe \<Rightarrow>
          Ret (p\<lparr>p_pending := mput cid
            (pe\<lparr>pp_messageType := MessageType (Header f), pp_streamID := StreamID (Header f)\<rparr>)
            (p_pending p)\<rparr>))"

text \<open>What the final \<open>select\<close> of \<open>Call\<close> may return for the response channel \<open>r\<close>.\<close>

definition call_returns :: "gctx \<Rightarrow> nat \<Rightarrow> 'h peer \<Rightarrow> frame result set" where
  "call_returns ctx r p =
     (case p_responses p r of x # _ \<Rightarrow> {x} | [] \<Rightarrow> {})
     \<union> (case ctx of Some e \<Rightarrow> {Inl e} | None \<Rightarrow> {})
     \<union> (if p_done p then {Inl (peer_result p)} else {})"

section \<open>Sending\<close>

text \<open>\<open>send\<close> up to its loop: argument checks and the request it will queue.\<close>

definition send_request ::
    "gctx option \<Rightarrow> frame \<Rightarrow> TrafficClass \<Rightarrow> 'h peer \<Rightarrow> outboundRequest result \<times> 'h peer" where
  "send_request ctx f class p =
     (if ctx = None then (Inl (ErrNew ''streammux: nil send context''), p)
      else if class < TrafficControl \<or> class > TrafficBulk
      then (Inl (ErrNew ''streammux: invalid traffic class''), p)
      else let req = \<lparr>or_frame = f, or_class = class, or_bytes = frameBytes f, or_result = p_chans p\<rparr>;
               p1 = p\<lparr>p_chans := Suc (p_chans p)\<rparr> in
           if or_bytes req > PerStreamQueueBytes (p_config p) \<or> or_bytes req > OutboundQueueBytes (p_config p)
           then (Inl (Mux ErrPeerQueueOverflow), p1\<lparr>p_queueOverflows := p_queueOverflows p1 + 1\<rparr>)
           else (Inr req, p1))"

datatype attempt = Enqueued | MustWait | Refused gerror

definition send_fits :: "outboundRequest \<Rightarrow> 'h peer \<Rightarrow> bool" where
  "send_fits req p =
     (let c = p_config p; state = mget (p_outbound p) (StreamID (Header (or_frame req))) in
      or_bytes req \<le> PerStreamQueueBytes c \<and> or_bytes req \<le> OutboundQueueBytes c
      \<and> \<not> (state = None \<and> int (length (p_outbound p)) \<ge> MaxActiveStreams c)
      \<and> (case state of
            None \<Rightarrow> True
          | Some s \<Rightarrow> \<not> (os_bytes s + or_bytes req > PerStreamQueueBytes c
                          \<or> int (length (os_queue s)) + 1 > PerStreamQueueFrames c))
      \<and> \<not> (p_outboundBytes p + or_bytes req > OutboundQueueBytes c
            \<or> p_outboundFrames p + 1 > OutboundQueueFrames c))"

definition push_request :: "outboundRequest \<Rightarrow> outboundStream \<Rightarrow> outboundStream" where
  "push_request req s = s\<lparr>os_queue := os_queue s @ [req], os_bytes := os_bytes s + or_bytes req\<rparr>"

text \<open>One turn of the loop in \<open>send\<close>.\<close>

definition send_attempt :: "outboundRequest \<Rightarrow> 'h peer \<Rightarrow> attempt \<times> 'h peer" where
  "send_attempt req p =
     (if p_closed p then (Refused (peer_result p), p)
      else if send_fits req p
      then let sid = StreamID (Header (or_frame req));
               p1 = (case mget (p_outbound p) sid of
                       None \<Rightarrow> p\<lparr>p_outboundOrder := p_outboundOrder p @ [sid]\<rparr>
                     | Some _ \<Rightarrow> p);
               state = (case mget (p_outbound p) sid of
                          None \<Rightarrow> \<lparr>os_id = sid, os_queue = [], os_bytes = 0\<rparr>
                        | Some s \<Rightarrow> s)
           in (Enqueued, signalLocked (p1\<lparr>
                 p_outbound := mput sid (push_request req state) (p_outbound p1),
                 p_outboundBytes := p_outboundBytes p1 + or_bytes req,
                 p_outboundFrames := p_outboundFrames p1 + 1\<rparr>))
      else (MustWait, p))"

text \<open>What the last \<open>select\<close> of \<open>send\<close> may return.\<close>

definition peer_send_returns :: "gctx \<Rightarrow> nat \<Rightarrow> 'h peer \<Rightarrow> gerror option set" where
  "peer_send_returns ctx r p =
     (case p_results p r of x # _ \<Rightarrow> {x} | [] \<Rightarrow> {})
     \<union> (if ctx \<noteq> None then {ctx} else {})
     \<union> (if p_done p then {Some (peer_result p)} else {})"

text \<open>The frames \<open>Respond\<close> and \<open>Emit\<close> send, with the class they use.\<close>

definition Respond_frame :: "frame \<Rightarrow> frame \<Rightarrow> (frame \<times> TrafficClass) result" where
  "Respond_frame request response =
     (if Flags (Header request) \<noteq> FlagRequest then Inl (Mux ErrInvalidFlags)
      else let h0 = (Header response)\<lparr>Flags := FlagResponse, CorrelationID := CorrelationID (Header request),
                      StreamID := StreamID (Header request)\<rparr>;
               h = (if MessageType h0 = 0 then h0\<lparr>MessageType := MessageType (Header request)\<rparr> else h0)
           in Inr (Clone (response\<lparr>Header := h\<rparr>), TrafficControl))"

definition Emit_frame :: "frame \<Rightarrow> 'h peer \<Rightarrow> (frame \<times> TrafficClass) result" where
  "Emit_frame f p =
     (if Flags (Header f) \<noteq> FlagEvent \<or> CorrelationID (Header f) \<noteq> 0 then Inl (Mux ErrInvalidFlags)
      else Inr (Clone f, case Classify (p_config p) of Some k \<Rightarrow> k f | None \<Rightarrow> defaultClassify f))"

section \<open>The outbound scheduler\<close>

definition pop_request :: "outboundStream \<Rightarrow> (outboundRequest \<times> outboundStream) option" where
  "pop_request s =
     (case os_queue s of
        [] \<Rightarrow> None
      | req # rest \<Rightarrow> Some (req, s\<lparr>os_queue := rest, os_bytes := os_bytes s - or_bytes req\<rparr>))"

definition removeIndex :: "nat \<Rightarrow> 'a list \<Rightarrow> 'a list" where
  "removeIndex i xs = take i xs @ drop (i + 1) xs"

text \<open>The stream at one index of the round-robin order, if its head has the wanted class.\<close>

definition head_of_class :: "TrafficClass \<Rightarrow> nat \<Rightarrow> 'h peer \<Rightarrow> (outboundStream \<times> outboundRequest \<times> outboundStream) option" where
  "head_of_class class index p =
     (case mget (p_outbound p) (p_outboundOrder p ! index) of
        None \<Rightarrow> None
      | Some s \<Rightarrow>
          (case pop_request s of
             None \<Rightarrow> None
           | Some (req, s') \<Rightarrow> if or_class req \<noteq> class then None else Some (s, req, s')))"

definition take_at :: "nat \<Rightarrow> outboundStream \<times> outboundRequest \<times> outboundStream \<Rightarrow> 'h peer \<Rightarrow> nat \<times> 'h peer" where
  "take_at index x p =
     (case x of (s, req, s') \<Rightarrow>
        let n = length (p_outboundOrder p);
            next = (index + 1) mod n;
            p1 = p\<lparr>p_outbound := mput (p_outboundOrder p ! index) s' (p_outbound p),
                   p_outboundBytes := p_outboundBytes p - or_bytes req,
                   p_outboundFrames := p_outboundFrames p - 1\<rparr>
        in if os_queue s' = []
           then let order' = removeIndex index (p_outboundOrder p1);
                    next' = (if order' = [] then 0 else if index < next then next - 1 else next)
                in (next', signalLocked (p1\<lparr>p_outbound := mdel (os_id s') (p_outbound p1),
                                            p_outboundOrder := order'\<rparr>))
           else (next, signalLocked p1))"

function take_loop :: "TrafficClass \<Rightarrow> nat \<Rightarrow> nat \<Rightarrow> 'h peer \<Rightarrow> outboundRequest option \<times> nat \<times> 'h peer" where
  "take_loop class cursor checked p =
     (if checked < length (p_outboundOrder p)
      then let index = (cursor + checked) mod length (p_outboundOrder p) in
           case head_of_class class index p of
             None \<Rightarrow> take_loop class cursor (checked + 1) p
           | Some x \<Rightarrow> (case take_at index x p of (next, p') \<Rightarrow> (Some (fst (snd x)), next, p'))
      else (None, cursor, p))"
  by pat_completeness auto
termination
  by (relation "measure (\<lambda>(class, cursor, checked, p). length (p_outboundOrder p) - checked)") auto

declare take_loop.simps [simp del]

definition takeLocked :: "TrafficClass \<Rightarrow> nat \<Rightarrow> 'h peer \<Rightarrow> outboundRequest option \<times> nat \<times> 'h peer" where
  "takeLocked class cursor p =
     (if length (p_outboundOrder p) = 0 then (None, 0, p) else take_loop class cursor 0 p)"

record sched =
  sc_classIndex :: nat
  sc_credit :: int
  sc_cursor :: nat

definition sched_classes :: "TrafficClass list" where
  "sched_classes = [TrafficControl, TrafficInteractive, TrafficBulk]"

definition class_weight :: "peer_config \<Rightarrow> TrafficClass \<Rightarrow> int" where
  "class_weight c class =
     (if class = TrafficControl then ControlWeight c
      else if class = TrafficInteractive then InteractiveWeight c
      else if class = TrafficBulk then BulkWeight c else 0)"

text \<open>The scan loop of \<open>schedule\<close>, with the number of scans left.\<close>

fun schedule_scan :: "nat \<Rightarrow> sched \<Rightarrow> 'h peer \<Rightarrow> outboundRequest option \<times> sched \<times> 'h peer" where
  "schedule_scan 0 sc p = (None, sc, p)"
| "schedule_scan (Suc scans) sc p =
     (let class = sched_classes ! sc_classIndex sc;
          credit = (if sc_credit sc = 0 then class_weight (p_config p) class else sc_credit sc)
      in case takeLocked class (sc_cursor sc) p of
           (Some req, cursor, p') \<Rightarrow>
             if credit - 1 = 0
             then (Some req, \<lparr>sc_classIndex = (sc_classIndex sc + 1) mod length sched_classes,
                              sc_credit = 0, sc_cursor = cursor\<rparr>, p')
             else (Some req, \<lparr>sc_classIndex = sc_classIndex sc, sc_credit = credit - 1, sc_cursor = cursor\<rparr>, p')
         | (None, cursor, p') \<Rightarrow>
             schedule_scan scans \<lparr>sc_classIndex = (sc_classIndex sc + 1) mod length sched_classes,
                                  sc_credit = 0, sc_cursor = cursor\<rparr> p')"

definition schedule_pick :: "sched \<Rightarrow> 'h peer \<Rightarrow> outboundRequest option \<times> sched \<times> 'h peer" where
  "schedule_pick sc p = schedule_scan (length sched_classes * 2) sc p"

section \<open>Receiving\<close>

definition push_inbound :: "frame \<Rightarrow> inboundStream \<Rightarrow> inboundStream" where
  "push_inbound f s = s\<lparr>is_frames := is_frames s @ [f], is_bytes := is_bytes s + frameBytes f\<rparr>"

definition pop_inbound :: "inboundStream \<Rightarrow> (frame \<times> inboundStream) option" where
  "pop_inbound s =
     (case is_frames s of
        [] \<Rightarrow> None
      | f # rest \<Rightarrow> Some (f, s\<lparr>is_frames := rest, is_bytes := is_bytes s - frameBytes f\<rparr>))"

text \<open>The stream entry \<open>dispatch\<close> works on, created with its worker when there is none.\<close>

definition dispatch_entry :: "StreamID \<Rightarrow> 'h peer \<Rightarrow> 'h peer" where
  "dispatch_entry sid p =
     (case mget (p_inbound p) sid of
        None \<Rightarrow> p\<lparr>p_inbound := mput sid \<lparr>is_frames = [], is_bytes = 0\<rparr> (p_inbound p),
                  p_workers := mput sid Waiting (p_workers p)\<rparr>
      | Some _ \<Rightarrow> p)"

text \<open>One turn of the loop in \<open>dispatch\<close>; \<open>waited\<close> is its local flag.\<close>

definition dispatch_attempt :: "frame \<Rightarrow> bool \<Rightarrow> 'h peer \<Rightarrow> attempt \<times> bool \<times> 'h peer" where
  "dispatch_attempt f waited p =
     (let sid = StreamID (Header f); bytes = frameBytes f; c = p_config p in
      if p_closed p then (Refused (peer_result p), waited, p)
      else if mget (p_handlers p) (MessageType (Header f)) = None
      then (Refused (Errorf (Mux ErrHandlerNotFound) [uint (MessageType (Header f))]), waited, p)
      else if mget (p_inbound p) sid = None \<and> int (length (p_inbound p)) \<ge> MaxActiveStreams c
      then (Refused (Mux ErrTooManyActiveStreams), waited, p)
      else let p1 = dispatch_entry sid p;
               state = (case mget (p_inbound p1) sid of
                          None \<Rightarrow> \<lparr>is_frames = [], is_bytes = 0\<rparr> | Some s \<Rightarrow> s)
           in if bytes > PerStreamQueueBytes c
              then (Refused (Mux ErrPeerQueueOverflow), waited, p1\<lparr>p_queueOverflows := p_queueOverflows p1 + 1\<rparr>)
              else if is_bytes state + bytes \<le> PerStreamQueueBytes c
                      \<and> int (length (is_frames state)) + 1 \<le> PerStreamQueueFrames c
              then (Enqueued, waited, p1\<lparr>p_inbound := mput sid (push_inbound f state) (p_inbound p1)\<rparr>)
              else if QueuePolicy c = InboundQueueFail
              then (Refused (Mux ErrPeerQueueOverflow), waited, p1\<lparr>p_queueOverflows := p_queueOverflows p1 + 1\<rparr>)
              else (MustWait, True,
                    if waited then p1 else p1\<lparr>p_backpressureWaits := p_backpressureWaits p1 + 1\<rparr>))"

text \<open>
  One turn of \<open>runInbound\<close>: take the oldest frame and call its handler, or retire the worker
  together with its empty stream entry.
\<close>

datatype 'h worker_turn = CallHandler 'h frame | NoHandler frame | Retired

definition worker_take :: "StreamID \<Rightarrow> 'h peer \<Rightarrow> 'h worker_turn \<times> 'h peer" where
  "worker_take sid p =
     (case mget (p_inbound p) sid of
        None \<Rightarrow> (Retired, p\<lparr>p_workers := mdel sid (p_workers p)\<rparr>)
      | Some s \<Rightarrow>
          (case pop_inbound s of
             Some (f, s') \<Rightarrow>
               let p1 = signalLocked (p\<lparr>p_inbound := mput sid s' (p_inbound p)\<rparr>) in
               (case mget (p_handlers p) (MessageType (Header f)) of
                  Some h \<Rightarrow> (CallHandler h f, p1\<lparr>p_workers := mput sid (Handling f) (p_workers p1)\<rparr>)
                | None \<Rightarrow> (NoHandler f, p1\<lparr>p_workers := mdel sid (p_workers p1)\<rparr>))
           | None \<Rightarrow>
               (Retired, p\<lparr>p_inbound := mdel sid (p_inbound p), p_workers := mdel sid (p_workers p)\<rparr>)))"

section \<open>Counters and shutdown\<close>

definition recordReceived :: "frame \<Rightarrow> 'h peer \<Rightarrow> 'h peer" where
  "recordReceived f p = p\<lparr>p_receivedFrames := p_receivedFrames p + 1,
     p_receivedBytes := p_receivedBytes p + of_int (frameBytes f)\<rparr>"

definition recordSent :: "frame \<Rightarrow> 'h peer \<Rightarrow> 'h peer" where
  "recordSent f p = p\<lparr>p_sentFrames := p_sentFrames p + 1,
     p_sentBytes := p_sentBytes p + of_int (frameBytes f)\<rparr>"

definition recordProtocolError :: "'h peer \<Rightarrow> 'h peer" where
  "recordProtocolError p = p\<lparr>p_protocolErrors := p_protocolErrors p + 1\<rparr>"

definition isPeerProtocolError :: "gerror \<Rightarrow> bool" where
  "isPeerProtocolError e \<longleftrightarrow>
     errorsIs e (Mux ErrFrameTooLarge) \<or> errorsIs e (Mux ErrInvalidFrameLength)
     \<or> errorsIs e (Mux ErrUnsupportedVersion) \<or> errorsIs e (Mux ErrInvalidMessageType)
     \<or> errorsIs e (Mux ErrInvalidFlags) \<or> errorsIs e (Mux ErrInvalidCorrelation)"

definition chan_send :: "nat \<Rightarrow> 'x \<Rightarrow> (nat \<Rightarrow> 'x list) \<Rightarrow> nat \<Rightarrow> 'x list" where
  "chan_send r x ch = ch(r := ch r @ [x])"

definition fail :: "gerror \<Rightarrow> 'h peer \<Rightarrow> 'h peer" where
  "fail e p =
     (if p_closed p then p
      else p\<lparr>p_closed := True, p_err := Some e,
             p_responses := fold (\<lambda>(cid, pe). chan_send (pp_response pe) (Inl e)) (p_pending p) (p_responses p),
             p_pending := [], p_canceled := [], p_canceledOrder := [],
             p_results := fold (\<lambda>(sid, s). fold (\<lambda>req. chan_send (or_result req) (Some e)) (os_queue s))
                            (p_outbound p) (p_results p),
             p_outbound := [], p_outboundOrder := [], p_outboundBytes := 0, p_outboundFrames := 0,
             p_changed := Suc (p_changed p), p_done := True,
             p_ctx := Some (Lib CtxCanceled), p_connClosed := True\<rparr>)"

text \<open>\<open>Close\<close>: shut down and, once scheduler and workers are gone, report the outcome.\<close>

definition peer_Close_returns :: "'h peer \<Rightarrow> gerror option" where
  "peer_Close_returns p =
     (let e = peer_result p in
      if errorsIs e (Mux ErrPeerClosed) \<or> errorsIs e (Lib CtxCanceled) then None else Some e)"

text \<open>The scheduler after \<open>conn.SendOwned\<close> has returned \<open>e\<close> for a request it took.\<close>

definition schedule_sent :: "outboundRequest \<Rightarrow> gerror option \<Rightarrow> 'h peer \<Rightarrow> 'h peer" where
  "schedule_sent req e p =
     (let p1 = (if e = None then recordSent (or_frame req) p else p);
          p2 = p1\<lparr>p_results := chan_send (or_result req) e (p_results p1)\<rparr>
      in case e of None \<Rightarrow> p2 | Some x \<Rightarrow> fail x p2)"

text \<open>A handler call that returned; a panic was turned into an error by \<open>callHandler\<close>.\<close>

definition worker_done :: "StreamID \<Rightarrow> gerror option \<Rightarrow> 'h peer \<Rightarrow> 'h peer" where
  "worker_done sid e p =
     (case e of
        None \<Rightarrow> p\<lparr>p_workers := mput sid Waiting (p_workers p)\<rparr>
      | Some x \<Rightarrow> fail x (recordProtocolError (p\<lparr>p_workers := mdel sid (p_workers p)\<rparr>)))"

definition callHandler :: "gerror option outcome \<Rightarrow> string \<Rightarrow> gerror option" where
  "callHandler r recovered =
     (case r of Ret e \<Rightarrow> e | Panic \<Rightarrow> Some (ErrNew (''streammux: handler panic: '' @ recovered)))"

text \<open>What \<open>Serve\<close> does with the outcome of one \<open>ReadFrame\<close>.\<close>

definition serve_start :: "gctx option \<Rightarrow> 'h peer \<Rightarrow> gerror option \<times> 'h peer" where
  "serve_start ctx p =
     (if ctx = None then (Some (ErrNew ''streammux: nil serve context''), p)
      else if p_serveOnce p then (Some (Mux ErrPeerAlreadyServing), p)
      else (None, p\<lparr>p_serveOnce := True\<rparr>))"

definition serve_read_error :: "gerror \<Rightarrow> 'h peer \<Rightarrow> gerror \<times> 'h peer" where
  "serve_read_error e p =
     (let p1 = fail e (if isPeerProtocolError e then recordProtocolError p else p)
      in (peer_result p1, p1))"

definition serve_response :: "frame \<Rightarrow> 'h peer \<Rightarrow> gerror option \<times> 'h peer" where
  "serve_response f p =
     (case resolve f (recordReceived f p) of
        (None, p') \<Rightarrow> (None, p')
      | (Some e, p') \<Rightarrow> (Some e, fail e (recordProtocolError p')))"

definition serve_refused :: "gerror \<Rightarrow> 'h peer \<Rightarrow> 'h peer" where
  "serve_refused e p = fail e (recordProtocolError p)"

section \<open>Statistics\<close>

record PeerStreamStats =
  ss_StreamID :: StreamID
  ss_InboundQueueBytes :: int
  ss_InboundQueueFrames :: int
  ss_OutboundQueueBytes :: int
  ss_OutboundQueueFrames :: int

record PeerStats =
  st_ReceivedFrames :: "64 word"
  st_ReceivedBytes :: "64 word"
  st_SentFrames :: "64 word"
  st_SentBytes :: "64 word"
  st_ProtocolErrors :: "64 word"
  st_QueueOverflows :: "64 word"
  st_InboundBackpressureWaits :: "64 word"
  st_PendingRequests :: int
  st_CanceledRequests :: int
  st_ActiveInboundStreams :: int
  st_ActiveOutboundStreams :: int
  st_InboundQueueBytes :: int
  st_InboundQueueFrames :: int
  st_OutboundQueueBytes :: int
  st_OutboundQueueFrames :: int
  st_Streams :: "PeerStreamStats list"

definition zero_stats :: PeerStreamStats where
  "zero_stats = \<lparr>ss_StreamID = 0, ss_InboundQueueBytes = 0, ss_InboundQueueFrames = 0,
     ss_OutboundQueueBytes = 0, ss_OutboundQueueFrames = 0\<rparr>"

text \<open>\<open>item := streams[id]\<close> reads the zero value when the key is absent.\<close>

definition stats_item :: "(StreamID, PeerStreamStats) gomap \<Rightarrow> StreamID \<Rightarrow> PeerStreamStats" where
  "stats_item m sid = (case mget m sid of None \<Rightarrow> zero_stats | Some x \<Rightarrow> x)"

definition stats_inbound :: "StreamID \<times> inboundStream \<Rightarrow> (StreamID, PeerStreamStats) gomap \<Rightarrow> (StreamID, PeerStreamStats) gomap" where
  "stats_inbound x m =
     (case x of (sid, s) \<Rightarrow> mput sid ((stats_item m sid)\<lparr>ss_StreamID := sid,
        ss_InboundQueueBytes := is_bytes s, ss_InboundQueueFrames := int (length (is_frames s))\<rparr>) m)"

definition stats_outbound :: "StreamID \<times> outboundStream \<Rightarrow> (StreamID, PeerStreamStats) gomap \<Rightarrow> (StreamID, PeerStreamStats) gomap" where
  "stats_outbound x m =
     (case x of (sid, s) \<Rightarrow> mput sid ((stats_item m sid)\<lparr>ss_StreamID := sid,
        ss_OutboundQueueBytes := os_bytes s, ss_OutboundQueueFrames := int (length (os_queue s))\<rparr>) m)"

definition Stats :: "'h peer \<Rightarrow> PeerStats" where
  "Stats p =
     (let streams = fold stats_outbound (p_outbound p) (fold stats_inbound (p_inbound p) []) in
      \<lparr>st_ReceivedFrames = p_receivedFrames p, st_ReceivedBytes = p_receivedBytes p,
       st_SentFrames = p_sentFrames p, st_SentBytes = p_sentBytes p,
       st_ProtocolErrors = p_protocolErrors p, st_QueueOverflows = p_queueOverflows p,
       st_InboundBackpressureWaits = p_backpressureWaits p,
       st_PendingRequests = int (length (p_pending p)), st_CanceledRequests = int (length (p_canceled p)),
       st_ActiveInboundStreams = int (length (p_inbound p)), st_ActiveOutboundStreams = int (length (p_outbound p)),
       st_InboundQueueBytes = msum is_bytes (p_inbound p),
       st_InboundQueueFrames = msum (\<lambda>s. int (length (is_frames s))) (p_inbound p),
       st_OutboundQueueBytes = p_outboundBytes p, st_OutboundQueueFrames = p_outboundFrames p,
       st_Streams = sort_key ss_StreamID (map snd streams)\<rparr>)"

section \<open>Validated configurations\<close>

definition config_ok :: "peer_config \<Rightarrow> bool" where
  "config_ok c \<longleftrightarrow>
     0 < PerStreamQueueBytes c \<and> PerStreamQueueBytes c \<le> OutboundQueueBytes c
     \<and> 0 < PerStreamQueueFrames c \<and> PerStreamQueueFrames c \<le> OutboundQueueFrames c
     \<and> 0 < MaxActiveStreams c \<and> 0 < MaxCanceledRequests c
     \<and> 0 < ControlWeight c \<and> 0 < InteractiveWeight c \<and> 0 < BulkWeight c
     \<and> QueuePolicy c \<in> {InboundQueueFail, InboundQueueBackpressure} \<and> Classify c \<noteq> None"

lemma config_okD:
  assumes "config_ok c"
  shows "0 < PerStreamQueueBytes c" "PerStreamQueueBytes c \<le> OutboundQueueBytes c"
    "0 < PerStreamQueueFrames c" "PerStreamQueueFrames c \<le> OutboundQueueFrames c"
    "0 < MaxActiveStreams c" "0 < MaxCanceledRequests c"
  using assms by (simp_all add: config_ok_def)

lemma peer_withDefaults_ok:
  assumes "peer_withDefaults c = Inr c'"
  shows "config_ok c'"
proof -
  obtain d where d: "peer_fillDefaults c = d" by blast
  show ?thesis
    using assms unfolding peer_withDefaults_def d Let_def config_ok_def
    by (auto simp: not_le split: if_splits option.splits)
qed

lemma DefaultPeerConfig_ok:
  "peer_withDefaults DefaultPeerConfig = Inr (DefaultPeerConfig\<lparr>Classify := Some defaultClassify\<rparr>)"
  by (simp add: peer_withDefaults_def peer_fillDefaults_def DefaultPeerConfig_def Let_def InboundQueueFail_def)

lemma NewPeer_fresh:
  "NewPeer conn c = Inr p \<Longrightarrow> \<exists>n c'. p = fresh_peer n c' \<and> config_ok c'"
  by (auto simp: NewPeer_def dest: peer_withDefaults_ok split: option.splits sum.splits)

text \<open>The configuration the witnesses run with.\<close>

abbreviation std_config :: peer_config where
  "std_config \<equiv> DefaultPeerConfig\<lparr>Classify := Some defaultClassify\<rparr>"

lemma std_config_ok: "config_ok std_config"
  using peer_withDefaults_ok [OF DefaultPeerConfig_ok] .

end
