(* ===== verification/Mux_Peer_Out.thy ===== *)
theory Mux_Peer_Out
  imports Mux_Peer
begin

text \<open>
  The outbound half of \<open>peer.go\<close>: the queues that \<open>send\<close> fills and \<open>takeLocked\<close> empties refine
  one FIFO queue per stream, stay within every configured limit, and the scheduler serves
  them work-conservingly and without starving a class.
\<close>

section \<open>The queues as an abstract structure\<close>

interpretation outq: byte_queue os_queue os_bytes or_bytes push_request pop_request
    "\<lambda>limit req s. os_bytes s + or_bytes req \<le> limit"
  by unfold_locales (auto simp: push_request_def pop_request_def)

text \<open>The abstraction: which requests each stream holds, oldest first.\<close>

definition queue_of :: "'h peer \<Rightarrow> StreamID \<Rightarrow> outboundRequest list" where
  "queue_of p sid = (case mget (p_outbound p) sid of None \<Rightarrow> [] | Some s \<Rightarrow> os_queue s)"

definition request_ok :: "StreamID \<Rightarrow> outboundRequest \<Rightarrow> bool" where
  "request_ok sid req \<longleftrightarrow>
     StreamID (Header (or_frame req)) = sid \<and> or_bytes req = frameBytes (or_frame req)
     \<and> or_class req \<in> {TrafficControl, TrafficInteractive, TrafficBulk}"

definition stream_ok :: "peer_config \<Rightarrow> StreamID \<Rightarrow> outboundStream \<Rightarrow> bool" where
  "stream_ok c sid s \<longleftrightarrow>
     os_id s = sid \<and> os_queue s \<noteq> []
     \<and> (\<forall>req \<in> set (os_queue s). request_ok sid req)
     \<and> os_bytes s = sum_list (map or_bytes (os_queue s))
     \<and> os_bytes s \<le> PerStreamQueueBytes c
     \<and> int (length (os_queue s)) \<le> PerStreamQueueFrames c"

abbreviation os_frames :: "outboundStream \<Rightarrow> int" where
  "os_frames s \<equiv> int (length (os_queue s))"

text \<open>The accounting of the whole structure, over the five fields it concerns.\<close>

definition outs_ok ::
    "peer_config \<Rightarrow> (StreamID, outboundStream) gomap \<Rightarrow> StreamID list \<Rightarrow> int \<Rightarrow> int \<Rightarrow> bool" where
  "outs_ok c m order bytes frames \<longleftrightarrow>
     is_map m \<and> distinct order \<and> set order = fst ` set m
     \<and> (\<forall>sid s. mget m sid = Some s \<longrightarrow> stream_ok c sid s)
     \<and> bytes = msum os_bytes m \<and> frames = msum os_frames m
     \<and> bytes \<le> OutboundQueueBytes c \<and> frames \<le> OutboundQueueFrames c
     \<and> int (length m) \<le> MaxActiveStreams c"

definition out_ok :: "'h peer \<Rightarrow> bool" where
  "out_ok p =
     outs_ok (p_config p) (p_outbound p) (p_outboundOrder p) (p_outboundBytes p) (p_outboundFrames p)"

lemma out_okD:
  assumes "out_ok p"
  shows "is_map (p_outbound p)" "distinct (p_outboundOrder p)"
    "set (p_outboundOrder p) = fst ` set (p_outbound p)"
    "mget (p_outbound p) sid = Some s \<Longrightarrow> stream_ok (p_config p) sid s"
    "p_outboundBytes p = msum os_bytes (p_outbound p)"
    "p_outboundFrames p = msum os_frames (p_outbound p)"
    "p_outboundBytes p \<le> OutboundQueueBytes (p_config p)"
    "p_outboundFrames p \<le> OutboundQueueFrames (p_config p)"
    "int (length (p_outbound p)) \<le> MaxActiveStreams (p_config p)"
  using assms by (simp_all add: out_ok_def outs_ok_def)

lemma frameBytes_pos: "0 < frameBytes f"
  by (simp add: frameBytes_def HeaderSize_def)

lemma signalLocked_fields [simp]:
  "p_config (signalLocked p) = p_config p" "p_outbound (signalLocked p) = p_outbound p"
  "p_outboundOrder (signalLocked p) = p_outboundOrder p"
  "p_outboundBytes (signalLocked p) = p_outboundBytes p"
  "p_outboundFrames (signalLocked p) = p_outboundFrames p"
  "p_pending (signalLocked p) = p_pending p" "p_canceled (signalLocked p) = p_canceled p"
  "p_canceledOrder (signalLocked p) = p_canceledOrder p"
  "p_inbound (signalLocked p) = p_inbound p" "p_workers (signalLocked p) = p_workers p"
  "p_handlers (signalLocked p) = p_handlers p" "p_closed (signalLocked p) = p_closed p"
  "p_err (signalLocked p) = p_err p" "p_done (signalLocked p) = p_done p"
  "p_responses (signalLocked p) = p_responses p" "p_results (signalLocked p) = p_results p"
  "p_chans (signalLocked p) = p_chans p" "p_next (signalLocked p) = p_next p"
  "p_ctx (signalLocked p) = p_ctx p" "p_connClosed (signalLocked p) = p_connClosed p"
  by (simp_all add: signalLocked_def)

lemma length_outbound_order:
  assumes "out_ok p"
  shows "length (p_outboundOrder p) = length (p_outbound p)"
  using out_okD(1-3) [OF assms] unfolding is_map_def by (metis distinct_card length_map set_map)

lemma out_ok_at:
  assumes "out_ok p" and "i < length (p_outboundOrder p)"
  obtains s where "mget (p_outbound p) (p_outboundOrder p ! i) = Some s"
    "stream_ok (p_config p) (p_outboundOrder p ! i) s"
proof -
  have "p_outboundOrder p ! i \<in> fst ` set (p_outbound p)"
    using assms out_okD(3) [OF assms(1)] nth_mem by blast
  then have "mget (p_outbound p) (p_outboundOrder p ! i) \<noteq> None"
    by (simp add: mget_None_keys)
  then show ?thesis using out_okD(4) [OF assms(1)] that by blast
qed

lemma queue_of_nonempty_iff:
  assumes "out_ok p"
  shows "queue_of p sid \<noteq> [] \<longleftrightarrow> sid \<in> set (p_outboundOrder p)"
  using out_okD(3,4) [OF assms]
  by (auto simp: queue_of_def stream_ok_def mget_None_keys [symmetric] split: option.splits)

lemma queue_of_request_ok:
  assumes "out_ok p" and "req \<in> set (queue_of p sid)"
  shows "request_ok sid req"
proof -
  obtain s where "mget (p_outbound p) sid = Some s" "req \<in> set (os_queue s)"
    using assms(2) by (cases "mget (p_outbound p) sid") (auto simp: queue_of_def)
  with out_okD(4) [OF assms(1)] show ?thesis by (auto simp: stream_ok_def)
qed

lemma stream_bytes_nonneg: "stream_ok c sid s \<Longrightarrow> 0 \<le> os_bytes s"
  using outq.load_nonneg [of s] frameBytes_pos
  by (auto simp: stream_ok_def request_ok_def less_imp_le)

lemma outbound_bytes_nonneg:
  assumes "out_ok p"
  shows "0 \<le> p_outboundBytes p"
proof -
  have "0 \<le> os_bytes s" if "(sid, s) \<in> set (p_outbound p)" for sid s
    using that out_okD(1,4) [OF assms] by (auto simp: mget_is_map_mem intro: stream_bytes_nonneg)
  then show ?thesis
    using msum_nonneg [of "p_outbound p" os_bytes] out_okD(5) [OF assms] by force
qed

section \<open>Queueing\<close>

lemma send_attempt_cases:
  obtains (closed) "p_closed p" "send_attempt req p = (Refused (peer_result p), p)"
  | (waits) "\<not> p_closed p" "\<not> send_fits req p" "send_attempt req p = (MustWait, p)"
  | (queued) p' where "\<not> p_closed p" "send_fits req p" "send_attempt req p = (Enqueued, p')"
  by (auto simp: send_attempt_def Let_def)

lemma send_attempt_queue:
  assumes "send_attempt req p = (Enqueued, p')"
  shows "queue_of p' sid =
    queue_of p sid @ (if sid = StreamID (Header (or_frame req)) then [req] else [])"
  using assms
  by (auto simp: send_attempt_def Let_def queue_of_def push_request_def split: if_splits option.splits)

lemma send_attempt_same:
  "send_attempt req p = (r, p') \<Longrightarrow> r \<noteq> Enqueued \<Longrightarrow> p' = p"
  by (auto simp: send_attempt_def Let_def split: if_splits)

lemma send_attempt_config:
  "send_attempt req p = (r, p') \<Longrightarrow> p_config p' = p_config p"
  by (auto simp: send_attempt_def Let_def split: if_splits option.splits)

lemma send_fits_bounds:
  assumes "send_fits req p"
  shows "or_bytes req \<le> PerStreamQueueBytes (p_config p)"
    "p_outboundBytes p + or_bytes req \<le> OutboundQueueBytes (p_config p)"
    "p_outboundFrames p + 1 \<le> OutboundQueueFrames (p_config p)"
    "mget (p_outbound p) (StreamID (Header (or_frame req))) = None \<Longrightarrow>
      int (length (p_outbound p)) < MaxActiveStreams (p_config p)"
    "mget (p_outbound p) (StreamID (Header (or_frame req))) = Some s \<Longrightarrow>
      os_bytes s + or_bytes req \<le> PerStreamQueueBytes (p_config p)
      \<and> os_frames s + 1 \<le> PerStreamQueueFrames (p_config p)"
  using assms by (auto simp: send_fits_def Let_def not_le)

lemma outs_ok_push_new:
  assumes "outs_ok c m order b n" and "mget m sid = None" and "stream_ok c sid s"
    and "b + os_bytes s \<le> OutboundQueueBytes c" and "n + os_frames s \<le> OutboundQueueFrames c"
    and "int (length m) < MaxActiveStreams c"
  shows "outs_ok c (mput sid s m) (order @ [sid]) (b + os_bytes s) (n + os_frames s)"
proof -
  have "sid \<notin> fst ` set m" using assms(2) by (simp add: mget_None_keys)
  then show ?thesis using assms by (auto simp: outs_ok_def keys_mput accounting)
qed

lemma outs_ok_change:
  assumes "outs_ok c m order b n" and "mget m sid = Some s0" and "stream_ok c sid s"
    and "b - os_bytes s0 + os_bytes s \<le> OutboundQueueBytes c"
    and "n - os_frames s0 + os_frames s \<le> OutboundQueueFrames c"
  shows "outs_ok c (mput sid s m) order (b - os_bytes s0 + os_bytes s) (n - os_frames s0 + os_frames s)"
proof -
  have "sid \<in> fst ` set m" using assms(2) mget_None_keys [of m sid] by auto
  then show ?thesis using assms by (auto simp: outs_ok_def keys_mput accounting insert_absorb)
qed

lemma send_attempt_out_ok [step_inv]:
  assumes "out_ok p" and "request_ok (StreamID (Header (or_frame req))) req"
    and "0 < PerStreamQueueFrames (p_config p)"
    and "send_attempt req p = (r, p')"
  shows "out_ok p'"
proof (cases "r = Enqueued")
  case True
  let ?sid = "StreamID (Header (or_frame req))"
  from True assms(4) have fits: "send_fits req p" and "\<not> p_closed p"
    by (auto simp: send_attempt_def split: if_splits)
  note b = send_fits_bounds [OF fits]
  show ?thesis
  proof (cases "mget (p_outbound p) ?sid")
    case None
    let ?s = "\<lparr>os_id = ?sid, os_queue = [req], os_bytes = or_bytes req\<rparr>"
    have "stream_ok (p_config p) ?sid ?s" using assms(2,3) b(1) by (simp add: stream_ok_def)
    from outs_ok_push_new [OF assms(1) [unfolded out_ok_def] None this] b(2,3) b(4) [OF None]
    have "out_ok (snd (send_attempt req p))"
      using \<open>\<not> p_closed p\<close> fits None by (simp add: send_attempt_def Let_def out_ok_def push_request_def)
    then show ?thesis by (simp add: assms(4))
  next
    case (Some s)
    have "stream_ok (p_config p) ?sid (push_request req s)"
      using out_okD(4) [OF assms(1) Some] assms(2) b(5) [OF Some]
      by (auto simp: stream_ok_def push_request_def)
    from outs_ok_change [OF assms(1) [unfolded out_ok_def] Some this] b(2,3)
    have "out_ok (snd (send_attempt req p))"
      using \<open>\<not> p_closed p\<close> fits Some
      by (simp add: send_attempt_def Let_def out_ok_def push_request_def add.commute add.left_commute)
    then show ?thesis by (simp add: assms(4))
  qed
next
  case False
  with send_attempt_same [OF assms(4)] assms(1) show ?thesis by simp
qed

section \<open>Taking one request\<close>

lemma removeIndex_set:
  assumes "distinct xs" and "i < length xs"
  shows "distinct (removeIndex i xs)" "set (removeIndex i xs) = set xs - {xs ! i}"
    "length (removeIndex i xs) = length xs - 1"
proof -
  have split: "xs = take i xs @ xs ! i # drop (Suc i) xs" using assms(2) by (rule id_take_nth_drop)
  have "distinct (take i xs @ xs ! i # drop (Suc i) xs)" using assms(1) split by simp
  then show "distinct (removeIndex i xs)" by (simp add: removeIndex_def)
  have "set xs = set (take i xs @ xs ! i # drop (Suc i) xs)" using split by simp
  with \<open>distinct (take i xs @ xs ! i # drop (Suc i) xs)\<close>
  show "set (removeIndex i xs) = set xs - {xs ! i}" by (auto simp: removeIndex_def)
  show "length (removeIndex i xs) = length xs - 1" using assms(2) by (simp add: removeIndex_def)
qed

lemma outs_ok_remove:
  assumes "outs_ok c m order b n" and "mget m sid = Some s"
    and "distinct order'" and "set order' = set order - {sid}"
  shows "outs_ok c (mdel sid m) order' (b - os_bytes s) (n - os_frames s)"
proof -
  have "stream_ok c sid s" using assms(1,2) by (simp add: outs_ok_def)
  then have "0 \<le> os_bytes s" by (rule stream_bytes_nonneg)
  moreover have "length (mdel sid m) + 1 = length m"
    using length_mdel [of m sid] assms(1,2) by (simp add: outs_ok_def)
  ultimately show ?thesis
    using assms by (auto simp: outs_ok_def keys_mdel msum_mdel)
qed

lemma head_of_class_SomeD:
  assumes "head_of_class class i p = Some (s, req, s')"
  shows "mget (p_outbound p) (p_outboundOrder p ! i) = Some s" "pop_request s = Some (req, s')"
    "or_class req = class" "os_queue s = req # os_queue s'"
    "os_bytes s = os_bytes s' + or_bytes req" "os_id s' = os_id s"
  using assms
  by (auto simp: head_of_class_def pop_request_def split: option.splits list.splits if_splits)

lemma head_of_class_queue:
  "head_of_class class i p = None \<longleftrightarrow>
     (case queue_of p (p_outboundOrder p ! i) of [] \<Rightarrow> True | req # _ \<Rightarrow> or_class req \<noteq> class)"
  by (auto simp: head_of_class_def queue_of_def pop_request_def split: option.splits list.splits)

lemma take_at_unfold:
  assumes "out_ok p" and "i < length (p_outboundOrder p)"
    and "head_of_class class i p = Some (s, req, s')"
  shows "take_at i (s, req, s') p =
    (if os_queue s' = []
     then (if length (p_outboundOrder p) = 1 then 0
           else if i + 1 = length (p_outboundOrder p) then 0 else i,
           signalLocked (p\<lparr>p_outboundBytes := p_outboundBytes p - or_bytes req,
              p_outboundFrames := p_outboundFrames p - 1,
              p_outbound := mdel (p_outboundOrder p ! i) (p_outbound p),
              p_outboundOrder := removeIndex i (p_outboundOrder p)\<rparr>))
     else ((i + 1) mod length (p_outboundOrder p),
           signalLocked (p\<lparr>p_outbound := mput (p_outboundOrder p ! i) s' (p_outbound p),
              p_outboundBytes := p_outboundBytes p - or_bytes req,
              p_outboundFrames := p_outboundFrames p - 1\<rparr>)))"
proof -
  note h = head_of_class_SomeD [OF assms(3)]
  have "os_id s' = p_outboundOrder p ! i"
    using out_okD(4) [OF assms(1) h(1)] h(6) by (simp add: stream_ok_def)
  moreover have "removeIndex i (p_outboundOrder p) = [] \<longleftrightarrow> length (p_outboundOrder p) = 1"
    using removeIndex_set(3) [OF out_okD(2) [OF assms(1)] assms(2)] assms(2)
    by (cases "removeIndex i (p_outboundOrder p)") auto
  moreover have "(i + 1) mod length (p_outboundOrder p) =
      (if i + 1 = length (p_outboundOrder p) then 0 else i + 1)" using assms(2) by simp
  ultimately show ?thesis by (simp add: take_at_def Let_def delete_update_same)
qed

lemma take_at_out_ok:
  assumes "out_ok p" and "i < length (p_outboundOrder p)"
    and "head_of_class class i p = Some (s, req, s')"
  shows "out_ok (snd (take_at i (s, req, s') p))"
proof -
  let ?sid = "p_outboundOrder p ! i"
  note h = head_of_class_SomeD [OF assms(3)]
  note ok = assms(1) [unfolded out_ok_def]
  have s: "stream_ok (p_config p) ?sid s" using out_okD(4) [OF assms(1) h(1)] .
  note r = removeIndex_set [OF out_okD(2) [OF assms(1)] assms(2)]
  show ?thesis
  proof (cases "os_queue s' = []")
    case True
    then have "os_bytes s = or_bytes req" "os_frames s = 1" using s h(4) by (simp_all add: stream_ok_def)
    with outs_ok_remove [OF ok h(1) r(1,2)] True show ?thesis
      by (simp add: take_at_unfold [OF assms] out_ok_def)
  next
    case False
    have pos: "0 < or_bytes req" using s h(4) frameBytes_pos by (simp add: stream_ok_def request_ok_def)
    then have "stream_ok (p_config p) ?sid s'" using s h(4-6) False by (simp add: stream_ok_def)
    from outs_ok_change [OF ok h(1) this] pos h(4,5) out_okD(7,8) [OF assms(1)] False
    show ?thesis by (simp add: take_at_unfold [OF assms] out_ok_def algebra_simps)
  qed
qed

lemma take_at_queue:
  assumes "out_ok p" and "i < length (p_outboundOrder p)"
    and "head_of_class class i p = Some (s, req, s')" and "take_at i (s, req, s') p = (next, p')"
  shows "queue_of p (p_outboundOrder p ! i) = req # queue_of p' (p_outboundOrder p ! i)"
    "sid \<noteq> p_outboundOrder p ! i \<Longrightarrow> queue_of p' sid = queue_of p sid"
  using head_of_class_SomeD [OF assms(3)] assms(4) take_at_unfold [OF assms(1-3)]
  by (auto simp: queue_of_def split: if_splits)

text \<open>Whether some stream could send a request of a class now.\<close>

definition available :: "'h peer \<Rightarrow> TrafficClass \<Rightarrow> bool" where
  "available p cl \<longleftrightarrow>
     (\<exists>sid \<in> set (p_outboundOrder p).
        \<not> (case queue_of p sid of [] \<Rightarrow> True | req # _ \<Rightarrow> or_class req \<noteq> cl))"

lemma available_head:
  "available p cl \<longleftrightarrow>
     (\<exists>i < length (p_outboundOrder p). head_of_class cl i p \<noteq> None)"
  unfolding available_def head_of_class_queue set_conv_nth by blast

lemma take_loop_None:
  assumes "take_loop cl cursor checked p = (None, nx, p')"
  shows "nx = cursor \<and> p' = p
    \<and> (\<forall>k < length (p_outboundOrder p). checked \<le> k \<longrightarrow>
         head_of_class cl ((cursor + k) mod length (p_outboundOrder p)) p = None)"
  using assms
proof (induction cl cursor checked p rule: take_loop.induct)
  case (1 cl cursor checked p)
  let ?i = "(cursor + checked) mod length (p_outboundOrder p)"
  show ?case
  proof (cases "checked < length (p_outboundOrder p)")
    case True
    with "1.prems" have none: "head_of_class cl ?i p = None"
      by (subst (asm) take_loop.simps) (auto simp: Let_def split: option.splits prod.splits)
    with True "1.prems" have "take_loop cl cursor (checked + 1) p = (None, nx, p')"
      by (subst (asm) take_loop.simps) simp
    from "1.IH" [OF True refl none this] none show ?thesis
      by (metis Suc_eq_plus1 Suc_leI le_neq_implies_less)
  next
    case False
    with "1.prems" show ?thesis by (subst (asm) take_loop.simps) auto
  qed
qed

lemma take_loop_Some:
  assumes "take_loop cl cursor checked p = (Some req, nx, p')"
  shows "\<exists>i s s'. i < length (p_outboundOrder p) \<and> head_of_class cl i p = Some (s, req, s')
    \<and> take_at i (s, req, s') p = (nx, p')"
  using assms
proof (induction cl cursor checked p rule: take_loop.induct)
  case (1 cl cursor checked p)
  let ?i = "(cursor + checked) mod length (p_outboundOrder p)"
  have less: "checked < length (p_outboundOrder p)"
    using "1.prems" by (subst (asm) take_loop.simps) (auto split: if_splits)
  then have i: "?i < length (p_outboundOrder p)" by (intro mod_less_divisor) linarith
  show ?case
  proof (cases "head_of_class cl ?i p")
    case None
    with less "1.prems" have "take_loop cl cursor (checked + 1) p = (Some req, nx, p')"
      by (subst (asm) take_loop.simps) simp
    from "1.IH" [OF less refl None this] show ?thesis .
  next
    case (Some x)
    obtain s r s' where x: "x = (s, r, s')" by (cases x)
    with less Some "1.prems" have "r = req" "take_at ?i x p = (nx, p')"
      by (subst (asm) take_loop.simps; simp split: prod.splits)+
    with Some x i show ?thesis by blast
  qed
qed

lemma mod_covers:
  fixes n :: nat
  assumes "i < n"
  shows "\<exists>k < n. (cursor + k) mod n = i"
proof -
  let ?k = "(i + n * cursor - cursor) mod n"
  have "cursor \<le> n * cursor" using assms by (cases n) simp_all
  then have "(cursor + ?k) mod n = (cursor + (i + n * cursor - cursor)) mod n"
    by (simp add: mod_add_right_eq)
  also have "cursor + (i + n * cursor - cursor) = i + n * cursor"
    using \<open>cursor \<le> n * cursor\<close> by linarith
  also have "(i + n * cursor) mod n = i" using assms by simp
  finally show ?thesis using assms by (intro exI [of _ ?k]) simp
qed

lemma takeLocked_None:
  assumes "takeLocked cl cursor p = (None, nx, p')"
  shows "p' = p" "\<not> available p cl"
proof -
  have "p' = p \<and> (\<forall>i < length (p_outboundOrder p). head_of_class cl i p = None)"
  proof (cases "p_outboundOrder p = []")
    case False
    with assms have loop: "take_loop cl cursor 0 p = (None, nx, p')" by (simp add: takeLocked_def)
    have "head_of_class cl i p = None" if "i < length (p_outboundOrder p)" for i
      using take_loop_None [OF loop] mod_covers [OF that, of cursor] by auto
    with take_loop_None [OF loop] show ?thesis by blast
  qed (use assms in \<open>simp add: takeLocked_def\<close>)
  then show "p' = p" "\<not> available p cl" by (auto simp: available_head)
qed

lemma takeLocked_Some:
  assumes "takeLocked cl cursor p = (Some req, nx, p')"
  obtains i s s' where "i < length (p_outboundOrder p)"
    "head_of_class cl i p = Some (s, req, s')" "take_at i (s, req, s') p = (nx, p')"
proof -
  have "take_loop cl cursor 0 p = (Some req, nx, p')"
    using assms by (auto simp: takeLocked_def split: if_splits)
  from take_loop_Some [OF this] show ?thesis using that by blast
qed

lemma takeLocked_available:
  "fst (takeLocked cl cursor p) \<noteq> None \<longleftrightarrow> available p cl"
proof (cases "takeLocked cl cursor p")
  case (fields r nx p')
  show ?thesis
  proof (cases r)
    case None
    then show ?thesis using takeLocked_None [of cl cursor p nx p'] fields by simp
  next
    case (Some req)
    with fields have "takeLocked cl cursor p = (Some req, nx, p')" by simp
    then show ?thesis by (elim takeLocked_Some) (auto simp: fields Some available_head)
  qed
qed

section \<open>The scheduler\<close>

text \<open>
  What the scan loop decides, seen from outside: a weighted round robin over three classes that
  only knows which classes have something to send. A state is the class in turn and its credit.
\<close>

fun wrr_scan :: "(nat \<Rightarrow> int) \<Rightarrow> (nat \<Rightarrow> bool) \<Rightarrow> nat \<Rightarrow> nat \<times> int \<Rightarrow> nat option \<times> nat \<times> int" where
  "wrr_scan w a 0 st = (None, st)"
| "wrr_scan w a (Suc scans) (i, credit) =
     (let c = (if credit = 0 then w i else credit) in
      if a i then (Some i, if c - 1 = 0 then ((i + 1) mod 3, 0) else (i, c - 1))
      else wrr_scan w a scans ((i + 1) mod 3, 0))"

abbreviation wrr_state :: "sched \<Rightarrow> nat \<times> int" where
  "wrr_state sc \<equiv> (sc_classIndex sc, sc_credit sc)"

abbreviation wrr_weight :: "peer_config \<Rightarrow> nat \<Rightarrow> int" where
  "wrr_weight c i \<equiv> class_weight c (sched_classes ! i)"

abbreviation wrr_avail :: "'h peer \<Rightarrow> nat \<Rightarrow> bool" where
  "wrr_avail p i \<equiv> available p (sched_classes ! i)"

lemma length_sched_classes [simp]: "length sched_classes = 3"
  by (simp add: sched_classes_def)

text \<open>The code's scan refines it, whichever stream the cursor points at.\<close>

lemma schedule_scan_wrr:
  assumes "schedule_scan n sc p = (r, sc', p')"
  shows "case wrr_scan (wrr_weight (p_config p)) (wrr_avail p) n (wrr_state sc) of
    (None, st) \<Rightarrow> r = None \<and> wrr_state sc' = st \<and> p' = p
  | (Some i, st) \<Rightarrow> wrr_state sc' = st \<and>
      (\<exists>req cursor nx. r = Some req \<and> takeLocked (sched_classes ! i) cursor p = (Some req, nx, p'))"
  using assms
proof (induction n arbitrary: sc)
  case (Suc n sc)
  let ?cl = "sched_classes ! sc_classIndex sc"
  obtain r1 cursor p1 where t: "takeLocked ?cl (sc_cursor sc) p = (r1, cursor, p1)"
    by (cases "takeLocked ?cl (sc_cursor sc) p") auto
  show ?case
  proof (cases r1)
    case None
    with t have p1: "p1 = p" and "\<not> available p ?cl"
      using takeLocked_None [of ?cl "sc_cursor sc" p cursor p1] by simp_all
    moreover have "schedule_scan n \<lparr>sc_classIndex = (sc_classIndex sc + 1) mod 3,
        sc_credit = 0, sc_cursor = cursor\<rparr> p = (r, sc', p')"
      using Suc.prems t None p1 by (simp add: Let_def)
    ultimately show ?thesis
      using Suc.IH by (force simp: Let_def)
  next
    case (Some req)
    then have "available p ?cl" using takeLocked_available [of ?cl "sc_cursor sc" p] t by simp
    with Suc.prems t Some show ?thesis by (auto simp: Let_def split: if_splits)
  qed
qed simp

text \<open>
  Picks a class may still have to wait for: nothing when it is in turn, else the credit left in
  the current turn and the full turns in between.
\<close>

definition wrr_distance :: "(nat \<Rightarrow> int) \<Rightarrow> nat \<Rightarrow> nat \<times> int \<Rightarrow> int" where
  "wrr_distance w k st =
     (case st of (i, credit) \<Rightarrow>
        if i = k then 0
        else (if credit = 0 then w i else credit)
             + (if (i + 1) mod 3 = k then 0 else w ((i + 1) mod 3)))"

definition wrr_ok :: "(nat \<Rightarrow> int) \<Rightarrow> nat \<times> int \<Rightarrow> bool" where
  "wrr_ok w st \<longleftrightarrow> fst st < 3 \<and> 0 \<le> snd st \<and> snd st \<le> w (fst st)"

lemma less3_cases: "(i::nat) < 3 \<Longrightarrow> i = 0 \<or> i = 1 \<or> i = 2"
  by auto

lemma all_less_3: "(\<forall>i < 3. P i) \<longleftrightarrow> P 0 \<and> P 1 \<and> P (2::nat)"
  by (auto dest: less3_cases)

lemma wrr_skip:
  assumes "\<forall>i < 3. 0 < w i" and "wrr_ok w (i, credit)"
  shows "wrr_ok w ((i + 1) mod 3, 0)"
    "k < 3 \<Longrightarrow> i \<noteq> k \<Longrightarrow>
       wrr_distance w k ((i + 1) mod 3, 0) \<le> wrr_distance w k (i, credit) - 1"
proof -
  show "wrr_ok w ((i + 1) mod 3, 0)" using assms(1) by (simp add: wrr_ok_def less_imp_le)
  assume k: "k < 3" "i \<noteq> k"
  have i: "i < 3" "0 \<le> credit" using assms(2) by (simp_all add: wrr_ok_def)
  let ?c = "if credit = 0 then w i else credit"
  have "1 \<le> ?c" using assms(1) i by auto
  moreover have "(i + 1) mod 3 = k \<or> ((i + 1) mod 3 + 1) mod 3 = k"
    using less3_cases [OF i(1)] less3_cases [OF k(1)] k(2) by auto
  ultimately show "wrr_distance w k ((i + 1) mod 3, 0) \<le> wrr_distance w k (i, credit) - 1"
    using k(2) by (simp add: wrr_distance_def split del: if_split) (auto split: if_splits)
qed

lemma wrr_use:
  assumes "\<forall>i < 3. 0 < w i" and "wrr_ok w (i, credit)"
    and "c = (if credit = 0 then w i else credit)" and "c - 1 \<noteq> 0"
  shows "wrr_ok w (i, c - 1)"
    "i = k \<or> wrr_distance w k (i, c - 1) < wrr_distance w k (i, credit)"
  using assms by (auto simp: wrr_ok_def wrr_distance_def)

lemma wrr_scan_step:
  assumes "\<forall>i < 3. 0 < w i" and "wrr_ok w st" and "wrr_scan w a n st = (r, st')"
  shows "wrr_ok w st' \<and>
    (\<forall>j. r = Some j \<longrightarrow> j < 3 \<and> a j
       \<and> (\<forall>k < 3. a k \<longrightarrow> j = k \<or> wrr_distance w k st' < wrr_distance w k st))"
  using assms(2,3)
proof (induction n arbitrary: st)
  case (Suc n)
  obtain i credit where st: "st = (i, credit)" by (cases st)
  let ?c = "if credit = 0 then w i else credit"
  note ok = Suc.prems(1) [unfolded st]
  show ?case
  proof (cases "a i")
    case False
    have "wrr_scan w a n ((i + 1) mod 3, 0) = (r, st')"
      using Suc.prems(2) st False by (simp add: Let_def)
    note rec = Suc.IH [OF wrr_skip(1) [OF assms(1) ok] this]
    have "wrr_distance w k ((i + 1) mod 3, 0) < wrr_distance w k st" if "k < 3" "a k" for k
      using wrr_skip(2) [OF assms(1) ok that(1)] that(2) False st by auto
    with rec show ?thesis by (blast intro: less_trans)
  next
    case True
    have r: "r = Some i" using Suc.prems(2) st True by (simp add: Let_def)
    show ?thesis
    proof (cases "?c - 1 = 0")
      case last: True
      then have "st' = ((i + 1) mod 3, 0)" using Suc.prems(2) st True by (simp add: Let_def)
      with wrr_skip [OF assms(1) ok] r True st ok show ?thesis by (auto simp: wrr_ok_def)
    next
      case more: False
      then have "st' = (i, ?c - 1)" using Suc.prems(2) st True by (simp add: Let_def)
      with wrr_use [OF assms(1) ok refl more] r True st ok show ?thesis by (auto simp: wrr_ok_def)
    qed
  qed
qed simp

lemma wrr_scan_None:
  assumes "i < 3"
  shows "fst (wrr_scan w a n (i, credit)) = None \<longleftrightarrow> (\<forall>m < n. \<not> a ((i + m) mod 3))"
  using assms
proof (induction n arbitrary: i credit)
  case (Suc n)
  have shift: "(Suc i mod 3 + m) mod 3 = (i + Suc m) mod 3" for m by (simp add: mod_add_left_eq)
  have "(\<forall>m < Suc n. \<not> a ((i + m) mod 3)) \<longleftrightarrow> \<not> a i \<and> (\<forall>m < n. \<not> a ((i + Suc m) mod 3))"
    using Suc.prems by (simp only: All_less_Suc2) simp
  with Suc.IH [of "Suc i mod 3" 0] shift show ?case by (simp add: Let_def)
qed simp

lemma wrr_scan_finds:
  assumes "fst st < 3"
  shows "fst (wrr_scan w a 6 st) \<noteq> None \<longleftrightarrow> (\<exists>k < 3. a k)"
proof -
  obtain i credit where st: "st = (i, credit)" by (cases st)
  have "(\<exists>m < 6. a ((i + m) mod 3)) \<longleftrightarrow> (\<exists>k < 3. a k)"
  proof
    assume "\<exists>k < 3. a k"
    then obtain k where k: "k < 3" "a k" by blast
    from mod_covers [OF k(1), of i] obtain m where "m < 3" "(i + m) mod 3 = k" by blast
    with k show "\<exists>m < 6. a ((i + m) mod 3)" by (intro exI [of _ m]) simp
  qed (meson mod_less_divisor zero_less_numeral)
  with wrr_scan_None [of i w a 6 credit] assms st show ?thesis by simp
qed

lemma wrr_distance_bound:
  assumes "wrr_ok w st" and "k < 3" and "\<forall>i < 3. 0 < w i"
  shows "wrr_distance w k st \<le> w 0 + w 1 + w 2 - w k"
proof -
  obtain i credit where st: "st = (i, credit)" by (cases st)
  have i: "i < 3" using assms(1) st by (simp add: wrr_ok_def)
  define c where "c = (if credit = 0 then w i else credit)"
  have c: "c \<le> w i" using assms(1) st by (simp add: wrr_ok_def c_def)
  have w: "0 < w 0" "0 < w 1" "0 < w 2" using assms(3) by simp_all
  have "wrr_distance w k st =
      (if i = k then 0 else c + (if (i + 1) mod 3 = k then 0 else w ((i + 1) mod 3)))"
    by (simp add: wrr_distance_def st c_def)
  also have "\<dots> \<le> w 0 + w 1 + w 2 - w k"
    using less3_cases [OF i] less3_cases [OF assms(2)] c w
    by (elim disjE) (simp_all add: numeral_2_eq_2)
  finally show ?thesis .
qed

definition sched_ok :: "peer_config \<Rightarrow> sched \<Rightarrow> bool" where
  "sched_ok c sc = wrr_ok (wrr_weight c) (wrr_state sc)"

lemma sched_start_ok: "config_ok c \<Longrightarrow> sched_ok c \<lparr>sc_classIndex = 0, sc_credit = 0, sc_cursor = n\<rparr>"
  by (simp add: sched_ok_def wrr_ok_def config_ok_def sched_classes_def class_weight_def)

lemma weights_pos: "config_ok c \<Longrightarrow> \<forall>i < 3. 0 < wrr_weight c i"
  by (simp add: config_ok_def class_weight_def sched_classes_def TrafficControl_def
      TrafficInteractive_def TrafficBulk_def all_less_3)

lemma weights_sum:
  "wrr_weight c 0 + wrr_weight c 1 + wrr_weight c 2 = ControlWeight c + InteractiveWeight c + BulkWeight c"
  by (simp add: class_weight_def sched_classes_def TrafficControl_def
      TrafficInteractive_def TrafficBulk_def)

lemma ex_less_3: "(\<exists>i < 3. P i) \<longleftrightarrow> P 0 \<or> P 1 \<or> P (2::nat)"
  using all_less_3 [of "\<lambda>i. \<not> P i"] by blast

lemma class_index:
  "cl \<in> {TrafficControl, TrafficInteractive, TrafficBulk} \<longleftrightarrow> (\<exists>k < 3. cl = sched_classes ! k)"
  by (simp add: sched_classes_def ex_less_3)

lemma schedule_pick_wrr:
  assumes "config_ok (p_config p)" and "sched_ok (p_config p) sc"
    and "schedule_pick sc p = (r, sc', p')"
  shows "sched_ok (p_config p) sc'"
    "r = None \<longleftrightarrow> \<not> (\<exists>k < 3. wrr_avail p k)"
    "r = None \<Longrightarrow> p' = p"
    "r = Some req \<Longrightarrow> \<exists>j < 3. (\<exists>cursor nx. takeLocked (sched_classes ! j) cursor p = (Some req, nx, p'))
       \<and> (\<forall>k < 3. wrr_avail p k \<longrightarrow> j = k \<or>
            wrr_distance (wrr_weight (p_config p)) k (wrr_state sc')
              < wrr_distance (wrr_weight (p_config p)) k (wrr_state sc))"
proof -
  let ?w = "wrr_weight (p_config p)"
  obtain x st where scan: "wrr_scan ?w (wrr_avail p) 6 (wrr_state sc) = (x, st)"
    by (cases "wrr_scan ?w (wrr_avail p) 6 (wrr_state sc)") auto
  have "schedule_scan 6 sc p = (r, sc', p')" using assms(3) by (simp add: schedule_pick_def)
  from schedule_scan_wrr [OF this] scan
  have ref: "case x of None \<Rightarrow> r = None \<and> wrr_state sc' = st \<and> p' = p
    | Some i \<Rightarrow> wrr_state sc' = st \<and>
      (\<exists>req cursor nx. r = Some req \<and> takeLocked (sched_classes ! i) cursor p = (Some req, nx, p'))"
    by (cases x) auto
  have ok: "wrr_ok ?w (wrr_state sc)" using assms(2) by (simp add: sched_ok_def)
  note step = wrr_scan_step [OF weights_pos [OF assms(1)] ok scan]
  show "sched_ok (p_config p) sc'" using ref step by (cases x) (auto simp: sched_ok_def)
  have "x = None \<longleftrightarrow> \<not> (\<exists>k < 3. wrr_avail p k)"
    using wrr_scan_finds [of "wrr_state sc" ?w "wrr_avail p"] scan ok by (auto simp: wrr_ok_def)
  then show "r = None \<longleftrightarrow> \<not> (\<exists>k < 3. wrr_avail p k)" using ref by (cases x) auto
  show "r = None \<Longrightarrow> p' = p" using ref by (cases x) auto
  show "r = Some req \<Longrightarrow> \<exists>j < 3. (\<exists>cursor nx. takeLocked (sched_classes ! j) cursor p = (Some req, nx, p'))
       \<and> (\<forall>k < 3. wrr_avail p k \<longrightarrow> j = k \<or>
            wrr_distance ?w k (wrr_state sc') < wrr_distance ?w k (wrr_state sc))"
    using ref step by (cases x) auto
qed

text \<open>
  The scheduler over time: \<open>ps\<close> are the states the peer is in at its successive picks, which
  senders, handlers and a failing transport may have changed in between.
\<close>

fun sched_run :: "sched \<Rightarrow> 'h peer list \<Rightarrow> outboundRequest option list \<times> sched" where
  "sched_run sc [] = ([], sc)"
| "sched_run sc (p # ps) =
     (case schedule_pick sc p of (r, sc', p') \<Rightarrow>
        (case sched_run sc' ps of (rs, sc'') \<Rightarrow> (r # rs, sc'')))"

lemma sched_run_append:
  "sched_run sc (ps @ qs) =
     (case sched_run sc ps of (rs, sc') \<Rightarrow>
        (case sched_run sc' qs of (rs', sc'') \<Rightarrow> (rs @ rs', sc'')))"
  by (induction sc ps rule: sched_run.induct) (auto split: prod.splits)

lemma takeLocked_class:
  "takeLocked cl cursor p = (Some req, nx, p') \<Longrightarrow> or_class req = cl"
  by (elim takeLocked_Some) (auto dest: head_of_class_SomeD)

lemma takeLocked_queue:
  assumes "out_ok p" and "takeLocked cl cursor p = (Some req, nx, p')"
  shows "out_ok p' \<and> (\<exists>sid. queue_of p sid = req # queue_of p' sid
    \<and> (\<forall>other. other \<noteq> sid \<longrightarrow> queue_of p' other = queue_of p other))"
proof -
  from takeLocked_Some [OF assms(2)] obtain i s s' where i: "i < length (p_outboundOrder p)"
    "head_of_class cl i p = Some (s, req, s')" "take_at i (s, req, s') p = (nx, p')" .
  from take_at_out_ok [OF assms(1) i(1,2)] take_at_queue [OF assms(1) i] i(3) show ?thesis by auto
qed

lemma sched_run_serves:
  assumes "config_ok c" and "k < 3" and "sched_ok c sc"
    and "\<forall>p \<in> set ps. p_config p = c \<and> wrr_avail p k"
    and "wrr_distance (wrr_weight c) k (wrr_state sc) < int (length ps)"
  shows "\<exists>req. Some req \<in> set (fst (sched_run sc ps)) \<and> or_class req = sched_classes ! k"
  using assms(3-5)
proof (induction ps arbitrary: sc)
  case Nil
  have "0 \<le> wrr_distance (wrr_weight c) k (wrr_state sc)"
    using Nil.prems(1) weights_pos [OF assms(1)]
    by (auto simp: wrr_distance_def sched_ok_def wrr_ok_def less_imp_le)
  with Nil.prems(3) show ?case by simp
next
  case (Cons p ps)
  have c: "p_config p = c" and av: "wrr_avail p k" using Cons.prems(2) by auto
  obtain r sc' p' where pick: "schedule_pick sc p = (r, sc', p')" by (cases "schedule_pick sc p") auto
  note w = schedule_pick_wrr [OF assms(1) [folded c] Cons.prems(1) [folded c] pick]
  from w(2) av assms(2) obtain req where r: "r = Some req" by blast
  from w(4) [OF r] obtain j cursor nx where
    j: "takeLocked (sched_classes ! j) cursor p = (Some req, nx, p')"
    "j = k \<or> wrr_distance (wrr_weight c) k (wrr_state sc') < wrr_distance (wrr_weight c) k (wrr_state sc)"
    using av assms(2) c by blast
  show ?case
  proof (cases "j = k")
    case True
    then show ?thesis using takeLocked_class [OF j(1)] pick r by (auto split: prod.splits)
  next
    case False
    with j(2) Cons.prems(3) have "wrr_distance (wrr_weight c) k (wrr_state sc') < int (length ps)" by simp
    from Cons.IH [OF w(1) [unfolded c] _ this] Cons.prems(2) pick show ?thesis
      by (auto split: prod.splits)
  qed
qed

lemma sched_turn:
  assumes "config_ok c" and "sched_ok c sc" and "p_config p = c" and "wrr_avail p (sc_classIndex sc)"
    and "m = (if sc_credit sc = 0 then wrr_weight c (sc_classIndex sc) else sc_credit sc)"
    and "schedule_pick sc p = (r, sc', p')"
  shows "map_option or_class r = Some (sched_classes ! sc_classIndex sc)"
    "wrr_state sc' = (if m = 1 then ((sc_classIndex sc + 1) mod 3, 0) else (sc_classIndex sc, m - 1))"
proof -
  obtain n where n: "length sched_classes * 2 = Suc n" by (cases "length sched_classes * 2") auto
  have "schedule_scan (Suc n) sc p = (r, sc', p')" using assms(6) by (simp add: schedule_pick_def n [symmetric])
  moreover have "wrr_scan (wrr_weight (p_config p)) (wrr_avail p) (Suc n) (wrr_state sc) =
      (Some (sc_classIndex sc),
       if m = 1 then ((sc_classIndex sc + 1) mod 3, 0) else (sc_classIndex sc, m - 1))"
    using assms(3-5) by (simp add: Let_def)
  ultimately have "wrr_state sc' =
      (if m = 1 then ((sc_classIndex sc + 1) mod 3, 0) else (sc_classIndex sc, m - 1))
    \<and> (\<exists>req cursor nx. r = Some req \<and>
         takeLocked (sched_classes ! sc_classIndex sc) cursor p = (Some req, nx, p'))"
    using schedule_scan_wrr [of "Suc n" sc p r sc' p'] by simp
  then show "map_option or_class r = Some (sched_classes ! sc_classIndex sc)"
    "wrr_state sc' = (if m = 1 then ((sc_classIndex sc + 1) mod 3, 0) else (sc_classIndex sc, m - 1))"
    using takeLocked_class by auto
qed

lemma sched_turn_run:
  assumes "config_ok c" and "sched_ok c sc"
    and "\<forall>p \<in> set ps. p_config p = c \<and> wrr_avail p (sc_classIndex sc)"
    and "int (length ps) = (if sc_credit sc = 0 then wrr_weight c (sc_classIndex sc) else sc_credit sc)"
  shows "map (map_option or_class) (fst (sched_run sc ps))
      = replicate (length ps) (Some (sched_classes ! sc_classIndex sc))
    \<and> wrr_state (snd (sched_run sc ps)) = ((sc_classIndex sc + 1) mod 3, 0)"
  using assms(2-4)
proof (induction ps arbitrary: sc)
  case Nil
  then show ?case using weights_pos [OF assms(1)]
    by (auto simp: sched_ok_def wrr_ok_def split: if_splits)
next
  case (Cons p ps)
  obtain r sc' p' where pick: "schedule_pick sc p = (r, sc', p')" by (cases "schedule_pick sc p") auto
  have c: "p_config p = c" and av: "wrr_avail p (sc_classIndex sc)" using Cons.prems(2) by auto
  note t = sched_turn [OF assms(1) Cons.prems(1) c av refl pick, folded Cons.prems(3)]
  have ok: "sched_ok c sc'"
    using schedule_pick_wrr(1) [OF _ _ pick] assms(1) Cons.prems(1) c by simp
  show ?case
  proof (cases "ps = []")
    case True
    with t pick show ?thesis by simp
  next
    case False
    then have same: "sc_classIndex sc' = sc_classIndex sc" "sc_credit sc' = int (length ps)"
      using t(2) by (cases ps; simp)+
    then have "int (length ps) = (if sc_credit sc' = 0 then wrr_weight c (sc_classIndex sc') else sc_credit sc')"
      using False by simp
    from Cons.IH [OF ok _ this] Cons.prems(2) same t pick show ?thesis
      by (auto split: prod.splits)
  qed
qed

lemma sched_full_turn:
  assumes "config_ok c" and "i < 3" and "sc_classIndex sc = i" and "sc_credit sc = 0"
    and "\<forall>p \<in> set ps. p_config p = c \<and> wrr_avail p i" and "int (length ps) = wrr_weight c i"
    and "sched_run sc ps = (rs, sc')"
  shows "map (map_option or_class) rs = replicate (length ps) (Some (sched_classes ! i))"
    "sc_classIndex sc' = (i + 1) mod 3" "sc_credit sc' = 0"
proof -
  have "sched_ok c sc"
    using assms(2-4) weights_pos [OF assms(1)] by (simp add: sched_ok_def wrr_ok_def less_imp_le)
  from sched_turn_run [OF assms(1) this, of ps] assms(3-7)
  show "map (map_option or_class) rs = replicate (length ps) (Some (sched_classes ! i))"
    "sc_classIndex sc' = (i + 1) mod 3" "sc_credit sc' = 0" by auto
qed

section \<open>One cursor for three classes\<close>

text \<open>
  The cursor of \<open>takeLocked\<close> is shared by the three classes. The shape below is a backlog of an
  interactive stream 1 and of two bulk streams 2 and 3, as seen at every pick.
\<close>

definition shared_backlog :: "'h peer \<Rightarrow> bool" where
  "shared_backlog p \<longleftrightarrow>
     p_outboundOrder p = [1, 2, 3]
     \<and> (\<exists>r r' rest. queue_of p 1 = r # r' # rest \<and> or_class r = TrafficInteractive)
     \<and> (\<exists>r r' rest. queue_of p 2 = r # r' # rest \<and> or_class r = TrafficBulk)
     \<and> (\<exists>r rest. queue_of p 3 = r # rest \<and> or_class r = TrafficBulk)"

definition shared_cursor :: "sched \<Rightarrow> bool" where
  "shared_cursor sc \<longleftrightarrow>
     sc_cursor sc < 3 \<and> (sc_classIndex sc = 0 \<or> sc_classIndex sc = 1
       \<or> sc_classIndex sc = 2 \<and> sc_cursor sc = 1 \<and> sc_credit sc = 0)"

lemma queue_of_stream:
  assumes "queue_of p sid = req # rest"
  obtains s where "mget (p_outbound p) sid = Some s" "os_queue s = req # rest"
    "pop_request s = Some (req, s\<lparr>os_queue := rest, os_bytes := os_bytes s - or_bytes req\<rparr>)"
  using assms by (auto simp: queue_of_def pop_request_def split: option.splits)

lemma head_of_queue:
  assumes "queue_of p (p_outboundOrder p ! i) = r # rest"
  shows "or_class r \<noteq> cl \<Longrightarrow> head_of_class cl i p = None"
    "or_class r = cl \<Longrightarrow> rest \<noteq> [] \<Longrightarrow> \<exists>x p'. head_of_class cl i p = Some x \<and> fst (snd x) = r
       \<and> take_at i x p = ((i + 1) mod length (p_outboundOrder p), p')"
proof -
  obtain s where s: "mget (p_outbound p) (p_outboundOrder p ! i) = Some s"
    "pop_request s = Some (r, s\<lparr>os_queue := rest, os_bytes := os_bytes s - or_bytes r\<rparr>)"
    using queue_of_stream [OF assms] .
  show "or_class r \<noteq> cl \<Longrightarrow> head_of_class cl i p = None"
    by (simp add: head_of_class_def s)
  show "or_class r = cl \<Longrightarrow> rest \<noteq> [] \<Longrightarrow> \<exists>x p'. head_of_class cl i p = Some x \<and> fst (snd x) = r
       \<and> take_at i x p = ((i + 1) mod length (p_outboundOrder p), p')"
    by (simp add: head_of_class_def s take_at_def Let_def)
qed

lemma take_loop_hit:
  "checked < length (p_outboundOrder p) \<Longrightarrow>
   head_of_class cl ((cursor + checked) mod length (p_outboundOrder p)) p = Some x \<Longrightarrow>
   take_at ((cursor + checked) mod length (p_outboundOrder p)) x p = (nx, p') \<Longrightarrow>
   take_loop cl cursor checked p = (Some (fst (snd x)), nx, p')"
  by (subst take_loop.simps) simp

lemma take_loop_miss:
  "checked < length (p_outboundOrder p) \<Longrightarrow>
   head_of_class cl ((cursor + checked) mod length (p_outboundOrder p)) p = None \<Longrightarrow>
   take_loop cl cursor checked p = take_loop cl cursor (Suc checked) p"
  by (subst take_loop.simps) simp

lemma backlog_takes:
  assumes "shared_backlog p"
  shows "takeLocked TrafficControl cursor p = (None, cursor, p)"
    "cursor < 3 \<Longrightarrow> \<exists>p'. takeLocked TrafficInteractive cursor p = (Some (hd (queue_of p 1)), 1, p')"
    "\<exists>p'. takeLocked TrafficBulk 1 p = (Some (hd (queue_of p 2)), 2, p')"
proof -
  from assms obtain r1 r1' t1 r2 r2' t2 r3 t3 where order: "p_outboundOrder p = [1, 2, 3]"
    and q1: "queue_of p (p_outboundOrder p ! 0) = r1 # r1' # t1" "or_class r1 = TrafficInteractive"
    and q2: "queue_of p (p_outboundOrder p ! 1) = r2 # r2' # t2" "or_class r2 = TrafficBulk"
    and q3: "queue_of p (p_outboundOrder p ! 2) = r3 # t3" "or_class r3 = TrafficBulk"
    by (auto simp: shared_backlog_def)
  have ne: "TrafficInteractive \<noteq> TrafficControl" "TrafficBulk \<noteq> TrafficControl"
    "TrafficInteractive \<noteq> TrafficBulk" "TrafficBulk \<noteq> TrafficInteractive"
    by (simp_all add: TrafficControl_def TrafficInteractive_def TrafficBulk_def)
  have heads: "head_of_class TrafficControl i p = None" if "i < 3" for i
    using less3_cases [OF that] head_of_queue(1) [OF q1(1)] head_of_queue(1) [OF q2(1)]
      head_of_queue(1) [OF q3(1)] q1(2) q2(2) q3(2) ne by auto
  have "\<not> available p TrafficControl" using heads order by (auto simp: available_head)
  moreover obtain r nx p' where t: "takeLocked TrafficControl cursor p = (r, nx, p')"
    by (cases "takeLocked TrafficControl cursor p") auto
  ultimately have r: "r = None" using takeLocked_available [of TrafficControl cursor p] by simp
  then show "takeLocked TrafficControl cursor p = (None, cursor, p)"
    using takeLocked_None [OF t [unfolded r]] t take_loop_None [of TrafficControl cursor 0 p nx p'] order
    by (simp add: takeLocked_def)
  obtain x p' where x: "head_of_class TrafficInteractive 0 p = Some x" "fst (snd x) = r1" "take_at 0 x p = (1, p')"
    using head_of_queue(2) [OF q1(1), of TrafficInteractive] q1(2) order by auto
  have others: "head_of_class TrafficInteractive 1 p = None" "head_of_class TrafficInteractive 2 p = None"
    using head_of_queue(1) [OF q2(1)] head_of_queue(1) [OF q3(1)] q2(2) q3(2) ne by auto
  show "\<exists>p'. takeLocked TrafficInteractive cursor p = (Some (hd (queue_of p 1)), 1, p')" if c: "cursor < 3"
  proof -
    have zero: "take_loop TrafficInteractive 0 0 p = (Some r1, 1, p')"
      using take_loop_hit [of 0 p TrafficInteractive 0 x 1 p'] x order by simp
    have two: "take_loop TrafficInteractive 2 0 p = (Some r1, 1, p')"
      using take_loop_hit [of 1 p TrafficInteractive 2 x 1 p'] take_loop_miss [of 0 p TrafficInteractive 2]
        x others order by simp
    have "take_loop TrafficInteractive 1 0 p = take_loop TrafficInteractive 1 1 p"
      using take_loop_miss [of 0 p TrafficInteractive 1] others order by simp
    also have "\<dots> = take_loop TrafficInteractive 1 2 p"
      using take_loop_miss [of 1 p TrafficInteractive 1] others order by (simp add: numeral_2_eq_2)
    also have "\<dots> = (Some r1, 1, p')"
      using take_loop_hit [of 2 p TrafficInteractive 1 x 1 p'] x order by simp
    finally have one: "take_loop TrafficInteractive 1 0 p = (Some r1, 1, p')" .
    from less3_cases [OF c] zero one two order q1(1) show ?thesis by (auto simp: takeLocked_def)
  qed
  obtain y p'' where y: "head_of_class TrafficBulk 1 p = Some y" "fst (snd y) = r2" "take_at 1 y p = (2, p'')"
    using head_of_queue(2) [OF q2(1), of TrafficBulk] q2(2) order by auto
  show "\<exists>p'. takeLocked TrafficBulk 1 p = (Some (hd (queue_of p 2)), 2, p')"
    using y order q2(1) take_loop_hit [of 0 p TrafficBulk 1 y 2 p''] by (simp add: takeLocked_def)
qed

lemma backlog_pick:
  assumes "shared_backlog p" and "shared_cursor sc" and "BulkWeight (p_config p) = 1"
    and "schedule_pick sc p = (r, sc', p')"
  shows "shared_cursor sc' \<and> r \<in> {Some (hd (queue_of p 1)), Some (hd (queue_of p 2))}"
proof -
  obtain n where n: "length sched_classes * 2 = Suc (Suc n)" by (simp add: eval_nat_numeral)
  have scan: "schedule_scan (Suc (Suc n)) sc p = (r, sc', p')" using assms(4) by (simp only: schedule_pick_def n)
  have cl: "sched_classes ! 0 = TrafficControl" "sched_classes ! 1 = TrafficInteractive"
    "sched_classes ! 2 = TrafficBulk" by (simp_all add: sched_classes_def)
  note t = backlog_takes [OF assms(1)]
  obtain p1 where p1: "takeLocked TrafficInteractive (sc_cursor sc) p = (Some (hd (queue_of p 1)), 1, p1)"
    using t(2) assms(2) by (auto simp: shared_cursor_def)
  obtain p2 where p2: "takeLocked TrafficBulk 1 p = (Some (hd (queue_of p 2)), 2, p2)" using t(3) by blast
  consider "sc_classIndex sc = 0" | "sc_classIndex sc = 1"
    | "sc_classIndex sc = 2" "sc_cursor sc = 1" "sc_credit sc = 0"
    using assms(2) by (auto simp: shared_cursor_def)
  then show ?thesis
  proof cases
    case 1
    with scan cl(1) t(1) [of "sc_cursor sc"]
    have "schedule_scan (Suc n) \<lparr>sc_classIndex = 1, sc_credit = 0, sc_cursor = sc_cursor sc\<rparr> p = (r, sc', p')"
      by (simp add: Let_def)
    with cl(2) p1 show ?thesis by (auto simp: Let_def shared_cursor_def split: if_splits)
  next
    case 2
    with scan cl(2) p1 show ?thesis by (auto simp: Let_def shared_cursor_def split: if_splits)
  next
    case 3
    have "class_weight (p_config p) TrafficBulk = 1"
      using assms(3) by (simp add: class_weight_def TrafficControl_def TrafficInteractive_def TrafficBulk_def)
    with 3 scan cl(3) p2 show ?thesis by (auto simp: Let_def shared_cursor_def split: if_splits)
  qed
qed

section \<open>Properties\<close>

text \<open>Requests and states for the witnesses.\<close>

definition demo_frame :: "StreamID \<Rightarrow> frame" where
  "demo_frame sid = pingFrame\<lparr>Header := (Header pingFrame)\<lparr>StreamID := sid\<rparr>\<rparr>"

definition demo_request :: "StreamID \<Rightarrow> TrafficClass \<Rightarrow> outboundRequest" where
  "demo_request sid cl = \<lparr>or_frame = demo_frame sid, or_class = cl, or_bytes = 31, or_result = 0\<rparr>"

definition demo_peer :: "unit peer" where
  "demo_peer = fold (\<lambda>req p. snd (send_attempt req p))
     [demo_request 1 TrafficControl, demo_request 2 TrafficInteractive,
      demo_request 3 TrafficBulk, demo_request 4 TrafficBulk] (fresh_peer 1000 std_config)"

lemma demo_request_ok:
  "cl \<in> {TrafficControl, TrafficInteractive, TrafficBulk} \<Longrightarrow>
     request_ok (StreamID (Header (or_frame (demo_request sid cl)))) (demo_request sid cl)"
  by (simp add: request_ok_def demo_request_def demo_frame_def frameBytes_def pingFrame_def HeaderSize_def)

lemma fresh_out_ok: "config_ok c \<Longrightarrow> out_ok (fresh_peer n c)"
  by (simp add: out_ok_def outs_ok_def fresh_peer_def config_ok_def)

lemma send_attempts_out_ok:
  assumes "\<forall>req \<in> set reqs. request_ok (StreamID (Header (or_frame req))) req"
    and "out_ok p" and "0 < PerStreamQueueFrames (p_config p)"
  shows "out_ok (fold (\<lambda>req p. snd (send_attempt req p)) reqs p)"
  using assms
proof (induction reqs arbitrary: p)
  case (Cons req reqs)
  obtain r p' where a: "send_attempt req p = (r, p')" by (cases "send_attempt req p")
  from send_attempt_out_ok [OF Cons.prems(2) _ Cons.prems(3) a] Cons.prems(1) have "out_ok p'" by simp
  with Cons send_attempt_config [OF a] a show ?case by simp
qed simp

lemma demo_peer_ok: "out_ok demo_peer"
proof -
  have "0 < PerStreamQueueFrames (p_config (fresh_peer 1000 std_config))"
    using config_okD(3) [OF std_config_ok] by (simp add: fresh_peer_def)
  with fresh_out_ok [OF std_config_ok] show ?thesis
    unfolding demo_peer_def by (intro send_attempts_out_ok) (auto simp: demo_request_ok)
qed

lemmas demo_simps = demo_request_def demo_frame_def pingFrame_def fresh_peer_def
  DefaultPeerConfig_def send_attempt_def send_fits_def push_request_def signalLocked_def Let_def
  TrafficControl_def TrafficInteractive_def TrafficBulk_def

lemma demo_peer_fields:
  "p_config demo_peer = std_config" "p_outboundOrder demo_peer = [1, 2, 3, 4]" "\<not> p_closed demo_peer"
  "p_outbound demo_peer = map (\<lambda>(sid, cl).
     (sid, \<lparr>os_id = sid, os_queue = [demo_request sid cl], os_bytes = 31\<rparr>)) [(1, 1), (2, 2), (3, 3), (4, 3)]"
  by (simp_all add: demo_peer_def demo_simps)

text \<open>
  Queueing a frame (one turn of the loop in \<open>send\<close>): it is refused with the peer's final error
  after shutdown, waits exactly while one of the five configured limits would be exceeded, and
  otherwise joins the end of its own stream's queue; the accounting of all queues stays exact
  and within the limits, and no other stream's queue changes.\<close>
theorem send_attempt_correct:
  assumes "out_ok p" and "config_ok (p_config p)"
    and "request_ok (StreamID (Header (or_frame req))) req"
    and "send_attempt req p = (r, p')"
  shows "out_ok p' \<and>
    (case r of
       Refused e \<Rightarrow> p_closed p \<and> e = peer_result p \<and> p' = p
     | MustWait \<Rightarrow> \<not> p_closed p \<and> p' = p \<and>
         (let c = p_config p; q = queue_of p (StreamID (Header (or_frame req))) in
          frameBytes (or_frame req) > PerStreamQueueBytes c
          \<or> q = [] \<and> int (length (p_outbound p)) \<ge> MaxActiveStreams c
          \<or> q \<noteq> [] \<and> sum_list (map (frameBytes \<circ> or_frame) q) + frameBytes (or_frame req) > PerStreamQueueBytes c
          \<or> q \<noteq> [] \<and> int (length q) + 1 > PerStreamQueueFrames c
          \<or> p_outboundBytes p + frameBytes (or_frame req) > OutboundQueueBytes c
          \<or> p_outboundFrames p + 1 > OutboundQueueFrames c)
     | Enqueued \<Rightarrow> \<not> p_closed p \<and>
         (\<forall>sid. queue_of p' sid =
            queue_of p sid @ (if sid = StreamID (Header (or_frame req)) then [req] else [])))"
proof -
  let ?sid = "StreamID (Header (or_frame req))"
  have ok: "out_ok p'" by (rule send_attempt_out_ok [OF assms(1,3) config_okD(3) [OF assms(2)] assms(4)])
  have b: "or_bytes req = frameBytes (or_frame req)" using assms(3) by (simp add: request_ok_def)
  show ?thesis
  proof (cases rule: send_attempt_cases [of p req])
    case closed
    with assms(4) ok show ?thesis by auto
  next
    case waits
    have "sum_list (map (frameBytes \<circ> or_frame) (os_queue s)) = os_bytes s" "os_queue s \<noteq> []"
      if "mget (p_outbound p) ?sid = Some s" for s
    proof -
      have "stream_ok (p_config p) ?sid s" using out_okD(4) [OF assms(1) that] .
      then show "os_queue s \<noteq> []" "sum_list (map (frameBytes \<circ> or_frame) (os_queue s)) = os_bytes s"
        by (auto simp: stream_ok_def request_ok_def intro: arg_cong [where f = sum_list])
    qed
    with waits(2) b config_okD(2) [OF assms(2)] have "let c = p_config p; q = queue_of p ?sid in
          frameBytes (or_frame req) > PerStreamQueueBytes c
          \<or> q = [] \<and> int (length (p_outbound p)) \<ge> MaxActiveStreams c
          \<or> q \<noteq> [] \<and> sum_list (map (frameBytes \<circ> or_frame) q) + frameBytes (or_frame req) > PerStreamQueueBytes c
          \<or> q \<noteq> [] \<and> int (length q) + 1 > PerStreamQueueFrames c
          \<or> p_outboundBytes p + frameBytes (or_frame req) > OutboundQueueBytes c
          \<or> p_outboundFrames p + 1 > OutboundQueueFrames c"
      by (cases "mget (p_outbound p) ?sid") (auto simp: send_fits_def queue_of_def Let_def)
    with waits assms(4) ok show ?thesis by simp
  next
    case (queued p'')
    with assms(4) ok send_attempt_queue [OF queued(3)] show ?thesis by simp
  qed
qed

theorem send_attempt_correct_witness:
  "\<exists>p'. send_attempt (demo_request 2 TrafficBulk) demo_peer = (Enqueued, p')
    \<and> queue_of p' 2 = [demo_request 2 TrafficInteractive, demo_request 2 TrafficBulk]
    \<and> queue_of p' 3 = [demo_request 3 TrafficBulk]"
proof -
  obtain p' where a: "send_attempt (demo_request 2 TrafficBulk) demo_peer = (Enqueued, p')"
    by (simp add: demo_peer_def demo_simps)
  have q: "queue_of demo_peer 2 = [demo_request 2 TrafficInteractive]"
    "queue_of demo_peer 3 = [demo_request 3 TrafficBulk]"
    by (simp_all add: queue_of_def demo_peer_fields TrafficInteractive_def TrafficBulk_def)
  have "config_ok (p_config demo_peer)" by (simp only: demo_peer_fields std_config_ok)
  from send_attempt_correct [OF demo_peer_ok this _ a] demo_request_ok [of TrafficBulk 2] q a show ?thesis
    by (simp add: demo_request_def demo_frame_def)
qed

text \<open>
  Taking a request of one traffic class (\<open>takeLocked\<close>) from any cursor: nothing is taken only when no
  stream has a request of that class at its head; otherwise the oldest request of one stream
  is removed, every other queue is untouched and the accounting of all queues stays exact. So a
  stream's frames leave in the order they were queued, whatever their classes.\<close>
theorem takeLocked_correct:
  assumes "out_ok p" and "takeLocked cl cursor p = (r, nx, p')"
  shows "out_ok p' \<and>
    (case r of
       None \<Rightarrow> p' = p \<and> \<not> available p cl
     | Some req \<Rightarrow> or_class req = cl \<and>
         (\<exists>sid. queue_of p sid = req # queue_of p' sid \<and> (\<forall>other. other \<noteq> sid \<longrightarrow> queue_of p' other = queue_of p other)))"
proof (cases r)
  case None
  with assms takeLocked_None [of cl cursor p nx p'] show ?thesis by simp
next
  case (Some req)
  with assms(2) have t: "takeLocked cl cursor p = (Some req, nx, p')" by simp
  from takeLocked_queue [OF assms(1) t] takeLocked_class [OF t] Some show ?thesis by simp
qed

theorem takeLocked_correct_witness:
  "\<exists>nx p'. takeLocked TrafficBulk 3 demo_peer = (Some (demo_request 4 TrafficBulk), nx, p')
    \<and> out_ok p' \<and> queue_of p' 3 = [demo_request 3 TrafficBulk] \<and> queue_of p' 4 = []"
proof -
  have q: "queue_of demo_peer sid = (if sid = 1 then [demo_request 1 1] else if sid = 2 then [demo_request 2 2]
      else if sid = 3 then [demo_request 3 3] else if sid = 4 then [demo_request 4 3] else [])" for sid
    by (auto simp: queue_of_def demo_peer_fields)
  obtain nx p' where t: "takeLocked TrafficBulk 3 demo_peer = (Some (demo_request 4 TrafficBulk), nx, p')"
    by (simp add: takeLocked_def take_loop.simps demo_peer_fields head_of_class_def pop_request_def
        demo_request_def TrafficBulk_def take_at_def Let_def)
  have ne: "demo_request a b \<noteq> demo_request c d" if "a \<noteq> c" for a b c d
    using that by (simp add: demo_request_def demo_frame_def pingFrame_def)
  from takeLocked_correct [OF demo_peer_ok t] obtain sid where
    s: "out_ok p'" "queue_of demo_peer sid = demo_request 4 TrafficBulk # queue_of p' sid"
    "\<forall>other. other \<noteq> sid \<longrightarrow> queue_of p' other = queue_of demo_peer other" by auto
  have "sid = 4" using s(2) ne by (auto simp: q split: if_splits)
  with s t q show ?thesis by (auto simp: TrafficBulk_def)
qed

text \<open>
  The scheduler is work-conserving: with a valid configuration a pick of \<open>schedule\<close> comes back empty
  exactly when nothing at all is queued, and otherwise it removes the oldest request of one
  stream.\<close>
theorem schedule_pick_work_conserving:
  assumes "out_ok p" and "config_ok (p_config p)" and "sched_ok (p_config p) sc"
    and "schedule_pick sc p = (r, sc', p')"
  shows "sched_ok (p_config p) sc' \<and> out_ok p' \<and> (r = None \<longleftrightarrow> p_outbound p = []) \<and>
    (case r of None \<Rightarrow> p' = p
     | Some req \<Rightarrow> \<exists>sid. queue_of p sid = req # queue_of p' sid
         \<and> (\<forall>other. other \<noteq> sid \<longrightarrow> queue_of p' other = queue_of p other))"
proof -
  note w = schedule_pick_wrr [OF assms(2-4)]
  have some: "\<exists>k < 3. wrr_avail p k" if "sid \<in> set (p_outboundOrder p)" for sid
  proof -
    from that obtain req rest where q: "queue_of p sid = req # rest"
      using queue_of_nonempty_iff [OF assms(1)] by (cases "queue_of p sid") auto
    then obtain s where "mget (p_outbound p) sid = Some s" "os_queue s = req # rest"
      by (auto simp: queue_of_def split: option.splits)
    then have "request_ok sid req" using out_okD(4) [OF assms(1)] by (force simp: stream_ok_def)
    then have "or_class req \<in> {TrafficControl, TrafficInteractive, TrafficBulk}"
      by (simp add: request_ok_def)
    moreover have "available p (or_class req)" unfolding available_def using that q by force
    ultimately show ?thesis using class_index by metis
  qed
  have "r = None \<longleftrightarrow> p_outbound p = []"
  proof
    assume "r = None"
    then have "p_outboundOrder p = []" using w(2) some by (cases "p_outboundOrder p") auto
    then show "p_outbound p = []" using length_outbound_order [OF assms(1)] by simp
  next
    assume "p_outbound p = []"
    then show "r = None" using w(2) out_okD(3) [OF assms(1)] by (auto simp: available_def)
  qed
  moreover have "out_ok p' \<and> (case r of None \<Rightarrow> p' = p
     | Some req \<Rightarrow> \<exists>sid. queue_of p sid = req # queue_of p' sid
         \<and> (\<forall>other. other \<noteq> sid \<longrightarrow> queue_of p' other = queue_of p other))"
  proof (cases r)
    case (Some req)
    from w(4) [OF this] obtain j cursor nx where
      "takeLocked (sched_classes ! j) cursor p = (Some req, nx, p')" by blast
    from takeLocked_queue [OF assms(1) this] Some show ?thesis by simp
  qed (use w(3) assms(1) in simp)
  ultimately show ?thesis using w(1) by blast
qed

theorem schedule_pick_work_conserving_witness:
  "out_ok (snd (snd (schedule_pick \<lparr>sc_classIndex = 0, sc_credit = 0, sc_cursor = 0\<rparr> demo_peer)))
   \<and> fst (schedule_pick \<lparr>sc_classIndex = 0, sc_credit = 0, sc_cursor = 0\<rparr> demo_peer) \<noteq> None"
proof -
  have c: "config_ok (p_config demo_peer)" by (simp only: demo_peer_fields std_config_ok)
  show ?thesis
    using schedule_pick_work_conserving [OF demo_peer_ok c sched_start_ok [OF c, of 0]]
    by (cases "schedule_pick \<lparr>sc_classIndex = 0, sc_credit = 0, sc_cursor = 0\<rparr> demo_peer")
      (auto simp: demo_peer_fields)
qed

text \<open>
  (C25) No traffic class starves: if a class has a request ready at each of more picks than the other two
  classes' weights add up to, one of those picks serves it, however the peer's state changes
  between the picks.\<close>
theorem no_class_starves:
  assumes "config_ok c" and "sched_ok c sc"
    and "cl \<in> {TrafficControl, TrafficInteractive, TrafficBulk}"
    and "\<forall>p \<in> set ps. p_config p = c \<and> available p cl"
    and "ControlWeight c + InteractiveWeight c + BulkWeight c - class_weight c cl < int (length ps)"
  shows "\<exists>req. Some req \<in> set (fst (sched_run sc ps)) \<and> or_class req = cl"
proof -
  from assms(3) obtain k where k: "k < 3" "cl = sched_classes ! k" using class_index by blast
  have "wrr_distance (wrr_weight c) k (wrr_state sc) < int (length ps)"
    using wrr_distance_bound [OF _ k(1) weights_pos [OF assms(1)]] assms(2,5) weights_sum [of c] k(2)
    by (force simp: sched_ok_def)
  from sched_run_serves [OF assms(1) k(1) assms(2) _ this] assms(4) k(2) show ?thesis by simp
qed

theorem no_class_starves_witness:
  "\<exists>req. Some req \<in> set (fst (sched_run \<lparr>sc_classIndex = 0, sc_credit = 0, sc_cursor = 0\<rparr>
      (replicate 13 demo_peer))) \<and> or_class req = TrafficBulk"
proof (rule no_class_starves)
  show "config_ok std_config" by (rule std_config_ok)
  show "sched_ok std_config \<lparr>sc_classIndex = 0, sc_credit = 0, sc_cursor = 0\<rparr>"
    by (rule sched_start_ok [OF std_config_ok])
  show "\<forall>p \<in> set (replicate 13 demo_peer). p_config p = std_config \<and> available p TrafficBulk"
    by (simp add: demo_peer_fields available_def queue_of_def demo_request_def TrafficBulk_def)
qed (simp_all add: class_weight_def DefaultPeerConfig_def TrafficControl_def TrafficInteractive_def TrafficBulk_def)

text \<open>
  The weights are exact: while all three classes have requests ready, each round of the scheduler
  serves \<open>ControlWeight\<close> control frames, then \<open>InteractiveWeight\<close> interactive ones, then
  \<open>BulkWeight\<close> bulk ones, and returns to where it started.\<close>
theorem saturated_weights:
  assumes "config_ok c" and "sc_classIndex sc = 0" and "sc_credit sc = 0"
    and "\<forall>p \<in> set ps. p_config p = c \<and> (\<forall>cl \<in> {TrafficControl, TrafficInteractive, TrafficBulk}. available p cl)"
    and "int (length ps) = ControlWeight c + InteractiveWeight c + BulkWeight c"
  shows "map (map_option or_class) (fst (sched_run sc ps)) =
      replicate (nat (ControlWeight c)) (Some TrafficControl)
      @ replicate (nat (InteractiveWeight c)) (Some TrafficInteractive)
      @ replicate (nat (BulkWeight c)) (Some TrafficBulk)
    \<and> sc_classIndex (snd (sched_run sc ps)) = 0 \<and> sc_credit (snd (sched_run sc ps)) = 0"
proof -
  let ?a = "nat (ControlWeight c)" and ?b = "nat (InteractiveWeight c)"
  define xs ys zs where "xs = take ?a ps" and "ys = take ?b (drop ?a ps)" and "zs = drop ?b (drop ?a ps)"
  have ps: "ps = xs @ ys @ zs" unfolding xs_def ys_def zs_def by (simp only: append_take_drop_id)
  have pos: "0 < ControlWeight c" "0 < InteractiveWeight c" "0 < BulkWeight c"
    using assms(1) by (auto simp: config_ok_def)
  have len: "int (length xs) = wrr_weight c 0" "int (length ys) = wrr_weight c 1" "int (length zs) = wrr_weight c 2"
    using assms(5) pos
    by (simp_all add: xs_def ys_def zs_def class_weight_def sched_classes_def TrafficControl_def
        TrafficInteractive_def TrafficBulk_def)
  have av: "\<forall>p \<in> set qs. p_config p = c \<and> wrr_avail p i" if "set qs \<subseteq> set ps" "i < 3" for qs i
    using that assms(4) class_index by blast
  obtain r1 s1 where 1: "sched_run sc xs = (r1, s1)" by (cases "sched_run sc xs")
  obtain r2 s2 where 2: "sched_run s1 ys = (r2, s2)" by (cases "sched_run s1 ys")
  obtain r3 s3 where 3: "sched_run s2 zs = (r3, s3)" by (cases "sched_run s2 zs")
  have sub: "set xs \<subseteq> set ps" "set ys \<subseteq> set ps" "set zs \<subseteq> set ps" using ps by auto
  have t1: "map (map_option or_class) r1 = replicate (length xs) (Some (sched_classes ! 0))"
    "sc_classIndex s1 = 1" "sc_credit s1 = 0"
    using sched_full_turn [OF assms(1) _ assms(2,3) av [OF sub(1)] len(1) 1] by simp_all
  have t2: "map (map_option or_class) r2 = replicate (length ys) (Some (sched_classes ! 1))"
    "sc_classIndex s2 = 2" "sc_credit s2 = 0"
    using sched_full_turn [OF assms(1) _ t1(2,3) av [OF sub(2)] len(2) 2] by simp_all
  have t3: "map (map_option or_class) r3 = replicate (length zs) (Some (sched_classes ! 2))"
    "sc_classIndex s3 = 0" "sc_credit s3 = 0"
    using sched_full_turn [OF assms(1) _ t2(2,3) av [OF sub(3)] len(3) 3] by simp_all
  have "length xs = ?a" "length ys = ?b" "length zs = nat (BulkWeight c)"
    using len pos by (auto simp: class_weight_def sched_classes_def TrafficControl_def
        TrafficInteractive_def TrafficBulk_def)
  with t1 t2 t3 1 2 3 show ?thesis by (simp add: ps sched_run_append sched_classes_def)
qed

theorem saturated_weights_witness:
  "map (map_option or_class) (fst (sched_run \<lparr>sc_classIndex = 0, sc_credit = 0, sc_cursor = 7\<rparr>
      (replicate 13 demo_peer))) =
    replicate 8 (Some TrafficControl) @ replicate 4 (Some TrafficInteractive) @ [Some TrafficBulk]"
proof -
  have "\<forall>p \<in> set (replicate 13 demo_peer). p_config p = std_config
      \<and> (\<forall>cl \<in> {TrafficControl, TrafficInteractive, TrafficBulk}. available p cl)"
    by (simp add: demo_peer_fields available_def queue_of_def demo_request_def
        TrafficControl_def TrafficInteractive_def TrafficBulk_def)
  from saturated_weights [OF std_config_ok _ _ this, of "\<lparr>sc_classIndex = 0, sc_credit = 0, sc_cursor = 7\<rparr>"]
  show ?thesis by (simp add: DefaultPeerConfig_def)
qed

text \<open>
  (C37) The cursor that \<open>takeLocked\<close> rotates over the streams is shared by the three classes, so fairness
  between streams of one class is not guaranteed: while an interactive stream 1 and a bulk
  stream 2 are kept backlogged, a bulk stream 3 with a request ready is never picked under the
  default bulk weight, for any number of picks.\<close>
theorem shared_cursor_starves_stream:
  assumes "shared_cursor sc"
    and "\<forall>p \<in> set ps. shared_backlog p \<and> out_ok p \<and> BulkWeight (p_config p) = 1"
    and "Some req \<in> set (fst (sched_run sc ps))"
  shows "StreamID (Header (or_frame req)) \<noteq> 3"
  using assms
proof (induction ps arbitrary: sc)
  case (Cons p ps)
  obtain r sc' p' where pick: "schedule_pick sc p = (r, sc', p')" by (cases "schedule_pick sc p") auto
  have ok: "shared_backlog p" "out_ok p" "BulkWeight (p_config p) = 1" using Cons.prems(2) by auto
  from backlog_pick [OF ok(1) Cons.prems(1) ok(3) pick]
  have sc': "shared_cursor sc'" and r: "r \<in> {Some (hd (queue_of p 1)), Some (hd (queue_of p 2))}" by auto
  have "StreamID (Header (or_frame (hd (queue_of p sid)))) = sid" if "queue_of p sid \<noteq> []" for sid
    using queue_of_request_ok [OF ok(2), of "hd (queue_of p sid)" sid] that by (simp add: request_ok_def)
  moreover have "queue_of p 1 \<noteq> []" "queue_of p 2 \<noteq> []" using ok(1) by (auto simp: shared_backlog_def)
  ultimately have "\<forall>x. r = Some x \<longrightarrow> StreamID (Header (or_frame x)) \<noteq> 3" using r by auto
  with Cons.IH [OF sc'] Cons.prems(2,3) pick show ?case by (auto split: prod.splits)
qed simp

definition backlog_peer :: "unit peer" where
  "backlog_peer = fold (\<lambda>req p. snd (send_attempt req p))
     [demo_request 1 TrafficInteractive, demo_request 2 TrafficBulk, demo_request 3 TrafficBulk,
      demo_request 1 TrafficInteractive, demo_request 2 TrafficBulk] (fresh_peer 1000 std_config)"

theorem shared_cursor_starves_stream_witness:
  "shared_backlog backlog_peer \<and> (\<forall>n. 3 \<notin> (\<lambda>req. StreamID (Header (or_frame req))) ` {req. Some req \<in>
     set (fst (sched_run \<lparr>sc_classIndex = 0, sc_credit = 0, sc_cursor = 0\<rparr> (replicate n backlog_peer)))})"
proof -
  have "0 < PerStreamQueueFrames (p_config (fresh_peer 1000 std_config))"
    using config_okD(3) [OF std_config_ok] by (simp add: fresh_peer_def)
  with fresh_out_ok [OF std_config_ok] have ok: "out_ok backlog_peer"
    unfolding backlog_peer_def by (intro send_attempts_out_ok) (auto simp: demo_request_ok)
  have shape: "shared_backlog backlog_peer" "BulkWeight (p_config backlog_peer) = 1"
    by (simp_all add: shared_backlog_def queue_of_def backlog_peer_def demo_simps)
  show ?thesis
    using shared_cursor_starves_stream [of "\<lparr>sc_classIndex = 0, sc_credit = 0, sc_cursor = 0\<rparr>"
        "replicate n backlog_peer" for n] ok shape
    by (auto simp: shared_cursor_def)
qed

end
