(* ===== verification/Mux_Peer_In.thy ===== *)
theory Mux_Peer_In
  imports Mux_Peer_Out
begin

text \<open>
  The inbound half of \<open>peer.go\<close>: frames are queued per stream within the configured limits, each
  stream has one worker, and request correlation keeps numbers fresh and tombstones bounded.
\<close>

section \<open>Inbound queues\<close>

interpretation inq: byte_queue is_frames is_bytes frameBytes push_inbound pop_inbound
    "\<lambda>limit f s. is_bytes s + frameBytes f \<le> limit"
  by unfold_locales (auto simp: push_inbound_def pop_inbound_def)

definition inbox_of :: "'h peer \<Rightarrow> StreamID \<Rightarrow> frame list" where
  "inbox_of p sid = (case mget (p_inbound p) sid of None \<Rightarrow> [] | Some s \<Rightarrow> is_frames s)"

definition inbox_ok :: "peer_config \<Rightarrow> StreamID \<Rightarrow> inboundStream \<Rightarrow> bool" where
  "inbox_ok c sid s \<longleftrightarrow>
     (\<forall>f \<in> set (is_frames s). StreamID (Header f) = sid)
     \<and> is_bytes s = sum_list (map frameBytes (is_frames s))
     \<and> is_bytes s \<le> PerStreamQueueBytes c
     \<and> int (length (is_frames s)) \<le> PerStreamQueueFrames c"

text \<open>
  A stream entry lives exactly as long as its worker, until a handler fails the peer.
\<close>

definition ins_ok ::
    "peer_config \<Rightarrow> (StreamID, inboundStream) gomap \<Rightarrow> (StreamID, worker) gomap \<Rightarrow> bool \<Rightarrow> bool" where
  "ins_ok c m workers closed \<longleftrightarrow>
     is_map m \<and> is_map workers \<and> fst ` set workers \<subseteq> fst ` set m
     \<and> (\<not> closed \<longrightarrow> fst ` set m \<subseteq> fst ` set workers)
     \<and> (\<forall>sid s. mget m sid = Some s \<longrightarrow> inbox_ok c sid s)
     \<and> (\<forall>sid f. mget workers sid = Some (Handling f) \<longrightarrow> StreamID (Header f) = sid)
     \<and> int (length m) \<le> MaxActiveStreams c"

definition in_ok :: "'h peer \<Rightarrow> bool" where
  "in_ok p = ins_ok (p_config p) (p_inbound p) (p_workers p) (p_closed p)"

lemma ins_okD:
  assumes "ins_ok c m workers closed"
  shows "is_map m" "is_map workers" "fst ` set workers \<subseteq> fst ` set m"
    "\<not> closed \<Longrightarrow> fst ` set m \<subseteq> fst ` set workers"
    "mget m sid = Some s \<Longrightarrow> inbox_ok c sid s"
    "mget workers sid = Some (Handling f) \<Longrightarrow> StreamID (Header f) = sid"
    "int (length m) \<le> MaxActiveStreams c"
  using assms by (simp_all add: ins_ok_def)

lemma fresh_in_ok: "config_ok c \<Longrightarrow> in_ok (fresh_peer n c)"
  by (simp add: in_ok_def ins_ok_def fresh_peer_def config_ok_def)

lemma ins_ok_new:
  assumes "ins_ok c m workers closed" and "mget m sid = None" and "int (length m) < MaxActiveStreams c"
    and "inbox_ok c sid s"
  shows "ins_ok c (mput sid s m) (mput sid Waiting workers) closed"
  using assms by (auto simp: ins_ok_def keys_mput accounting)

lemma ins_ok_put:
  assumes "ins_ok c m workers closed" and "mget m sid = Some s0" and "inbox_ok c sid s"
  shows "ins_ok c (mput sid s m) workers closed"
proof -
  have "sid \<in> fst ` set m" using assms(2) mget_None_keys [of m sid] by auto
  then show ?thesis using assms by (auto simp: ins_ok_def keys_mput accounting insert_absorb)
qed

lemma ins_ok_worker:
  assumes "ins_ok c m workers closed" and "mget m sid \<noteq> None"
    and "\<forall>f. w = Handling f \<longrightarrow> StreamID (Header f) = sid"
  shows "ins_ok c m (mput sid w workers) closed"
proof -
  have "sid \<in> fst ` set m" using assms(2) mget_None_keys [of m sid] by auto
  then show ?thesis using assms(1,3) by (auto simp: ins_ok_def keys_mput)
qed

lemma ins_ok_retire:
  assumes "ins_ok c m workers closed"
  shows "ins_ok c (mdel sid m) (mdel sid workers) closed"
proof -
  have "length (mdel sid m) \<le> length m"
    using length_mdel [of m sid] ins_okD(1) [OF assms] by linarith
  then show ?thesis using assms by (auto simp: ins_ok_def keys_mdel)
qed

lemma ins_ok_stop:
  assumes "ins_ok c m workers closed"
  shows "ins_ok c m (mdel sid workers) True"
  using assms by (auto simp: ins_ok_def keys_mdel)

lemma ins_ok_closed: "ins_ok c m workers closed \<Longrightarrow> ins_ok c m workers True"
  by (simp add: ins_ok_def)

lemma inbox_empty_ok: "config_ok c \<Longrightarrow> inbox_ok c sid \<lparr>is_frames = [], is_bytes = 0\<rparr>"
  by (simp add: inbox_ok_def config_ok_def)

section \<open>Dispatch\<close>

lemma dispatch_entry_fields [simp]:
  "p_config (dispatch_entry sid p) = p_config p" "p_closed (dispatch_entry sid p) = p_closed p"
  "inbox_of (dispatch_entry sid p) = inbox_of p" "mget (p_inbound (dispatch_entry sid p)) sid \<noteq> None"
  by (auto simp: dispatch_entry_def inbox_of_def split: option.splits)

lemma dispatch_entry_in_ok:
  assumes "in_ok p" and "config_ok (p_config p)"
    and "mget (p_inbound p) sid = None \<Longrightarrow> int (length (p_inbound p)) < MaxActiveStreams (p_config p)"
  shows "in_ok (dispatch_entry sid p)"
  using assms ins_ok_new [OF assms(1) [unfolded in_ok_def], of sid] inbox_empty_ok [OF assms(2)]
  by (auto simp: in_ok_def dispatch_entry_def split: option.splits)

lemma dispatch_attempt_cases:
  obtains (closed) "p_closed p" "dispatch_attempt f waited p = (Refused (peer_result p), waited, p)"
  | (unknown) "\<not> p_closed p" "mget (p_handlers p) (MessageType (Header f)) = None"
      "dispatch_attempt f waited p =
         (Refused (Errorf (Mux ErrHandlerNotFound) [uint (MessageType (Header f))]), waited, p)"
  | (many) "\<not> p_closed p" "mget (p_handlers p) (MessageType (Header f)) \<noteq> None"
      "mget (p_inbound p) (StreamID (Header f)) = None"
      "MaxActiveStreams (p_config p) \<le> int (length (p_inbound p))"
      "dispatch_attempt f waited p = (Refused (Mux ErrTooManyActiveStreams), waited, p)"
  | (entered) p1 s where "\<not> p_closed p" "mget (p_handlers p) (MessageType (Header f)) \<noteq> None"
      "mget (p_inbound p) (StreamID (Header f)) = None \<Longrightarrow>
         int (length (p_inbound p)) < MaxActiveStreams (p_config p)"
      "p1 = dispatch_entry (StreamID (Header f)) p" "mget (p_inbound p1) (StreamID (Header f)) = Some s"
      "dispatch_attempt f waited p =
        (if frameBytes f > PerStreamQueueBytes (p_config p)
         then (Refused (Mux ErrPeerQueueOverflow), waited, p1\<lparr>p_queueOverflows := p_queueOverflows p1 + 1\<rparr>)
         else if is_bytes s + frameBytes f \<le> PerStreamQueueBytes (p_config p)
                 \<and> int (length (is_frames s)) + 1 \<le> PerStreamQueueFrames (p_config p)
         then (Enqueued, waited, p1\<lparr>p_inbound := mput (StreamID (Header f)) (push_inbound f s) (p_inbound p1)\<rparr>)
         else if QueuePolicy (p_config p) = InboundQueueFail
         then (Refused (Mux ErrPeerQueueOverflow), waited, p1\<lparr>p_queueOverflows := p_queueOverflows p1 + 1\<rparr>)
         else (MustWait, True,
               if waited then p1 else p1\<lparr>p_backpressureWaits := p_backpressureWaits p1 + 1\<rparr>))"
proof -
  let ?sid = "StreamID (Header f)" and ?h = "mget (p_handlers p) (MessageType (Header f))"
  let ?full = "mget (p_inbound p) ?sid = None \<and> MaxActiveStreams (p_config p) \<le> int (length (p_inbound p))"
  obtain s where s: "mget (p_inbound (dispatch_entry ?sid p)) ?sid = Some s"
    using dispatch_entry_fields(4) by blast
  consider "p_closed p" | "\<not> p_closed p" "?h = None" | "\<not> p_closed p" "?h \<noteq> None" ?full
    | "\<not> p_closed p" "?h \<noteq> None" "\<not> ?full" by blast
  then show thesis
  proof cases
    case 1
    show thesis by (rule that(1) [OF 1]) (simp add: dispatch_attempt_def Let_def 1)
  next
    case 2
    show thesis by (rule that(2) [OF 2]) (simp add: dispatch_attempt_def Let_def 2)
  next
    case 3
    then have full: "mget (p_inbound p) ?sid = None" "MaxActiveStreams (p_config p) \<le> int (length (p_inbound p))"
      by simp_all
    show thesis by (rule that(3) [OF 3(1,2) full]) (simp add: dispatch_attempt_def Let_def 3(1,2) full)
  next
    case 4
    show thesis
      by (rule that(4) [OF 4(1,2) _ refl s]) (use 4(3) in \<open>auto simp: dispatch_attempt_def Let_def 4(1,2) s\<close>)
  qed
qed

lemma inbox_push_ok:
  assumes "inbox_ok c (StreamID (Header f)) s" and "is_bytes s + frameBytes f \<le> PerStreamQueueBytes c"
    and "int (length (is_frames s)) + 1 \<le> PerStreamQueueFrames c"
  shows "inbox_ok c (StreamID (Header f)) (push_inbound f s)"
  using assms by (auto simp: inbox_ok_def push_inbound_def)

lemma inbox_pop_ok:
  assumes "inbox_ok c sid s" and "pop_inbound s = Some (f, s')"
  shows "inbox_ok c sid s'" "StreamID (Header f) = sid" "is_frames s = f # is_frames s'"
proof -
  show q: "is_frames s = f # is_frames s'" by (rule inq.pop_fifo [OF assms(2)])
  have "is_bytes s' = is_bytes s - frameBytes f" by (rule inq.load_pop [OF assms(2)])
  with assms(1) q frameBytes_pos [of f]
  show "inbox_ok c sid s'" "StreamID (Header f) = sid" by (auto simp: inbox_ok_def)
qed

lemma in_ok_congs [simp]:
  "in_ok (p\<lparr>p_queueOverflows := x\<rparr>) = in_ok p" "in_ok (p\<lparr>p_backpressureWaits := y\<rparr>) = in_ok p"
  "inbox_of (p\<lparr>p_queueOverflows := x\<rparr>) = inbox_of p" "inbox_of (p\<lparr>p_backpressureWaits := y\<rparr>) = inbox_of p"
  by (simp_all add: in_ok_def inbox_of_def fun_eq_iff)

lemma dispatch_attempt_in_ok [step_inv]:
  assumes "in_ok p" and "config_ok (p_config p)" and "dispatch_attempt f waited p = (r, waited', p')"
  shows "in_ok p'"
proof (cases rule: dispatch_attempt_cases [of p f waited])
  case (entered p1 s)
  have p1: "in_ok p1" unfolding entered(4) by (rule dispatch_entry_in_ok [OF assms(1,2) entered(3)])
  have s: "inbox_ok (p_config p) (StreamID (Header f)) s"
    using ins_okD(5) [OF p1 [unfolded in_ok_def] entered(5)] entered(4) by simp
  have "in_ok (p1\<lparr>p_inbound := mput (StreamID (Header f)) (push_inbound f s) (p_inbound p1)\<rparr>)"
    if "is_bytes s + frameBytes f \<le> PerStreamQueueBytes (p_config p)"
      "int (length (is_frames s)) + 1 \<le> PerStreamQueueFrames (p_config p)"
    using ins_ok_put [OF p1 [unfolded in_ok_def] entered(5)] inbox_push_ok [OF s that] entered(4)
    by (simp add: in_ok_def)
  with entered(6) assms(3) p1 show ?thesis by (auto split: if_splits)
qed (use assms in auto)

section \<open>Workers\<close>

text \<open>
  A worker that waits takes the oldest frame of its stream, or retires with the empty entry. Without
  a handler it fails the peer, which \<open>worker_fail\<close> does in the step after.
\<close>

definition worker_fail :: "'h worker_turn \<Rightarrow> 'h peer \<Rightarrow> 'h peer" where
  "worker_fail t p =
     (case t of NoHandler _ \<Rightarrow> fail (Mux ErrHandlerNotFound) (recordProtocolError p) | _ \<Rightarrow> p)"

lemma fail_fields [simp]:
  "p_config (fail e p) = p_config p" "p_closed (fail e p)" "p_inbound (fail e p) = p_inbound p"
  "p_workers (fail e p) = p_workers p" "p_handlers (fail e p) = p_handlers p"
  "p_next (fail e p) = p_next p" "p_chans (fail e p) = p_chans p" "inbox_of (fail e p) = inbox_of p"
  by (auto simp: fail_def inbox_of_def fun_eq_iff)

lemma fail_closed: "p_closed p \<Longrightarrow> fail e p = p"
  by (simp add: fail_def)

lemma recordProtocolError_fields [simp]:
  "p_config (recordProtocolError p) = p_config p" "p_closed (recordProtocolError p) = p_closed p"
  "p_inbound (recordProtocolError p) = p_inbound p" "p_workers (recordProtocolError p) = p_workers p"
  "inbox_of (recordProtocolError p) = inbox_of p"
  by (simp_all add: recordProtocolError_def inbox_of_def fun_eq_iff)

lemma fail_in_ok: "in_ok p \<Longrightarrow> in_ok (fail e p)"
  by (simp add: in_ok_def ins_ok_closed)

lemma worker_take_cases:
  assumes "in_ok p" and "mget (p_workers p) sid = Some w"
  obtains (handle) s s' f h where "mget (p_inbound p) sid = Some s" "pop_inbound s = Some (f, s')"
      "mget (p_handlers p) (MessageType (Header f)) = Some h"
      "worker_take sid p = (CallHandler h f, (signalLocked (p\<lparr>p_inbound := mput sid s' (p_inbound p)\<rparr>))
         \<lparr>p_workers := mput sid (Handling f) (p_workers p)\<rparr>)"
  | (unknown) s s' f where "mget (p_inbound p) sid = Some s" "pop_inbound s = Some (f, s')"
      "worker_take sid p = (NoHandler f, (signalLocked (p\<lparr>p_inbound := mput sid s' (p_inbound p)\<rparr>))
         \<lparr>p_workers := mdel sid (p_workers p)\<rparr>)"
  | (retire) s where "mget (p_inbound p) sid = Some s" "is_frames s = []"
      "worker_take sid p = (Retired, p\<lparr>p_inbound := mdel sid (p_inbound p), p_workers := mdel sid (p_workers p)\<rparr>)"
proof -
  have "sid \<in> fst ` set (p_workers p)" using assms(2) mget_None_keys [of "p_workers p" sid] by auto
  then have "sid \<in> fst ` set (p_inbound p)"
    using ins_okD(3) [OF assms(1) [unfolded in_ok_def]] by blast
  then obtain s where s: "mget (p_inbound p) sid = Some s"
    using mget_None_keys [of "p_inbound p" sid] by auto
  show thesis
  proof (cases "pop_inbound s")
    case None
    then show thesis using retire [OF s] inq.pop_iff [of s] by (simp add: worker_take_def s)
  next
    case (Some x)
    obtain f s' where x: "x = (f, s')" by (cases x)
    show thesis
    proof (cases "mget (p_handlers p) (MessageType (Header f))")
      case None
      then show thesis using unknown [OF s Some [unfolded x]] by (simp add: worker_take_def s Some x Let_def)
    next
      case h: (Some h)
      then show thesis using handle [OF s Some [unfolded x] h] by (simp add: worker_take_def s Some x Let_def)
    qed
  qed
qed

lemma worker_take_in_ok [step_inv]:
  assumes "in_ok p" and "mget (p_workers p) sid = Some w" and "worker_take sid p = (t, p')"
  shows "in_ok (worker_fail t p')"
  using assms(1,2)
proof (cases rule: worker_take_cases)
  case (handle s s' f h)
  note ok = assms(1) [unfolded in_ok_def]
  from inbox_pop_ok [OF ins_okD(5) [OF ok handle(1)] handle(2)]
  have s': "inbox_ok (p_config p) sid s'" "StreamID (Header f) = sid" by simp_all
  from ins_ok_worker [OF ins_ok_put [OF ok handle(1) s'(1)], of sid "Handling f"] s'(2) handle assms(3)
  show ?thesis by (auto simp: worker_fail_def in_ok_def)
next
  case (unknown s s' f)
  note ok = assms(1) [unfolded in_ok_def]
  from inbox_pop_ok [OF ins_okD(5) [OF ok unknown(1)] unknown(2)]
  have s': "inbox_ok (p_config p) sid s'" by simp
  from ins_ok_stop [OF ins_ok_put [OF ok unknown(1) s'], of sid] unknown assms(3)
  show ?thesis by (auto simp: worker_fail_def in_ok_def)
next
  case (retire s)
  with assms ins_ok_retire [OF assms(1) [unfolded in_ok_def], of sid] show ?thesis
    by (auto simp: worker_fail_def in_ok_def)
qed

lemma worker_take_inbox:
  assumes "in_ok p" and "mget (p_workers p) sid = Some w" and "worker_take sid p = (t, p')"
  shows "inbox_of p sid = (case t of CallHandler h f \<Rightarrow> [f] | NoHandler f \<Rightarrow> [f] | Retired \<Rightarrow> []) @ inbox_of p' sid"
    "other \<noteq> sid \<Longrightarrow> inbox_of p' other = inbox_of p other"
proof -
  show "inbox_of p sid = (case t of CallHandler h f \<Rightarrow> [f] | NoHandler f \<Rightarrow> [f] | Retired \<Rightarrow> []) @ inbox_of p' sid"
    using assms(3) inq.pop_fifo
    by (cases rule: worker_take_cases [OF assms(1,2)]) (auto simp: inbox_of_def)
  show "inbox_of p' other = inbox_of p other" if "other \<noteq> sid"
    using assms(3) that
    by (cases rule: worker_take_cases [OF assms(1,2)]) (auto simp: inbox_of_def)
qed

lemma worker_done_in_ok [step_inv]:
  assumes "in_ok p" and "mget (p_workers p) sid = Some w"
  shows "in_ok (worker_done sid e p)"
proof -
  note ok = assms(1) [unfolded in_ok_def]
  have "sid \<in> fst ` set (p_workers p)" using assms(2) mget_None_keys [of "p_workers p" sid] by auto
  then have "mget (p_inbound p) sid \<noteq> None" using ins_okD(3) [OF ok] mget_None_keys [of "p_inbound p" sid] by blast
  with ins_ok_worker [OF ok this, of Waiting] ins_ok_stop [OF ok, of sid] show ?thesis
    by (auto simp: worker_done_def in_ok_def split: option.splits)
qed

section \<open>Statistics\<close>

lemma stats_fold:
  assumes "is_map xs" and "\<And>sid v m. f (sid, v) m = mput sid (g sid v (stats_item m sid)) m"
  shows "mget (fold f xs m) sid =
      (case mget xs sid of None \<Rightarrow> mget m sid | Some v \<Rightarrow> Some (g sid v (stats_item m sid)))"
    "is_map m \<Longrightarrow> is_map (fold f xs m)"
  using assms(1)
proof (induction xs arbitrary: m)
  case (Cons x xs)
  obtain k v where x: "x = (k, v)" by (cases x)
  { case 1
    have "mget xs k = None" using 1 x by (auto simp: is_map_def mget_None_keys)
    with Cons.IH(1) [of "mput k (g k v (stats_item m k)) m"] 1 x show ?case
      by (auto simp: assms(2) is_map_def stats_item_def split: option.splits)
  next
    case 2
    with Cons.IH(2) [of "mput k (g k v (stats_item m k)) m"] x show ?case
      by (simp add: assms(2) is_map_def distinct_update)
  }
qed simp_all

lemma keyed_by:
  assumes "is_map m" and "\<And>k v. mget m k = Some v \<Longrightarrow> key v = k"
  shows "map key (map snd m) = map fst m"
  using assms(2) mget_is_map_mem [OF assms(1)] by (auto simp: comp_def)

section \<open>Properties\<close>

text \<open>
  \<open>Stats\<close> lists each active stream once, in increasing order of its number, with the true sizes of its two queues,
  and no other stream.\<close>
theorem Stats_correct:
  assumes "in_ok p" and "out_ok p"
  shows "sorted_wrt (<) (map ss_StreamID (st_Streams (Stats p))) \<and>
    set (st_Streams (Stats p)) =
      (\<lambda>sid. \<lparr>ss_StreamID = sid,
              ss_InboundQueueBytes = sum_list (map frameBytes (inbox_of p sid)),
              ss_InboundQueueFrames = int (length (inbox_of p sid)),
              ss_OutboundQueueBytes = sum_list (map or_bytes (queue_of p sid)),
              ss_OutboundQueueFrames = int (length (queue_of p sid))\<rparr>) `
      (fst ` set (p_inbound p) \<union> fst ` set (p_outbound p))"
proof -
  let ?m1 = "fold stats_inbound (p_inbound p) []"
  let ?m = "fold stats_outbound (p_outbound p) ?m1"
  let ?row = "\<lambda>sid. \<lparr>ss_StreamID = sid,
              ss_InboundQueueBytes = sum_list (map frameBytes (inbox_of p sid)),
              ss_InboundQueueFrames = int (length (inbox_of p sid)),
              ss_OutboundQueueBytes = sum_list (map or_bytes (queue_of p sid)),
              ss_OutboundQueueFrames = int (length (queue_of p sid))\<rparr>"
  have maps: "is_map (p_inbound p)" "is_map (p_outbound p)"
    using ins_okD(1) [OF assms(1) [unfolded in_ok_def]] out_okD(1) [OF assms(2)] .
  note f1 = stats_fold [OF maps(1), of stats_inbound "\<lambda>sid s i. i\<lparr>ss_StreamID := sid,
        ss_InboundQueueBytes := is_bytes s, ss_InboundQueueFrames := int (length (is_frames s))\<rparr>"]
  note f2 = stats_fold [OF maps(2), of stats_outbound "\<lambda>sid s i. i\<lparr>ss_StreamID := sid,
        ss_OutboundQueueBytes := os_bytes s, ss_OutboundQueueFrames := int (length (os_queue s))\<rparr>"]
  have m: "is_map ?m" using f1(2) f2(2) by (simp add: stats_inbound_def stats_outbound_def)
  have ib: "is_bytes s = sum_list (map frameBytes (is_frames s))" if "mget (p_inbound p) sid = Some s" for sid s
    using ins_okD(5) [OF assms(1) [unfolded in_ok_def] that] by (simp add: inbox_ok_def)
  have ob: "os_bytes s = sum_list (map or_bytes (os_queue s))" if "mget (p_outbound p) sid = Some s" for sid s
    using out_okD(4) [OF assms(2) that] by (simp add: stream_ok_def)
  have get: "mget ?m sid = (if sid \<in> fst ` set (p_inbound p) \<union> fst ` set (p_outbound p) then Some (?row sid) else None)" for sid
    using f1(1) [of "[]" sid] f2(1) [of ?m1 sid] ib [of sid] ob [of sid]
      mget_None_keys [of "p_inbound p" sid] mget_None_keys [of "p_outbound p" sid]
    by (auto simp: stats_inbound_def stats_outbound_def stats_item_def zero_stats_def inbox_of_def queue_of_def
        split: option.splits)
  have keys: "map ss_StreamID (map snd ?m) = map fst ?m"
    by (rule keyed_by [OF m]) (auto simp: get split: if_splits)
  have streams: "st_Streams (Stats p) = sort_key ss_StreamID (map snd ?m)" by (simp add: Stats_def Let_def)
  have "distinct (map ss_StreamID (map snd ?m))" using m by (simp only: keys is_map_def)
  then have "distinct (map ss_StreamID (st_Streams (Stats p)))"
    unfolding streams distinct_map [of ss_StreamID] by simp
  moreover have "sorted (map ss_StreamID (st_Streams (Stats p)))" by (simp add: Stats_def Let_def)
  ultimately have "sorted_wrt (<) (map ss_StreamID (st_Streams (Stats p)))" by (simp add: strict_sorted_iff)
  moreover have "set (st_Streams (Stats p)) = ?row ` (fst ` set (p_inbound p) \<union> fst ` set (p_outbound p))"
  proof -
    have "set (st_Streams (Stats p)) = snd ` set ?m" by (simp add: Stats_def Let_def)
    also have "\<dots> = {v. \<exists>k. mget ?m k = Some v}" using mget_is_map_mem [OF m] by force
    also have "\<dots> = ?row ` (fst ` set (p_inbound p) \<union> fst ` set (p_outbound p))" by (auto simp: get split: if_splits)
    finally show ?thesis .
  qed
  ultimately show ?thesis by blast
qed

theorem Stats_correct_witness:
  "map ss_StreamID (st_Streams (Stats demo_peer)) = [1, 2, 3, 4]"
proof -
  have empty: "p_inbound demo_peer = []" "p_workers demo_peer = []"
    by (simp_all add: demo_peer_def demo_simps)
  have "0 < MaxActiveStreams (p_config demo_peer)"
    using config_okD(5) [OF std_config_ok] by (simp only: demo_peer_fields)
  then have "in_ok demo_peer" by (simp add: in_ok_def ins_ok_def empty)
  note st = Stats_correct [OF this demo_peer_ok]
  have keys: "fst ` set (p_inbound demo_peer) \<union> fst ` set (p_outbound demo_peer) = {1, 2, 3, 4}"
    by (simp add: empty demo_peer_fields)
  have s: "sorted_wrt (<) (map ss_StreamID (st_Streams (Stats demo_peer)))"
    "set (map ss_StreamID (st_Streams (Stats demo_peer))) = {1, 2, 3, 4}"
    using st unfolding keys by (simp_all add: image_image)
  have "sorted_wrt (<) [1, 2, 3, 4 :: StreamID]" by simp
  moreover have "set [1, 2, 3, 4 :: StreamID] = {1, 2, 3, 4}" by simp
  ultimately show ?thesis
    using strict_sorted_equal [OF _ s(1), of "[1, 2, 3, 4]"] s(2) by simp
qed

text \<open>
  Queueing a received frame (one turn of the loop in \<open>dispatch\<close>): an accepted frame joins the end of its stream's queue, which
  has a worker; a frame waits only under the backpressure policy and only while its stream
  still has frames for a handler to remove, so the wait can end; every refusal leaves all queued frames in place. The
  limits and the accounting hold afterwards in every case.\<close>
theorem dispatch_attempt_correct:
  assumes "in_ok p" and "config_ok (p_config p)" and "dispatch_attempt f waited p = (r, waited', p')"
  shows "in_ok p' \<and>
    (case r of
       Enqueued \<Rightarrow> inbox_of p' = (inbox_of p)(StreamID (Header f) := inbox_of p (StreamID (Header f)) @ [f])
         \<and> mget (p_workers p') (StreamID (Header f)) \<noteq> None
     | MustWait \<Rightarrow> QueuePolicy (p_config p) = InboundQueueBackpressure \<and> waited'
         \<and> inbox_of p' = inbox_of p \<and> inbox_of p (StreamID (Header f)) \<noteq> []
     | Refused e \<Rightarrow> inbox_of p' = inbox_of p)"
proof -
  let ?sid = "StreamID (Header f)"
  have ok: "in_ok p'" by (rule dispatch_attempt_in_ok [OF assms])
  show ?thesis
  proof (cases rule: dispatch_attempt_cases [of p f waited])
    case (entered p1 s)
    have base: "inbox_of p1 = inbox_of p" by (simp add: entered(4))
    have s: "inbox_of p ?sid = is_frames s" unfolding base [symmetric] by (simp add: inbox_of_def entered(5))
    have push: "inbox_of (p1\<lparr>p_inbound := mput ?sid (push_inbound f s) (p_inbound p1)\<rparr>) =
        (inbox_of p)(?sid := inbox_of p ?sid @ [f])"
      unfolding s unfolding base [symmetric] by (simp add: inbox_of_def push_inbound_def fun_eq_iff)
    have "in_ok p1" unfolding entered(4) by (rule dispatch_entry_in_ok [OF assms(1,2) entered(3)])
    then have k: "in_ok p1" "\<not> p_closed p1" using entered(1,4) by simp_all
    have "?sid \<in> fst ` set (p_inbound p1)" using entered(5) mget_None_keys [of "p_inbound p1" ?sid] by auto
    then have worker: "mget (p_workers p1) ?sid \<noteq> None"
      using ins_okD(4) [OF k(1) [unfolded in_ok_def] k(2)] mget_None_keys [of "p_workers p1" ?sid] by blast
    have room: "is_frames s \<noteq> []"
      if "\<not> (is_bytes s + frameBytes f \<le> PerStreamQueueBytes (p_config p)
           \<and> int (length (is_frames s)) + 1 \<le> PerStreamQueueFrames (p_config p))"
        "frameBytes f \<le> PerStreamQueueBytes (p_config p)"
    proof
      assume "is_frames s = []"
      moreover have "is_bytes s = sum_list (map frameBytes (is_frames s))"
        using ins_okD(5) [OF k(1) [unfolded in_ok_def] entered(5)] by (simp add: inbox_ok_def)
      ultimately show False using that config_okD(3) [OF assms(2)] by simp
    qed
    have policy: "QueuePolicy (p_config p) \<in> {InboundQueueFail, InboundQueueBackpressure}"
      using assms(2) by (simp add: config_ok_def)
    show ?thesis
      using entered(6) assms(3) ok push worker room base s policy
      by (cases r) (auto split: if_splits)
  qed (use assms ok in auto)
qed

theorem dispatch_attempt_correct_witness:
  "\<exists>p'. dispatch_attempt pingFrame False ((fresh_peer 1000 std_config)\<lparr>p_handlers := [(7, ())]\<rparr>) = (Enqueued, False, p')
     \<and> inbox_of p' 9 = [pingFrame]"
proof -
  let ?p = "(fresh_peer 1000 std_config)\<lparr>p_handlers := [(7, ())]\<rparr>"
  obtain p' where d: "dispatch_attempt pingFrame False ?p = (Enqueued, False, p')"
    by (simp add: dispatch_attempt_def dispatch_entry_def Let_def fresh_peer_def
        pingFrame_def frameBytes_def HeaderSize_def DefaultPeerConfig_def push_inbound_def)
  have "in_ok ?p" using fresh_in_ok [OF std_config_ok, of 1000] by (simp add: in_ok_def fresh_peer_def)
  moreover have "config_ok (p_config ?p)" using std_config_ok by (simp only: fresh_peer_def peer.simps)
  ultimately have "inbox_of p' = (inbox_of ?p)(StreamID (Header pingFrame) := inbox_of ?p (StreamID (Header pingFrame)) @ [pingFrame])"
    using dispatch_attempt_correct [OF _ _ d] by simp
  moreover have "StreamID (Header pingFrame) = 9" "inbox_of ?p 9 = []"
    by (simp_all add: pingFrame_def inbox_of_def fresh_peer_def)
  ultimately have "inbox_of p' 9 = [pingFrame]" by simp
  with d show ?thesis by blast
qed

lemma register_check_None:
  "register_check known hs = None \<longleftrightarrow>
     (\<forall>(t, h) \<in> set hs. t \<noteq> 0 \<and> h \<noteq> None \<and> mget known t = None)"
  by (induction known hs rule: register_check.induct) auto

lemma register_fold:
  assumes "is_map hs"
  shows "mget (fold (\<lambda>(t, h) m. case h of Some x \<Rightarrow> mput t x m | None \<Rightarrow> m) hs m) t =
    (case mget hs t of Some (Some h) \<Rightarrow> Some h | _ \<Rightarrow> mget m t)"
  using assms
proof (induction hs arbitrary: m)
  case (Cons x hs)
  obtain k h where x: "x = (k, h)" by (cases x)
  have "mget hs k = None" using Cons.prems x by (auto simp: is_map_def mget_None_keys)
  with Cons.IH Cons.prems x show ?case by (auto simp: is_map_def split: option.splits)
qed simp

text \<open>
  Registering a group of handlers is atomic: it succeeds exactly when the group is not empty, the peer is open and every
  entry has a non-zero type, a handler and no handler registered before, and then all of the
  group is installed beside the old handlers; in every other case nothing changes.\<close>
theorem RegisterHandlers_atomic:
  assumes "is_map hs" and "RegisterHandlers hs p = (e, p')"
  shows "(e = None \<longleftrightarrow> hs \<noteq> [] \<and> \<not> p_closed p \<and>
      (\<forall>(t, h) \<in> set hs. t \<noteq> 0 \<and> h \<noteq> None \<and> mget (p_handlers p) t = None))
    \<and> (e \<noteq> None \<longrightarrow> p' = p)
    \<and> (e = None \<longrightarrow> (\<forall>t. mget (p_handlers p') t =
         (case mget hs t of Some (Some h) \<Rightarrow> Some h | _ \<Rightarrow> mget (p_handlers p) t)))"
proof (cases "hs = [] \<or> p_closed p")
  case True
  with assms(2) show ?thesis by (auto simp: RegisterHandlers_def split: if_splits)
next
  case False
  show ?thesis
  proof (cases "register_check (p_handlers p) hs")
    case None
    with assms(2) False have "e = None" and p': "p_handlers p' =
        fold (\<lambda>(t, h) m. case h of Some x \<Rightarrow> mput t x m | None \<Rightarrow> m) hs (p_handlers p)"
      by (auto simp: RegisterHandlers_def)
    with None False register_check_None [of "p_handlers p" hs] show ?thesis
      by (simp add: p' register_fold [OF assms(1)])
  next
    case (Some x)
    then have "register_check (p_handlers p) hs \<noteq> None" by simp
    then have bad: "\<not> (\<forall>(t, h) \<in> set hs. t \<noteq> 0 \<and> h \<noteq> None \<and> mget (p_handlers p) t = None)"
      by (simp only: register_check_None) simp
    have "e = Some x" "p' = p" using assms(2) Some False by (auto simp: RegisterHandlers_def)
    with bad show ?thesis by simp
  qed
qed

theorem RegisterHandlers_atomic_witness:
  "let p = (fresh_peer 1000 std_config)\<lparr>p_handlers := [(7, ())]\<rparr> in
   fst (RegisterHandlers [(8, Some ()), (7, Some ())] p) \<noteq> None \<and> snd (RegisterHandlers [(8, Some ()), (7, Some ())] p) = p"
proof -
  let ?p = "(fresh_peer 1000 std_config)\<lparr>p_handlers := [(7, ())]\<rparr>"
  obtain e p' where r: "RegisterHandlers [(8, Some ()), (7, Some ())] ?p = (e, p')"
    by (cases "RegisterHandlers [(8, Some ()), (7, Some ())] ?p")
  have "is_map [(8 :: MessageType, Some ()), (7, Some ())]" by (simp add: is_map_def)
  from RegisterHandlers_atomic [OF this r] r show ?thesis by (simp add: Let_def)
qed

end
