(* ===== verification/Mux_Peer_Calls.thy ===== *)
theory Mux_Peer_Calls
  imports Mux_Peer_In
begin

text \<open>
  Request correlation of \<open>peer.go\<close>: the numbers \<open>reservePending\<close> hands out, the bounded tombstones
  of abandoned calls, and the single answer each response channel gets.
\<close>

section \<open>The tables\<close>

text \<open>
  Pending calls and tombstones never share a number and never use zero, the eviction order
  lists exactly the tombstones, and the response channel of a pending call is unused.
\<close>

definition tables_ok ::
    "peer_config \<Rightarrow> (CorrelationID, peerPending) gomap \<Rightarrow> (CorrelationID, peerPending) gomap \<Rightarrow>
     CorrelationID list \<Rightarrow> bool" where
  "tables_ok c pend canc order \<longleftrightarrow>
     is_map pend \<and> is_map canc \<and> fst ` set pend \<inter> fst ` set canc = {}
     \<and> 0 \<notin> fst ` set pend \<and> 0 \<notin> fst ` set canc
     \<and> distinct order \<and> set order = fst ` set canc
     \<and> int (length order) \<le> MaxCanceledRequests c"

definition replies_ok ::
    "(CorrelationID, peerPending) gomap \<Rightarrow> (nat \<Rightarrow> frame result list) \<Rightarrow> nat \<Rightarrow> bool" where
  "replies_ok pend resp chans \<longleftrightarrow>
     distinct (map (pp_response \<circ> snd) pend)
     \<and> (\<forall>r \<in> set (map (pp_response \<circ> snd) pend). r < chans \<and> resp r = [])
     \<and> (\<forall>r. length (resp r) \<le> 1) \<and> (\<forall>r \<ge> chans. resp r = [])"

definition calls_ok :: "'h peer \<Rightarrow> bool" where
  "calls_ok p \<longleftrightarrow>
     tables_ok (p_config p) (p_pending p) (p_canceled p) (p_canceledOrder p)
     \<and> replies_ok (p_pending p) (p_responses p) (p_chans p)"

lemma fresh_calls_ok: "config_ok c \<Longrightarrow> calls_ok (fresh_peer n c)"
  by (simp add: calls_ok_def tables_ok_def replies_ok_def fresh_peer_def config_ok_def)

lemma replies_ok_chans: "replies_ok pend resp chans \<Longrightarrow> chans \<le> chans' \<Longrightarrow> replies_ok pend resp chans'"
  by (force simp: replies_ok_def)

lemma responses_mdel:
  assumes "is_map pend"
  shows "distinct (map (pp_response \<circ> snd) pend) \<Longrightarrow> distinct (map (pp_response \<circ> snd) (mdel cid pend))"
    "set (mdel cid pend) = {x \<in> set pend. fst x \<noteq> cid}"
  by (induction pend) (auto simp: mdel_absent)

lemma replies_ok_mdel: "is_map pend \<Longrightarrow> replies_ok pend resp chans \<Longrightarrow> replies_ok (mdel cid pend) resp chans"
  by (auto simp: replies_ok_def responses_mdel)

section \<open>Reserving a number\<close>

definition used :: "'h peer \<Rightarrow> CorrelationID \<Rightarrow> bool" where
  "used p cid \<longleftrightarrow> mget (p_pending p) cid \<noteq> None \<or> mget (p_canceled p) cid \<noteq> None"

lemma used_next [simp]: "used (p\<lparr>p_next := n\<rparr>) = used p"
  by (simp add: used_def fun_eq_iff)

lemma reserve_loop_Inr:
  assumes "reserve_loop a p = (Inr cid, p')"
  shows "cid \<noteq> 0 \<and> \<not> used p cid \<and>
    p' = p\<lparr>p_next := cid,
           p_pending := mput cid \<lparr>pp_messageType = 0, pp_streamID = 0, pp_response = p_chans p\<rparr> (p_pending p),
           p_chans := Suc (p_chans p)\<rparr>"
  using assms
proof (induction a p rule: reserve_loop.induct)
  case (1 a p)
  let ?p1 = "p\<lparr>p_next := p_next p + 1\<rparr>"
  have less: "a < - 1" using "1.prems" by (subst (asm) reserve_loop.simps) (auto split: if_splits)
  show ?case
  proof (cases "p_next p + 1 \<noteq> 0 \<and> \<not> used p (p_next p + 1)")
    case True
    with "1.prems" less show ?thesis
      by (subst (asm) reserve_loop.simps) (auto simp: Let_def used_def)
  next
    case False
    have rec: "reserve_loop (a + 1) ?p1 = (Inr cid, p')"
      using "1.prems" less False
      by (subst (asm) reserve_loop.simps) (auto simp: Let_def used_def split: if_splits)
    have "cid \<noteq> 0 \<and> \<not> used ?p1 cid \<and> p' = ?p1\<lparr>p_next := cid,
        p_pending := mput cid \<lparr>pp_messageType = 0, pp_streamID = 0, pp_response = p_chans ?p1\<rparr> (p_pending ?p1),
        p_chans := Suc (p_chans ?p1)\<rparr>"
      using "1.IH"(1) [OF less refl refl _ rec] "1.IH"(2) [OF less refl refl _ _ rec] False
      by (cases "p_next p + 1 = 0") (simp_all add: used_def)
    then show ?thesis by simp
  qed
qed

text \<open>When the loop gives up, every number it tried was zero or taken.\<close>

lemma reserve_loop_Inl:
  assumes "reserve_loop a p = (Inl e, p')" and "k < unat (- 1 - a)"
  shows "p_next p + 1 + word_of_nat k = 0 \<or> used p (p_next p + 1 + word_of_nat k)"
  using assms
proof (induction a p arbitrary: k rule: reserve_loop.induct)
  case (1 a p)
  let ?p1 = "p\<lparr>p_next := p_next p + 1\<rparr>"
  have less: "a < - 1"
  proof (rule ccontr)
    assume "\<not> a < - 1"
    then have "- 1 - a = 0" by (simp add: not_less word_order.extremum_unique)
    then show False using "1.prems"(2) by simp
  qed
  have bad: "p_next p + 1 = 0 \<or> used p (p_next p + 1)"
    using "1.prems"(1) less
    by (subst (asm) reserve_loop.simps) (auto simp: Let_def used_def split: if_splits)
  then have rec: "reserve_loop (a + 1) ?p1 = (Inl e, p')"
    using "1.prems"(1) less
    by (subst (asm) reserve_loop.simps) (auto simp: Let_def used_def split: if_splits)
  show ?case
  proof (cases k)
    case 0
    with bad show ?thesis by simp
  next
    case (Suc j)
    have "- 1 - a \<noteq> 0" using less by auto
    then have "unat (- 1 - (a + 1)) = unat (- 1 - a) - 1"
      using unat_minus_one [of "- 1 - a"] by (simp add: algebra_simps)
    with "1.prems"(2) Suc have j: "j < unat (- 1 - (a + 1))" by simp
    have "p_next ?p1 + 1 + word_of_nat j = 0 \<or> used ?p1 (p_next ?p1 + 1 + word_of_nat j)"
      using "1.IH"(1) [OF less refl refl _ rec j] "1.IH"(2) [OF less refl refl _ _ rec j] bad
      by (cases "p_next p + 1 = 0") (auto simp: used_def)
    then show ?thesis using Suc by (simp add: algebra_simps)
  qed
qed

lemma used_card:
  assumes "finite X" and "\<forall>cid \<in> X. used p cid"
  shows "card X \<le> length (p_pending p) + length (p_canceled p)"
proof -
  have "X \<subseteq> set (map fst (p_pending p @ p_canceled p))"
    using assms(2) mget_None_keys [of "p_pending p"] mget_None_keys [of "p_canceled p"]
    by (auto simp: used_def)
  then have "card X \<le> card (set (map fst (p_pending p @ p_canceled p)))" by (intro card_mono) auto
  also have "\<dots> \<le> length (p_pending p @ p_canceled p)" using card_length [of "map fst (p_pending p @ p_canceled p)"] by simp
  finally show ?thesis by simp
qed

lemma reserve_loop_full:
  assumes "reserve_loop 0 p = (Inl e, p')"
  shows "2 ^ 64 - 2 \<le> length (p_pending p) + length (p_canceled p)"
proof -
  let ?f = "\<lambda>k :: nat. p_next p + 1 + (word_of_nat k :: 64 word)"
  let ?X = "?f ` {..< 2 ^ 64 - 1} - {0}"
  have n: "unat (- 1 - (0 :: 64 word)) = 2 ^ 64 - 1" by (simp add: unsigned_minus_1_eq_mask mask_eq_exp_minus_1)
  have "inj_on ?f {..< 2 ^ 64 - 1}"
  proof (rule inj_onI)
    fix x y :: nat
    assume "x \<in> {..< 2 ^ 64 - 1}" "y \<in> {..< 2 ^ 64 - 1}" "?f x = ?f y"
    then have "(word_of_nat x :: 64 word) = word_of_nat y" "x < 2 ^ 64" "y < 2 ^ 64" by auto
    then show "x = y" using word_of_nat_eq_iff [where ?'a = 64] by (simp add: take_bit_nat_eq_self)
  qed
  then have "card (?f ` {..< 2 ^ 64 - 1}) = 2 ^ 64 - 1" by (simp add: card_image)
  then have "2 ^ 64 - 2 \<le> card ?X"
    using card_Diff_subset_Int [of "?f ` {..< 2 ^ 64 - 1}" "{0}"]
    by (cases "0 \<in> ?f ` {..< 2 ^ 64 - 1}") (auto simp: card_Diff_singleton)
  also have "\<dots> \<le> length (p_pending p) + length (p_canceled p)"
    by (rule used_card) (use reserve_loop_Inl [OF assms] n in auto)
  finally show ?thesis .
qed

lemma reserved_calls_ok:
  assumes "calls_ok p" and "cid \<noteq> 0" and "\<not> used p cid"
  shows "calls_ok (p\<lparr>p_next := cid,
    p_pending := mput cid \<lparr>pp_messageType = 0, pp_streamID = 0, pp_response = p_chans p\<rparr> (p_pending p),
    p_chans := Suc (p_chans p)\<rparr>)"
proof -
  have new: "mget (p_pending p) cid = None" "cid \<notin> fst ` set (p_canceled p)"
    using assms(3) by (auto simp: used_def mget_None_keys)
  have "tables_ok (p_config p) (mput cid x (p_pending p)) (p_canceled p) (p_canceledOrder p)" for x
    using assms(1,2) new by (auto simp: calls_ok_def tables_ok_def keys_mput)
  moreover have "replies_ok (mput cid \<lparr>pp_messageType = 0, pp_streamID = 0, pp_response = p_chans p\<rparr> (p_pending p))
      (p_responses p) (Suc (p_chans p))"
    using assms(1) new(1) by (auto simp: calls_ok_def replies_ok_def mput_new less_Suc_eq)
  ultimately show ?thesis by (simp add: calls_ok_def)
qed

lemma reserve_loop_next:
  "reserve_loop a p = (Inl e, p') \<Longrightarrow> \<exists>n. p' = p\<lparr>p_next := n\<rparr> \<and> e = Mux ErrInvalidCorrelation"
proof (induction a p rule: reserve_loop.induct)
  case (1 a p)
  show ?case
  proof (cases "a < - 1")
    case True
    with "1.prems" have rec: "reserve_loop (a + 1) (p\<lparr>p_next := p_next p + 1\<rparr>) = (Inl e, p')"
      by (subst (asm) reserve_loop.simps) (auto simp: Let_def split: if_splits)
    have bad: "p_next p + 1 = 0 \<or> used p (p_next p + 1)"
      using "1.prems" True by (subst (asm) reserve_loop.simps) (auto simp: Let_def used_def split: if_splits)
    have "\<exists>n. p' = p\<lparr>p_next := p_next p + 1\<rparr>\<lparr>p_next := n\<rparr> \<and> e = Mux ErrInvalidCorrelation"
      using "1.IH"(1) [OF True refl refl _ rec] "1.IH"(2) [OF True refl refl _ _ rec] bad
      by (cases "p_next p + 1 = 0") (auto simp: used_def)
    then show ?thesis by simp
  next
    case False
    with "1.prems" have "p' = p\<lparr>p_next := p_next p\<rparr>" "e = Mux ErrInvalidCorrelation"
      by (subst (asm) reserve_loop.simps; simp)+
    then show ?thesis by blast
  qed
qed

lemma reservePending_calls_ok [step_inv]:
  assumes "calls_ok p" and "reservePending p = (r, p')"
  shows "calls_ok p'"
proof (cases r)
  case (Inl e)
  with assms reserve_loop_next [of 0 p e p'] show ?thesis
    by (auto simp: reservePending_def calls_ok_def split: if_splits)
next
  case (Inr cid)
  with assms(2) have "reserve_loop 0 p = (Inr cid, p')" by (auto simp: reservePending_def split: if_splits)
  from reserve_loop_Inr [OF this] reserved_calls_ok [OF assms(1)] show ?thesis by simp
qed

section \<open>Abandoning and answering a call\<close>

lemma abandonPending_calls_ok [step_inv]:
  assumes "calls_ok p"
  shows "calls_ok (abandonPending cid p)"
proof (cases "mget (p_pending p) cid")
  case None
  with assms show ?thesis by (simp add: abandonPending_def)
next
  case (Some pe)
  let ?canc = "mput cid pe (p_canceled p)" and ?order = "p_canceledOrder p @ [cid]"
  have t: "tables_ok (p_config p) (p_pending p) (p_canceled p) (p_canceledOrder p)"
    and r: "replies_ok (mdel cid (p_pending p)) (p_responses p) (p_chans p)"
    using assms replies_ok_mdel by (auto simp: calls_ok_def tables_ok_def)
  have "cid \<in> fst ` set (p_pending p)" using Some mget_None_keys [of "p_pending p" cid] by auto
  then have shape: "cid \<noteq> 0" "cid \<notin> set (p_canceledOrder p)" using t by (auto simp: tables_ok_def)
  show ?thesis
  proof (cases "int (length ?order) > MaxCanceledRequests (p_config p)")
    case False
    with t shape have "tables_ok (p_config p) (mdel cid (p_pending p)) ?canc ?order"
      by (auto simp: tables_ok_def keys_mput keys_mdel)
    with False r Some show ?thesis by (simp add: calls_ok_def abandonPending_def Let_def)
  next
    case True
    obtain oldest rest where order: "?order = oldest # rest" by (cases ?order) auto
    have "distinct ?order" using t shape(2) by (auto simp: tables_ok_def)
    then have "distinct (oldest # rest)" by (simp only: order)
    moreover have "set rest = fst ` set (mdel oldest ?canc)"
    proof -
      have "set ?order = fst ` set ?canc" using t by (auto simp: tables_ok_def keys_mput)
      then have "insert oldest (set rest) = fst ` set ?canc" by (simp only: order list.simps)
      with \<open>distinct (oldest # rest)\<close> show ?thesis by (auto simp: keys_mdel)
    qed
    moreover have "length rest = length (p_canceledOrder p)" using arg_cong [OF order, of length] by simp
    ultimately have "tables_ok (p_config p) (mdel cid (p_pending p)) (mdel oldest ?canc) rest"
      using t shape(1) by (auto simp: tables_ok_def keys_mput keys_mdel)
    with True r Some order show ?thesis by (simp add: calls_ok_def abandonPending_def Let_def)
  qed
qed

lemma replies_ok_answer:
  assumes "is_map pend" and "replies_ok pend resp chans" and "mget pend cid = Some pe"
  shows "replies_ok (mdel cid pend) (resp(pp_response pe := resp (pp_response pe) @ [x])) chans"
proof -
  have pe: "(cid, pe) \<in> set pend" using assms(1,3) by (simp add: mget_is_map_mem)
  have empty: "resp (pp_response pe) = []" "pp_response pe < chans"
    using assms(2) pe by (auto simp: replies_ok_def)
  have "pp_response (snd y) \<noteq> pp_response pe" if "y \<in> set pend" "fst y \<noteq> cid" for y
  proof
    assume "pp_response (snd y) = pp_response pe"
    moreover have "inj_on (pp_response \<circ> snd) (set pend)"
      using assms(2) by (simp add: replies_ok_def distinct_map)
    ultimately have "y = (cid, pe)" using that(1) pe by (auto simp: inj_on_def)
    with that(2) show False by simp
  qed
  with assms empty show ?thesis by (auto simp: replies_ok_def responses_mdel)
qed

lemma resolve_calls_ok [step_inv]:
  assumes "calls_ok p" and "resolve f p = (e, p')"
  shows "calls_ok p'"
proof (cases "mget (p_pending p) (CorrelationID (Header f))")
  case (Some pe)
  let ?cid = "CorrelationID (Header f)"
  have "tables_ok (p_config p) (mdel ?cid (p_pending p)) (p_canceled p) (p_canceledOrder p)"
    using assms(1) by (auto simp: calls_ok_def tables_ok_def keys_mdel)
  moreover have "replies_ok (mdel ?cid (p_pending p))
      ((p_responses p)(pp_response pe := p_responses p (pp_response pe) @ [Inr f])) (p_chans p)"
    using assms(1) Some by (intro replies_ok_answer) (auto simp: calls_ok_def tables_ok_def)
  ultimately show ?thesis
    using assms Some by (auto simp: resolve_def Let_def calls_ok_def split: if_splits)
next
  case None
  let ?cid = "CorrelationID (Header f)"
  have "tables_ok (p_config p) (p_pending p) (mdel ?cid (p_canceled p)) (remove1 ?cid (p_canceledOrder p))"
    using assms(1) length_remove1 [of ?cid "p_canceledOrder p"]
    by (auto simp: calls_ok_def tables_ok_def keys_mdel split: if_splits)
  with assms None show ?thesis
    by (auto simp: resolve_def Let_def calls_ok_def split: if_splits option.splits)
qed

lemma call_bind_calls_ok [step_inv]:
  assumes "calls_ok p" and "call_bind cid f p = Ret p'"
  shows "calls_ok p'"
proof -
  obtain pe where pe: "mget (p_pending p) cid = Some pe"
    and p': "p' = p\<lparr>p_pending := mput cid (pe\<lparr>pp_messageType := MessageType (Header f),
      pp_streamID := StreamID (Header f)\<rparr>) (p_pending p)\<rparr>"
    using assms(2) by (auto simp: call_bind_def split: option.splits)
  have keys: "cid \<in> fst ` set (p_pending p)" using pe mget_None_keys [of "p_pending p" cid] by auto
  have same: "map (pp_response \<circ> snd) (mput cid x m) = map (pp_response \<circ> snd) m"
    if "mget m cid = Some y" "pp_response x = pp_response y" for x y and m :: "(CorrelationID, peerPending) gomap"
    using that by (induction m) auto
  have "tables_ok (p_config p) (mput cid x (p_pending p)) (p_canceled p) (p_canceledOrder p)" for x
    using assms(1) keys by (auto simp: calls_ok_def tables_ok_def keys_mput insert_absorb)
  moreover have "replies_ok (mput cid x (p_pending p)) (p_responses p) (p_chans p)"
    if "pp_response x = pp_response pe" for x
    using assms(1) unfolding calls_ok_def replies_ok_def same [OF pe that] by blast
  ultimately show ?thesis by (simp add: p' calls_ok_def)
qed

section \<open>Shutdown\<close>

lemma fold_chan_send:
  "distinct (map g xs) \<Longrightarrow>
     fold (\<lambda>y. chan_send (g y) x) xs ch r = ch r @ (if r \<in> g ` set xs then [x] else [])"
  by (induction xs arbitrary: ch) (auto simp: chan_send_def)

lemma fail_responses:
  assumes "calls_ok p" and "\<not> p_closed p"
  shows "p_responses (fail e p) r =
    p_responses p r @ (if r \<in> (pp_response \<circ> snd) ` set (p_pending p) then [Inl e] else [])"
proof -
  have "distinct (map (pp_response \<circ> snd) (p_pending p))"
    using assms(1) by (simp add: calls_ok_def replies_ok_def)
  from fold_chan_send [OF this, of "Inl e" "p_responses p" r] assms(2) show ?thesis
    by (simp add: fail_def case_prod_unfold comp_def)
qed

lemma fail_calls_ok [step_inv]:
  assumes "calls_ok p" and "config_ok (p_config p)"
  shows "calls_ok (fail e p)"
proof (cases "p_closed p")
  case False
  have r: "length (p_responses (fail e p) r) \<le> 1"
    "p_chans p \<le> r \<Longrightarrow> p_responses (fail e p) r = []" for r
    using assms(1) unfolding fail_responses [OF assms(1) False] calls_ok_def replies_ok_def by auto
  have "p_pending (fail e p) = []" "p_canceled (fail e p) = []" "p_canceledOrder (fail e p) = []"
    using False by (simp_all add: fail_def)
  with r config_okD(6) [OF assms(2)] show ?thesis by (simp add: calls_ok_def tables_ok_def replies_ok_def)
qed (use assms in \<open>simp add: fail_closed\<close>)

section \<open>Properties\<close>

text \<open>
  Reserving a correlation number: the number handed out is never zero and belongs to no pending call
  and to no tombstone, its call becomes pending with an unused response channel, and every other
  call stays as it is; it fails only on a closed peer or when at least \<open>2 ^ 64 - 2\<close> numbers are
  in use, so the search over the wrapping counter always finds a free number otherwise.\<close>
theorem reservePending_correct:
  assumes "calls_ok p" and "reservePending p = (r, p')"
  shows "calls_ok p' \<and>
    (case r of
       Inr cid \<Rightarrow> cid \<noteq> 0 \<and> mget (p_pending p) cid = None \<and> mget (p_canceled p) cid = None
         \<and> (\<exists>pe. mget (p_pending p') cid = Some pe \<and> p_responses p' (pp_response pe) = [])
         \<and> (\<forall>other. other \<noteq> cid \<longrightarrow> mget (p_pending p') other = mget (p_pending p) other)
     | Inl e \<Rightarrow> p_pending p' = p_pending p \<and>
         (p_closed p \<and> e = Mux ErrPeerClosed
          \<or> \<not> p_closed p \<and> e = Mux ErrInvalidCorrelation
            \<and> 2 ^ 64 - 2 \<le> length (p_pending p) + length (p_canceled p)))"
proof (cases "p_closed p")
  case True
  with assms show ?thesis by (auto simp: reservePending_def)
next
  case False
  with assms(2) have loop: "reserve_loop 0 p = (r, p')" by (simp add: reservePending_def)
  show ?thesis
  proof (cases r)
    case (Inl e)
    from reserve_loop_next [OF loop [unfolded Inl]] obtain n where
      "p' = p\<lparr>p_next := n\<rparr>" "e = Mux ErrInvalidCorrelation" by blast
    with reserve_loop_full [OF loop [unfolded Inl]] False Inl assms(1) show ?thesis
      by (simp add: calls_ok_def)
  next
    case (Inr cid)
    note l = reserve_loop_Inr [OF loop [unfolded Inr]]
    have "p_responses p (p_chans p) = []" using assms(1) by (simp add: calls_ok_def replies_ok_def)
    with l reserved_calls_ok [OF assms(1)] Inr show ?thesis by (simp add: used_def)
  qed
qed

theorem reservePending_correct_witness:
  "\<exists>p'. reservePending (fresh_peer 1000 std_config :: unit peer) = (Inr 1, p') \<and> calls_ok p'"
proof -
  have "reservePending (fresh_peer 1000 std_config :: unit peer) =
    (Inr 1, snd (reservePending (fresh_peer 1000 std_config :: unit peer)))"
    by (simp add: reservePending_def reserve_loop.simps fresh_peer_def word_gt_0)
  with reservePending_correct [OF fresh_calls_ok [OF std_config_ok] this] show ?thesis by blast
qed

text \<open>
  (C33) Resolving a response: it is delivered to the pending call with its number exactly when message type
  and stream agree too, and that call alone is completed, with one value on its channel; a response to an abandoned
  call is absorbed by its tombstone, which is then gone; every other response is
  \<open>ErrUnexpectedResponse\<close> and changes nothing.\<close>
theorem resolve_correct:
  assumes "calls_ok p" and "resolve f p = (e, p')"
  shows "calls_ok p' \<and>
    (let cid = CorrelationID (Header f) in
     case (mget (p_pending p) cid, mget (p_canceled p) cid) of
       (Some pe, _) \<Rightarrow>
         if pp_messageType pe = MessageType (Header f) \<and> pp_streamID pe = StreamID (Header f)
         then e = None \<and> mget (p_pending p') cid = None
              \<and> p_responses p' (pp_response pe) = [Inr f]
              \<and> (\<forall>r. r \<noteq> pp_response pe \<longrightarrow> p_responses p' r = p_responses p r)
              \<and> (\<forall>other. other \<noteq> cid \<longrightarrow> mget (p_pending p') other = mget (p_pending p) other)
         else e = Some (Mux ErrUnexpectedResponse) \<and> p' = p
     | (None, Some pe) \<Rightarrow>
         if pp_messageType pe = MessageType (Header f) \<and> pp_streamID pe = StreamID (Header f)
         then e = None \<and> mget (p_canceled p') cid = None \<and> cid \<notin> set (p_canceledOrder p')
              \<and> p_responses p' = p_responses p \<and> p_pending p' = p_pending p
         else e = Some (Mux ErrUnexpectedResponse) \<and> p' = p
     | (None, None) \<Rightarrow> e = Some (Mux ErrUnexpectedResponse) \<and> p' = p)"
proof (cases "mget (p_pending p) (CorrelationID (Header f))")
  case (Some pe)
  have "(CorrelationID (Header f), pe) \<in> set (p_pending p)"
    using assms(1) Some by (simp add: calls_ok_def tables_ok_def mget_is_map_mem)
  then have "p_responses p (pp_response pe) = []"
    using assms(1) by (force simp: calls_ok_def replies_ok_def)
  with resolve_calls_ok [OF assms] assms(2) Some show ?thesis
    by (auto simp: resolve_def Let_def split: if_splits)
next
  case None
  have "distinct (p_canceledOrder p)" using assms(1) by (simp add: calls_ok_def tables_ok_def)
  with resolve_calls_ok [OF assms] assms(2) None show ?thesis
    by (auto simp: resolve_def Let_def split: if_splits option.splits)
qed

definition call_peer :: "unit peer" where
  "call_peer = snd (reservePending (fresh_peer 1000 std_config))"

lemma call_peer_ok: "calls_ok call_peer"
  and call_peer_pending: "p_pending call_peer = [(1, \<lparr>pp_messageType = 0, pp_streamID = 0, pp_response = 0\<rparr>)]"
    "p_canceled call_peer = []" "\<not> p_closed call_peer" "p_responses call_peer = (\<lambda>_. [])"
proof -
  have eq: "reserve_loop 0 (fresh_peer 1000 std_config :: unit peer) =
    (Inr 1, (fresh_peer 1000 std_config)\<lparr>p_next := 1, p_chans := 1,
       p_pending := [(1, \<lparr>pp_messageType = 0, pp_streamID = 0, pp_response = 0\<rparr>)]\<rparr>)"
    by (simp add: reserve_loop.simps fresh_peer_def word_gt_0)
  have "call_peer = snd (reserve_loop 0 (fresh_peer 1000 std_config))"
    by (simp add: call_peer_def reservePending_def fresh_peer_def)
  then have call: "call_peer = (fresh_peer 1000 std_config)\<lparr>p_next := 1, p_chans := 1,
       p_pending := [(1, \<lparr>pp_messageType = 0, pp_streamID = 0, pp_response = 0\<rparr>)]\<rparr>" by (simp add: eq)
  show "p_pending call_peer = [(1, \<lparr>pp_messageType = 0, pp_streamID = 0, pp_response = 0\<rparr>)]"
    "p_canceled call_peer = []" "\<not> p_closed call_peer" "p_responses call_peer = (\<lambda>_. [])"
    by (simp_all add: call fresh_peer_def)
  have "\<not> used (fresh_peer 1000 std_config :: unit peer) 1" by (simp add: used_def fresh_peer_def)
  from reserved_calls_ok [OF fresh_calls_ok [OF std_config_ok] _ this] show "calls_ok call_peer"
    by (simp add: call fresh_peer_def)
qed

definition reply_frame :: frame where
  "reply_frame = \<lparr>Header = \<lparr>PayloadLength = 0, Version = 1, MessageType = 0, Flags = 2,
     CorrelationID = 1, StreamID = 0\<rparr>, Payload = []\<rparr>"

theorem resolve_correct_witness:
  "\<exists>p'. resolve reply_frame call_peer = (None, p') \<and> p_responses p' 0 = [Inr reply_frame] \<and> calls_ok p'"
proof -
  obtain e p' where r: "resolve reply_frame call_peer = (e, p')" by (cases "resolve reply_frame call_peer")
  from resolve_correct [OF call_peer_ok r] r show ?thesis
    by (simp add: call_peer_pending reply_frame_def)
qed

text \<open>
  (C36) \<open>Call\<close> looks its entry up again after \<open>reservePending\<close> has released the lock. If the peer shuts down
  in between, the entry is gone and the code dereferences a nil pointer while it holds the
  lock.\<close>
theorem call_after_fail_panics:
  assumes "reservePending p = (Inr cid, p')"
  shows "call_bind cid f (fail e p') = Panic"
proof -
  have "\<not> p_closed p" using assms by (auto simp: reservePending_def split: if_splits)
  then have "\<not> p_closed p'"
    using assms reserve_loop_Inr [of 0 p cid p'] by (simp add: reservePending_def)
  then show ?thesis by (simp add: call_bind_def fail_def)
qed

theorem call_after_fail_panics_witness:
  "\<exists>p'. reservePending (fresh_peer 1000 std_config :: unit peer) = (Inr 1, p')
     \<and> call_bind 1 pingFrame (fail (Mux ErrPeerClosed) p') = Panic"
proof -
  have "reservePending (fresh_peer 1000 std_config :: unit peer) =
    (Inr 1, snd (reservePending (fresh_peer 1000 std_config :: unit peer)))"
    by (simp add: reservePending_def reserve_loop.simps fresh_peer_def word_gt_0)
  with call_after_fail_panics [OF this] show ?thesis by blast
qed

end
