(* ===== verification/Mux_Peer_Sys.thy ===== *)
theory Mux_Peer_Sys
  imports Mux_Peer_Calls
begin

text \<open>
  The whole peer of \<open>peer.go\<close> as a transition system: callers, the scheduler goroutine, the
  reading goroutine, one worker per stream and shutdown interleave at their critical sections.
\<close>

section \<open>State and steps\<close>

text \<open>
  Besides the peer: the scheduler's local variables and the request it is handing to the
  transport, the frame \<open>Serve\<close> is trying to dispatch with the flag \<open>waited\<close>, and two histories:
  the requests accepted by \<open>send\<close> and those taken by the scheduler, in order.
\<close>

record 'h psys =
  ps_peer :: "'h peer"
  ps_sched :: sched
  ps_inflight :: "outboundRequest option"
  ps_reading :: "(frame \<times> bool) option"
  ps_accepted :: "outboundRequest list"
  ps_taken :: "outboundRequest list"

definition psys_start :: "'h peer \<Rightarrow> 'h psys" where
  "psys_start p = \<lparr>ps_peer = p, ps_sched = \<lparr>sc_classIndex = 0, sc_credit = 0, sc_cursor = 0\<rparr>,
     ps_inflight = None, ps_reading = None, ps_accepted = [], ps_taken = []\<rparr>"

datatype 'h peer_label =
    PRegister
  | PReserve "CorrelationID result"
  | PBind CorrelationID frame
  | PAbandon CorrelationID
  | PSend outboundRequest attempt
  | PTooLarge frame
  | PPick outboundRequest
  | PIdle
  | PSent outboundRequest "gerror option"
  | PServe
  | PReceive frame
  | PResponse frame
  | PDispatch frame attempt
  | PReadError gerror
  | PWork StreamID "'h worker_turn"
  | PHandled StreamID "gerror option"
  | PFail gerror

inductive peer_step :: "'h psys \<Rightarrow> 'h peer_label \<Rightarrow> 'h psys \<Rightarrow> bool" where
  register: "RegisterHandlers hs (ps_peer s) = (e, p') \<Longrightarrow>
     peer_step s PRegister (s\<lparr>ps_peer := p'\<rparr>)"
| reserve: "reservePending (ps_peer s) = (r, p') \<Longrightarrow>
     peer_step s (PReserve r) (s\<lparr>ps_peer := p'\<rparr>)"
| bind: "call_bind cid f (ps_peer s) = Ret p' \<Longrightarrow>
     peer_step s (PBind cid f) (s\<lparr>ps_peer := p'\<rparr>)"
| abandon: "peer_step s (PAbandon cid) (s\<lparr>ps_peer := abandonPending cid (ps_peer s)\<rparr>)"
| send: "send_request ctx f cl (ps_peer s) = (Inr req, p1) \<Longrightarrow> send_attempt req p1 = (r, p') \<Longrightarrow>
     peer_step s (PSend req r)
       (s\<lparr>ps_peer := p', ps_accepted := ps_accepted s @ (if r = Enqueued then [req] else [])\<rparr>)"
| too_large: "send_request ctx f cl (ps_peer s) = (Inl e, p') \<Longrightarrow>
     peer_step s (PTooLarge f) (s\<lparr>ps_peer := p'\<rparr>)"
| pick: "ps_inflight s = None \<Longrightarrow> schedule_pick (ps_sched s) (ps_peer s) = (Some req, sc', p') \<Longrightarrow>
     peer_step s (PPick req) (s\<lparr>ps_peer := p', ps_sched := sc', ps_inflight := Some req,
       ps_taken := ps_taken s @ [req]\<rparr>)"
| idle: "ps_inflight s = None \<Longrightarrow> schedule_pick (ps_sched s) (ps_peer s) = (None, sc', p') \<Longrightarrow>
     peer_step s PIdle (s\<lparr>ps_peer := p', ps_sched := sc'\<rparr>)"
| sent: "ps_inflight s = Some req \<Longrightarrow>
     peer_step s (PSent req e) (s\<lparr>ps_peer := schedule_sent req e (ps_peer s), ps_inflight := None\<rparr>)"
| serve: "serve_start ctx (ps_peer s) = (e, p') \<Longrightarrow> peer_step s PServe (s\<lparr>ps_peer := p'\<rparr>)"
| receive: "ps_reading s = None \<Longrightarrow> Flags (Header f) \<noteq> FlagResponse \<Longrightarrow>
     peer_step s (PReceive f) (s\<lparr>ps_peer := recordReceived f (ps_peer s), ps_reading := Some (f, False)\<rparr>)"
| response: "ps_reading s = None \<Longrightarrow> Flags (Header f) = FlagResponse \<Longrightarrow>
     peer_step s (PResponse f) (s\<lparr>ps_peer := snd (serve_response f (ps_peer s))\<rparr>)"
| dispatch: "ps_reading s = Some (f, w) \<Longrightarrow> dispatch_attempt f w (ps_peer s) = (r, w', p') \<Longrightarrow>
     peer_step s (PDispatch f r)
       (s\<lparr>ps_peer := (case r of Refused e \<Rightarrow> serve_refused e p' | _ \<Rightarrow> p'),
          ps_reading := (if r = MustWait then Some (f, w') else None)\<rparr>)"
| read_error: "ps_reading s = None \<Longrightarrow>
     peer_step s (PReadError e) (s\<lparr>ps_peer := snd (serve_read_error e (ps_peer s))\<rparr>)"
| work: "mget (p_workers (ps_peer s)) sid = Some Waiting \<Longrightarrow> worker_take sid (ps_peer s) = (t, p') \<Longrightarrow>
     peer_step s (PWork sid t) (s\<lparr>ps_peer := worker_fail t p'\<rparr>)"
| handled: "mget (p_workers (ps_peer s)) sid = Some (Handling f) \<Longrightarrow>
     peer_step s (PHandled sid e) (s\<lparr>ps_peer := worker_done sid e (ps_peer s)\<rparr>)"
| failure: "peer_step s (PFail e) (s\<lparr>ps_peer := fail e (ps_peer s)\<rparr>)"

inductive_cases peer_stepE: "peer_step s l t"

section \<open>What each operation leaves alone\<close>

text \<open>The fields each part of the invariant reads.\<close>

abbreviation out_part where
  "out_part p \<equiv> (p_config p, p_outbound p, p_outboundOrder p, p_outboundBytes p, p_outboundFrames p)"

abbreviation in_part where
  "in_part p \<equiv> (p_inbound p, p_workers p, p_closed p)"

abbreviation call_part where
  "call_part p \<equiv> (p_pending p, p_canceled p, p_canceledOrder p, p_responses p)"

lemma out_ok_cong: "out_part p' = out_part p \<Longrightarrow> out_ok p' = out_ok p"
  by (simp add: out_ok_def)

lemma in_ok_cong: "in_part p' = in_part p \<Longrightarrow> p_config p' = p_config p \<Longrightarrow> in_ok p' = in_ok p"
  by (simp add: in_ok_def)

lemma calls_ok_cong:
  "call_part p' = call_part p \<Longrightarrow> p_config p' = p_config p \<Longrightarrow> p_chans p \<le> p_chans p' \<Longrightarrow>
     calls_ok p \<Longrightarrow> calls_ok p'"
  by (auto simp: calls_ok_def intro: replies_ok_chans)

lemma RegisterHandlers_parts:
  assumes "RegisterHandlers hs p = (e, p')"
  shows "out_part p' = out_part p" "in_part p' = in_part p" "call_part p' = call_part p"
    "p_chans p' = p_chans p" "p_results p' = p_results p"
  using assms by (auto simp: RegisterHandlers_def split: if_splits option.splits)

lemma reservePending_parts:
  assumes "reservePending p = (r, p')"
  shows "out_part p' = out_part p" "in_part p' = in_part p" "p_chans p \<le> p_chans p'" "p_results p' = p_results p"
proof -
  have "out_part p' = out_part p \<and> in_part p' = in_part p \<and> p_chans p \<le> p_chans p' \<and> p_results p' = p_results p"
  proof (cases r)
    case (Inl e)
    with assms reserve_loop_next [of 0 p e p'] show ?thesis by (auto simp: reservePending_def split: if_splits)
  next
    case (Inr cid)
    with assms reserve_loop_Inr [of 0 p cid p'] show ?thesis by (auto simp: reservePending_def split: if_splits)
  qed
  then show "out_part p' = out_part p" "in_part p' = in_part p" "p_chans p \<le> p_chans p'"
    "p_results p' = p_results p" by auto
qed

lemma call_bind_parts:
  assumes "call_bind cid f p = Ret p'"
  shows "out_part p' = out_part p" "in_part p' = in_part p" "p_chans p' = p_chans p" "p_results p' = p_results p"
  using assms by (auto simp: call_bind_def split: option.splits)

lemma abandonPending_parts:
  "out_part (abandonPending cid p) = out_part p" "in_part (abandonPending cid p) = in_part p"
  "p_chans (abandonPending cid p) = p_chans p" "p_results (abandonPending cid p) = p_results p"
  by (auto simp: abandonPending_def Let_def split: option.splits list.splits)

lemma resolve_parts:
  assumes "resolve f p = (e, p')"
  shows "out_part p' = out_part p" "in_part p' = in_part p" "p_chans p' = p_chans p" "p_results p' = p_results p"
  using assms by (auto simp: resolve_def Let_def split: option.splits if_splits)

lemma send_request_parts:
  assumes "send_request ctx f cl p = (r, p')"
  shows "out_part p' = out_part p" "in_part p' = in_part p" "call_part p' = call_part p"
    "p_chans p' \<in> {p_chans p, Suc (p_chans p)}" "p_results p' = p_results p"
  using assms by (auto simp: send_request_def Let_def split: if_splits)

lemma send_request_Inr:
  assumes "send_request ctx f cl p = (Inr req, p')"
  shows "or_result req = p_chans p" "p_chans p' = Suc (p_chans p)"
    "request_ok (StreamID (Header (or_frame req))) req" "or_frame req = f"
proof -
  have cl: "cl \<in> {TrafficControl, TrafficInteractive, TrafficBulk}" if "cl \<noteq> 0" "cl \<le> 3" for cl :: TrafficClass
  proof -
    have "0 < unat cl" using that(1) by (simp add: unat_gt_0)
    moreover have "unat cl \<le> unat (3 :: TrafficClass)" using that(2) by (simp only: word_le_nat_alt)
    ultimately have "unat cl \<in> {1, 2, 3}" by auto
    then have "word_of_nat (unat cl) \<in> (word_of_nat :: nat \<Rightarrow> TrafficClass) ` {1, 2, 3}" by (rule imageI)
    then show ?thesis by (simp add: TrafficControl_def TrafficInteractive_def TrafficBulk_def)
  qed
  show "or_result req = p_chans p" "p_chans p' = Suc (p_chans p)" "or_frame req = f"
    "request_ok (StreamID (Header (or_frame req))) req"
    using assms cl [of "or_class req"]
    by (auto simp: send_request_def Let_def request_ok_def not_less TrafficControl_def TrafficBulk_def
        split: if_splits)
qed

lemma send_attempt_parts:
  assumes "send_attempt req p = (r, p')"
  shows "in_part p' = in_part p" "call_part p' = call_part p" "p_chans p' = p_chans p" "p_results p' = p_results p"
  using assms by (auto simp: send_attempt_def Let_def split: if_splits option.splits)

lemma take_at_parts:
  assumes "take_at i x p = (nx, p')"
  shows "in_part p' = in_part p" "call_part p' = call_part p" "p_chans p' = p_chans p"
    "p_results p' = p_results p" "p_config p' = p_config p"
  using assms by (auto simp: take_at_def Let_def split: prod.splits if_splits)

lemma takeLocked_parts:
  assumes "takeLocked cl cursor p = (r, nx, p')"
  shows "in_part p' = in_part p" "call_part p' = call_part p" "p_chans p' = p_chans p"
    "p_results p' = p_results p" "p_config p' = p_config p"
proof -
  have "in_part p' = in_part p \<and> call_part p' = call_part p \<and> p_chans p' = p_chans p
    \<and> p_results p' = p_results p \<and> p_config p' = p_config p"
  proof (cases r)
    case None
    with assms takeLocked_None [of cl cursor p nx p'] show ?thesis by simp
  next
    case (Some req)
    with assms have "takeLocked cl cursor p = (Some req, nx, p')" by simp
    from takeLocked_Some [OF this] obtain i q q' where "take_at i (q, req, q') p = (nx, p')" .
    from take_at_parts [OF this] show ?thesis by simp
  qed
  then show "in_part p' = in_part p" "call_part p' = call_part p" "p_chans p' = p_chans p"
    "p_results p' = p_results p" "p_config p' = p_config p" by auto
qed

lemma serve_start_parts:
  assumes "serve_start ctx p = (e, p')"
  shows "out_part p' = out_part p" "in_part p' = in_part p" "call_part p' = call_part p"
    "p_chans p' = p_chans p" "p_results p' = p_results p"
  using assms by (auto simp: serve_start_def split: if_splits)

lemma dispatch_attempt_parts:
  assumes "dispatch_attempt f w p = (r, w', p')"
  shows "out_part p' = out_part p" "call_part p' = call_part p" "p_chans p' = p_chans p"
    "p_results p' = p_results p" "p_closed p' = p_closed p"
  using assms
  by (auto simp: dispatch_attempt_def dispatch_entry_def Let_def split: if_splits option.splits)

lemma worker_take_parts:
  assumes "worker_take sid p = (t, p')"
  shows "out_part p' = out_part p" "call_part p' = call_part p" "p_chans p' = p_chans p"
    "p_results p' = p_results p" "p_closed p' = p_closed p"
  using assms by (auto simp: worker_take_def Let_def split: if_splits option.splits)

section \<open>Accepted requests\<close>

abbreviation stream_of :: "outboundRequest \<Rightarrow> StreamID" where
  "stream_of req \<equiv> StreamID (Header (or_frame req))"

abbreviation on_stream :: "StreamID \<Rightarrow> outboundRequest list \<Rightarrow> outboundRequest list" where
  "on_stream sid \<equiv> filter (\<lambda>req. stream_of req = sid)"

text \<open>
  Per stream, what \<open>send\<close> accepted is what the scheduler took followed by what is queued and, after
  a shutdown, what was dropped. A request has no answer exactly while it is queued or in flight,
  and no result channel ever gets two.
\<close>

definition hist_ok :: "'h peer \<Rightarrow> outboundRequest option \<Rightarrow> outboundRequest list \<Rightarrow> outboundRequest list \<Rightarrow> bool" where
  "hist_ok p infl acc tak \<longleftrightarrow>
     distinct (map or_result acc) \<and> (\<forall>req \<in> set acc. or_result req < p_chans p)
     \<and> (\<forall>r \<ge> p_chans p. p_results p r = []) \<and> (\<forall>r. length (p_results p r) \<le> 1)
     \<and> (\<forall>sid. \<exists>dropped. on_stream sid acc = on_stream sid tak @ queue_of p sid @ dropped
          \<and> (\<not> p_closed p \<longrightarrow> dropped = []))
     \<and> (\<forall>req \<in> set acc. p_results p (or_result req) = [] \<longleftrightarrow>
          req \<in> set (queue_of p (stream_of req)) \<or> infl = Some req)
     \<and> (\<forall>req. infl = Some req \<longrightarrow> req \<in> set tak)
     \<and> (p_closed p \<longrightarrow> p_outbound p = [])"

lemma hist_okD:
  assumes "hist_ok p infl acc tak"
  shows "distinct (map or_result acc)" "req \<in> set acc \<Longrightarrow> or_result req < p_chans p"
    "p_chans p \<le> r \<Longrightarrow> p_results p r = []" "length (p_results p r) \<le> 1"
    "\<exists>dropped. on_stream sid acc = on_stream sid tak @ queue_of p sid @ dropped
          \<and> (\<not> p_closed p \<longrightarrow> dropped = [])"
    "req \<in> set acc \<Longrightarrow> p_results p (or_result req) = [] \<longleftrightarrow>
          req \<in> set (queue_of p (stream_of req)) \<or> infl = Some req"
    "infl = Some req \<Longrightarrow> req \<in> set tak" "p_closed p \<Longrightarrow> p_outbound p = []"
  using assms by (auto simp: hist_ok_def)

lemma queue_of_cong: "p_outbound p' = p_outbound p \<Longrightarrow> queue_of p' = queue_of p"
  by (simp add: queue_of_def fun_eq_iff)

lemma hist_ok_cong:
  assumes "hist_ok p infl acc tak" and "p_outbound p' = p_outbound p" and "p_closed p' = p_closed p"
    and "p_chans p \<le> p_chans p'" and "p_results p' = p_results p"
  shows "hist_ok p' infl acc tak"
  using assms unfolding hist_ok_def queue_of_cong [OF assms(2)] by auto

lemma hist_subset:
  assumes "hist_ok p infl acc tak"
  shows "req \<in> set tak \<Longrightarrow> req \<in> set acc" "req \<in> set (queue_of p sid) \<Longrightarrow> req \<in> set acc \<and> stream_of req = sid"
    "req \<in> set tak \<Longrightarrow> req \<notin> set (queue_of p sid)"
proof -
  have split: "\<exists>d. on_stream k acc = on_stream k tak @ queue_of p k @ d" for k
    using hist_okD(5) [OF assms] by blast
  show "req \<in> set tak \<Longrightarrow> req \<in> set acc"
  proof -
    assume "req \<in> set tak"
    moreover obtain d where "on_stream (stream_of req) acc = on_stream (stream_of req) tak @ queue_of p (stream_of req) @ d"
      using split by blast
    ultimately have "req \<in> set (on_stream (stream_of req) acc)" by simp
    then show "req \<in> set acc" by simp
  qed
  show q: "req \<in> set acc \<and> stream_of req = sid" if "req \<in> set (queue_of p sid)" for req
  proof -
    obtain d where "on_stream sid acc = on_stream sid tak @ queue_of p sid @ d" using split by blast
    with that have "req \<in> set (on_stream sid acc)" by simp
    then show ?thesis by simp
  qed
  show "req \<notin> set (queue_of p sid)" if "req \<in> set tak"
  proof
    assume mem: "req \<in> set (queue_of p sid)"
    obtain d where d: "on_stream sid acc = on_stream sid tak @ queue_of p sid @ d" using split by blast
    have "distinct acc" using hist_okD(1) [OF assms] by (simp add: distinct_map)
    then have "distinct (on_stream sid tak @ queue_of p sid @ d)" by (simp flip: d)
    moreover have "req \<in> set (on_stream sid tak)" using that q [OF mem] by simp
    ultimately show False using mem by auto
  qed
qed

lemma hist_inj:
  assumes "hist_ok p infl acc tak" and "x \<in> set acc" and "y \<in> set acc" and "or_result x = or_result y"
  shows "x = y"
  using hist_okD(1) [OF assms(1)] assms(2-4) by (simp add: distinct_map inj_on_def)

lemma hist_start: "hist_ok (fresh_peer n c) None [] []"
  by (simp add: hist_ok_def fresh_peer_def queue_of_def)

subsection \<open>Queueing, taking, answering\<close>

lemma hist_send:
  assumes "hist_ok p infl acc tak" and "or_result req = p_chans p" and "p_chans p1 = Suc (p_chans p)"
    and "p_outbound p1 = p_outbound p" and "p_closed p1 = p_closed p" and "p_results p1 = p_results p"
    and "send_attempt req p1 = (r, p')"
  shows "hist_ok p' infl (acc @ (if r = Enqueued then [req] else [])) tak"
proof (cases "r = Enqueued")
  case False
  with send_attempt_same [OF assms(7)] hist_ok_cong [OF assms(1,4,5) _ assms(6)] assms(3) show ?thesis by simp
next
  case True
  note a = assms(7) [unfolded True]
  have q: "queue_of p' sid = queue_of p sid @ (if sid = stream_of req then [req] else [])" for sid
    using send_attempt_queue [OF a] queue_of_cong [OF assms(4)] by simp
  have open': "\<not> p_closed p" using a assms(5) by (auto simp: send_attempt_def split: if_splits)
  have eq: "p_chans p' = Suc (p_chans p)" "p_results p' = p_results p" "\<not> p_closed p'"
    using send_attempt_parts [OF a] assms(3,6) open' assms(5) by auto
  have new: "req \<notin> set acc" using hist_okD(2) [OF assms(1), of req] assms(2) by auto
  have fresh: "or_result req \<notin> or_result ` set acc" using hist_okD(2) [OF assms(1)] assms(2) by force
  have fifo: "\<forall>sid. \<exists>dropped. on_stream sid (acc @ [req]) = on_stream sid tak @ queue_of p' sid @ dropped
          \<and> (\<not> p_closed p' \<longrightarrow> dropped = [])"
    using hist_okD(5) [OF assms(1)] open' eq(3) q by auto
  have ans: "p_results p' (or_result x) = [] \<longleftrightarrow> x \<in> set (queue_of p' (stream_of x)) \<or> infl = Some x"
    if "x \<in> set (acc @ [req])" for x
    using that hist_okD(6) [OF assms(1), of x] hist_okD(3) [OF assms(1), of "or_result req"] assms(2) q new eq(2)
    by (cases "x = req") auto
  show ?thesis
    unfolding hist_ok_def
    using True fresh hist_okD(1-4,7) [OF assms(1)] assms(2) eq fifo ans
    by (auto simp: less_Suc_eq)
qed

lemma hist_take:
  assumes "hist_ok p None acc tak" and "out_ok p"
    and "queue_of p sid = req # queue_of p' sid" and "\<forall>other. other \<noteq> sid \<longrightarrow> queue_of p' other = queue_of p other"
    and "p_closed p' = p_closed p" and "p_chans p' = p_chans p" and "p_results p' = p_results p"
  shows "hist_ok p' (Some req) acc (tak @ [req])"
proof -
  have st: "stream_of req = sid" using hist_subset(2) [OF assms(1), of req sid] assms(3) by simp
  have open': "\<not> p_closed p" using hist_okD(8) [OF assms(1)] assms(3) by (auto simp: queue_of_def)
  have fifo: "\<forall>k. \<exists>dropped. on_stream k acc = on_stream k (tak @ [req]) @ queue_of p' k @ dropped
          \<and> (\<not> p_closed p' \<longrightarrow> dropped = [])"
  proof
    fix k
    show "\<exists>dropped. on_stream k acc = on_stream k (tak @ [req]) @ queue_of p' k @ dropped
          \<and> (\<not> p_closed p' \<longrightarrow> dropped = [])"
      using hist_okD(5) [OF assms(1), of k] st open' assms(3-5) by (cases "k = sid") auto
  qed
  have ans: "p_results p' (or_result x) = [] \<longleftrightarrow> x \<in> set (queue_of p' (stream_of x)) \<or> Some req = Some x"
    if "x \<in> set acc" for x
    using hist_okD(6) [OF assms(1) that] assms(3,4,7) st by (cases "stream_of x = sid") auto
  show ?thesis
    unfolding hist_ok_def using fifo ans hist_okD(1-4) [OF assms(1)] open' assms(5-7) by auto
qed

lemma hist_answer:
  assumes "hist_ok p (Some req) acc tak" and "p_outbound p' = p_outbound p" and "p_closed p' = p_closed p"
    and "p_chans p' = p_chans p" and "p_results p' = chan_send (or_result req) e (p_results p)"
  shows "hist_ok p' None acc tak"
proof -
  have tak: "req \<in> set tak" using hist_okD(7) [OF assms(1)] by simp
  then have acc: "req \<in> set acc" using hist_subset(1) [OF assms(1)] by simp
  have old: "p_results p (or_result req) = []" using hist_okD(6) [OF assms(1) acc] by simp
  have q: "queue_of p' = queue_of p" by (rule queue_of_cong [OF assms(2)])
  have ans: "p_results p' (or_result x) = [] \<longleftrightarrow> x \<in> set (queue_of p' (stream_of x))" if "x \<in> set acc" for x
  proof (cases "x = req")
    case True
    with hist_subset(3) [OF assms(1) tak] show ?thesis by (simp add: assms(5) chan_send_def q)
  next
    case False
    then have "or_result x \<noteq> or_result req" using hist_inj [OF assms(1) that acc] by blast
    with hist_okD(6) [OF assms(1) that] False show ?thesis by (simp add: assms(5) chan_send_def q)
  qed
  have "or_result req < p_chans p" using hist_okD(2) [OF assms(1) acc] .
  then show ?thesis
    unfolding hist_ok_def using hist_okD(1-5,8) [OF assms(1)] ans old assms(2-5) q
    by (auto simp: chan_send_def)
qed

subsection \<open>Shutdown\<close>

abbreviation queued :: "'h peer \<Rightarrow> outboundRequest list" where
  "queued p \<equiv> concat (map (os_queue \<circ> snd) (p_outbound p))"

lemma mem_queue_of: "x \<in> set (queue_of p sid) \<longleftrightarrow> (\<exists>s. mget (p_outbound p) sid = Some s \<and> x \<in> set (os_queue s))"
  by (cases "mget (p_outbound p) sid") (simp_all add: queue_of_def)

lemma set_queued:
  assumes "is_map (p_outbound p)"
  shows "set (queued p) = (\<Union>sid. set (queue_of p sid))"
proof (rule set_eqI)
  fix x
  have "x \<in> set (queued p) \<longleftrightarrow> (\<exists>sid s. (sid, s) \<in> set (p_outbound p) \<and> x \<in> set (os_queue s))" by force
  also have "\<dots> \<longleftrightarrow> (\<exists>sid. x \<in> set (queue_of p sid))" by (simp only: mem_queue_of mget_is_map_mem [OF assms])
  finally show "x \<in> set (queued p) \<longleftrightarrow> x \<in> (\<Union>sid. set (queue_of p sid))" by simp
qed

lemma distinct_queued:
  assumes "is_map m" and "\<forall>(sid, s) \<in> set m. distinct (os_queue s) \<and> (\<forall>req \<in> set (os_queue s). stream_of req = sid)"
  shows "distinct (concat (map (os_queue \<circ> snd) m))"
  using assms
proof (induction m)
  case (Cons x m)
  have "stream_of req \<noteq> fst x" if "req \<in> set (os_queue (snd y))" "y \<in> set m" for req y
    using Cons.prems that by (cases x; cases y) (force simp: is_map_def)
  moreover have "\<forall>req \<in> set (os_queue (snd x)). stream_of req = fst x" using Cons.prems(2) by (cases x) simp
  ultimately have "set (os_queue (snd x)) \<inter> set (concat (map (os_queue \<circ> snd) m)) = {}" by fastforce
  with Cons show ?case by (auto simp: is_map_def)
qed simp

lemma fold_queued:
  "fold (\<lambda>(sid, s). fold (\<lambda>req. chan_send (or_result req) x) (os_queue s)) m ch =
     fold (\<lambda>req. chan_send (or_result req) x) (concat (map (os_queue \<circ> snd) m)) ch"
  by (induction m arbitrary: ch) (auto simp: case_prod_unfold)

lemma fail_results:
  assumes "hist_ok p infl acc tak" and "out_ok p" and "\<not> p_closed p"
  shows "p_results (fail e p) r = p_results p r @ (if r \<in> or_result ` set (queued p) then [Some e] else [])"
proof -
  have m: "is_map (p_outbound p)" by (rule out_okD(1) [OF assms(2)])
  have dacc: "distinct acc" using hist_okD(1) [OF assms(1)] by (simp add: distinct_map)
  have dq: "distinct (queue_of p sid)" for sid
  proof -
    obtain d where "on_stream sid acc = on_stream sid tak @ queue_of p sid @ d"
      using hist_okD(5) [OF assms(1)] by blast
    moreover have "distinct (on_stream sid acc)" using dacc by simp
    ultimately show ?thesis by simp
  qed
  have "distinct (os_queue s) \<and> (\<forall>req \<in> set (os_queue s). stream_of req = sid)" if "(sid, s) \<in> set (p_outbound p)" for sid s
    using that m dq [of sid] hist_subset(2) [OF assms(1), of _ sid] by (simp add: queue_of_def flip: mget_is_map_mem)
  then have "distinct (queued p)" using distinct_queued [OF m] by blast
  moreover have "inj_on or_result (set (queued p))"
    using hist_inj [OF assms(1)] hist_subset(2) [OF assms(1)] unfolding set_queued [OF m] inj_on_def by blast
  ultimately have "distinct (map or_result (queued p))" by (simp add: distinct_map)
  from fold_chan_send [OF this, of "Some e" "p_results p" r] assms(3) show ?thesis
    by (simp add: fail_def fold_queued)
qed

lemma fail_queue: "\<not> p_closed p \<Longrightarrow> queue_of (fail e p) sid = []"
  by (simp add: fail_def queue_of_def)

lemma hist_fail:
  assumes "hist_ok p infl acc tak" and "out_ok p"
  shows "hist_ok (fail e p) infl acc tak"
proof (cases "p_closed p")
  case True
  with assms(1) show ?thesis by (simp add: fail_closed)
next
  case False
  note res = fail_results [OF assms False]
  note set = set_queued [OF out_okD(1) [OF assms(2)]]
  have inacc: "x \<in> set acc" if "x \<in> set (queued p)" for x using that hist_subset(2) [OF assms(1)] unfolding set by blast
  have mem: "or_result x \<in> or_result ` set (queued p) \<longleftrightarrow> x \<in> set (queue_of p (stream_of x))" if "x \<in> set acc" for x
  proof
    assume "or_result x \<in> or_result ` set (queued p)"
    then obtain y where y: "y \<in> set (queued p)" "or_result x = or_result y" by blast
    then have "y = x" using hist_inj [OF assms(1) inacc that] by simp
    then obtain sid where "x \<in> set (queue_of p sid)" using y(1) unfolding set by blast
    then show "x \<in> set (queue_of p (stream_of x))" using hist_subset(2) [OF assms(1)] by blast
  qed (use set in blast)
  have ans: "p_results (fail e p) (or_result x) = [] \<longleftrightarrow> infl = Some x" if "x \<in> set acc" for x
    using hist_okD(6) [OF assms(1) that] mem [OF that] hist_subset(3) [OF assms(1), of x]
      hist_okD(7) [OF assms(1), of x] res by auto
  have low: "r < p_chans p \<and> p_results p r = []" if "r \<in> or_result ` set (queued p)" for r
  proof -
    from that obtain y where y: "y \<in> set (queued p)" "r = or_result y" by blast
    then show ?thesis
      using hist_okD(2,6) [OF assms(1) inacc [OF y(1)]] mem [OF inacc [OF y(1)]] by blast
  qed
  have "length (p_results (fail e p) r) \<le> 1" "p_chans p \<le> r \<Longrightarrow> p_results (fail e p) r = []" for r
    using res low [of r] hist_okD(3,4) [OF assms(1), of r] by auto
  moreover have "\<exists>dropped. on_stream sid acc = on_stream sid tak @ queue_of (fail e p) sid @ dropped" for sid
    using hist_okD(5) [OF assms(1), of sid] by (auto simp: fail_queue [OF False])
  moreover have "p_outbound (fail e p) = []" using False by (simp add: fail_def)
  ultimately show ?thesis
    unfolding hist_ok_def using hist_okD(1,2,7) [OF assms(1)] ans by (simp add: fail_queue [OF False])
qed

lemma fail_out_ok: "out_ok p \<Longrightarrow> config_ok (p_config p) \<Longrightarrow> out_ok (fail e p)"
  by (auto simp: fail_def out_ok_def outs_ok_def config_ok_def)

section \<open>The invariant of the system\<close>

definition core_ok :: "'h peer \<Rightarrow> outboundRequest option \<Rightarrow> outboundRequest list \<Rightarrow> outboundRequest list \<Rightarrow> bool" where
  "core_ok p infl acc tak \<longleftrightarrow>
     config_ok (p_config p) \<and> out_ok p \<and> in_ok p \<and> calls_ok p \<and> hist_ok p infl acc tak"

definition psys_ok :: "'h psys \<Rightarrow> bool" where
  "psys_ok s \<longleftrightarrow> core_ok (ps_peer s) (ps_inflight s) (ps_accepted s) (ps_taken s)
     \<and> sched_ok (p_config (ps_peer s)) (ps_sched s)"

lemma psys_start_ok: "config_ok c \<Longrightarrow> psys_ok (psys_start (fresh_peer n c))"
  using sched_start_ok [of c 0] fresh_out_ok [of c n] fresh_in_ok [of c n] fresh_calls_ok [of c n]
  by (simp add: psys_ok_def core_ok_def psys_start_def hist_start) (simp add: fresh_peer_def)

lemma core_cong:
  assumes "core_ok p infl acc tak" and "out_part p' = out_part p" and "in_part p' = in_part p"
    and "call_part p' = call_part p" and "p_chans p \<le> p_chans p'" and "p_results p' = p_results p"
  shows "core_ok p' infl acc tak"
proof -
  have c: "p_config p' = p_config p" and eq: "p_outbound p' = p_outbound p" "p_closed p' = p_closed p"
    using assms(2,3) by auto
  have parts: "config_ok (p_config p)" "out_ok p" "in_ok p" "calls_ok p" "hist_ok p infl acc tak"
    using assms(1) by (simp_all add: core_ok_def)
  show ?thesis
    unfolding core_ok_def
    using parts out_ok_cong [OF assms(2)] in_ok_cong [OF assms(3) c] calls_ok_cong [OF assms(4) c assms(5)]
      hist_ok_cong [OF parts(5) eq assms(5,6)] c by simp
qed

lemma core_fail: "core_ok p infl acc tak \<Longrightarrow> core_ok (fail e p) infl acc tak"
  by (simp add: core_ok_def fail_out_ok fail_in_ok fail_calls_ok hist_fail)

lemma core_protocolError: "core_ok p infl acc tak \<Longrightarrow> core_ok (recordProtocolError p) infl acc tak"
  by (erule core_cong) (simp_all add: recordProtocolError_def)

lemma core_received: "core_ok p infl acc tak \<Longrightarrow> core_ok (recordReceived f p) infl acc tak"
  by (erule core_cong) (simp_all add: recordReceived_def)

lemma core_calls:
  assumes "core_ok p infl acc tak" and "calls_ok p'" and "out_part p' = out_part p" and "in_part p' = in_part p"
    and "p_chans p \<le> p_chans p'" and "p_results p' = p_results p"
  shows "core_ok p' infl acc tak"
proof -
  have c: "p_config p' = p_config p" and eq: "p_outbound p' = p_outbound p" "p_closed p' = p_closed p"
    using assms(3,4) by auto
  show ?thesis
    using assms(1,2) out_ok_cong [OF assms(3)] in_ok_cong [OF assms(4) c]
      hist_ok_cong [OF _ eq assms(5,6), of infl acc tak] c by (simp add: core_ok_def)
qed

lemma core_inbound:
  assumes "core_ok p infl acc tak" and "in_ok p'" and "out_part p' = out_part p" and "call_part p' = call_part p"
    and "p_closed p' = p_closed p" and "p_chans p' = p_chans p" and "p_results p' = p_results p"
  shows "core_ok p' infl acc tak"
proof -
  have c: "p_config p' = p_config p" and eq: "p_outbound p' = p_outbound p" using assms(3) by auto
  show ?thesis
    using assms(1,2) out_ok_cong [OF assms(3)] calls_ok_cong [OF assms(4) c]
      hist_ok_cong [OF _ eq assms(5) _ assms(7), of infl acc tak] assms(6) c by (simp add: core_ok_def)
qed

lemma core_send:
  assumes "core_ok p infl acc tak" and "send_request ctx f cl p = (Inr req, p1)" and "send_attempt req p1 = (r, p')"
  shows "core_ok p' infl (acc @ (if r = Enqueued then [req] else [])) tak"
proof -
  note sr = send_request_parts [OF assms(2)] and si = send_request_Inr [OF assms(2)]
  note sa = send_attempt_parts [OF assms(3)]
  have p1: "core_ok p1 infl acc tak"
    by (rule core_cong [OF assms(1) sr(1-3) _ sr(5)]) (use si(2) in simp)
  then have ok: "config_ok (p_config p1)" "out_ok p1" by (auto simp: core_ok_def)
  have c: "p_config p' = p_config p1" by (rule send_attempt_config [OF assms(3)])
  have "hist_ok p infl acc tak" using assms(1) by (simp add: core_ok_def)
  from hist_send [OF this si(1,2) _ _ sr(5) assms(3)] sr(1,2)
  have "hist_ok p' infl (acc @ (if r = Enqueued then [req] else [])) tak" by simp
  moreover have "out_ok p'" by (rule send_attempt_out_ok [OF ok(2) si(3) config_okD(3) [OF ok(1)] assms(3)])
  ultimately show ?thesis
    using p1 ok c in_ok_cong [OF sa(1) c] calls_ok_cong [OF sa(2) c] sa(3) by (simp add: core_ok_def)
qed

lemma core_pick:
  assumes "core_ok p None acc tak" and "sched_ok (p_config p) sc"
    and "schedule_pick sc p = (Some req, sc', p')"
  shows "core_ok p' (Some req) acc (tak @ [req])" "sched_ok (p_config p') sc'"
proof -
  have ok: "config_ok (p_config p)" "out_ok p" "in_ok p" "calls_ok p" "hist_ok p None acc tak"
    using assms(1) by (auto simp: core_ok_def)
  note w = schedule_pick_wrr [OF ok(1) assms(2,3)]
  from w(4) [OF refl] obtain j cursor nx where t: "takeLocked (sched_classes ! j) cursor p = (Some req, nx, p')" by blast
  note parts = takeLocked_parts [OF t]
  from takeLocked_queue [OF ok(2) t] obtain sid where q: "out_ok p'" "queue_of p sid = req # queue_of p' sid"
    "\<forall>other. other \<noteq> sid \<longrightarrow> queue_of p' other = queue_of p other" by blast
  from hist_take [OF ok(5,2) q(2,3)] parts have "hist_ok p' (Some req) acc (tak @ [req])" by simp
  with ok q(1) in_ok_cong [OF parts(1,5)] calls_ok_cong [OF parts(2,5)] parts
  show "core_ok p' (Some req) acc (tak @ [req])" by (simp add: core_ok_def)
  show "sched_ok (p_config p') sc'" using w(1) parts(5) by simp
qed

lemma core_sent:
  assumes "core_ok p (Some req) acc tak"
  shows "core_ok (schedule_sent req e p) None acc tak"
proof -
  define p1 where "p1 = (if e = None then recordSent (or_frame req) p else p)"
  define p2 where "p2 = p1\<lparr>p_results := chan_send (or_result req) e (p_results p1)\<rparr>"
  have ok: "config_ok (p_config p)" "out_ok p" "in_ok p" "calls_ok p" "hist_ok p (Some req) acc tak"
    using assms by (auto simp: core_ok_def)
  have parts: "out_part p2 = out_part p" "in_part p2 = in_part p" "call_part p2 = call_part p"
    "p_chans p2 = p_chans p" "p_results p2 = chan_send (or_result req) e (p_results p)"
    and c: "p_config p2 = p_config p" by (simp_all add: p1_def p2_def recordSent_def)
  have "hist_ok p2 None acc tak"
    by (rule hist_answer [OF ok(5) _ _ parts(4,5)]) (use parts(1,2) in simp_all)
  then have "core_ok p2 None acc tak"
    using ok out_ok_cong [OF parts(1)] in_ok_cong [OF parts(2) c] calls_ok_cong [OF parts(3) c] c parts(4)
    unfolding core_ok_def by simp
  moreover have "schedule_sent req e p = (case e of None \<Rightarrow> p2 | Some x \<Rightarrow> fail x p2)"
    by (simp only: schedule_sent_def Let_def p1_def p2_def)
  ultimately show ?thesis by (cases e) (simp_all add: core_fail)
qed

lemma core_response:
  assumes "core_ok p infl acc tak"
  shows "core_ok (snd (serve_response f p)) infl acc tak"
proof -
  obtain e p' where r: "resolve f (recordReceived f p) = (e, p')" by (cases "resolve f (recordReceived f p)")
  note rec = core_received [OF assms, of f]
  have "calls_ok p'" using resolve_calls_ok [OF _ r] rec by (simp add: core_ok_def)
  from core_calls [OF rec this] resolve_parts [OF r] have "core_ok p' infl acc tak" by simp
  then show ?thesis using r by (cases e) (simp_all add: serve_response_def core_fail core_protocolError)
qed

lemma core_worker_take:
  assumes "core_ok p infl acc tak" and "mget (p_workers p) sid = Some w" and "worker_take sid p = (t, p')"
  shows "core_ok (worker_fail t p') infl acc tak"
proof -
  have "in_ok p" using assms(1) by (simp add: core_ok_def)
  note wi = worker_take_in_ok [OF this assms(2,3)] and wp = worker_take_parts [OF assms(3)]
  show ?thesis
  proof (cases t)
    case (NoHandler f)
    let ?r = "recordProtocolError p'"
    have c: "p_config p' = p_config p" and eq: "p_outbound p' = p_outbound p" using wp(1) by simp_all
    have "core_ok p infl acc tak" by fact
    then have "out_ok ?r" "calls_ok ?r" "hist_ok ?r infl acc tak" "config_ok (p_config ?r)"
      using out_ok_cong [of ?r p] calls_ok_cong [of ?r p] hist_ok_cong [of p infl acc tak ?r] wp c
      by (simp_all add: core_ok_def recordProtocolError_def)
    with wi NoHandler show ?thesis
      by (simp add: worker_fail_def core_ok_def fail_out_ok fail_calls_ok hist_fail)
  qed (use wi core_inbound [OF assms(1) _ wp(1,2,5,3,4)] in \<open>simp_all add: worker_fail_def\<close>)
qed

lemma core_worker_done:
  assumes "core_ok p infl acc tak" and "mget (p_workers p) sid = Some w"
  shows "core_ok (worker_done sid e p) infl acc tak"
proof -
  have ok: "in_ok p" "out_ok p" "calls_ok p" "hist_ok p infl acc tak" "config_ok (p_config p)"
    using assms(1) by (simp_all add: core_ok_def)
  note wi = worker_done_in_ok [OF ok(1) assms(2), of e]
  show ?thesis
  proof (cases e)
    case None
    with wi core_inbound [OF assms(1), of "worker_done sid e p"] show ?thesis by (simp add: worker_done_def)
  next
    case (Some x)
    let ?r = "recordProtocolError (p\<lparr>p_workers := mdel sid (p_workers p)\<rparr>)"
    have "out_ok ?r" "calls_ok ?r" "hist_ok ?r infl acc tak" "config_ok (p_config ?r)"
      using ok out_ok_cong [of ?r p] calls_ok_cong [of ?r p] hist_ok_cong [of p infl acc tak ?r]
      by (simp_all add: recordProtocolError_def)
    with wi Some show ?thesis
      by (simp add: worker_done_def core_ok_def fail_out_ok fail_calls_ok hist_fail)
  qed
qed

text \<open>Every interleaving keeps the invariant.\<close>

lemma peer_step_core:
  assumes "psys_ok s" and "peer_step s l t"
  shows "core_ok (ps_peer t) (ps_inflight t) (ps_accepted t) (ps_taken t)"
proof -
  have ok: "core_ok (ps_peer s) (ps_inflight s) (ps_accepted s) (ps_taken s)"
    "sched_ok (p_config (ps_peer s)) (ps_sched s)" using assms(1) by (simp_all add: psys_ok_def)
  have parts: "calls_ok (ps_peer s)" "in_ok (ps_peer s)" "config_ok (p_config (ps_peer s))"
    using ok(1) by (simp_all add: core_ok_def)
  from assms(2) show ?thesis
  proof cases
    case (register hs e p')
    from core_cong [OF ok(1) RegisterHandlers_parts(1-3) [OF register(3)]] RegisterHandlers_parts(4,5) [OF register(3)]
    show ?thesis by (simp add: register(2))
  next
    case (reserve r p')
    have "calls_ok p'" by (rule reservePending_calls_ok [OF parts(1) reserve(3)])
    from core_calls [OF ok(1) this reservePending_parts [OF reserve(3)]] show ?thesis by (simp add: reserve(2))
  next
    case (bind cid f p')
    from core_calls [OF ok(1) call_bind_calls_ok [OF parts(1) bind(3)] call_bind_parts(1,2) [OF bind(3)]]
      call_bind_parts(3,4) [OF bind(3)] show ?thesis by (simp add: bind(2))
  next
    case (abandon cid)
    from core_calls [OF ok(1) abandonPending_calls_ok [OF parts(1), of cid] abandonPending_parts(1,2)]
      abandonPending_parts(3,4) [of cid "ps_peer s"] show ?thesis by (simp add: abandon(2))
  next
    case (send ctx f cl req p1 r p')
    from core_send [OF ok(1) send(3,4)] show ?thesis by (simp add: send(2))
  next
    case (too_large ctx f cl e p')
    from core_cong [OF ok(1) send_request_parts(1-3) [OF too_large(3)]] send_request_parts(4,5) [OF too_large(3)]
    show ?thesis by (auto simp: too_large(2))
  next
    case (pick req sc' p')
    from core_pick(1) [OF ok(1) [unfolded pick(3)] ok(2) pick(4)] show ?thesis by (simp add: pick(2))
  next
    case (idle sc' p')
    from schedule_pick_wrr(3) [OF parts(3) ok(2) idle(4) refl] ok(1) idle(3) show ?thesis by (simp add: idle(2))
  next
    case (sent req e)
    from core_sent [OF ok(1) [unfolded sent(3)]] show ?thesis by (simp add: sent(2))
  next
    case (serve ctx e p')
    from core_cong [OF ok(1) serve_start_parts(1-3) [OF serve(3)]] serve_start_parts(4,5) [OF serve(3)]
    show ?thesis by (simp add: serve(2))
  next
    case (dispatch f w r w' p')
    note d = dispatch_attempt_parts [OF dispatch(4)]
    have "core_ok p' (ps_inflight s) (ps_accepted s) (ps_taken s)"
      by (rule core_inbound [OF ok(1) dispatch_attempt_in_ok [OF parts(2,3) dispatch(4)] d(1,2,5,3,4)])
    then show ?thesis
      by (cases r) (simp_all add: dispatch(2) serve_refused_def core_fail core_protocolError)
  next
    case (work sid t' p')
    from core_worker_take [OF ok(1) work(3,4)] show ?thesis by (simp add: work(2))
  next
    case (handled sid f e)
    from core_worker_done [OF ok(1) handled(3)] show ?thesis by (simp add: handled(2))
  qed (use ok(1) in \<open>simp_all add: core_received core_response core_fail core_protocolError serve_read_error_def Let_def\<close>)
qed

lemma peer_step_config:
  assumes "psys_ok s" and "peer_step s l t"
  shows "p_config (ps_peer t) = p_config (ps_peer s)"
proof -
  have ok: "core_ok (ps_peer s) (ps_inflight s) (ps_accepted s) (ps_taken s)"
    "sched_ok (p_config (ps_peer s)) (ps_sched s)" using assms(1) by (simp_all add: psys_ok_def)
  have parts: "config_ok (p_config (ps_peer s))" using ok(1) by (simp add: core_ok_def)
  from assms(2) show ?thesis
  proof cases
    case (pick req sc' p')
    from schedule_pick_wrr(4) [OF parts ok(2) pick(4) refl] takeLocked_parts(5) pick(2) show ?thesis by auto
  next
    case (idle sc' p')
    from schedule_pick_wrr(3) [OF parts ok(2) idle(4) refl] show ?thesis by (simp add: idle(2))
  next
    case (send ctx f cl req p1 r p')
    from send_request_parts(1) [OF send(3)] send_attempt_config [OF send(4)] show ?thesis by (simp add: send(2))
  next
    case (sent req e)
    then show ?thesis by (cases e) (simp_all add: schedule_sent_def recordSent_def Let_def)
  next
    case (dispatch f w r w' p')
    with dispatch_attempt_parts(1) [OF dispatch(4)] show ?thesis by (cases r) (simp_all add: serve_refused_def)
  next
    case (work sid t' p')
    with worker_take_parts(1) [OF work(4)] show ?thesis by (cases t') (simp_all add: worker_fail_def)
  next
    case (handled sid f e)
    then show ?thesis by (cases e) (simp_all add: worker_done_def)
  next
    case (response f)
    then show ?thesis
      by (cases "resolve f (recordReceived f (ps_peer s))"; cases "fst (resolve f (recordReceived f (ps_peer s)))")
        (auto simp: serve_response_def recordReceived_def dest!: resolve_parts(1))
  next
    case (too_large ctx f cl e p')
    with send_request_parts(1) [OF too_large(3)] show ?thesis by simp
  next
    case (register hs e p')
    with RegisterHandlers_parts(1) [OF register(3)] show ?thesis by simp
  next
    case (reserve r p')
    with reservePending_parts(1) [OF reserve(3)] show ?thesis by simp
  next
    case (bind cid f p')
    with call_bind_parts(1) [OF bind(3)] show ?thesis by simp
  next
    case (abandon cid)
    with abandonPending_parts(1) [of cid "ps_peer s"] show ?thesis by simp
  next
    case (serve ctx e p')
    with serve_start_parts(1) [OF serve(3)] show ?thesis by simp
  qed (simp_all add: recordReceived_def serve_read_error_def Let_def)
qed

lemma peer_step_ok:
  assumes "psys_ok s" and "peer_step s l t"
  shows "psys_ok t"
proof -
  have ok: "core_ok (ps_peer s) (ps_inflight s) (ps_accepted s) (ps_taken s)"
    "sched_ok (p_config (ps_peer s)) (ps_sched s)" using assms(1) by (simp_all add: psys_ok_def)
  have c: "config_ok (p_config (ps_peer s))" using ok(1) by (simp add: core_ok_def)
  have "sched_ok (p_config (ps_peer s)) (ps_sched t)"
    using assms(2)
    by cases (use ok(2) schedule_pick_wrr(1) [OF c ok(2)] in auto)
  with peer_step_config [OF assms] peer_step_core [OF assms] show ?thesis by (simp add: psys_ok_def)
qed

interpretation peer_inv: step_invariant peer_step psys_ok
  by unfold_locales (rule peer_step_ok)

lemma peer_reachable:
  assumes "NewPeer conn c0 = Inr p" and "trace peer_step (psys_start p) ls s"
  shows "psys_ok s"
proof -
  from NewPeer_fresh [OF assms(1)] obtain n c where "p = fresh_peer n c" "config_ok c" by blast
  with psys_start_ok peer_inv.trace_keeps [OF assms(2)] show ?thesis by blast
qed

section \<open>Order and exclusion per stream\<close>

text \<open>What a label puts into and takes out of the inbound queue of one stream.\<close>

fun label_queued :: "StreamID \<Rightarrow> 'h peer_label \<Rightarrow> frame list" where
  "label_queued sid (PDispatch f r) = (if r = Enqueued \<and> StreamID (Header f) = sid then [f] else [])"
| "label_queued sid _ = []"

fun label_handled :: "StreamID \<Rightarrow> 'h peer_label \<Rightarrow> frame list" where
  "label_handled sid (PWork k (CallHandler h f)) = (if k = sid then [f] else [])"
| "label_handled sid (PWork k (NoHandler f)) = (if k = sid then [f] else [])"
| "label_handled sid _ = []"

lemma inbox_of_cong: "p_inbound p' = p_inbound p \<Longrightarrow> inbox_of p' = inbox_of p"
  by (simp add: inbox_of_def fun_eq_iff)

lemma dispatch_attempt_inbox:
  assumes "dispatch_attempt f w p = (r, w', p')"
  shows "inbox_of p' sid = inbox_of p sid @ (if r = Enqueued \<and> StreamID (Header f) = sid then [f] else [])"
proof (cases rule: dispatch_attempt_cases [of p f w])
  case (entered p1 s)
  have base: "inbox_of p1 = inbox_of p" by (simp add: entered(4))
  have push: "inbox_of (p1\<lparr>p_inbound := mput (StreamID (Header f)) (push_inbound f s) (p_inbound p1)\<rparr>) sid =
      inbox_of p1 sid @ (if StreamID (Header f) = sid then [f] else [])"
    using entered(5) by (auto simp: inbox_of_def push_inbound_def)
  show ?thesis
    using entered(6) assms push by (auto simp: base split: if_splits)
qed (use assms in auto)

lemma peer_step_inbox:
  assumes "psys_ok s" and "peer_step s l t"
  shows "inbox_of (ps_peer s) sid @ label_queued sid l = label_handled sid l @ inbox_of (ps_peer t) sid"
  using assms(2)
proof cases
  case (dispatch f w r w' p')
  with dispatch_attempt_inbox [OF dispatch(4), of sid] show ?thesis
    by (cases r) (simp_all add: serve_refused_def)
next
  case (work k t' p')
  have "in_ok (ps_peer s)" using assms(1) by (simp add: psys_ok_def core_ok_def)
  note w = worker_take_inbox [OF this work(3,4)]
  show ?thesis
    by (cases t'; cases "k = sid") (use w(1) w(2) [of sid] in \<open>simp_all add: work worker_fail_def\<close>)
next
  case (response f)
  obtain e p' where r: "resolve f (recordReceived f (ps_peer s)) = (e, p')"
    by (cases "resolve f (recordReceived f (ps_peer s))")
  then have "p_inbound p' = p_inbound (ps_peer s)" using resolve_parts(2) [OF r] by (simp add: recordReceived_def)
  then have "inbox_of p' = inbox_of (ps_peer s)" by (rule inbox_of_cong)
  with r response show ?thesis by (cases e) (simp_all add: serve_response_def)
next
  case (sent req e)
  then show ?thesis by (cases e) (simp_all add: schedule_sent_def recordSent_def Let_def inbox_of_def)
next
  case (handled k f e)
  then show ?thesis by (cases e) (simp_all add: worker_done_def inbox_of_def)
next
  case (pick req sc' p')
  have ok: "config_ok (p_config (ps_peer s))" "sched_ok (p_config (ps_peer s)) (ps_sched s)"
    using assms(1) by (simp_all add: psys_ok_def core_ok_def)
  from schedule_pick_wrr(4) [OF ok pick(4) refl] obtain j cursor nx where
    "takeLocked (sched_classes ! j) cursor (ps_peer s) = (Some req, nx, p')" by blast
  from takeLocked_parts(1) [OF this] inbox_of_cong [of p' "ps_peer s"] show ?thesis by (simp add: pick)
next
  case (idle sc' p')
  have ok: "config_ok (p_config (ps_peer s))" "sched_ok (p_config (ps_peer s)) (ps_sched s)"
    using assms(1) by (simp_all add: psys_ok_def core_ok_def)
  from schedule_pick_wrr(3) [OF ok idle(4) refl] show ?thesis by (simp add: idle)
next
  case (send ctx f cl req p1 r p')
  from send_request_parts(2) [OF send(3)] send_attempt_parts(1) [OF send(4)] inbox_of_cong [of p' "ps_peer s"]
  show ?thesis by (simp add: send)
next
  case (too_large ctx f cl e p')
  from send_request_parts(2) [OF too_large(3)] inbox_of_cong [of p' "ps_peer s"] show ?thesis by (simp add: too_large)
next
  case (register hs e p')
  with RegisterHandlers_parts(2) [OF register(3)] inbox_of_cong [of p' "ps_peer s"] show ?thesis by simp
next
  case (reserve r p')
  with reservePending_parts(2) [OF reserve(3)] inbox_of_cong [of p' "ps_peer s"] show ?thesis by simp
next
  case (bind cid f p')
  with call_bind_parts(2) [OF bind(3)] inbox_of_cong [of p' "ps_peer s"] show ?thesis by simp
next
  case (abandon cid)
  with abandonPending_parts(2) [of cid "ps_peer s"]
    inbox_of_cong [of "abandonPending cid (ps_peer s)" "ps_peer s"] show ?thesis by simp
next
  case (serve ctx e p')
  with serve_start_parts(2) [OF serve(3)] inbox_of_cong [of p' "ps_peer s"] show ?thesis by simp
qed (simp_all add: recordReceived_def serve_read_error_def Let_def inbox_of_def)

interpretation peer_inbox: fifo_observation peer_step psys_ok
    "label_queued sid" "label_handled sid" "\<lambda>s. inbox_of (ps_peer s) sid" for sid
  by unfold_locales (rule peer_step_inbox)

text \<open>A handler call of a stream is open from the worker's turn to the handler's return.\<close>

fun open_calls :: "StreamID \<Rightarrow> 'h peer_label list \<Rightarrow> int" where
  "open_calls sid [] = 0"
| "open_calls sid (PWork k (CallHandler h f) # ls) = (if k = sid then 1 else 0) + open_calls sid ls"
| "open_calls sid (PHandled k e # ls) = (if k = sid then - 1 else 0) + open_calls sid ls"
| "open_calls sid (_ # ls) = open_calls sid ls"

lemma open_calls_append: "open_calls sid (ls @ ls') = open_calls sid ls + open_calls sid ls'"
  by (induction sid ls rule: open_calls.induct) simp_all

abbreviation handling :: "'h peer \<Rightarrow> StreamID \<Rightarrow> int" where
  "handling p sid \<equiv> (case mget (p_workers p) sid of Some (Handling _) \<Rightarrow> 1 | _ \<Rightarrow> 0)"

lemma dispatch_attempt_workers:
  assumes "in_ok p" and "dispatch_attempt f w p = (r, w', p')"
  shows "handling p' sid = handling p sid"
proof (cases rule: dispatch_attempt_cases [of p f w])
  case (entered p1 s)
  have none: "mget (p_workers p) (StreamID (Header f)) = None" if "mget (p_inbound p) (StreamID (Header f)) = None"
    using that ins_okD(3) [OF assms(1) [unfolded in_ok_def]] by (auto simp: mget_None_keys)
  have "handling p1 sid = handling p sid"
    using none by (cases "mget (p_inbound p) (StreamID (Header f))") (simp_all add: entered(4) dispatch_entry_def)
  moreover have "p_workers p' = p_workers p1" using entered(6) assms(2) by (auto split: if_splits)
  ultimately show ?thesis by simp
qed (use assms in auto)

lemma peer_step_handling:
  assumes "psys_ok s" and "peer_step s l t"
  shows "handling (ps_peer t) sid = handling (ps_peer s) sid + open_calls sid [l]"
proof -
  have ok: "in_ok (ps_peer s)" "config_ok (p_config (ps_peer s))" "sched_ok (p_config (ps_peer s)) (ps_sched s)"
    using assms(1) by (simp_all add: psys_ok_def core_ok_def)
  from assms(2) show ?thesis
  proof cases
    case (dispatch f w r w' p')
    with dispatch_attempt_workers [OF ok(1) dispatch(4), of sid] show ?thesis
      by (cases r) (simp_all add: serve_refused_def)
  next
    case (work k t' p')
    from ok(1) work(3) show ?thesis
      by (cases rule: worker_take_cases) (use work in \<open>auto simp: worker_fail_def\<close>)
  next
    case (handled k f e)
    then show ?thesis by (cases e) (auto simp: worker_done_def)
  next
    case (response f)
    obtain e p' where r: "resolve f (recordReceived f (ps_peer s)) = (e, p')"
      by (cases "resolve f (recordReceived f (ps_peer s))")
    then have "p_workers p' = p_workers (ps_peer s)" using resolve_parts(2) [OF r] by (simp add: recordReceived_def)
    with r response show ?thesis by (cases e) (simp_all add: serve_response_def)
  next
    case (sent req e)
    then show ?thesis by (cases e) (simp_all add: schedule_sent_def recordSent_def Let_def)
  next
    case (pick req sc' p')
    from schedule_pick_wrr(4) [OF ok(2,3) pick(4) refl] obtain j cursor nx where
      "takeLocked (sched_classes ! j) cursor (ps_peer s) = (Some req, nx, p')" by blast
    from takeLocked_parts(1) [OF this] show ?thesis by (simp add: pick)
  next
    case (idle sc' p')
    from schedule_pick_wrr(3) [OF ok(2,3) idle(4) refl] show ?thesis by (simp add: idle)
  next
    case (send ctx f cl req p1 r p')
    from send_request_parts(2) [OF send(3)] send_attempt_parts(1) [OF send(4)] show ?thesis by (simp add: send)
  next
    case (too_large ctx f cl e p')
    with send_request_parts(2) [OF too_large(3)] show ?thesis by simp
  next
    case (register hs e p')
    with RegisterHandlers_parts(2) [OF register(3)] show ?thesis by simp
  next
    case (reserve r p')
    with reservePending_parts(2) [OF reserve(3)] show ?thesis by simp
  next
    case (bind cid f p')
    with call_bind_parts(2) [OF bind(3)] show ?thesis by simp
  next
    case (abandon cid)
    with abandonPending_parts(2) [of cid "ps_peer s"] show ?thesis by simp
  next
    case (serve ctx e p')
    with serve_start_parts(2) [OF serve(3)] show ?thesis by simp
  qed (simp_all add: recordReceived_def serve_read_error_def Let_def)
qed

lemma trace_handling:
  "trace peer_step s ls t \<Longrightarrow> psys_ok s \<Longrightarrow>
     handling (ps_peer t) sid = handling (ps_peer s) sid + open_calls sid ls"
proof (induction rule: trace.induct)
  case (trace_snoc s ls t l u)
  then have "psys_ok t" by (blast intro: peer_inv.trace_keeps)
  with peer_step_handling [OF this trace_snoc.hyps(2), of sid] trace_snoc show ?case
    by (simp add: open_calls_append del: open_calls.simps)
qed simp

section \<open>Shutdown is final\<close>

lemma closed_no_pick:
  assumes "psys_ok s" and "p_closed (ps_peer s)" and "schedule_pick (ps_sched s) (ps_peer s) = (r, sc', p')"
  shows "r = None \<and> p' = ps_peer s"
proof -
  have ok: "config_ok (p_config (ps_peer s))" "sched_ok (p_config (ps_peer s)) (ps_sched s)" "out_ok (ps_peer s)"
    and "p_outbound (ps_peer s) = []"
    using assms(1,2) by (auto simp: psys_ok_def core_ok_def hist_ok_def)
  then have "\<not> (\<exists>k < 3. available (ps_peer s) (sched_classes ! k))"
    using out_okD(3) [OF ok(3)] by (simp add: available_def)
  with schedule_pick_wrr(2,3) [OF ok(1,2) assms(3)] show ?thesis by blast
qed

lemma peer_step_closed:
  assumes "psys_ok s \<and> p_closed (ps_peer s) \<and> p_err (ps_peer s) = Some e" and "peer_step s l t"
  shows "psys_ok t \<and> p_closed (ps_peer t) \<and> p_err (ps_peer t) = Some e"
proof -
  have ok: "psys_ok s" "p_closed (ps_peer s)" "p_err (ps_peer s) = Some e" using assms(1) by simp_all
  have "p_closed (ps_peer t) \<and> p_err (ps_peer t) = Some e"
    using assms(2)
  proof cases
    case (pick req sc' p')
    with closed_no_pick [OF ok(1,2) pick(4)] show ?thesis by simp
  next
    case (idle sc' p')
    with closed_no_pick [OF ok(1,2) idle(4)] ok(2,3) show ?thesis by simp
  next
    case (register hs x p')
    with ok show ?thesis by (auto simp: RegisterHandlers_def split: if_splits)
  next
    case (reserve r p')
    with ok show ?thesis by (simp add: reservePending_def)
  next
    case (bind cid f p')
    with ok show ?thesis by (auto simp: call_bind_def split: option.splits)
  next
    case (abandon cid)
    with ok show ?thesis by (auto simp: abandonPending_def Let_def split: option.splits list.splits)
  next
    case (send ctx f cl req p1 r p')
    have "p_closed p1" "p_err p1 = Some e"
      using send(3) ok by (auto simp: send_request_def Let_def split: if_splits)
    with send show ?thesis by (simp add: send_attempt_def)
  next
    case (too_large ctx f cl x p')
    with ok show ?thesis by (auto simp: send_request_def Let_def split: if_splits)
  next
    case (sent req x)
    with ok show ?thesis by (cases x) (simp_all add: schedule_sent_def recordSent_def Let_def fail_closed)
  next
    case (serve ctx x p')
    with ok show ?thesis by (auto simp: serve_start_def split: if_splits)
  next
    case (response f)
    have "p_closed p' \<and> p_err p' = Some e" if "resolve f (recordReceived f (ps_peer s)) = (x, p')" for x p'
      using that ok by (auto simp: resolve_def recordReceived_def Let_def split: option.splits if_splits)
    with response show ?thesis
      by (cases "resolve f (recordReceived f (ps_peer s))"; cases "fst (resolve f (recordReceived f (ps_peer s)))")
        (auto simp: serve_response_def fail_closed recordProtocolError_def)
  next
    case (dispatch f w r w' p')
    with ok show ?thesis
      by (auto simp: dispatch_attempt_def serve_refused_def recordProtocolError_def fail_closed)
  next
    case (work k t' p')
    have "p_closed p' \<and> p_err p' = Some e"
      using work(4) ok by (auto simp: worker_take_def Let_def split: option.splits prod.splits)
    with work show ?thesis by (cases t') (simp_all add: worker_fail_def recordProtocolError_def fail_closed)
  next
    case (handled k f x)
    with ok show ?thesis by (cases x) (simp_all add: worker_done_def recordProtocolError_def fail_closed)
  qed (use ok in \<open>simp_all add: recordReceived_def serve_read_error_def recordProtocolError_def Let_def fail_closed\<close>)
  with peer_step_ok [OF ok(1) assms(2)] show ?thesis by blast
qed

interpretation peer_closed: step_invariant peer_step
    "\<lambda>s. psys_ok s \<and> p_closed (ps_peer s) \<and> p_err (ps_peer s) = Some e" for e
  by unfold_locales (rule peer_step_closed)

section \<open>Properties\<close>

text \<open>A run for the witnesses: one frame is accepted, taken and transmitted.\<close>

definition single_request :: "frame \<Rightarrow> outboundRequest" where
  "single_request f = \<lparr>or_frame = f, or_class = TrafficControl, or_bytes = frameBytes f, or_result = 0\<rparr>"

definition single_labels :: "frame \<Rightarrow> unit peer_label list" where
  "single_labels f = [PSend (single_request f) Enqueued, PPick (single_request f), PSent (single_request f) None]"

definition run_request :: outboundRequest where
  "run_request = single_request (demo_frame 1)"

definition run_labels :: "unit peer_label list" where
  "run_labels = single_labels (demo_frame 1)"

lemma run_new: "NewPeer (Some DefaultConfig) DefaultPeerConfig =
    Inr (fresh_peer (MaxFrameBytes DefaultConfig) std_config)"
  by (simp add: NewPeer_def DefaultPeerConfig_ok)

lemma single_pick:
  fixes p :: "'h peer"
  assumes p: "p_outboundOrder p = [1]" "mget (p_outbound p) 1 = Some \<lparr>os_id = 1, os_queue = [single_request f], os_bytes = n\<rparr>"
    and res: "p_results p = (\<lambda>_. [])"
  obtains sc' p' where "schedule_pick \<lparr>sc_classIndex = 0, sc_credit = 0, sc_cursor = 0\<rparr> p = (Some (single_request f), sc', p')"
    and "p_results p' = (\<lambda>_. [])" and "p_closed p' = p_closed p"
proof -
  let ?r = "single_request f"
  have h: "head_of_class TrafficControl 0 p = Some (\<lparr>os_id = 1, os_queue = [?r], os_bytes = n\<rparr>,
      ?r, \<lparr>os_id = 1, os_queue = [], os_bytes = n - frameBytes f\<rparr>)"
    by (simp add: head_of_class_def pop_request_def p single_request_def)
  obtain nx p3 where t: "take_at 0 (\<lparr>os_id = 1, os_queue = [?r], os_bytes = n\<rparr>,
      ?r, \<lparr>os_id = 1, os_queue = [], os_bytes = n - frameBytes f\<rparr>) p = (nx, p3)" by fastforce
  have take: "takeLocked TrafficControl 0 p = (Some ?r, nx, p3)"
    using take_loop_hit [of 0 p TrafficControl 0 _ nx p3] h t by (simp add: takeLocked_def p)
  obtain k where k: "length sched_classes * 2 = Suc k" by (cases "length sched_classes * 2") auto
  have "\<exists>sc'. schedule_scan (Suc k) \<lparr>sc_classIndex = 0, sc_credit = 0, sc_cursor = 0\<rparr> p = (Some ?r, sc', p3)"
    using take by (simp add: Let_def sched_classes_def)
  moreover have "p_results p3 = (\<lambda>_. [])" using take_at_parts(4) [OF t] res by simp
  moreover have "p_closed p3 = p_closed p" using t by (auto simp: take_at_def Let_def split: prod.splits if_splits)
  ultimately show thesis using that unfolding schedule_pick_def k by blast
qed

text \<open>A new peer sends one small frame of stream 1.\<close>

lemma single_trace:
  assumes "StreamID (Header f) = 1" and "length (Payload f) \<le> 1000"
  obtains s where "trace peer_step (psys_start (fresh_peer (MaxFrameBytes DefaultConfig) std_config :: unit peer)) (single_labels f) s"
    "ps_accepted s = [single_request f]" "ps_taken s = [single_request f]" "ps_inflight s = None" "p_results (ps_peer s) 0 = [None]"
    "\<not> p_closed (ps_peer s)"
proof -
  let ?p0 = "fresh_peer (MaxFrameBytes DefaultConfig) std_config :: unit peer" and ?r = "single_request f"
  obtain p1 p2 where sr: "send_request (Some None) f TrafficControl ?p0 = (Inr ?r, p1)"
    and sa: "send_attempt ?r p1 = (Enqueued, p2)"
    and p2: "p_outboundOrder p2 = [1]" "mget (p_outbound p2) 1 = Some \<lparr>os_id = 1, os_queue = [?r], os_bytes = frameBytes f\<rparr>"
    "p_results p2 = (\<lambda>_. [])" and c2: "\<not> p_closed p2"
    using assms by (simp add: send_request_def single_request_def frameBytes_def HeaderSize_def demo_simps)
  obtain sc' p3 where pk: "schedule_pick \<lparr>sc_classIndex = 0, sc_credit = 0, sc_cursor = 0\<rparr> p2 = (Some ?r, sc', p3)"
    and p3: "p_results p3 = (\<lambda>_. [])" "p_closed p3 = p_closed p2" by (rule single_pick [OF p2])
  let ?s0 = "psys_start ?p0"
  let ?s1 = "?s0\<lparr>ps_peer := p2, ps_accepted := ps_accepted ?s0 @ (if Enqueued = Enqueued then [?r] else [])\<rparr>"
  let ?s2 = "?s1\<lparr>ps_peer := p3, ps_sched := sc', ps_inflight := Some ?r, ps_taken := ps_taken ?s1 @ [?r]\<rparr>"
  let ?s3 = "?s2\<lparr>ps_peer := schedule_sent ?r None (ps_peer ?s2), ps_inflight := None\<rparr>"
  have s1: "peer_step ?s0 (PSend ?r Enqueued) ?s1"
    by (rule send [of "Some None" f TrafficControl _ _ p1]) (simp_all add: psys_start_def sr sa)
  have s2: "peer_step ?s1 (PPick ?r) ?s2"
    by (rule pick) (simp_all add: psys_start_def pk)
  have s3: "peer_step ?s2 (PSent ?r None) ?s3" by (rule sent) simp
  have "trace peer_step ?s0 (single_labels f) ?s3"
    using trace_snoc [of peer_step, OF trace_snoc [of peer_step, OF trace_one [of peer_step, OF s1] s2] s3]
    by (simp add: single_labels_def)
  then show thesis
    by (rule that) (simp_all add: psys_start_def schedule_sent_def recordSent_def chan_send_def single_request_def p3 c2)
qed

lemma run_trace:
  obtains s where "trace peer_step (psys_start (fresh_peer (MaxFrameBytes DefaultConfig) std_config :: unit peer)) run_labels s"
    "ps_accepted s = [run_request]" "ps_taken s = [run_request]" "ps_inflight s = None" "p_results (ps_peer s) 0 = [None]"
  using single_trace [of "demo_frame 1"] unfolding run_labels_def run_request_def by (auto simp: demo_frame_def pingFrame_def)

text \<open>
  (C8) Every limit of the configuration holds in every reachable state of a peer, whatever the interleaving of callers,
  scheduler, reader, workers and shutdown: total and per-stream outbound bytes and frames, active streams in both
  directions, per-stream inbound bytes and frames, and tombstones of abandoned calls. The counters the code compares
  are exact: total bytes and frames are those of the requests in all queues, the counters of a
  stream those of its queue, and the tombstones are the entries of the table of abandoned calls.\<close>
theorem peer_limits:
  assumes "NewPeer conn c0 = Inr p0" and "trace peer_step (psys_start p0) ls s"
  shows "let p = ps_peer s; c = p_config p in
    p_outboundBytes p \<le> OutboundQueueBytes c \<and> p_outboundFrames p \<le> OutboundQueueFrames c
    \<and> int (length (p_outbound p)) \<le> MaxActiveStreams c \<and> int (length (p_inbound p)) \<le> MaxActiveStreams c
    \<and> distinct (map fst (p_outbound p))
    \<and> p_outboundBytes p = (\<Sum>st \<leftarrow> map snd (p_outbound p). \<Sum>req \<leftarrow> os_queue st. frameBytes (or_frame req))
    \<and> p_outboundFrames p = (\<Sum>st \<leftarrow> map snd (p_outbound p). int (length (os_queue st)))
    \<and> (\<forall>st \<in> set (map snd (p_outbound p)). os_bytes st = (\<Sum>req \<leftarrow> os_queue st. frameBytes (or_frame req)))
    \<and> (\<forall>st \<in> set (map snd (p_inbound p)). is_bytes st = (\<Sum>f \<leftarrow> is_frames st. frameBytes f))
    \<and> distinct (map fst (p_canceled p)) \<and> int (length (p_canceled p)) \<le> MaxCanceledRequests c
    \<and> set (p_canceledOrder p) = fst ` set (p_canceled p) \<and> distinct (p_canceledOrder p)
    \<and> (\<forall>sid. sum_list (map (frameBytes \<circ> or_frame) (queue_of p sid)) \<le> PerStreamQueueBytes c
         \<and> int (length (queue_of p sid)) \<le> PerStreamQueueFrames c
         \<and> sum_list (map frameBytes (inbox_of p sid)) \<le> PerStreamQueueBytes c
         \<and> int (length (inbox_of p sid)) \<le> PerStreamQueueFrames c)"
proof -
  let ?p = "ps_peer s" and ?c = "p_config (ps_peer s)"
  have ok: "config_ok ?c" "out_ok ?p" "in_ok ?p" "calls_ok ?p"
    using peer_reachable [OF assms] by (auto simp: psys_ok_def core_ok_def)
  have out: "sum_list (map (frameBytes \<circ> or_frame) (queue_of ?p sid)) \<le> PerStreamQueueBytes ?c
      \<and> int (length (queue_of ?p sid)) \<le> PerStreamQueueFrames ?c" for sid
  proof (cases "mget (p_outbound ?p) sid")
    case (Some st)
    have st: "stream_ok ?c sid st" by (rule out_okD(4) [OF ok(2) Some])
    then have "sum_list (map (frameBytes \<circ> or_frame) (os_queue st)) = os_bytes st"
      by (auto simp: stream_ok_def request_ok_def intro: arg_cong [where f = sum_list])
    with st Some show ?thesis by (simp add: queue_of_def stream_ok_def)
  qed (use config_okD [OF ok(1)] in \<open>simp add: queue_of_def\<close>)
  have streams: "os_bytes st = (\<Sum>req \<leftarrow> os_queue st. frameBytes (or_frame req))"
    if "(sid, st) \<in> set (p_outbound ?p)" for sid st
  proof -
    have "mget (p_outbound ?p) sid = Some st" using that out_okD(1) [OF ok(2)] by (simp add: mget_is_map_mem)
    from out_okD(4) [OF ok(2) this] show "os_bytes st = (\<Sum>req \<leftarrow> os_queue st. frameBytes (or_frame req))"
      by (auto simp: stream_ok_def request_ok_def intro: arg_cong [where f = sum_list])
  qed
  have bytes: "p_outboundBytes ?p = (\<Sum>st \<leftarrow> map snd (p_outbound ?p). \<Sum>req \<leftarrow> os_queue st. frameBytes (or_frame req))"
    and frames: "p_outboundFrames ?p = (\<Sum>st \<leftarrow> map snd (p_outbound ?p). int (length (os_queue st)))"
    unfolding out_okD(5,6) [OF ok(2)] msum_def using streams by (auto intro!: arg_cong [where f = sum_list])
  have tomb: "distinct (map fst (p_canceled ?p))" "int (length (p_canceled ?p)) \<le> MaxCanceledRequests ?c"
    "set (p_canceledOrder ?p) = fst ` set (p_canceled ?p)" "distinct (p_canceledOrder ?p)"
  proof -
    have t: "distinct (map fst (p_canceled ?p))" "set (p_canceledOrder ?p) = set (map fst (p_canceled ?p))"
      "distinct (p_canceledOrder ?p)" "int (length (p_canceledOrder ?p)) \<le> MaxCanceledRequests ?c"
      using ok(4) by (auto simp: calls_ok_def tables_ok_def is_map_def)
    then have "length (p_canceled ?p) = length (p_canceledOrder ?p)" using distinct_card by (metis length_map)
    with t show "distinct (map fst (p_canceled ?p))" "int (length (p_canceled ?p)) \<le> MaxCanceledRequests ?c"
      "set (p_canceledOrder ?p) = fst ` set (p_canceled ?p)" "distinct (p_canceledOrder ?p)" by simp_all
  qed
  have inb: "sum_list (map frameBytes (inbox_of ?p sid)) \<le> PerStreamQueueBytes ?c
      \<and> int (length (inbox_of ?p sid)) \<le> PerStreamQueueFrames ?c" for sid
  proof (cases "mget (p_inbound ?p) sid")
    case (Some st)
    with ins_okD(5) [OF ok(3) [unfolded in_ok_def] Some] show ?thesis by (simp add: inbox_of_def inbox_ok_def)
  qed (use config_okD [OF ok(1)] in \<open>simp add: inbox_of_def\<close>)
  show ?thesis
    unfolding Let_def
  proof (intro conjI)
    show "\<forall>st \<in> set (map snd (p_outbound ?p)). os_bytes st = (\<Sum>req \<leftarrow> os_queue st. frameBytes (or_frame req))"
      using streams by auto
    show "\<forall>st \<in> set (map snd (p_inbound ?p)). is_bytes st = (\<Sum>f \<leftarrow> is_frames st. frameBytes f)"
      using ins_okD(1,5) [OF ok(3) [unfolded in_ok_def]] by (auto simp: mget_is_map_mem inbox_ok_def)
    show "\<forall>sid. sum_list (map (frameBytes \<circ> or_frame) (queue_of ?p sid)) \<le> PerStreamQueueBytes ?c
         \<and> int (length (queue_of ?p sid)) \<le> PerStreamQueueFrames ?c
         \<and> sum_list (map frameBytes (inbox_of ?p sid)) \<le> PerStreamQueueBytes ?c
         \<and> int (length (inbox_of ?p sid)) \<le> PerStreamQueueFrames ?c" using out inb by blast
  qed (use tomb bytes frames out_okD(1,7-9) [OF ok(2)] ins_okD(7) [OF ok(3) [unfolded in_ok_def]] in \<open>simp_all add: is_map_def\<close>)
qed

theorem peer_limits_witness:
  "\<exists>s. trace peer_step (psys_start (fresh_peer (MaxFrameBytes DefaultConfig) std_config :: unit peer)) run_labels s
     \<and> p_outboundBytes (ps_peer s) \<le> OutboundQueueBytes (p_config (ps_peer s))
     \<and> p_outboundFrames (ps_peer s) = (\<Sum>st \<leftarrow> map snd (p_outbound (ps_peer s)). int (length (os_queue st)))"
proof -
  obtain s where "trace peer_step (psys_start (fresh_peer (MaxFrameBytes DefaultConfig) std_config :: unit peer)) run_labels s"
    by (rule run_trace)
  with peer_limits [OF run_new this] show ?thesis unfolding Let_def by blast
qed

text \<open>
  (C2) Per-stream order of sending: on every stream the requests the scheduler hands to the transport are, in order, the first
  ones that \<open>send\<close> accepted, whatever their traffic classes; while the peer is open nothing is lost
  in between: the rest is exactly the stream's queue.\<close>
theorem peer_send_order:
  assumes "NewPeer conn c0 = Inr p0" and "trace peer_step (psys_start p0) ls s"
  shows "\<exists>rest. filter (\<lambda>req. StreamID (Header (or_frame req)) = sid) (ps_accepted s)
      = filter (\<lambda>req. StreamID (Header (or_frame req)) = sid) (ps_taken s) @ rest
    \<and> (\<not> p_closed (ps_peer s) \<longrightarrow> rest = queue_of (ps_peer s) sid)"
proof -
  have "hist_ok (ps_peer s) (ps_inflight s) (ps_accepted s) (ps_taken s)"
    using peer_reachable [OF assms] by (simp add: psys_ok_def core_ok_def)
  from hist_okD(5) [OF this, of sid] show ?thesis by auto
qed

theorem peer_send_order_witness:
  "\<exists>s rest. trace peer_step (psys_start (fresh_peer (MaxFrameBytes DefaultConfig) std_config :: unit peer)) run_labels s
     \<and> ps_taken s = [run_request]
     \<and> filter (\<lambda>req. StreamID (Header (or_frame req)) = 1) (ps_accepted s) =
       filter (\<lambda>req. StreamID (Header (or_frame req)) = 1) (ps_taken s) @ rest"
proof -
  obtain s where s: "trace peer_step (psys_start (fresh_peer (MaxFrameBytes DefaultConfig) std_config :: unit peer)) run_labels s"
    "ps_taken s = [run_request]"
    by (rule run_trace)
  from peer_send_order [OF run_new s(1), of 1] s show ?thesis by blast
qed

text \<open>
  (C14) Every accepted send is answered exactly once: its result channel, of capacity one, never receives two values (so the
  scheduler and \<open>fail\<close>, which sends while holding the lock, never block on it), it is empty exactly while the request is queued or being
  transmitted, and after a shutdown with nothing in flight every accepted request has its answer.\<close>
theorem peer_answers_once:
  assumes "NewPeer conn c0 = Inr p0" and "trace peer_step (psys_start p0) ls s"
  shows "(\<forall>r. length (p_results (ps_peer s) r) \<le> 1 \<and> length (p_responses (ps_peer s) r) \<le> 1)
    \<and> (\<forall>req \<in> set (ps_accepted s).
         p_results (ps_peer s) (or_result req) = [] \<longleftrightarrow>
           req \<in> set (queue_of (ps_peer s) (StreamID (Header (or_frame req)))) \<or> ps_inflight s = Some req)
    \<and> (p_closed (ps_peer s) \<and> ps_inflight s = None \<longrightarrow>
         (\<forall>req \<in> set (ps_accepted s). length (p_results (ps_peer s) (or_result req)) = 1))"
proof -
  have h: "hist_ok (ps_peer s) (ps_inflight s) (ps_accepted s) (ps_taken s)" and "calls_ok (ps_peer s)"
    using peer_reachable [OF assms] by (simp_all add: psys_ok_def core_ok_def)
  then have resp: "length (p_responses (ps_peer s) r) \<le> 1" for r by (simp add: calls_ok_def replies_ok_def)
  have "length (p_results (ps_peer s) (or_result req)) = 1"
    if "p_closed (ps_peer s)" "ps_inflight s = None" "req \<in> set (ps_accepted s)" for req
  proof -
    have "queue_of (ps_peer s) (stream_of req) = []" using hist_okD(8) [OF h that(1)] by (simp add: queue_of_def)
    then have "p_results (ps_peer s) (or_result req) \<noteq> []" using hist_okD(6) [OF h that(3)] that(2) by simp
    then show ?thesis using hist_okD(4) [OF h, of "or_result req"]
      by (cases "p_results (ps_peer s) (or_result req)") auto
  qed
  with hist_okD(4,6) [OF h] resp show ?thesis by blast
qed

theorem peer_answers_once_witness:
  "\<exists>s. trace peer_step (psys_start (fresh_peer (MaxFrameBytes DefaultConfig) std_config :: unit peer)) run_labels s
     \<and> p_results (ps_peer s) (or_result run_request) = [None]
     \<and> (\<forall>r. length (p_results (ps_peer s) r) \<le> 1)"
proof -
  obtain s where s: "trace peer_step (psys_start (fresh_peer (MaxFrameBytes DefaultConfig) std_config :: unit peer)) run_labels s"
    "p_results (ps_peer s) 0 = [None]"
    by (rule run_trace)
  from peer_answers_once [OF run_new s(1)] s show ?thesis by (auto simp: run_request_def single_request_def)
qed

text \<open>
  (C15) Per-stream order of receiving: the frames of a stream reach its handlers in the order the transport delivered them, none lost
  and none twice: what was dispatched is what workers took followed by what is still queued. At
  any moment at most one handler call of a stream is open.\<close>
theorem peer_handler_order:
  assumes "NewPeer conn c0 = Inr p0" and "trace peer_step (psys_start p0) ls s"
  shows "concat (map (label_queued sid) ls) = concat (map (label_handled sid) ls) @ inbox_of (ps_peer s) sid
    \<and> 0 \<le> open_calls sid ls \<and> open_calls sid ls \<le> 1"
proof -
  from NewPeer_fresh [OF assms(1)] obtain n c where p0: "p0 = fresh_peer n c" "config_ok c" by blast
  then have start: "psys_ok (psys_start p0)" by (simp add: psys_start_ok)
  have "inbox_of (ps_peer (psys_start p0)) sid = []" "handling (ps_peer (psys_start p0)) sid = 0"
    by (simp_all add: p0 psys_start_def fresh_peer_def inbox_of_def)
  with peer_inbox.trace_fifo [OF assms(2) start, of sid] trace_handling [OF assms(2) start, of sid] show ?thesis
    by (auto split: option.splits worker.splits)
qed

text \<open>A run that receives a frame and starts its handler.\<close>

lemma inbound_trace:
  obtains s where "trace peer_step (psys_start (fresh_peer (MaxFrameBytes DefaultConfig) std_config :: unit peer))
      [PRegister, PReceive pingFrame, PDispatch pingFrame Enqueued, PWork 9 (CallHandler () pingFrame)] s"
proof -
  let ?s0 = "psys_start (fresh_peer (MaxFrameBytes DefaultConfig) std_config :: unit peer)"
  let ?p1 = "(ps_peer ?s0)\<lparr>p_handlers := [(7, ())]\<rparr>"
  let ?s1 = "?s0\<lparr>ps_peer := ?p1\<rparr>"
  let ?s2 = "?s1\<lparr>ps_peer := recordReceived pingFrame (ps_peer ?s1), ps_reading := Some (pingFrame, False)\<rparr>"
  have s1: "peer_step ?s0 PRegister ?s1"
    by (rule register [of "[(7, Some ())]" _ None]) (simp add: RegisterHandlers_def psys_start_def fresh_peer_def)
  have s2: "peer_step ?s1 (PReceive pingFrame) ?s2"
    by (rule receive) (simp_all add: psys_start_def pingFrame_def FlagResponse_def)
  obtain p3 where d: "dispatch_attempt pingFrame False (ps_peer ?s2) = (Enqueued, False, p3)"
    and p3: "mget (p_workers p3) 9 = Some Waiting" "mget (p_inbound p3) 9 = Some \<lparr>is_frames = [pingFrame], is_bytes = 31\<rparr>"
    "p_handlers p3 = [(7, ())]"
    by (simp add: dispatch_attempt_def dispatch_entry_def Let_def psys_start_def fresh_peer_def recordReceived_def
        pingFrame_def frameBytes_def HeaderSize_def DefaultPeerConfig_def push_inbound_def)
  let ?s3 = "?s2\<lparr>ps_peer := (case Enqueued of Refused e \<Rightarrow> serve_refused e p3 | _ \<Rightarrow> p3),
      ps_reading := (if Enqueued = MustWait then Some (pingFrame, False) else None)\<rparr>"
  have s3: "peer_step ?s2 (PDispatch pingFrame Enqueued) ?s3" by (rule dispatch [OF _ d]) simp
  obtain p4 where w: "worker_take 9 p3 = (CallHandler () pingFrame, p4)"
    using p3 by (simp add: worker_take_def pop_inbound_def pingFrame_def Let_def)
  let ?s4 = "?s3\<lparr>ps_peer := worker_fail (CallHandler () pingFrame) p4\<rparr>"
  have s4: "peer_step ?s3 (PWork 9 (CallHandler () pingFrame)) ?s4" by (rule work) (simp_all add: p3 w)
  show thesis
    using that trace_snoc [of peer_step, OF trace_snoc [of peer_step, OF trace_snoc [of peer_step,
          OF trace_one [of peer_step, OF s1] s2] s3] s4] by simp
qed

theorem peer_handler_order_witness:
  "\<exists>s. trace peer_step (psys_start (fresh_peer (MaxFrameBytes DefaultConfig) std_config :: unit peer))
      [PRegister, PReceive pingFrame, PDispatch pingFrame Enqueued, PWork 9 (CallHandler () pingFrame)] s
    \<and> inbox_of (ps_peer s) 9 = []"
proof -
  obtain s where s: "trace peer_step (psys_start (fresh_peer (MaxFrameBytes DefaultConfig) std_config :: unit peer))
      [PRegister, PReceive pingFrame, PDispatch pingFrame Enqueued, PWork 9 (CallHandler () pingFrame)] s"
    by (rule inbound_trace)
  from peer_handler_order [OF run_new s, of 9] s show ?thesis by (auto simp: pingFrame_def)
qed

text \<open>
  (C32) The first failure decides: once a peer is closed with an error, no later step reopens it or replaces the
  error that \<open>Err\<close>, pending sends and \<open>Close\<close> report, and nothing more is transmitted.\<close>
theorem peer_first_error:
  assumes "NewPeer conn c0 = Inr p0" and "trace peer_step (psys_start p0) ls s"
    and "p_closed (ps_peer s)" and "p_err (ps_peer s) = Some e" and "trace peer_step s ls' t"
  shows "p_closed (ps_peer t) \<and> peer_result (ps_peer t) = e \<and> p_outbound (ps_peer t) = []
    \<and> reservePending (ps_peer t) = (Inl (Mux ErrPeerClosed), ps_peer t)
    \<and> (\<forall>req. send_attempt req (ps_peer t) = (Refused e, ps_peer t))"
proof -
  have "psys_ok s" by (rule peer_reachable [OF assms(1,2)])
  with peer_closed.trace_keeps [OF assms(5)] assms(3,4)
  have t: "psys_ok t" "p_closed (ps_peer t)" "p_err (ps_peer t) = Some e" by auto
  then have "p_outbound (ps_peer t) = []" by (simp add: psys_ok_def core_ok_def hist_ok_def)
  with t show ?thesis by (simp add: peer_result_def reservePending_def send_attempt_def)
qed

theorem peer_first_error_witness:
  "\<exists>s t. trace peer_step (psys_start (fresh_peer (MaxFrameBytes DefaultConfig) std_config :: unit peer))
        [PFail (Mux ErrPeerQueueOverflow)] s
    \<and> trace peer_step s [PFail (Mux ErrPeerClosed)] t
    \<and> peer_result (ps_peer t) = Mux ErrPeerQueueOverflow"
proof -
  let ?s0 = "psys_start (fresh_peer (MaxFrameBytes DefaultConfig) std_config :: unit peer)"
  let ?s1 = "?s0\<lparr>ps_peer := fail (Mux ErrPeerQueueOverflow) (ps_peer ?s0)\<rparr>"
  let ?s2 = "?s1\<lparr>ps_peer := fail (Mux ErrPeerClosed) (ps_peer ?s1)\<rparr>"
  have t: "trace peer_step ?s0 [PFail (Mux ErrPeerQueueOverflow)] ?s1" "trace peer_step ?s1 [PFail (Mux ErrPeerClosed)] ?s2"
    by (rule trace_one, rule failure)+
  have "p_closed (ps_peer ?s1)" "p_err (ps_peer ?s1) = Some (Mux ErrPeerQueueOverflow)"
    by (simp_all add: psys_start_def fail_def fresh_peer_def)
  from peer_first_error [OF run_new t(1) this t(2)] t show ?thesis by blast
qed

end
