(* ===== verification/Pty_Base.thy ===== *)
theory Pty_Base
  imports Mux_Codec
begin

text \<open>
  \<open>pty/pty.go\<close> and \<open>pty/size_codec.go\<close>: terminal sizes, process descriptions, exit
  statuses, and the eight-byte size encoding. A Go \<open>int\<close> of a size is a 64-bit word read
  with \<open>sint\<close>, so that the conversions of the codec are the machine's.
\<close>

section \<open>Sizes and process descriptions\<close>

record Size =
  Cols :: "64 word"
  Rows :: "64 word"

definition Size_Validate :: "Size \<Rightarrow> gerror option" where
  "Size_Validate s = (if sint (Cols s) \<le> 0 \<or> sint (Rows s) \<le> 0 then Some (Pty ErrInvalidSize) else None)"

text \<open>\<open>Env\<close> is \<open>None\<close> when the slice is nil, which means that the child inherits it.\<close>

record ProcessSpec =
  Command :: string
  Args :: "string list"
  Env :: "string list option"
  Dir :: string
  InitialSize :: Size

definition ProcessSpec_Validate :: "ProcessSpec \<Rightarrow> gerror option" where
  "ProcessSpec_Validate s = (if Command s = '''' then Some (Pty ErrCommandRequired) else None)"

text \<open>
  \<open>append([]string(nil), xs...)\<close> copies a slice; without elements it stays nil.
\<close>

definition copy_slice :: "'a list option \<Rightarrow> 'a list option" where
  "copy_slice xs = (case xs of None \<Rightarrow> None | Some ys \<Rightarrow> if ys = [] then None else Some ys)"

text \<open>\<open>ExitReason\<close> is a Go string type; a backend may leave it empty.\<close>

type_synonym ExitReason = string

definition ExitReasonExited :: ExitReason where "ExitReasonExited = ''exited''"
definition ExitReasonKilled :: ExitReason where "ExitReasonKilled = ''killed''"
definition ExitReasonSignaled :: ExitReason where "ExitReasonSignaled = ''signaled''"
definition ExitReasonStartFailed :: ExitReason where "ExitReasonStartFailed = ''start_failed''"
definition ExitReasonIOFailure :: ExitReason where "ExitReasonIOFailure = ''io_failure''"

record ExitStatus =
  Reason :: ExitReason
  Code :: int
  Signal :: string
  ErrorText :: string

section \<open>The size codec\<close>

definition MaxUint32 :: "64 word" where "MaxUint32 = 0xFFFFFFFF"
definition MaxInt :: "64 word" where "MaxInt = 0x7FFFFFFFFFFFFFFF"

definition EncodeSize :: "Size \<Rightarrow> bytes result" where
  "EncodeSize s =
     (case Size_Validate s of
        Some e \<Rightarrow> Inl e
      | None \<Rightarrow>
          if Cols s > MaxUint32 \<or> Rows s > MaxUint32 then Inl (Pty ErrInvalidSize)
          else Inr (putUint32 (ucast (Cols s)) @ putUint32 (ucast (Rows s))))"

definition DecodeSize :: "bytes \<Rightarrow> Size result" where
  "DecodeSize payload =
     (if length payload \<noteq> 8 then Inl (Pty ErrInvalidPayload)
      else
        let cols = getUint32 (slice 0 4 payload); rows = getUint32 (slice 4 8 payload) in
        if (ucast cols :: 64 word) > MaxInt \<or> (ucast rows :: 64 word) > MaxInt
        then Inl (Pty ErrInvalidSize)
        else
          let s = \<lparr>Cols = ucast cols, Rows = ucast rows\<rparr> in
          case Size_Validate s of
            Some e \<Rightarrow> Inl e
          | None \<Rightarrow> Inr s)"

lemma uint_ucast_32: "uint (ucast (x :: 32 word) :: 64 word) = uint x"
  using uint_lt2p [of x] by (simp add: unsigned_ucast_eq take_bit_int_eq_self)

lemma ucast_32_small: "(ucast (x :: 32 word) :: 64 word) \<le> MaxUint32"
  using uint_lt2p [of x] by (simp add: MaxUint32_def word_le_def uint_ucast_32)

lemma ucast_32_MaxInt: "\<not> (ucast (x :: 32 word) :: 64 word) > MaxInt"
proof -
  have "MaxUint32 \<le> MaxInt" by (simp add: MaxUint32_def MaxInt_def)
  with ucast_32_small [of x] show ?thesis by simp
qed

lemma ucast_64_32: "x \<le> MaxUint32 \<Longrightarrow> ucast (ucast (x :: 64 word) :: 32 word) = x"
proof -
  assume "x \<le> MaxUint32"
  then have "uint x < 2 ^ 32" by (simp add: MaxUint32_def word_le_def)
  then show ?thesis
    by (simp add: word_uint_eq_iff unsigned_ucast_eq unsigned_take_bit_eq take_bit_int_eq_self)
qed

lemma ucast_32_64 [simp]: "ucast (ucast (x :: 32 word) :: 64 word) = x"
  using uint_lt2p [of x]
  by (simp add: word_uint_eq_iff unsigned_ucast_eq unsigned_take_bit_eq take_bit_int_eq_self)

text \<open>
  The size codec is exact: a payload encodes a size precisely when it decodes to it, so
  encoding and decoding are inverse bijections; a size has an encoding exactly when both
  dimensions are positive and fit 32 bits, every encoding is eight bytes long, and a refused
  size is always reported as ErrInvalidSize.
\<close>

theorem size_roundtrip:
  "(EncodeSize s = Inr p \<longleftrightarrow> DecodeSize p = Inr s)
   \<and> (isl (EncodeSize s) \<longleftrightarrow>
        \<not> (0 < sint (Cols s) \<and> 0 < sint (Rows s) \<and> uint (Cols s) < 2 ^ 32 \<and> uint (Rows s) < 2 ^ 32))
   \<and> EncodeSize s \<in> Inl ` {Pty ErrInvalidSize} \<union> Inr ` {q. length q = 8}"
proof (intro conjI)
  show "EncodeSize s = Inr p \<longleftrightarrow> DecodeSize p = Inr s"
  proof
    assume "EncodeSize s = Inr p"
    then have ok: "Size_Validate s = None" "Cols s \<le> MaxUint32" "Rows s \<le> MaxUint32"
      and p: "p = putUint32 (ucast (Cols s)) @ putUint32 (ucast (Rows s))"
      by (auto simp: EncodeSize_def not_less split: option.splits if_splits)
    then show "DecodeSize p = Inr s"
      by (cases s)
        (simp add: DecodeSize_def u32.enc_width u32.dec_enc ucast_32_MaxInt ucast_64_32 Let_def)
  next
    assume "DecodeSize p = Inr s"
    then have len: "length p = 8" and s: "s = \<lparr>Cols = ucast (getUint32 (slice 0 4 p)), Rows = ucast (getUint32 (slice 4 8 p))\<rparr>"
      and ok: "Size_Validate s = None"
      by (auto simp: DecodeSize_def Let_def split: if_splits option.splits)
    have "putUint32 (getUint32 (take 4 p)) @ putUint32 (getUint32 (drop 4 p)) = p"
      using len by (simp add: u32.enc_dec)
    then show "EncodeSize s = Inr p"
      using ok len by (simp add: EncodeSize_def s ucast_32_small linorder_not_less)
  qed
  have "Cols s \<le> MaxUint32 \<longleftrightarrow> uint (Cols s) < 2 ^ 32" "Rows s \<le> MaxUint32 \<longleftrightarrow> uint (Rows s) < 2 ^ 32"
    by (auto simp: MaxUint32_def word_le_def)
  then show "isl (EncodeSize s) \<longleftrightarrow>
    \<not> (0 < sint (Cols s) \<and> 0 < sint (Rows s) \<and> uint (Cols s) < 2 ^ 32 \<and> uint (Rows s) < 2 ^ 32)"
    by (auto simp: EncodeSize_def Size_Validate_def not_less [symmetric])
  show "EncodeSize s \<in> Inl ` {Pty ErrInvalidSize} \<union> Inr ` {q. length q = 8}"
    by (auto simp: EncodeSize_def Size_Validate_def u32.enc_width split: option.splits)
qed

end
