(* ===== verification/Pty_Bridge.thy ===== *)
theory Pty_Bridge
  imports Pty_Base
begin

text \<open>
  \<open>pty/bridge.go\<close> and the input loop of \<open>pty/manager.go\<close>: forwarding of opaque terminal
  output as event frames, and the two complete-write loops, which are shown equal to the
  codec's own loop.
\<close>

section \<open>Writing all of a buffer\<close>

function pty_writeFull :: "'w writer \<Rightarrow> 'w \<Rightarrow> bytes \<Rightarrow> nat \<Rightarrow> gerror option \<times> 'w" where
  "pty_writeFull wr w data written =
     (if written < length data
      then case wr w (drop written data) of (n, err, w') \<Rightarrow>
             if n < 0 \<or> n > int (length data) - int written
             then (Some (Lib IoErrShortWrite), w')
             else if err \<noteq> None then (err, w')
             else if n = 0 then (Some (Lib IoErrShortWrite), w')
             else pty_writeFull wr w' data (written + nat n)
      else (None, w))"
  by pat_completeness auto
termination
  by (relation "measure (\<lambda>(wr, w, data, written). length data - written)") auto

declare pty_writeFull.simps [simp del]

text \<open>
  \<open>writeFullContext\<close> consumes the slice instead of counting, and looks at the context before
  every write; \<open>ctx i\<close> is what the \<open>i\<close>-th look finds.
\<close>

function writeFullContext ::
    "(nat \<Rightarrow> gctx) \<Rightarrow> nat \<Rightarrow> 'w writer \<Rightarrow> 'w \<Rightarrow> bytes \<Rightarrow> gerror option \<times> 'w" where
  "writeFullContext ctx i wr w data =
     (if data = [] then (None, w)
      else if ctx i \<noteq> None then (ctx i, w)
      else case wr w data of (n, err, w') \<Rightarrow>
             if n < 0 \<or> n > int (length data) then (Some (Lib IoErrShortWrite), w')
             else if err \<noteq> None then (err, w')
             else if n = 0 then (Some (Lib IoErrShortWrite), w')
             else writeFullContext ctx (Suc i) wr w' (drop (nat n) data))"
  by pat_completeness auto
termination
  by (relation "measure (\<lambda>(ctx, i, wr, w, data). length data)") auto

declare writeFullContext.simps [simp del]

lemma pty_writeFull_eq: "pty_writeFull wr w data k = writeFull wr w data k"
proof (induction wr w data k rule: writeFull.induct)
  case (1 wr w data k)
  then show ?case
    by (subst pty_writeFull.simps, subst writeFull.simps) (auto split: prod.splits option.splits)
qed

text \<open>
  A run under a context either is the codec's run, or stops at a cancelled look with what
  the writer took before it.
\<close>

lemma writeFullContext_codec:
  "writeFullContext (\<lambda>_. None) i wr w (drop k data) = writeFull wr w data k"
proof (induction "length data - k" arbitrary: i w k rule: less_induct)
  case less
  show ?case
  proof (cases "k < length data")
    case True
    obtain n err v where wr: "wr w (drop k data) = (n, err, v)" by (cases "wr w (drop k data)") auto
    have len: "int (length (drop k data)) = int (length data) - int k" using True by simp
    show ?thesis
    proof (cases "n < 0 \<or> n > int (length data) - int k \<or> err \<noteq> None \<or> n = 0")
      case stop: True
      then show ?thesis using True wr len
        by (subst writeFullContext.simps, subst writeFull.simps) (auto split: option.splits)
    next
      case False
      then have "writeFullContext (\<lambda>_. None) (Suc i) wr v (drop (k + nat n) data)
          = writeFull wr v data (k + nat n)"
        using True by (intro less.hyps) auto
      moreover have "drop (nat n) (drop k data) = drop (k + nat n) data"
        by (simp add: add.commute)
      ultimately show ?thesis using True False wr len
        by (subst writeFullContext.simps, subst writeFull.simps) (simp add: linorder_not_less)
    qed
  next
    case False
    then show ?thesis by (subst writeFullContext.simps, subst writeFull.simps) simp
  qed
qed

lemma writeFullContext_honest:
  assumes "honest_writer wr sink"
  shows "writeFullContext ctx i wr w data = (e, w') \<Longrightarrow>
    \<exists>j \<le> length data. sink w' = sink w @ take j data \<and> (e = None \<longrightarrow> j = length data)"
proof (induction "length data" arbitrary: w i data rule: less_induct)
  case less
  obtain n err v where wr: "wr w data = (n, err, v)" by (cases "wr w data") auto
  from honest_writerD [OF assms wr]
  have n: "0 \<le> n" "n \<le> int (length data)" and v: "sink v = sink w @ take (nat n) data" by simp_all
  have unf: "writeFullContext ctx i wr w data =
     (if data = [] then (None, w) else if ctx i \<noteq> None then (ctx i, w)
      else if err \<noteq> None then (err, v) else if n = 0 then (Some (Lib IoErrShortWrite), v)
      else writeFullContext ctx (Suc i) wr v (drop (nat n) data))"
    using wr n by (subst writeFullContext.simps) auto
  show ?case
  proof (cases "data \<noteq> [] \<and> ctx i = None \<and> err = None \<and> n \<noteq> 0")
    case True
    with unf less.prems have "writeFullContext ctx (Suc i) wr v (drop (nat n) data) = (e, w')" by simp
    moreover have "length (drop (nat n) data) < length data" using True n by auto
    ultimately obtain j where j: "j \<le> length data - nat n"
      "sink w' = sink v @ take j (drop (nat n) data)" "e = None \<longrightarrow> j = length data - nat n"
      using less.hyps by fastforce
    have "take (nat n + j) data = take (nat n) data @ take j (drop (nat n) data)" by (simp add: take_add)
    then show ?thesis using j n v by (intro exI [of _ "nat n + j"]) auto
  next
    case False
    then have "e \<noteq> None \<and> w' = v \<or> e \<noteq> None \<and> w' = w \<or> e = None \<and> w' = w \<and> data = []"
      using unf less.prems by (auto split: if_splits)
    then show ?thesis
      using v n by (elim disjE) (auto intro: exI [of _ "nat n"] exI [of _ 0])
  qed
qed

text \<open>
  (C35) The three complete-write loops of the program are one: the bridge's loop and, under a
  live context, the session's input loop give the same error and leave the writer in the
  same state as the codec's loop, for every writer, honest or not, and every buffer.
\<close>

theorem write_loops_equal:
  "pty_writeFull wr w data 0 = writeFull wr w data 0
   \<and> writeFullContext (\<lambda>_. None) i wr w data = writeFull wr w data 0"
  using pty_writeFull_eq [of wr w data 0] writeFullContext_codec [of i wr w 0 data] by simp

section \<open>The bridge\<close>

definition DefaultReadBufferSize :: int where "DefaultReadBufferSize = 32 * 1024"

record BridgeConfig =
  bc_Version :: "16 word"
  bc_StreamID :: StreamID
  bc_InputType :: MessageType
  bc_OutputType :: MessageType
  bc_ReadBufferSize :: int

text \<open>
  The interface \<open>Process\<close>: a state and its operations. \<open>Output().Read\<close> is the script of the
  calls' outcomes: the count the call reports, what the buffer holds after it, and its error.
\<close>

record 'p Process =
  pr_Input :: "'p writer"
  pr_Resize :: "'p \<Rightarrow> Size \<Rightarrow> gerror option \<times> 'p"
  pr_Wait :: "'p \<Rightarrow> gerror option \<times> 'p"
  pr_Kill :: "'p \<Rightarrow> gerror option \<times> 'p"
  pr_Close :: "'p \<Rightarrow> gerror option \<times> 'p"

type_synonym read_outcome = "int \<times> bytes \<times> gerror option"
type_synonym 's sender = "'s \<Rightarrow> frame \<Rightarrow> gerror option \<times> 's"

record ('p, 's) Bridge =
  br_process :: "'p Process"
  br_sender :: "'s sender"
  br_config :: BridgeConfig

definition NewBridge ::
    "'p Process option \<Rightarrow> 's sender option \<Rightarrow> BridgeConfig \<Rightarrow> ('p, 's) Bridge result" where
  "NewBridge process sender c0 =
     (case process of None \<Rightarrow> Inl (Pty ErrNilProcess)
      | Some p \<Rightarrow>
     case sender of None \<Rightarrow> Inl (Pty ErrNilSender)
      | Some s \<Rightarrow>
     let c1 = (if bc_Version c0 = 0 then c0\<lparr>bc_Version := 1\<rparr> else c0) in
     if bc_StreamID c1 = 0 then Inl (Pty ErrInvalidStreamID)
     else if bc_InputType c1 = 0 \<or> bc_OutputType c1 = 0 then Inl (Mux ErrInvalidMessageType)
     else
       let c2 = (if bc_ReadBufferSize c1 \<le> 0
                 then c1\<lparr>bc_ReadBufferSize := DefaultReadBufferSize\<rparr> else c1)
       in Inr \<lparr>br_process = p, br_sender = s, br_config = c2\<rparr>)"

definition output_header :: "BridgeConfig \<Rightarrow> header" where
  "output_header c =
     \<lparr>PayloadLength = 0, Version = bc_Version c, MessageType = bc_OutputType c,
      Flags = FlagEvent, CorrelationID = 0, StreamID = bc_StreamID c\<rparr>"

text \<open>
  The loop of \<open>RunOutput\<close>. The result \<open>None\<close> means that the script is used up and the loop
  is still waiting in \<open>Read\<close>; \<open>Some None\<close> is a nil return.
\<close>

fun output_loop ::
    "BridgeConfig \<Rightarrow> 's sender \<Rightarrow> 's \<Rightarrow> read_outcome list \<Rightarrow> gerror option option \<times> 's" where
  "output_loop c send s [] = (None, s)"
| "output_loop c send s ((n, buffer, err) # reads) =
     (if n < 0 \<or> n > bc_ReadBufferSize c
      then (Some (Some (Errorf (ErrNew ''pty: invalid read count'') [n])), s)
      else
        case (if n > 0
              then case NewOwnedFrame (output_header c) (take (nat n) buffer) of
                     Inl frameErr \<Rightarrow> (Some frameErr, s)
                   | Inr f \<Rightarrow> send s f
              else (None, s)) of
          (Some e, s') \<Rightarrow> (Some (Some e), s')
        | (None, s') \<Rightarrow>
            (case err of
               Some e \<Rightarrow> (Some (if errorsIs e (Lib IoEOF) then None else Some e), s')
             | None \<Rightarrow>
                 if n = 0 then (Some (Some (Lib IoErrNoProgress)), s')
                 else output_loop c send s' reads))"

definition RunOutput ::
    "('p, 's) Bridge \<Rightarrow> gctx option \<Rightarrow> 's \<Rightarrow> read_outcome list \<Rightarrow> gerror option option \<times> 's" where
  "RunOutput b ctx s reads =
     (case ctx of
        None \<Rightarrow> (Some (Some (ErrNew ''pty: nil context'')), s)
      | Some _ \<Rightarrow> output_loop (br_config b) (br_sender b) s reads)"

definition HandleInput :: "('p, 's) Bridge \<Rightarrow> frame \<Rightarrow> 'p \<Rightarrow> gerror option \<times> 'p" where
  "HandleInput b f p =
     (if StreamID (Header f) \<noteq> bc_StreamID (br_config b) then (Some (Pty ErrInvalidStreamID), p)
      else if MessageType (Header f) \<noteq> bc_InputType (br_config b) \<or> Flags (Header f) \<noteq> FlagEvent
      then (Some (Pty ErrInvalidInputType), p)
      else pty_writeFull (pr_Input (br_process b)) p (Payload f) 0)"

definition Bridge_Resize :: "('p, 's) Bridge \<Rightarrow> 'p \<Rightarrow> Size \<Rightarrow> gerror option \<times> 'p" where
  "Bridge_Resize b = pr_Resize (br_process b)"
definition Bridge_Wait :: "('p, 's) Bridge \<Rightarrow> 'p \<Rightarrow> gerror option \<times> 'p" where
  "Bridge_Wait b = pr_Wait (br_process b)"
definition Bridge_Kill :: "('p, 's) Bridge \<Rightarrow> 'p \<Rightarrow> gerror option \<times> 'p" where
  "Bridge_Kill b = pr_Kill (br_process b)"
definition Bridge_Close :: "('p, 's) Bridge \<Rightarrow> 'p \<Rightarrow> gerror option \<times> 'p" where
  "Bridge_Close b = pr_Close (br_process b)"

section \<open>Nothing is lost on the way out\<close>

text \<open>
  Any sender, with a record of the frames handed to it and of its answers. Nothing is supposed of
  a sender: one that returns an error may still have sent the frame, as \<open>Conn\<close> does when the context
  ends after the frame was queued.
\<close>

definition recording :: "'s sender \<Rightarrow> ('s \<times> (frame \<times> gerror option) list) sender" where
  "recording send sl f = (case send (fst sl) f of (e, s') \<Rightarrow> (e, (s', snd sl @ [(f, e)])))"

definition chunk_of :: "read_outcome \<Rightarrow> bytes" where
  "chunk_of r = take (nat (fst r)) (fst (snd r))"

definition output_frames :: "BridgeConfig \<Rightarrow> read_outcome list \<Rightarrow> frame list" where
  "output_frames c reads =
     map (\<lambda>d. \<lparr>Header = (output_header c)\<lparr>PayloadLength := of_nat (length d)\<rparr>, Payload = d\<rparr>)
       (filter (\<lambda>d. d \<noteq> []) (map chunk_of reads))"

lemma output_frames_append [simp]:
  "output_frames c (xs @ ys) = output_frames c xs @ output_frames c ys"
  by (simp add: output_frames_def)

lemma newFrame_Inr_shape:
  "newFrame h d = Inr f \<Longrightarrow>
     f = \<lparr>Header = h\<lparr>PayloadLength := of_nat (length d)\<rparr>, Payload = d\<rparr>
     \<and> Validate (lenLimit d) f = None"
  by (auto simp: newFrame_def Let_def split: if_splits option.splits)

lemma output_frames_one:
  assumes "0 < n" and "n \<le> bc_ReadBufferSize c" and "length buffer = nat (bc_ReadBufferSize c)"
    and "NewOwnedFrame (output_header c) (take (nat n) buffer) = Inr f"
  shows "output_frames c [(n, buffer, err)] = [f]"
proof -
  have "take (nat n) buffer \<noteq> []" using assms(1-3) by auto
  moreover have "f = \<lparr>Header = (output_header c)\<lparr>PayloadLength := of_nat (length (take (nat n) buffer))\<rparr>,
      Payload = take (nat n) buffer\<rparr>"
    using newFrame_Inr_shape assms(4) unfolding NewOwnedFrame_def by blast
  ultimately show ?thesis by (simp add: output_frames_def chunk_of_def)
qed

text \<open>
  What a run over \<open>reads\<close> with result \<open>res\<close> handed to the sender: the first \<open>k\<close> reads, every
  frame but the last accepted, and a refusal of the last one returned.
\<close>

definition forwarded ::
    "BridgeConfig \<Rightarrow> read_outcome list \<Rightarrow> gerror option option \<Rightarrow> (frame \<times> gerror option) list \<Rightarrow> nat \<Rightarrow> bool" where
  "forwarded c reads res log k \<longleftrightarrow>
     k \<le> length reads \<and> map fst log = output_frames c (take k reads)
     \<and> (\<forall>x \<in> set (butlast log). snd x = None)
     \<and> (\<forall>e. log \<noteq> [] \<and> snd (last log) = Some e \<longrightarrow> res = Some (Some e))
     \<and> (res = None \<longrightarrow> k = length reads)
     \<and> (res = Some None \<longrightarrow> 0 < k \<and> (\<exists>e. snd (snd (reads ! (k - 1))) = Some e \<and> errorsIs e (Lib IoEOF)))"

lemma forwarded_stop: "forwarded c (r # reads) (Some (Some e)) [] 0"
  by (simp add: forwarded_def output_frames_def)

lemma forwarded_last:
  "output_frames c [r] = map fst log \<Longrightarrow> length log \<le> 1 \<Longrightarrow>
   (\<forall>x \<in> set log. \<forall>a. snd x = Some a \<longrightarrow> res = Some (Some a)) \<Longrightarrow>
   res \<noteq> None \<Longrightarrow> (res = Some None \<longrightarrow> (\<exists>e. snd (snd r) = Some e \<and> errorsIs e (Lib IoEOF))) \<Longrightarrow>
   forwarded c (r # reads) res log 1"
  by (cases log) (auto simp: forwarded_def)

lemma forwarded_more:
  assumes "forwarded c reads res log k" and "output_frames c [r] = map fst front" and "\<forall>x \<in> set front. snd x = None"
  shows "forwarded c (r # reads) res (front @ log) (Suc k)"
proof -
  have "output_frames c (r # take k reads) = map fst front @ map fst log"
    using assms(1,2) output_frames_append [of c "[r]" "take k reads"] by (simp add: forwarded_def)
  moreover have "\<forall>x \<in> set (butlast (front @ log)). snd x = None"
    using assms(1,3) in_set_butlastD [of _ front] by (auto simp: forwarded_def butlast_append)
  moreover have "snd (last (front @ log)) = None" if "log = []" "front \<noteq> []" using assms(3) that by simp
  ultimately show ?thesis using assms(1) by (cases "log = []") (auto simp: forwarded_def nth_Cons')
qed

lemma output_loop_forwards:
  assumes "\<forall>r \<in> set reads. length (fst (snd r)) = nat (bc_ReadBufferSize c)" and "output_loop c send s reads = (res, s')"
  shows "\<exists>log k. output_loop c (recording send) (s, done0) reads = (res, (s', done0 @ log)) \<and> forwarded c reads res log k"
  using assms
proof (induction reads arbitrary: s done0)
  case Nil
  then show ?case by (auto simp: forwarded_def output_frames_def)
next
  case (Cons r reads)
  obtain n buffer err where r: "r = (n, buffer, err)" by (cases r) auto
  have len: "length buffer = nat (bc_ReadBufferSize c)" using Cons.prems(1) r by simp
  show ?case
  proof (cases "n < 0 \<or> n > bc_ReadBufferSize c")
    case True
    then show ?thesis using Cons.prems(2) by (auto simp: r intro!: exI [of _ 0] forwarded_stop)
  next
    case ok: False
    show ?thesis
    proof (cases "n = 0")
      case True
      then have none: "output_frames c [r] = map fst []" by (simp add: r output_frames_def chunk_of_def)
      note stop = forwarded_last [OF none, where reads = reads]
      have res: "res = Some (case err of Some e \<Rightarrow> if errorsIs e (Lib IoEOF) then None else Some e
          | None \<Rightarrow> Some (Lib IoErrNoProgress))" "s' = s"
        using ok True Cons.prems(2) by (auto simp: r split: option.splits)
      have "output_loop c (recording send) (s, done0) (r # reads) = (res, (s', done0 @ []))"
        using ok True by (auto simp: r res split: option.splits)
      moreover have "forwarded c (r # reads) res [] 1"
        by (rule stop) (auto simp: r res split: option.splits if_splits)
      ultimately show ?thesis by blast
    next
      case False
      with ok have n: "0 < n" "n \<le> bc_ReadBufferSize c" by auto
      show ?thesis
      proof (cases "NewOwnedFrame (output_header c) (take (nat n) buffer)")
        case (Inl e)
        then show ?thesis using n Cons.prems(2) by (auto simp: r intro!: exI [of _ 0] forwarded_stop)
      next
        case (Inr f)
        obtain e v where send: "send s f = (e, v)" by (cases "send s f")
        have rec: "recording send (s, done0) f = (e, (v, done0 @ [(f, e)]))" by (simp add: recording_def send)
        have one: "output_frames c [r] = map fst [(f, e)]" using output_frames_one [OF n len Inr] by (simp add: r)
        note last = forwarded_last [OF one, where reads = reads]
        show ?thesis
        proof (cases "e = None \<and> err = None")
          case True
          then have "output_loop c send v reads = (res, s')" using Cons.prems(2) n Inr send by (simp add: r)
          from Cons.IH [OF _ this, of "done0 @ [(f, e)]"] Cons.prems(1) obtain log k where
            more: "output_loop c (recording send) (v, done0 @ [(f, e)]) reads = (res, (s', (done0 @ [(f, e)]) @ log))"
              "forwarded c reads res log k" by auto
          have "output_loop c (recording send) (s, done0) (r # reads) = (res, (s', done0 @ ([(f, e)] @ log)))"
            using more(1) True n Inr rec by (simp add: r)
          moreover have "forwarded c (r # reads) res ([(f, e)] @ log) (Suc k)"
            by (rule forwarded_more [OF more(2) one]) (use True in simp)
          ultimately show ?thesis by blast
        next
          case False
          have res: "res = (case e of Some a \<Rightarrow> Some (Some a)
              | None \<Rightarrow> Some (if errorsIs (the err) (Lib IoEOF) then None else err))" and v: "s' = v"
            using False Cons.prems(2) n Inr send by (auto simp: r split: option.splits)
          have "output_loop c (recording send) (s, done0) (r # reads) = (res, (s', done0 @ [(f, e)]))"
            using False n Inr rec v by (auto simp: r res split: option.splits)
          moreover have "forwarded c (r # reads) res [(f, e)] 1"
            by (rule last) (use False in \<open>auto simp: r res split: option.splits\<close>)
          ultimately show ?thesis by blast
        qed
      qed
    qed
  qed
qed

lemma NewBridge_Inr:
  assumes "NewBridge process sender c0 = Inr b"
  shows "bc_StreamID (br_config b) = bc_StreamID c0" "bc_StreamID c0 \<noteq> 0"
    "bc_InputType (br_config b) = bc_InputType c0" "bc_OutputType (br_config b) = bc_OutputType c0"
    "bc_InputType c0 \<noteq> 0" "bc_OutputType c0 \<noteq> 0" "bc_Version (br_config b) \<noteq> 0"
    "0 < bc_ReadBufferSize (br_config b)" "sender = Some (br_sender b)"
  using assms
  by (auto simp: NewBridge_def Let_def DefaultReadBufferSize_def split: option.splits if_splits)

text \<open>
  (C34) Terminal output crosses the bridge unchanged, whatever the reads and the sender do. The
  frames handed to the sender carry, one frame per read with data and in order, exactly the bytes of the
  first k reads; they are event frames on the bridge's stream with its output type. All but
  the last were accepted, and an error for the last is what \<open>RunOutput\<close> returns, so nothing
  is sent after a refusal. A nil return means that the k-th read reported io.EOF, so nothing
  read was dropped, and a loop that still waits has handed over everything it read.
\<close>

theorem RunOutput_integrity:
  assumes "NewBridge process (Some send) c0 = Inr b" and "NewBridge process (Some (recording send)) c0 = Inr b'"
    and "\<forall>r \<in> set reads. length (fst (snd r)) = nat (bc_ReadBufferSize (br_config b))"
    and "RunOutput b (Some ctx) s reads = (res, s')"
  shows "\<exists>log k. RunOutput b' (Some ctx) (s, []) reads = (res, (s', log)) \<and> k \<le> length reads
    \<and> map (\<lambda>x. Payload (fst x)) log = filter (\<lambda>d. d \<noteq> []) (map chunk_of (take k reads))
    \<and> (\<forall>x \<in> set log. StreamID (Header (fst x)) = bc_StreamID c0 \<and> MessageType (Header (fst x)) = bc_OutputType c0
         \<and> Flags (Header (fst x)) = FlagEvent \<and> CorrelationID (Header (fst x)) = 0)
    \<and> (\<forall>x \<in> set (butlast log). snd x = None)
    \<and> (\<forall>e. log \<noteq> [] \<and> snd (last log) = Some e \<longrightarrow> res = Some (Some e))
    \<and> (res = None \<longrightarrow> k = length reads)
    \<and> (res = Some None \<longrightarrow> 0 < k \<and> (\<exists>e. snd (snd (reads ! (k - 1))) = Some e \<and> errorsIs e (Lib IoEOF)))"
proof -
  let ?c = "br_config b"
  have b: "br_sender b = send" "br_sender b' = recording send" "br_config b' = ?c"
    using assms(1,2) by (auto simp: NewBridge_def Let_def split: option.splits if_splits)
  have "output_loop ?c send s reads = (res, s')"
    using assms(4) b by (simp add: RunOutput_def)
  from output_loop_forwards [OF assms(3) this, of "[]"] obtain log k where
    run: "output_loop ?c (recording send) (s, []) reads = (res, (s', log))" and f: "forwarded ?c reads res log k" by auto
  have frames: "map fst log = output_frames ?c (take k reads)" using f by (simp add: forwarded_def)
  have "StreamID (Header (fst x)) = bc_StreamID c0 \<and> MessageType (Header (fst x)) = bc_OutputType c0
      \<and> Flags (Header (fst x)) = FlagEvent \<and> CorrelationID (Header (fst x)) = 0" if "x \<in> set log" for x
  proof -
    have "fst x \<in> set (map fst log)" using that by simp
    then show ?thesis unfolding frames using NewBridge_Inr [OF assms(1)] by (auto simp: output_frames_def output_header_def)
  qed
  moreover have "map (\<lambda>x. Payload (fst x)) log = map Payload (map fst log)" by simp
  then have "map (\<lambda>x. Payload (fst x)) log = filter (\<lambda>d. d \<noteq> []) (map chunk_of (take k reads))"
    unfolding frames by (simp add: output_frames_def comp_def)
  ultimately show ?thesis using run f b by (intro exI [of _ log] exI [of _ k]) (simp add: RunOutput_def forwarded_def)
qed

definition echo_config :: BridgeConfig where
  "echo_config = \<lparr>bc_Version = 0, bc_StreamID = 5, bc_InputType = 1, bc_OutputType = 2, bc_ReadBufferSize = 2\<rparr>"

text \<open>A sender that refuses its second frame.\<close>

definition full_sender :: "frame list sender" where
  "full_sender s f = (if s = [] then (None, [f]) else (Some (Mux ErrConnClosed), s))"

definition echo_process :: "unit Process" where
  "echo_process = \<lparr>pr_Input = (\<lambda>p d. (int (length d), None, p)), pr_Resize = (\<lambda>p s. (None, p)),
     pr_Wait = (\<lambda>p. (None, p)), pr_Kill = (\<lambda>p. (None, p)), pr_Close = (\<lambda>p. (None, p))\<rparr>"

definition echo_bridge :: "'s sender \<Rightarrow> (unit, 's) Bridge" where
  "echo_bridge send = \<lparr>br_process = echo_process, br_sender = send, br_config = echo_config\<lparr>bc_Version := 1\<rparr>\<rparr>"

lemma echo_bridge_new: "NewBridge (Some echo_process) (Some send) echo_config = Inr (echo_bridge send)"
  by (simp add: NewBridge_def echo_bridge_def echo_config_def)

definition echo_reads :: "read_outcome list" where
  "echo_reads = [(2, [104, 105], None), (1, [33, 0], None), (1, [0, 0], Some (Lib IoEOF))]"

theorem RunOutput_integrity_witness:
  "\<exists>log k. RunOutput (echo_bridge (recording full_sender)) (Some None) ([], []) echo_reads
       = (Some (Some (Mux ErrConnClosed)), (snd (RunOutput (echo_bridge full_sender) (Some None) [] echo_reads), log))
     \<and> map (\<lambda>x. Payload (fst x)) log = filter (\<lambda>d. d \<noteq> []) (map chunk_of (take k echo_reads)) \<and> k \<le> 3"
proof -
  have res: "fst (RunOutput (echo_bridge full_sender) (Some None) [] echo_reads) = Some (Some (Mux ErrConnClosed))" by code_simp
  then obtain s' where run: "RunOutput (echo_bridge full_sender) (Some None) [] echo_reads = (Some (Some (Mux ErrConnClosed)), s')"
    by (metis fst_conv surj_pair)
  have "\<forall>r \<in> set echo_reads. length (fst (snd r)) = nat (bc_ReadBufferSize (br_config (echo_bridge full_sender)))"
    by (simp add: echo_reads_def echo_bridge_def echo_config_def)
  moreover have "length echo_reads = 3" by (simp add: echo_reads_def)
  ultimately show ?thesis
    using RunOutput_integrity [OF echo_bridge_new echo_bridge_new _ run] unfolding run snd_conv by metis
qed

end
