(* ===== verification/Pty_Types.thy ===== *)
theory Pty_Types
  imports Pty_Bridge
begin

text \<open>
  The data of \<open>pty/manager.go\<close>: configuration, lifecycle states, output and observer events,
  and the records \<open>Session\<close>, \<open>Attachment\<close>, \<open>Subscription\<close> and \<open>Manager\<close>. A pointer to a
  session is its identifier, which the manager never gives out twice; a pointer to an
  attachment or a subscription is its index in a list that only grows.
\<close>

section \<open>Configuration\<close>

type_synonym ExitedSessionPolicy = "8 word"

definition ExitedSessionRemove :: ExitedSessionPolicy where "ExitedSessionRemove = 0"
definition ExitedSessionRetain :: ExitedSessionPolicy where "ExitedSessionRetain = 1"

record SessionLifecycleDescriptor =
  ExitPolicy :: ExitedSessionPolicy
  MaxRetainedSessions :: int

text \<open>Durations are counted in nanoseconds, as in \<open>time.Duration\<close>.\<close>

record ManagerConfig =
  MaxSessions :: int
  HistoryBytes :: int
  MaxTotalHistoryBytes :: int
  ReadBufferBytes :: int
  AttachmentQueueBytes :: int
  ObserverQueueBytes :: int
  MaxObservers :: int
  SessionLifecycle :: SessionLifecycleDescriptor
  MaxAttachmentsPerSession :: int
  AttachmentDrainTimeout :: int
  GracefulKillTimeout :: int

definition DefaultManagerConfig :: ManagerConfig where
  "DefaultManagerConfig =
     \<lparr>MaxSessions = 256, HistoryBytes = 16 * 2 ^ 20, MaxTotalHistoryBytes = 512 * 2 ^ 20,
      ReadBufferBytes = DefaultReadBufferSize, AttachmentQueueBytes = 4 * 2 ^ 20,
      ObserverQueueBytes = 4 * 2 ^ 20, MaxObservers = 32,
      SessionLifecycle = \<lparr>ExitPolicy = ExitedSessionRemove, MaxRetainedSessions = 0\<rparr>,
      MaxAttachmentsPerSession = 1,
      AttachmentDrainTimeout = 2000000000, GracefulKillTimeout = 2000000000\<rparr>"

definition ManagerConfig_validate :: "ManagerConfig \<Rightarrow> gerror option" where
  "ManagerConfig_validate c =
     (if MaxSessions c \<le> 0 \<or> HistoryBytes c < 0 \<or> MaxTotalHistoryBytes c < 0
        \<or> ReadBufferBytes c \<le> 0 \<or> AttachmentQueueBytes c \<le> 0 \<or> ObserverQueueBytes c \<le> 0
        \<or> MaxObservers c \<le> 0 \<or> MaxAttachmentsPerSession c \<le> 0
        \<or> AttachmentDrainTimeout c < 0 \<or> GracefulKillTimeout c < 0
      then Some (ErrNew ''pty: invalid ManagerConfig'')
      else
        case (if ExitPolicy (SessionLifecycle c) = ExitedSessionRemove
              then if MaxRetainedSessions (SessionLifecycle c) \<noteq> 0
                   then Some (ErrNew ''pty: removal policy cannot retain Sessions'') else None
              else if ExitPolicy (SessionLifecycle c) = ExitedSessionRetain
              then if MaxRetainedSessions (SessionLifecycle c) \<le> 0
                   then Some (ErrNew ''pty: retention policy requires a positive Session limit'')
                   else None
              else Some (ErrNew ''pty: invalid exited Session policy'')) of
          Some e \<Rightarrow> Some e
        | None \<Rightarrow>
            if HistoryBytes c > 0 \<and> HistoryBytes c > MaxTotalHistoryBytes c
              \<and> MaxTotalHistoryBytes c \<noteq> 0
            then Some (ErrNew ''pty: per-session history exceeds total history'')
            else None)"

section \<open>Events\<close>

datatype SessionState =
  SessionStarting | SessionRunning | SessionStopping | SessionExited | SessionFailed

record SessionInfo =
  si_ID :: StreamID
  si_State :: SessionState
  si_Size :: Size
  si_StartedAt :: int
  si_LastSequence :: "64 word"
  si_Exit :: "ExitStatus option"
  si_AttachmentCount :: int
  si_HistoryAvailable :: bool

text \<open>\<open>ReplayMode\<close> is a string type because it comes from the wire unchecked.\<close>

type_synonym ReplayMode = string

definition ReplayNone :: ReplayMode where "ReplayNone = ''none''"
definition ReplayHistory :: ReplayMode where "ReplayHistory = ''history''"

record AttachOptions =
  ao_Replay :: ReplayMode
  ao_ResumeAfter :: "64 word"
  ao_Paused :: bool

record OutputEvent =
  Sequence :: "64 word"
  Data :: bytes

text \<open>\<open>AttachmentEvent\<close> is a struct with a kind and one pointer set: a tagged union.\<close>

datatype AttachmentEvent = AttachmentOutput OutputEvent | AttachmentExit ExitStatus

record AttachResult =
  ar_ReplayFirst :: "64 word"
  ar_ReplayLast :: "64 word"
  ar_NextLive :: "64 word"
  ar_Truncated :: bool

datatype AttachmentCloseReason =
    AttachmentClosedExplicitly | AttachmentContextCanceled | AttachmentSessionExited
  | AttachmentQueueOverflow | AttachmentSinkFailure | AttachmentDrainTimedOut
  | AttachmentManagerClosed | AttachmentSessionRemoved | AttachmentSessionEvicted

datatype ObserverCloseReason =
  ObserverClosedExplicitly | ObserverContextCanceled | ObserverQueueOverflow | ObserverManagerClosed

datatype EventKind =
    EventOpened | EventOutput | EventExited | EventAttached | EventDetached
  | EventRetained | EventEvicted | EventRemoved

record AttachmentInfo =
  ai_ID :: "64 word"
  ai_Reason :: "AttachmentCloseReason option"

record Event =
  ev_Kind :: EventKind
  ev_Session :: SessionInfo
  ev_Output :: "OutputEvent option"
  ev_Attachment :: "AttachmentInfo option"

section \<open>Objects\<close>

record historyChunk =
  hc_event :: OutputEvent
  order :: "64 word"

text \<open>
  \<open>se_pc\<close> is where the goroutine \<open>run\<close> of the session stands: the output pump is still
  reading; the pump has returned and the process was waited for; the exit is published and
  the attachments of \<open>RunDraining\<close> are awaited; the session's removal or retention is done
  and the evictions it caused are being finished; \<open>done\<close> is closed.
\<close>

record retainedRemoval =
  rr_session :: StreamID
  rr_attachments :: "nat list"
  rr_attachmentReason :: AttachmentCloseReason
  rr_eventKind :: EventKind

datatype run_pc =
    RunPumping | RunPumped "gerror option" | RunDraining "nat list" | RunEvicting "retainedRemoval list"
  | RunDone

record Session =
  se_id :: StreamID
  se_pc :: run_pc
  se_state :: SessionState
  se_size :: Size
  se_startedAt :: int
  se_lastSequence :: "64 word"
  se_exit :: "ExitStatus option"
  se_retained :: bool
  se_removing :: bool
  se_history :: "historyChunk list"
  se_historyBytes :: int
  se_attachments :: "(64 word, nat) gomap"
  se_killOnce :: bool
  se_killErr :: "gerror option"

record Attachment =
  at_session :: StreamID
  at_id :: "64 word"
  at_maxBytes :: int
  at_replay :: "OutputEvent list"
  at_replayNext :: nat
  at_queue :: "AttachmentEvent list"
  at_bytes :: int
  at_active :: bool
  at_closing :: bool
  at_closed :: bool
  at_err :: "gerror option"
  at_reason :: "AttachmentCloseReason option"
  at_done :: bool
  at_started :: bool
  at_registered :: bool
  at_ctx :: gctx

record Subscription =
  su_id :: "64 word"
  su_maxBytes :: int
  su_queue :: "Event list"
  su_bytes :: int
  su_closed :: bool
  su_err :: "gerror option"
  su_reason :: "ObserverCloseReason option"
  su_done :: bool
  su_ctx :: gctx

text \<open>
  \<open>m_store\<close> holds every session object ever registered, \<open>m_sessions\<close> the keys of the map
  \<open>sessions\<close> in some iteration order.
\<close>

record Manager =
  m_ctx :: gctx
  m_config :: ManagerConfig
  m_store :: "(StreamID, Session) gomap"
  m_sessions :: "StreamID list"
  m_retainedExited :: "StreamID list"
  m_atts :: "Attachment list"
  m_subs :: "Subscription list"
  m_observers :: "(64 word, nat) gomap"
  m_nextSession :: "64 word"
  m_nextAttachment :: "64 word"
  m_nextObserver :: "64 word"
  m_nextHistory :: "64 word"
  m_historyBytes :: int
  m_historyTruncations :: "64 word"
  m_historyTruncatedBytes :: "64 word"
  m_processesStarted :: "64 word"
  m_processesExited :: "64 word"
  m_sessionsEvicted :: "64 word"
  m_sessionsRemoved :: "64 word"
  m_attachmentClosures :: "(AttachmentCloseReason, 64 word) gomap"
  m_observerClosures :: "(ObserverCloseReason, 64 word) gomap"
  m_generation :: "64 word"
  m_sessionIDExhausted :: bool
  m_closing :: bool
  m_closeErr :: "gerror option"
  m_closed :: bool
  m_starting :: int
  m_activeSessions :: int

abbreviation sess :: "Manager \<Rightarrow> StreamID \<Rightarrow> Session option" where
  "sess m i \<equiv> mget (m_store m) i"

definition upd_session :: "StreamID \<Rightarrow> (Session \<Rightarrow> Session) \<Rightarrow> Manager \<Rightarrow> Manager" where
  "upd_session i f m =
     (case sess m i of None \<Rightarrow> m | Some s \<Rightarrow> m\<lparr>m_store := mput i (f s) (m_store m)\<rparr>)"

definition upd_att :: "nat \<Rightarrow> (Attachment \<Rightarrow> Attachment) \<Rightarrow> Manager \<Rightarrow> Manager" where
  "upd_att k f m =
     (if k < length (m_atts m) then m\<lparr>m_atts := (m_atts m)[k := f (m_atts m ! k)]\<rparr> else m)"

definition upd_sub :: "nat \<Rightarrow> (Subscription \<Rightarrow> Subscription) \<Rightarrow> Manager \<Rightarrow> Manager" where
  "upd_sub k f m =
     (if k < length (m_subs m) then m\<lparr>m_subs := (m_subs m)[k := f (m_subs m ! k)]\<rparr> else m)"

lemma upd_session_get [simp]:
  "sess (upd_session i f m) j = (if i = j then map_option f (sess m j) else sess m j)"
  by (auto simp: upd_session_def split: option.splits)

definition infoLocked :: "Session \<Rightarrow> SessionInfo" where
  "infoLocked s =
     \<lparr>si_ID = se_id s, si_State = se_state s, si_Size = se_size s, si_StartedAt = se_startedAt s,
      si_LastSequence = se_lastSequence s, si_Exit = se_exit s,
      si_AttachmentCount = int (length (se_attachments s)),
      si_HistoryAvailable = (se_history s \<noteq> [])\<rparr>"

end
