(* ===== verification/Pty_History.thy ===== *)
theory Pty_History
  imports Pty_Types
begin

text \<open>
  The bounded output history of \<open>pty/manager.go\<close>: every session keeps its newest chunks
  within \<open>HistoryBytes\<close>, and all sessions together stay within \<open>MaxTotalHistoryBytes\<close> by
  giving up the globally oldest chunk first.
\<close>

section \<open>Operations\<close>

abbreviation chunk_bytes :: "historyChunk \<Rightarrow> int" where
  "chunk_bytes c \<equiv> int (length (Data (hc_event c)))"

text \<open>Both callers of \<open>dropFirstHistoryLocked\<close> have checked that the history is not empty.\<close>

definition dropFirstHistoryLocked :: "StreamID \<Rightarrow> Manager \<Rightarrow> Manager" where
  "dropFirstHistoryLocked i m =
     (case sess m i of
        None \<Rightarrow> m
      | Some s \<Rightarrow>
          (case se_history s of
             [] \<Rightarrow> m
           | c # rest \<Rightarrow>
               let size = chunk_bytes c in
               m\<lparr>m_store := mput i (s\<lparr>se_history := rest, se_historyBytes := se_historyBytes s - size\<rparr>)
                   (m_store m),
                 m_historyBytes := m_historyBytes m - size,
                 m_historyTruncations := m_historyTruncations m + 1,
                 m_historyTruncatedBytes := m_historyTruncatedBytes m + word_of_int size\<rparr>))"

definition removeHistoryLocked :: "StreamID \<Rightarrow> Manager \<Rightarrow> Manager" where
  "removeHistoryLocked i m =
     (case sess m i of
        None \<Rightarrow> m
      | Some s \<Rightarrow>
          m\<lparr>m_store := mput i (s\<lparr>se_history := [], se_historyBytes := 0\<rparr>) (m_store m),
            m_historyBytes := m_historyBytes m - se_historyBytes s\<rparr>)"

text \<open>The number of chunks all sessions hold, the measure of the two eviction loops.\<close>

definition chunk_count :: "Manager \<Rightarrow> nat" where
  "chunk_count m = nat (msum (\<lambda>s. int (length (se_history s))) (m_store m))"

lemma msum_len_nonneg: "0 \<le> msum (\<lambda>s. int (length (se_history s))) st"
  by (intro msum_nonneg) auto

lemma drop_chunk_count:
  assumes "sess m i = Some s" and "se_history s \<noteq> []"
  shows "chunk_count (dropFirstHistoryLocked i m) < chunk_count m"
proof -
  have "int (length (se_history s)) \<le> msum (\<lambda>s. int (length (se_history s))) (m_store m)"
    using msum_ge_member [OF assms(1), of "\<lambda>s. int (length (se_history s))"] by simp
  then show ?thesis using assms
    by (auto simp: chunk_count_def dropFirstHistoryLocked_def Let_def accounting neq_Nil_conv)
qed

function evict_session :: "StreamID \<Rightarrow> Manager \<Rightarrow> Manager" where
  "evict_session i m =
     (case sess m i of
        None \<Rightarrow> m
      | Some s \<Rightarrow>
          if se_historyBytes s > HistoryBytes (m_config m) \<and> se_history s \<noteq> []
          then evict_session i (dropFirstHistoryLocked i m)
          else m)"
  by pat_completeness auto
termination
  by (relation "measure (\<lambda>(i, m). chunk_count m)") (auto intro: drop_chunk_count)

declare evict_session.simps [simp del]

text \<open>The scan over the registered sessions for the oldest first chunk.\<close>

definition oldest_step ::
    "Manager \<Rightarrow> (StreamID \<times> 64 word) option \<Rightarrow> StreamID \<Rightarrow> (StreamID \<times> 64 word) option" where
  "oldest_step m oldest i =
     (case sess m i of
        None \<Rightarrow> oldest
      | Some candidate \<Rightarrow>
          (case se_history candidate of
             [] \<Rightarrow> oldest
           | c # _ \<Rightarrow>
               if (case oldest of None \<Rightarrow> True | Some (_, ord) \<Rightarrow> order c < ord)
               then Some (i, order c) else oldest))"

fun oldest_scan ::
    "Manager \<Rightarrow> (StreamID \<times> 64 word) option \<Rightarrow> StreamID list \<Rightarrow> (StreamID \<times> 64 word) option" where
  "oldest_scan m oldest [] = oldest"
| "oldest_scan m oldest (i # rest) = oldest_scan m (oldest_step m oldest i) rest"

definition head_order :: "Manager \<Rightarrow> StreamID \<Rightarrow> 64 word \<Rightarrow> bool" where
  "head_order m i w \<longleftrightarrow> (\<exists>s c rest. sess m i = Some s \<and> se_history s = c # rest \<and> order c = w)"

lemma oldest_step_cases:
  "oldest_step m best i = best \<or> (\<exists>w. oldest_step m best i = Some (i, w) \<and> head_order m i w)"
  by (auto simp: oldest_step_def head_order_def split: option.splits list.splits)

lemma oldest_scan_some:
  "oldest_scan m best is = Some (i, w) \<Longrightarrow>
     best = Some (i, w) \<or> i \<in> set is \<and> head_order m i w"
proof (induction "is" arbitrary: best)
  case (Cons j "is")
  have "oldest_scan m (oldest_step m best j) is = Some (i, w)" using Cons.prems by simp
  from Cons.IH [OF this] show ?case using oldest_step_cases [of m best j] by auto
qed simp

text \<open>The scan finds a head of least order, and finds none only when no session has history.\<close>

lemma oldest_step_le:
  "head_order m j w \<Longrightarrow> \<exists>i v. oldest_step m best j = Some (i, v) \<and> v \<le> w"
  "best = Some (k, u) \<Longrightarrow> \<exists>i v. oldest_step m best j = Some (i, v) \<and> v \<le> u"
  by (auto simp: oldest_step_def head_order_def split: option.splits list.splits)

lemma oldest_scan_le:
  "best = Some (k, u) \<Longrightarrow> \<exists>i v. oldest_scan m best is = Some (i, v) \<and> v \<le> u"
proof (induction "is" arbitrary: best k u)
  case (Cons j "is")
  from oldest_step_le(2) [OF Cons.prems, of m j] obtain i v
    where "oldest_step m best j = Some (i, v)" "v \<le> u" by blast
  with Cons.IH [OF this(1)] show ?case by auto
qed simp

lemma oldest_scan_least:
  "head_order m j w \<Longrightarrow> j \<in> set is \<Longrightarrow> \<exists>i v. oldest_scan m best is = Some (i, v) \<and> v \<le> w"
proof (induction "is" arbitrary: best)
  case (Cons k "is")
  show ?case
  proof (cases "j = k")
    case True
    with oldest_step_le(1) [OF Cons.prems(1)] obtain i v
      where "oldest_step m best k = Some (i, v)" "v \<le> w" by blast
    with oldest_scan_le [OF this(1), of m "is"] show ?thesis by auto
  next
    case False
    with Cons show ?thesis by auto
  qed
qed simp

function evict_total :: "Manager \<Rightarrow> Manager" where
  "evict_total m =
     (if m_historyBytes m > MaxTotalHistoryBytes (m_config m)
      then case oldest_scan m None (m_sessions m) of
             None \<Rightarrow> m
           | Some (oldest, _) \<Rightarrow> evict_total (dropFirstHistoryLocked oldest m)
      else m)"
  by pat_completeness auto
termination
proof (relation "measure chunk_count")
  fix m p oldest w
  assume "oldest_scan m None (m_sessions m) = Some p" and "(oldest, w) = p"
  then have "head_order m oldest w" using oldest_scan_some [of m None "m_sessions m" oldest w] by simp
  then show "(dropFirstHistoryLocked oldest m, m) \<in> measure chunk_count"
    by (auto simp: head_order_def intro: drop_chunk_count)
qed simp

declare evict_total.simps [simp del]

definition history_limit :: "ManagerConfig \<Rightarrow> int" where
  "history_limit c =
     (let limit = HistoryBytes c in
      if limit > MaxTotalHistoryBytes c then MaxTotalHistoryBytes c else limit)"

text \<open>The part of \<open>appendHistoryLocked\<close> before its two loops: cut the chunk, then append it.\<close>

definition history_cut :: "ManagerConfig \<Rightarrow> OutputEvent \<Rightarrow> OutputEvent" where
  "history_cut c ev =
     (if int (length (Data ev)) > history_limit c
      then ev\<lparr>Data := drop (length (Data ev) - nat (history_limit c)) (Data ev)\<rparr> else ev)"

definition history_push :: "StreamID \<Rightarrow> OutputEvent \<Rightarrow> Manager \<Rightarrow> Manager" where
  "history_push i ev0 m0 =
     (let ev = history_cut (m_config m0) ev0;
          m = (if int (length (Data ev0)) > history_limit (m_config m0)
               then m0\<lparr>m_historyTruncations := m_historyTruncations m0 + 1,
                       m_historyTruncatedBytes := m_historyTruncatedBytes m0
                         + word_of_int (int (length (Data ev0)) - history_limit (m_config m0))\<rparr>
               else m0)
      in case sess m i of
           None \<Rightarrow> m
         | Some s \<Rightarrow>
             m\<lparr>m_store := mput i (s\<lparr>se_history := se_history s @ [\<lparr>hc_event = ev, order = m_nextHistory m + 1\<rparr>],
                   se_historyBytes := se_historyBytes s + int (length (Data ev))\<rparr>) (m_store m),
               m_nextHistory := m_nextHistory m + 1,
               m_historyBytes := m_historyBytes m + int (length (Data ev))\<rparr>)"

definition appendHistoryLocked :: "StreamID \<Rightarrow> OutputEvent \<Rightarrow> Manager \<Rightarrow> Manager" where
  "appendHistoryLocked i ev m =
     (if HistoryBytes (m_config m) = 0 \<or> MaxTotalHistoryBytes (m_config m) = 0 then m
      else evict_total (evict_session i (history_push i ev m)))"

section \<open>What the loops keep\<close>

text \<open>
  A session's history is the unbroken end of its output: chunk after chunk the sequence
  numbers go up by one and the last one is the session's last.
\<close>

definition hist_seq :: "Session \<Rightarrow> bool" where
  "hist_seq s \<longleftrightarrow>
     map (\<lambda>c. Sequence (hc_event c)) (se_history s)
       = map (\<lambda>k. se_lastSequence s - of_nat k) (rev [0..<length (se_history s)])"

definition hist_acc :: "Session \<Rightarrow> bool" where
  "hist_acc s \<longleftrightarrow>
     se_historyBytes s = sum_list (map chunk_bytes (se_history s))
     \<and> (\<forall>c \<in> set (se_history s). Data (hc_event c) \<noteq> []) \<and> hist_seq s"

definition store_acc :: "(StreamID, Session) gomap \<Rightarrow> StreamID list \<Rightarrow> int \<Rightarrow> bool" where
  "store_acc st regs hb \<longleftrightarrow>
     is_map st
     \<and> (\<forall>i s. mget st i = Some s \<longrightarrow> hist_acc s \<and> (i \<notin> set regs \<longrightarrow> se_history s = []))
     \<and> hb = msum se_historyBytes st"

definition hist_ok :: "Manager \<Rightarrow> bool" where
  "hist_ok m \<longleftrightarrow>
     store_acc (m_store m) (m_sessions m) (m_historyBytes m)
     \<and> (\<forall>i s. sess m i = Some s \<longrightarrow> se_historyBytes s \<le> HistoryBytes (m_config m))
     \<and> m_historyBytes m \<le> MaxTotalHistoryBytes (m_config m)"

lemma store_accD:
  "store_acc st regs hb \<Longrightarrow> mget st i = Some s \<Longrightarrow> hist_acc s \<and> (i \<notin> set regs \<longrightarrow> se_history s = [])"
  by (simp add: store_acc_def)

lemma chunk_sum_nonneg: "0 \<le> sum_list (map chunk_bytes h)"
  by (intro sum_list_nonneg) auto

lemma hist_acc_nonneg: "hist_acc s \<Longrightarrow> 0 \<le> se_historyBytes s"
  by (simp add: hist_acc_def chunk_sum_nonneg)

lemma hist_acc_empty: "hist_acc s \<Longrightarrow> se_historyBytes s \<le> 0 \<Longrightarrow> se_history s = []"
proof (cases "se_history s")
  case (Cons c cs)
  assume s: "hist_acc s" "se_historyBytes s \<le> 0"
  have "0 < chunk_bytes c" using s(1) Cons by (simp add: hist_acc_def)
  moreover have "se_historyBytes s = chunk_bytes c + sum_list (map chunk_bytes cs)"
    using s(1) Cons by (simp add: hist_acc_def)
  ultimately show ?thesis using s(2) chunk_sum_nonneg [of cs] by linarith
qed

lemma hist_seq_tl: "hist_seq s \<Longrightarrow> se_history s = c # cs \<Longrightarrow> hist_seq (s\<lparr>se_history := cs, se_historyBytes := b\<rparr>)"
  by (simp add: hist_seq_def)

lemma hist_acc_tl:
  "hist_acc s \<Longrightarrow> se_history s = c # cs \<Longrightarrow>
     hist_acc (s\<lparr>se_history := cs, se_historyBytes := se_historyBytes s - chunk_bytes c\<rparr>)"
  using hist_seq_tl [of s c cs] by (auto simp: hist_acc_def)

text \<open>\<open>shrunk\<close>: the sessions of the second state hold ends of the histories of the first.\<close>

definition sess_shrunk :: "Session \<Rightarrow> Session \<Rightarrow> bool" where
  "sess_shrunk s s' \<longleftrightarrow>
     (\<exists>k. s' = s\<lparr>se_history := drop k (se_history s),
             se_historyBytes := se_historyBytes s - sum_list (map chunk_bytes (take k (se_history s)))\<rparr>)"

definition shrunk :: "Manager \<Rightarrow> Manager \<Rightarrow> bool" where
  "shrunk m m' \<longleftrightarrow>
     (\<forall>j. rel_option sess_shrunk (sess m j) (sess m' j))
     \<and> (\<exists>st hb t b. m' = m\<lparr>m_store := st, m_historyBytes := hb, m_historyTruncations := t,
            m_historyTruncatedBytes := b\<rparr>)"

lemma sess_shrunk_refl [simp]: "sess_shrunk s s"
  unfolding sess_shrunk_def by (intro exI [of _ 0]) simp

lemma sess_shrunk_trans: "sess_shrunk s t \<Longrightarrow> sess_shrunk t u \<Longrightarrow> sess_shrunk s u"
proof -
  assume "sess_shrunk s t" "sess_shrunk t u"
  then obtain k l where
    t: "t = s\<lparr>se_history := drop k (se_history s),
             se_historyBytes := se_historyBytes s - sum_list (map chunk_bytes (take k (se_history s)))\<rparr>"
    and u: "u = t\<lparr>se_history := drop l (se_history t),
             se_historyBytes := se_historyBytes t - sum_list (map chunk_bytes (take l (se_history t)))\<rparr>"
    by (auto simp: sess_shrunk_def)
  have "take (k + l) (se_history s) = take k (se_history s) @ take l (drop k (se_history s))"
    by (simp add: take_add)
  then show ?thesis unfolding sess_shrunk_def
    by (intro exI [of _ "k + l"]) (simp add: t u add.commute)
qed

lemma shrunk_refl [simp]: "shrunk m m"
proof -
  have "m = m\<lparr>m_store := m_store m, m_historyBytes := m_historyBytes m,
      m_historyTruncations := m_historyTruncations m, m_historyTruncatedBytes := m_historyTruncatedBytes m\<rparr>"
    by simp
  then show ?thesis unfolding shrunk_def by (blast intro: option.rel_refl sess_shrunk_refl)
qed

lemma shrunk_trans:
  assumes "shrunk a b" and "shrunk b c"
  shows "shrunk a c"
proof -
  have "rel_option sess_shrunk (sess a j) (sess c j)" for j
  proof -
    have "rel_option sess_shrunk (sess a j) (sess b j)" "rel_option sess_shrunk (sess b j) (sess c j)"
      using assms by (auto simp: shrunk_def)
    then show ?thesis
      by (cases "sess a j"; cases "sess b j"; cases "sess c j") (auto intro: sess_shrunk_trans)
  qed
  then show ?thesis using assms by (fastforce simp: shrunk_def)
qed

lemma shrunk_fields:
  assumes "shrunk m m'"
  shows "m_config m' = m_config m" "m_sessions m' = m_sessions m" "m_nextHistory m' = m_nextHistory m"
    "m_atts m' = m_atts m" "m_subs m' = m_subs m" "m_observers m' = m_observers m"
  using assms by (auto simp: shrunk_def)

lemma drop_shrunk: "shrunk m (dropFirstHistoryLocked i m)"
proof (cases "\<exists>s c cs. sess m i = Some s \<and> se_history s = c # cs")
  case True
  then obtain s c cs where s: "sess m i = Some s" "se_history s = c # cs" by blast
  then have "sess_shrunk s (s\<lparr>se_history := cs, se_historyBytes := se_historyBytes s - chunk_bytes c\<rparr>)"
    unfolding sess_shrunk_def by (intro exI [of _ 1]) simp
  then have "rel_option sess_shrunk (sess m j) (sess (dropFirstHistoryLocked i m) j)" for j
    using s by (simp add: dropFirstHistoryLocked_def Let_def option.rel_refl)
  then show ?thesis using s unfolding shrunk_def
    by (auto simp: dropFirstHistoryLocked_def Let_def)
next
  case False
  then have "dropFirstHistoryLocked i m = m"
    by (auto simp: dropFirstHistoryLocked_def split: option.splits list.splits)
  then show ?thesis by simp
qed

lemma drop_acc:
  fixes i :: StreamID and m :: Manager
  assumes "store_acc (m_store m) (m_sessions m) (m_historyBytes m)"
  defines "m' \<equiv> dropFirstHistoryLocked i m"
  shows "store_acc (m_store m') (m_sessions m') (m_historyBytes m')"
proof (cases "\<exists>s c cs. sess m i = Some s \<and> se_history s = c # cs")
  case True
  then obtain s c cs where s: "sess m i = Some s" "se_history s = c # cs" by blast
  let ?s = "s\<lparr>se_history := cs, se_historyBytes := se_historyBytes s - chunk_bytes c\<rparr>"
  have "hist_acc ?s" "i \<in> set (m_sessions m)"
    using store_accD [OF assms(1) s(1)] s(2) by (auto intro: hist_acc_tl)
  then show ?thesis using assms(1) s
    by (auto simp: m'_def dropFirstHistoryLocked_def Let_def store_acc_def accounting)
next
  case False
  then have "m' = m"
    by (auto simp: m'_def dropFirstHistoryLocked_def split: option.splits list.splits)
  then show ?thesis using assms(1) by simp
qed

text \<open>Induction over the turns of the two loops.\<close>

lemma evict_session_rule [case_names stop turn]:
  assumes "\<And>m. (case sess m i of None \<Rightarrow> True
              | Some s \<Rightarrow> se_historyBytes s \<le> HistoryBytes (m_config m) \<or> se_history s = []) \<Longrightarrow> P m m"
    and "\<And>m s t. sess m i = Some s \<Longrightarrow> se_history s \<noteq> [] \<Longrightarrow>
           se_historyBytes s > HistoryBytes (m_config m) \<Longrightarrow> P (dropFirstHistoryLocked i m) t \<Longrightarrow> P m t"
  shows "P m (evict_session i m)"
proof (induction "chunk_count m" arbitrary: m rule: less_induct)
  case less
  show ?case
  proof (cases "\<exists>s. sess m i = Some s \<and> se_historyBytes s > HistoryBytes (m_config m) \<and> se_history s \<noteq> []")
    case True
    then obtain s where s: "sess m i = Some s" "se_historyBytes s > HistoryBytes (m_config m)" "se_history s \<noteq> []"
      by blast
    then have "evict_session i m = evict_session i (dropFirstHistoryLocked i m)"
      by (subst evict_session.simps) simp
    then show ?thesis using assms(2) [OF s(1,3,2) less [OF drop_chunk_count [OF s(1,3)]]] by simp
  next
    case False
    then have "evict_session i m = m" by (subst evict_session.simps) (auto split: option.splits)
    moreover have "case sess m i of None \<Rightarrow> True
        | Some s \<Rightarrow> se_historyBytes s \<le> HistoryBytes (m_config m) \<or> se_history s = []"
      using False by (auto simp: not_le split: option.splits)
    ultimately show ?thesis using assms(1) by simp
  qed
qed

lemma evict_total_rule [case_names stop turn]:
  assumes "\<And>m. m_historyBytes m \<le> MaxTotalHistoryBytes (m_config m) \<or> oldest_scan m None (m_sessions m) = None \<Longrightarrow> P m m"
    and "\<And>m i w t. m_historyBytes m > MaxTotalHistoryBytes (m_config m) \<Longrightarrow>
           oldest_scan m None (m_sessions m) = Some (i, w) \<Longrightarrow> head_order m i w \<Longrightarrow>
           P (dropFirstHistoryLocked i m) t \<Longrightarrow> P m t"
  shows "P m (evict_total m)"
proof (induction "chunk_count m" arbitrary: m rule: less_induct)
  case less
  show ?case
  proof (cases "\<exists>i w. m_historyBytes m > MaxTotalHistoryBytes (m_config m) \<and> oldest_scan m None (m_sessions m) = Some (i, w)")
    case True
    then obtain i w where s: "m_historyBytes m > MaxTotalHistoryBytes (m_config m)"
      "oldest_scan m None (m_sessions m) = Some (i, w)" by blast
    from oldest_scan_some [OF s(2)] have h: "head_order m i w" by simp
    then have "chunk_count (dropFirstHistoryLocked i m) < chunk_count m"
      by (auto simp: head_order_def intro: drop_chunk_count)
    moreover have "evict_total m = evict_total (dropFirstHistoryLocked i m)"
      using s by (subst evict_total.simps) simp
    ultimately show ?thesis using assms(2) [OF s h] less by simp
  next
    case False
    then have "evict_total m = m" by (subst evict_total.simps) (auto split: option.splits)
    then show ?thesis using assms(1) [of m] False by (cases "oldest_scan m None (m_sessions m)") auto
  qed
qed

lemma evict_session_shrunk: "shrunk m (evict_session i m)"
  by (induction rule: evict_session_rule) (auto intro: shrunk_trans [OF drop_shrunk])

lemma evict_session_acc:
  "store_acc (m_store m) (m_sessions m) (m_historyBytes m) \<longrightarrow>
   store_acc (m_store (evict_session i m)) (m_sessions (evict_session i m)) (m_historyBytes (evict_session i m))"
  by (induction rule: evict_session_rule) (auto intro: drop_acc)

lemma evict_session_bound:
  "\<forall>s. sess (evict_session i m) i = Some s \<longrightarrow>
     se_historyBytes s \<le> HistoryBytes (m_config (evict_session i m)) \<or> se_history s = []"
  by (rule evict_session_rule [where P = "\<lambda>m m'. \<forall>s. sess m' i = Some s \<longrightarrow>
     se_historyBytes s \<le> HistoryBytes (m_config m') \<or> se_history s = []"]) auto

lemma dropFirst_other: "j \<noteq> i \<Longrightarrow> sess (dropFirstHistoryLocked i m) j = sess m j"
  by (auto simp: dropFirstHistoryLocked_def Let_def split: option.splits list.splits)

lemma evict_session_other: "j \<noteq> i \<longrightarrow> sess (evict_session i m) j = sess m j"
  by (induction rule: evict_session_rule) (auto simp: dropFirst_other)

lemma evict_total_shrunk: "shrunk m (evict_total m)"
  by (induction rule: evict_total_rule) (auto intro: shrunk_trans [OF drop_shrunk])

lemma evict_total_acc:
  "store_acc (m_store m) (m_sessions m) (m_historyBytes m) \<longrightarrow>
   store_acc (m_store (evict_total m)) (m_sessions (evict_total m)) (m_historyBytes (evict_total m))"
  by (induction rule: evict_total_rule) (auto intro: drop_acc)

lemma msum_zero: "\<forall>v \<in> snd ` set st. f v = 0 \<Longrightarrow> msum f st = 0"
  by (induction st) auto

lemma no_heads_no_bytes:
  assumes "store_acc (m_store m) (m_sessions m) (m_historyBytes m)"
    and "oldest_scan m None (m_sessions m) = None"
  shows "m_historyBytes m = 0"
proof -
  have "se_historyBytes s = 0" if "(i, s) \<in> set (m_store m)" for i s
  proof -
    have s: "sess m i = Some s" using assms(1) that by (simp add: store_acc_def mget_is_map_mem)
    have "se_history s = []"
    proof (rule ccontr)
      assume "se_history s \<noteq> []"
      then have "i \<in> set (m_sessions m)" "\<exists>w. head_order m i w"
        using store_accD [OF assms(1) s] s by (auto simp: head_order_def neq_Nil_conv)
      then show False using oldest_scan_least [of m i _ "m_sessions m" None] assms(2) by auto
    qed
    then show ?thesis using store_accD [OF assms(1) s] by (simp add: hist_acc_def)
  qed
  then have "msum se_historyBytes (m_store m) = 0" by (intro msum_zero) auto
  then show ?thesis using assms(1) by (simp add: store_acc_def)
qed

lemma evict_total_bound:
  "store_acc (m_store m) (m_sessions m) (m_historyBytes m) \<longrightarrow> 0 \<le> MaxTotalHistoryBytes (m_config m) \<longrightarrow>
   m_historyBytes (evict_total m) \<le> MaxTotalHistoryBytes (m_config m)"
proof (induction rule: evict_total_rule)
  case (stop m)
  then show ?case using no_heads_no_bytes [of m] by auto
next
  case (turn m i w t)
  then show ?case using drop_acc [of m i] shrunk_fields(1) [OF drop_shrunk [of m i]] by auto
qed

lemma shrunk_bytes_le:
  assumes "sess_shrunk s s'"
  shows "se_historyBytes s' \<le> se_historyBytes s"
  using assms chunk_sum_nonneg by (auto simp: sess_shrunk_def)

section \<open>Appending\<close>

text \<open>The first statement of \<open>publish\<close>: the session's next sequence number.\<close>

definition bump_sequence :: "StreamID \<Rightarrow> Manager \<Rightarrow> Manager" where
  "bump_sequence i = upd_session i (\<lambda>s. s\<lparr>se_lastSequence := se_lastSequence s + 1\<rparr>)"

lemma rev_upt_shift:
  "map (\<lambda>k. (w + 1 :: 64 word) - of_nat k) (rev [0..<Suc n]) = map (\<lambda>k. w - of_nat k) (rev [0..<n]) @ [w + 1]"
proof -
  have "rev [0..<Suc n] = map Suc (rev [0..<n]) @ [0]"
    by (simp add: upt_conv_Cons rev_map flip: map_Suc_upt del: upt_Suc)
  then show ?thesis by (simp del: upt_Suc)
qed

lemma hist_seq_push:
  "hist_seq s \<Longrightarrow> Sequence (hc_event c) = se_lastSequence s + 1 \<Longrightarrow>
     hist_seq (s\<lparr>se_lastSequence := se_lastSequence s + 1, se_history := se_history s @ [c], se_historyBytes := b\<rparr>)"
  using rev_upt_shift [of "se_lastSequence s" "length (se_history s)"]
  by (simp add: hist_seq_def del: upt_Suc)

lemma history_cut_props:
  assumes "0 < history_limit c" and "Data ev \<noteq> []"
  shows "Data (history_cut c ev) \<noteq> []" "Sequence (history_cut c ev) = Sequence ev"
    "int (length (Data (history_cut c ev))) \<le> history_limit c"
    "\<exists>k. Data (history_cut c ev) = drop k (Data ev)"
  using assms by (auto simp: history_cut_def intro: exI [of _ 0])

text \<open>
  What the history keeps of a piece of output, said without the code: all of it, or its newest
  bytes up to the smaller of the two limits.
\<close>

definition kept :: "ManagerConfig \<Rightarrow> bytes \<Rightarrow> bytes" where
  "kept c d = drop (length d - nat (min (HistoryBytes c) (MaxTotalHistoryBytes c))) d"

lemma history_cut_kept: "history_cut c ev = ev\<lparr>Data := kept c (Data ev)\<rparr>"
  by (auto simp: history_cut_def kept_def history_limit_def Let_def min_def)

lemma kept_id: "int (length d) \<le> HistoryBytes c \<Longrightarrow> int (length d) \<le> MaxTotalHistoryBytes c \<Longrightarrow> kept c d = d"
  by (simp add: kept_def)

abbreviation acc :: "Manager \<Rightarrow> bool" where
  "acc m \<equiv> store_acc (m_store m) (m_sessions m) (m_historyBytes m)"

definition pushed :: "Manager \<Rightarrow> bytes \<Rightarrow> Session \<Rightarrow> historyChunk" where
  "pushed m d s = \<lparr>hc_event = history_cut (m_config m) \<lparr>Sequence = se_lastSequence s + 1, Data = d\<rparr>,
     order = m_nextHistory m + 1\<rparr>"

definition pushed_session :: "Manager \<Rightarrow> bytes \<Rightarrow> Session \<Rightarrow> Session" where
  "pushed_session m d s =
     s\<lparr>se_lastSequence := se_lastSequence s + 1, se_history := se_history s @ [pushed m d s],
       se_historyBytes := se_historyBytes s + chunk_bytes (pushed m d s)\<rparr>"

lemma history_push_state:
  fixes d :: bytes
  assumes "sess m i = Some s"
  defines "m1 \<equiv> history_push i \<lparr>Sequence = se_lastSequence s + 1, Data = d\<rparr> (bump_sequence i m)"
  shows "sess m1 j = (if j = i then Some (pushed_session m d s) else sess m j)"
    "m_config m1 = m_config m" "m_sessions m1 = m_sessions m" "m_nextHistory m1 = m_nextHistory m + 1"
    "m_historyBytes m1 = m_historyBytes m + chunk_bytes (pushed m d s)"
    "is_map (m_store m) \<Longrightarrow> is_map (m_store m1)"
    "msum f (m_store m1) = msum f (m_store m) - f s + f (pushed_session m d s)"
proof -
  have b: "bump_sequence i m = m\<lparr>m_store := mput i (s\<lparr>se_lastSequence := se_lastSequence s + 1\<rparr>) (m_store m)\<rparr>"
    using assms(1) by (simp add: bump_sequence_def upd_session_def)
  show "sess m1 j = (if j = i then Some (pushed_session m d s) else sess m j)"
    "m_config m1 = m_config m" "m_sessions m1 = m_sessions m" "m_nextHistory m1 = m_nextHistory m + 1"
    "m_historyBytes m1 = m_historyBytes m + chunk_bytes (pushed m d s)"
    "is_map (m_store m) \<Longrightarrow> is_map (m_store m1)"
    "msum f (m_store m1) = msum f (m_store m) - f s + f (pushed_session m d s)"
    using assms(1)
    by (auto simp: m1_def b history_push_def Let_def pushed_def pushed_session_def msum_mput)
qed

lemma history_push_acc:
  assumes "acc m" and "sess m i = Some s" and "i \<in> set (m_sessions m)" and "d \<noteq> []"
    and "0 < history_limit (m_config m)"
  shows "acc (history_push i \<lparr>Sequence = se_lastSequence s + 1, Data = d\<rparr> (bump_sequence i m))"
proof -
  let ?ev = "\<lparr>Sequence = se_lastSequence s + 1, Data = d\<rparr>"
  have s: "hist_acc s" using store_accD [OF assms(1,2)] by simp
  have "Data (hc_event (pushed m d s)) \<noteq> []"
    using history_cut_props(1) [OF assms(5), of ?ev] assms(4) by (simp add: pushed_def)
  moreover have "Sequence (hc_event (pushed m d s)) = se_lastSequence s + 1"
    using history_cut_props(2) [OF assms(5), of ?ev] assms(4) by (simp add: pushed_def)
  ultimately have "hist_acc (pushed_session m d s)"
    using s hist_seq_push [of s "pushed m d s"] by (auto simp: hist_acc_def pushed_session_def)
  with assms(1,3) show ?thesis
    unfolding store_acc_def
    by (simp add: history_push_state [OF assms(2)]) (simp add: pushed_session_def)
qed

lemma shrunk_bound:
  assumes "shrunk m m'" and "\<forall>i s. sess m i = Some s \<longrightarrow> se_historyBytes s \<le> b"
  shows "\<forall>i s. sess m' i = Some s \<longrightarrow> se_historyBytes s \<le> b"
proof (intro allI impI)
  fix i s' assume "sess m' i = Some s'"
  then obtain s where "sess m i = Some s" "sess_shrunk s s'"
    using assms(1) by (auto simp: shrunk_def option_rel_Some2 dest!: spec [of _ i])
  then show "se_historyBytes s' \<le> b" using shrunk_bytes_le assms(2) by fastforce
qed

lemma hist_ok_disabled:
  assumes "hist_ok m" and "HistoryBytes (m_config m) = 0 \<or> MaxTotalHistoryBytes (m_config m) = 0"
    and "sess m i = Some s"
  shows "se_history s = []"
proof -
  have acc: "acc m" using assms(1) by (simp add: hist_ok_def)
  have "\<forall>w \<in> snd ` set (m_store m). 0 \<le> se_historyBytes w"
    using acc by (auto simp: store_acc_def mget_is_map_mem intro: hist_acc_nonneg)
  from msum_ge_member [OF assms(3) this] have "se_historyBytes s \<le> m_historyBytes m"
    using acc by (simp add: store_acc_def)
  then have "se_historyBytes s \<le> 0" using assms by (auto simp: hist_ok_def)
  then show ?thesis using store_accD [OF acc assms(3)] by (auto intro: hist_acc_empty)
qed

lemma append_hist_ok:
  assumes "hist_ok m" and s: "sess m i = Some s" and "i \<in> set (m_sessions m)" and "d \<noteq> []"
    and cfg: "0 \<le> HistoryBytes (m_config m)" "0 \<le> MaxTotalHistoryBytes (m_config m)"
  shows "hist_ok (appendHistoryLocked i \<lparr>Sequence = se_lastSequence s + 1, Data = d\<rparr> (bump_sequence i m))"
proof -
  let ?ev = "\<lparr>Sequence = se_lastSequence s + 1, Data = d\<rparr>"
  have acc: "acc m" using assms(1) by (simp add: hist_ok_def)
  have b: "bump_sequence i m = m\<lparr>m_store := mput i (s\<lparr>se_lastSequence := se_lastSequence s + 1\<rparr>) (m_store m)\<rparr>"
    using s by (simp add: bump_sequence_def upd_session_def)
  show ?thesis
  proof (cases "HistoryBytes (m_config m) = 0 \<or> MaxTotalHistoryBytes (m_config m) = 0")
    case True
    have empty: "se_history s = []" using hist_ok_disabled [OF assms(1) True s] .
    have "hist_acc (s\<lparr>se_lastSequence := se_lastSequence s + 1\<rparr>)"
      using store_accD [OF acc s] empty by (simp add: hist_acc_def hist_seq_def)
    then show ?thesis using assms(1) True s empty
      by (auto simp: appendHistoryLocked_def b hist_ok_def store_acc_def msum_mput)
  next
    case False
    then have lim: "0 < history_limit (m_config m)" using cfg by (simp add: history_limit_def Let_def)
    define m1 where "m1 = history_push i ?ev (bump_sequence i m)"
    define m2 where "m2 = evict_session i m1"
    have m3: "appendHistoryLocked i ?ev (bump_sequence i m) = evict_total m2"
      using False b by (simp add: appendHistoryLocked_def m1_def m2_def)
    have c1: "m_config m1 = m_config m" using history_push_state [OF s] by (simp add: m1_def)
    have a1: "acc m1" unfolding m1_def by (rule history_push_acc [OF acc s assms(3,4) lim])
    have a2: "acc m2" unfolding m2_def using evict_session_acc a1 by blast
    have c2: "m_config m2 = m_config m" using shrunk_fields(1) [OF evict_session_shrunk] c1 by (simp add: m2_def)
    have c3: "m_config (evict_total m2) = m_config m" using shrunk_fields(1) [OF evict_total_shrunk] c2 by simp
    have "se_historyBytes t \<le> HistoryBytes (m_config m)" if "sess m2 j = Some t" for j t
    proof (cases "j = i")
      case True
      then show ?thesis using that evict_session_bound [of i m1] store_accD [OF a2 that] cfg c2
        by (auto simp: m2_def hist_acc_def)
    next
      case False
      then have "sess m j = Some t"
        using that evict_session_other [of j i m1] history_push_state(1) [OF s] by (simp add: m1_def m2_def)
      then show ?thesis using assms(1) by (auto simp: hist_ok_def)
    qed
    then have "\<forall>j t. sess (evict_total m2) j = Some t \<longrightarrow> se_historyBytes t \<le> HistoryBytes (m_config m)"
      using shrunk_bound [OF evict_total_shrunk [of m2]] by blast
    moreover have "acc (evict_total m2)" using evict_total_acc a2 by blast
    moreover have "m_historyBytes (evict_total m2) \<le> MaxTotalHistoryBytes (m_config m)"
      using evict_total_bound [of m2] a2 cfg(2) c2 by simp
    ultimately show ?thesis by (simp add: m3 hist_ok_def c3)
  qed
qed

section \<open>Oldest first, newest kept\<close>

text \<open>
  Chunks are numbered as they come, so that within a session the numbers go up and none is
  above the counter. (The counter has 64 bits; the statements below ask that it has not
  reached its end.)
\<close>

definition order_ok :: "Manager \<Rightarrow> bool" where
  "order_ok m \<longleftrightarrow>
     (\<forall>i s. sess m i = Some s \<longrightarrow> sorted_wrt (<) (map order (se_history s))
        \<and> (\<forall>c \<in> set (se_history s). order c \<le> m_nextHistory m))"

definition holds_chunk :: "Manager \<Rightarrow> StreamID \<Rightarrow> historyChunk \<Rightarrow> bool" where
  "holds_chunk m i c \<longleftrightarrow> (\<exists>s. sess m i = Some s \<and> c \<in> set (se_history s))"

lemma sess_shrunk_history: "sess_shrunk s s' \<Longrightarrow> \<exists>k. se_history s' = drop k (se_history s)"
  by (auto simp: sess_shrunk_def)

lemma shrunk_sess:
  assumes "shrunk m m'" and "sess m i = Some s"
  obtains s' k where "sess m' i = Some s'" "sess_shrunk s s'" "se_history s' = drop k (se_history s)"
  using assms sess_shrunk_history by (force simp: shrunk_def option_rel_Some1 dest!: spec [of _ i])

lemma shrunk_sess2:
  assumes "shrunk m m'" and "sess m' i = Some s'"
  obtains s k where "sess m i = Some s" "sess_shrunk s s'" "se_history s' = drop k (se_history s)"
  using assms sess_shrunk_history by (force simp: shrunk_def option_rel_Some2 dest!: spec [of _ i])

lemma shrunk_holds: "shrunk m m' \<Longrightarrow> holds_chunk m' i c \<Longrightarrow> holds_chunk m i c"
  by (auto simp: holds_chunk_def elim!: shrunk_sess2 dest: in_set_dropD)

lemma shrunk_order_ok:
  assumes "shrunk m m'" and "order_ok m"
  shows "order_ok m'"
  unfolding order_ok_def
proof (intro allI impI)
  fix i s' assume "sess m' i = Some s'"
  then obtain s k where s: "sess m i = Some s" "se_history s' = drop k (se_history s)"
    using shrunk_sess2 [OF assms(1)] by metis
  then have "sorted_wrt (<) (map order (se_history s)) \<and> (\<forall>c \<in> set (se_history s). order c \<le> m_nextHistory m)"
    using assms(2) by (simp add: order_ok_def)
  then show "sorted_wrt (<) (map order (se_history s')) \<and> (\<forall>c \<in> set (se_history s'). order c \<le> m_nextHistory m')"
    using s(2) shrunk_fields(3) [OF assms(1)] by (auto simp: drop_map [symmetric] sorted_wrt_drop dest: in_set_dropD)
qed

lemma scan_global_least:
  assumes "acc m" and "order_ok m" and "oldest_scan m None (m_sessions m) = Some (i, w)"
    and "holds_chunk m k d"
  shows "w \<le> order d"
proof -
  from assms(4) obtain s where s: "sess m k = Some s" "d \<in> set (se_history s)"
    by (auto simp: holds_chunk_def)
  then obtain c cs where h: "se_history s = c # cs" by (cases "se_history s") auto
  then have "k \<in> set (m_sessions m)" using store_accD [OF assms(1) s(1)] by auto
  moreover have "head_order m k (order c)" using s h by (auto simp: head_order_def)
  ultimately have "w \<le> order c"
    using oldest_scan_least [of m k "order c" "m_sessions m" None] assms(3) by auto
  moreover have "sorted_wrt (<) (map order (c # cs))"
    using assms(2) s(1) h by (auto simp: order_ok_def dest!: spec [of _ k])
  then have "order c \<le> order d" using s(2) h by auto
  ultimately show ?thesis by simp
qed

lemma dropFirst_lost:
  assumes "head_order m i w" and "holds_chunk m j c" and "\<not> holds_chunk (dropFirstHistoryLocked i m) j c"
  shows "order c = w"
proof -
  from assms(1) obtain s c' cs where s: "sess m i = Some s" "se_history s = c' # cs" "order c' = w"
    by (auto simp: head_order_def)
  have "j = i" using assms(2,3) dropFirst_other [of j i m]
    by (cases "j = i") (auto simp: holds_chunk_def)
  then have "c = c'" using assms(2,3) s by (auto simp: holds_chunk_def dropFirstHistoryLocked_def Let_def)
  then show ?thesis using s by simp
qed

lemma evict_total_oldest_first:
  "acc m \<longrightarrow> order_ok m \<longrightarrow> holds_chunk m j c \<longrightarrow> \<not> holds_chunk (evict_total m) j c \<longrightarrow>
     holds_chunk (evict_total m) k d \<longrightarrow> order c \<le> order d"
proof -
  have "shrunk m (evict_total m) \<and> (acc m \<longrightarrow> order_ok m \<longrightarrow> holds_chunk m j c \<longrightarrow>
     \<not> holds_chunk (evict_total m) j c \<longrightarrow> holds_chunk (evict_total m) k d \<longrightarrow> order c \<le> order d)"
  proof (induction rule: evict_total_rule)
    case (turn m i w t)
    let ?m1 = "dropFirstHistoryLocked i m"
    have sh: "shrunk m t" using turn shrunk_trans [OF drop_shrunk] by blast
    moreover have "order c \<le> order d"
      if "acc m" "order_ok m" "holds_chunk m j c" "\<not> holds_chunk t j c" "holds_chunk t k d"
    proof (cases "holds_chunk ?m1 j c")
      case True
      then show ?thesis using turn.IH that drop_acc [OF that(1)] shrunk_order_ok [OF drop_shrunk that(2)]
        by blast
    next
      case False
      then have "order c = w" using dropFirst_lost [OF turn.hyps(3) that(3)] by simp
      moreover have "holds_chunk m k d" using shrunk_holds [OF sh that(5)] .
      ultimately show ?thesis using scan_global_least [OF that(1,2) turn.hyps(2)] by simp
    qed
    ultimately show ?case by blast
  qed simp
  then show ?thesis by blast
qed

text \<open>A chunk that a turn gives up is gone for good, since a session's chunks have different numbers.\<close>

lemma dropFirst_gone:
  assumes "order_ok m" and "sess m i = Some s" and "se_history s = c # cs" and "shrunk (dropFirstHistoryLocked i m) t"
  shows "\<not> holds_chunk t i c"
proof -
  have "sorted_wrt (<) (map order (c # cs))" using assms(1-3) by (auto simp: order_ok_def dest!: spec [of _ i])
  then have "c \<notin> set cs" by auto
  then have "\<not> holds_chunk (dropFirstHistoryLocked i m) i c"
    using assms(2,3) by (auto simp: holds_chunk_def dropFirstHistoryLocked_def Let_def)
  then show ?thesis using shrunk_holds [OF assms(4)] by blast
qed

text \<open>The loop stops as soon as it may: the youngest chunk it gave up did not fit any more.\<close>

definition given_up :: "Manager \<Rightarrow> Manager \<Rightarrow> StreamID \<Rightarrow> historyChunk \<Rightarrow> bool" where
  "given_up m m' j c \<longleftrightarrow> holds_chunk m j c \<and> \<not> holds_chunk m' j c"

lemma given_up_turn:
  assumes "head_order m i w" and "given_up m t j c"
  shows "given_up (dropFirstHistoryLocked i m) t j c \<or> order c = w"
  using assms dropFirst_lost [of m i w j c] by (auto simp: given_up_def)

lemma evict_total_minimal:
  "shrunk m (evict_total m) \<and> (acc m \<longrightarrow> order_ok m \<longrightarrow> evict_total m = m \<or> (\<exists>j c. given_up m (evict_total m) j c
     \<and> (\<forall>k e. given_up m (evict_total m) k e \<longrightarrow> order e \<le> order c)
     \<and> MaxTotalHistoryBytes (m_config m) < m_historyBytes (evict_total m) + chunk_bytes c))"
proof (induction rule: evict_total_rule)
  case (turn m i w t)
  let ?m1 = "dropFirstHistoryLocked i m"
  from turn.hyps(3) obtain s c cs where s: "sess m i = Some s" "se_history s = c # cs" "order c = w"
    by (auto simp: head_order_def)
  have b: "m_historyBytes ?m1 + chunk_bytes c = m_historyBytes m" and c: "holds_chunk m i c"
    using s by (auto simp: dropFirstHistoryLocked_def Let_def holds_chunk_def)
  have sh: "shrunk ?m1 t" "shrunk m t" using turn.IH shrunk_trans [OF drop_shrunk] by blast+
  have "\<exists>j c. given_up m t j c \<and> (\<forall>k e. given_up m t k e \<longrightarrow> order e \<le> order c)
      \<and> MaxTotalHistoryBytes (m_config m) < m_historyBytes t + chunk_bytes c"
    if a: "acc m" "order_ok m"
  proof (cases "t = ?m1")
    case True
    have "order e \<le> order c" if "given_up m t k e" for k e
      using dropFirst_lost [OF turn.hyps(3)] that s(3) unfolding given_up_def True by fastforce
    moreover have "given_up m t i c" using c dropFirst_gone [OF a(2) s(1,2) sh(1)] by (simp add: given_up_def)
    ultimately show ?thesis using b turn.hyps(1) True by (metis less_int_code(1))
  next
    case False
    then obtain j' c' where 1: "given_up ?m1 t j' c'" "\<forall>k e. given_up ?m1 t k e \<longrightarrow> order e \<le> order c'"
      "MaxTotalHistoryBytes (m_config ?m1) < m_historyBytes t + chunk_bytes c'"
      using turn.IH drop_acc [OF a(1)] shrunk_order_ok [OF drop_shrunk a(2)] by blast
    have h: "holds_chunk m j' c'" using 1(1) shrunk_holds [OF drop_shrunk] by (auto simp: given_up_def)
    then have "given_up m t j' c'" using 1(1) by (simp add: given_up_def)
    moreover have "order e \<le> order c'" if "given_up m t k e" for k e
      using given_up_turn [OF turn.hyps(3) that] 1(2) scan_global_least [OF a turn.hyps(2) h] by blast
    ultimately show ?thesis using 1(3) shrunk_fields(1) [OF drop_shrunk [of m i]] by auto
  qed
  then show ?case using sh(2) by blast
qed simp

text \<open>The session's own loop keeps the longest end of the history within the session's limit.\<close>

fun fit :: "int \<Rightarrow> historyChunk list \<Rightarrow> historyChunk list" where
  "fit limit [] = []"
| "fit limit (c # cs) = (if (\<Sum>x \<leftarrow> c # cs. chunk_bytes x) \<le> limit then c # cs else fit limit cs)"

lemma fit_all: "sum_list (map chunk_bytes h) \<le> limit \<Longrightarrow> fit limit h = h"
  by (cases h) simp_all

lemma evict_session_exact:
  "acc m \<longrightarrow> (\<forall>s. sess m i = Some s \<longrightarrow>
     (\<exists>s'. sess (evict_session i m) i = Some s' \<and> se_history s' = fit (HistoryBytes (m_config m)) (se_history s)))"
proof (induction rule: evict_session_rule)
  case (stop m)
  have "fit (HistoryBytes (m_config m)) (se_history s) = se_history s" if "acc m" "sess m i = Some s" for s
    using stop that store_accD [OF that] by (auto simp: hist_acc_def intro: fit_all)
  then show ?case by auto
next
  case (turn m s t)
  from turn.hyps(2) obtain c cs where h: "se_history s = c # cs" by (cases "se_history s") auto
  have "fit (HistoryBytes (m_config m)) (se_history s) = fit (HistoryBytes (m_config m)) cs" if "acc m"
    using store_accD [OF that turn.hyps(1)] turn.hyps(3) by (simp add: hist_acc_def h)
  moreover have "\<exists>s'. sess t i = Some s' \<and> se_history s' = fit (HistoryBytes (m_config m)) cs" if "acc m"
    using turn.IH turn.hyps(1) h drop_acc [OF that, of i] shrunk_fields(1) [OF drop_shrunk [of m i]]
    by (auto simp: dropFirstHistoryLocked_def Let_def)
  ultimately show ?case using turn.hyps(1) by auto
qed

definition newest :: "StreamID \<Rightarrow> historyChunk \<Rightarrow> Manager \<Rightarrow> bool" where
  "newest i n m \<longleftrightarrow>
     (\<exists>s h. sess m i = Some s \<and> se_history s = h @ [n]) \<and> (\<forall>j c. holds_chunk m j c \<longrightarrow> j = i \<or> order c < order n)"

lemma msum_only:
  assumes "is_map st" and "mget st i = Some s" and "\<forall>j t. j \<noteq> i \<longrightarrow> mget st j = Some t \<longrightarrow> f t = 0"
  shows "msum f st = f s"
proof -
  have "is_map (mdel i st)" using assms(1) by simp
  then have "\<forall>v \<in> snd ` set (mdel i st). f v = 0"
    using assms(3) by (auto simp: mget_is_map_mem [symmetric] split: if_splits)
  then have "msum f (mdel i st) = 0" by (rule msum_zero)
  then show ?thesis using msum_mdel [OF assms(1), of f i] assms(2) by simp
qed

lemma dropFirst_newest:
  assumes "newest i n m" and "j \<noteq> i \<or> (\<exists>s. sess m i = Some s \<and> se_history s \<noteq> [n])"
  shows "newest i n (dropFirstHistoryLocked j m)"
proof -
  from assms(1) obtain s h where s: "sess m i = Some s" "se_history s = h @ [n]" by (auto simp: newest_def)
  have "\<exists>s h. sess (dropFirstHistoryLocked j m) i = Some s \<and> se_history s = h @ [n]"
  proof (cases "j = i")
    case True
    then have "h \<noteq> []" using assms(2) s by auto
    then obtain c cs where "h = c # cs" by (cases h) auto
    then show ?thesis using s True by (simp add: dropFirstHistoryLocked_def Let_def)
  next
    case False
    then show ?thesis using s dropFirst_other [of i j m] by auto
  qed
  then show ?thesis using assms(1) shrunk_holds [OF drop_shrunk [of m j]] by (auto simp: newest_def)
qed

lemma evict_session_newest:
  "acc m \<longrightarrow> chunk_bytes n \<le> HistoryBytes (m_config m) \<longrightarrow> newest i n m \<longrightarrow> newest i n (evict_session i m)"
proof (induction rule: evict_session_rule)
  case (turn m s t)
  have "newest i n (dropFirstHistoryLocked i m)"
    if "acc m" "chunk_bytes n \<le> HistoryBytes (m_config m)" "newest i n m"
    using that turn.hyps store_accD [OF that(1) turn.hyps(1)]
    by (intro dropFirst_newest) (auto simp: hist_acc_def)
  then show ?case
    using turn.IH drop_acc [of m i] shrunk_fields(1) [OF drop_shrunk [of m i]] by auto
qed simp

lemma evict_total_newest:
  "acc m \<longrightarrow> order_ok m \<longrightarrow> chunk_bytes n \<le> MaxTotalHistoryBytes (m_config m) \<longrightarrow> newest i n m \<longrightarrow>
     newest i n (evict_total m)"
proof (induction rule: evict_total_rule)
  case (turn m j w t)
  have "newest i n (dropFirstHistoryLocked j m)"
    if a: "acc m" "order_ok m" "chunk_bytes n \<le> MaxTotalHistoryBytes (m_config m)" "newest i n m"
  proof (intro dropFirst_newest [OF a(4)] disjCI)
    assume "\<not> (\<exists>s. sess m i = Some s \<and> se_history s \<noteq> [n])"
    then obtain s where s: "sess m i = Some s" "se_history s = [n]" using a(4) by (auto simp: newest_def)
    show "j \<noteq> i"
    proof
      assume "j = i"
      then have w: "w = order n" using turn.hyps(3) s by (auto simp: head_order_def)
      have empty: "se_history t = []" if k: "k \<noteq> i" "sess m k = Some t" for k t
      proof (rule ccontr)
        assume "se_history t \<noteq> []"
        then have "holds_chunk m k (hd (se_history t))" using k by (auto simp: holds_chunk_def)
        then show False
          using a(4) k(1) scan_global_least [OF a(1,2) turn.hyps(2)] w by (fastforce simp: newest_def)
      qed
      then have "msum se_historyBytes (m_store m) = se_historyBytes s"
        using a(1) store_accD [OF a(1)] s(1)
        by (intro msum_only) (auto simp: store_acc_def hist_acc_def)
      then show False
        using a(1,3) s store_accD [OF a(1) s(1)] turn.hyps(1) by (auto simp: store_acc_def hist_acc_def)
    qed
  qed
  then show ?case
    using turn.IH drop_acc [of m j] shrunk_order_ok [OF drop_shrunk [of m j]]
      shrunk_fields(1) [OF drop_shrunk [of m j]] by auto
qed simp

lemma history_push_order:
  fixes d :: bytes
  assumes "order_ok m" and "sess m i = Some s" and "m_nextHistory m \<noteq> - 1"
  defines "m1 \<equiv> history_push i \<lparr>Sequence = se_lastSequence s + 1, Data = d\<rparr> (bump_sequence i m)"
  shows "order_ok m1" "newest i (pushed m d s) m1"
proof -
  have lt: "m_nextHistory m < m_nextHistory m + 1"
    using assms(3) by (rule word_less_succ)
  have old: "order c < m_nextHistory m + 1" if "sess m j = Some t" "c \<in> set (se_history t)" for j t c
    using assms(1) that lt by (fastforce simp: order_ok_def)
  show "order_ok m1"
    unfolding order_ok_def m1_def history_push_state [OF assms(2)]
    using assms(1,2) old
    by (auto simp: order_ok_def pushed_session_def pushed_def sorted_wrt_append split: if_splits
        intro: less_imp_le)
  show "newest i (pushed m d s) m1"
    unfolding newest_def holds_chunk_def m1_def history_push_state [OF assms(2)]
    using old by (auto simp: pushed_session_def pushed_def)
qed

text \<open>The state after the new chunk is stored and the session's own loop has run.\<close>

lemma append_stages:
  assumes "acc m" and "order_ok m" and "sess m i = Some s" and "i \<in> set (m_sessions m)" and "d \<noteq> []"
    and "0 < HistoryBytes (m_config m)" and "0 < MaxTotalHistoryBytes (m_config m)" and "m_nextHistory m \<noteq> - 1"
    and m1: "m1 = history_push i \<lparr>Sequence = se_lastSequence s + 1, Data = d\<rparr> (bump_sequence i m)"
    and m2: "m2 = evict_session i m1"
  shows "appendHistoryLocked i \<lparr>Sequence = se_lastSequence s + 1, Data = d\<rparr> (bump_sequence i m) = evict_total m2"
    and "acc m2" and "order_ok m2" and "newest i (pushed m d s) m2" and "shrunk m1 m2"
    and "m_config m2 = m_config m" and "chunk_bytes (pushed m d s) \<le> MaxTotalHistoryBytes (m_config m)"
proof -
  have "m_config (bump_sequence i m) = m_config m" by (simp add: bump_sequence_def upd_session_def split: option.splits)
  then show "appendHistoryLocked i \<lparr>Sequence = se_lastSequence s + 1, Data = d\<rparr> (bump_sequence i m) = evict_total m2"
    using assms(6,7) by (simp add: appendHistoryLocked_def m1 m2)
  have lim: "0 < history_limit (m_config m)" using assms(6,7) by (simp add: history_limit_def Let_def)
  have cut: "chunk_bytes (pushed m d s) \<le> HistoryBytes (m_config m)"
    and total: "chunk_bytes (pushed m d s) \<le> MaxTotalHistoryBytes (m_config m)"
    using history_cut_props(3) [OF lim, of "\<lparr>Sequence = se_lastSequence s + 1, Data = d\<rparr>"] assms(5)
    by (auto simp: pushed_def history_limit_def Let_def split: if_splits)
  show "chunk_bytes (pushed m d s) \<le> MaxTotalHistoryBytes (m_config m)" by (rule total)
  have a1: "acc m1" unfolding m1 by (rule history_push_acc [OF assms(1,3-5) lim])
  have o1: "order_ok m1" and n1: "newest i (pushed m d s) m1"
    unfolding m1 using history_push_order [OF assms(2,3,8)] by blast+
  have c1: "m_config m1 = m_config m" unfolding m1 by (rule history_push_state(2) [OF assms(3)])
  show sh: "shrunk m1 m2" unfolding m2 by (rule evict_session_shrunk)
  show "m_config m2 = m_config m" using shrunk_fields(1) [OF sh] c1 by simp
  show "acc m2" using evict_session_acc [of m1 i] a1 by (simp add: m2)
  show "order_ok m2" by (rule shrunk_order_ok [OF sh o1])
  show "newest i (pushed m d s) m2"
    using evict_session_newest [of m1 "pushed m d s" i] a1 n1 cut c1 by (simp add: m2)
qed

lemma pushed_history:
  assumes "sess m i = Some s" and "sess m j = Some t"
  obtains u where "sess (history_push i \<lparr>Sequence = se_lastSequence s + 1, Data = d\<rparr> (bump_sequence i m)) j = Some u"
    and "se_history u = se_history t @ (if j = i then [pushed m d s] else [])"
  using history_push_state(1) [OF assms(1), of d j] assms
  by (cases "j = i") (auto simp: pushed_session_def)

lemma pushed_holds:
  assumes "sess m i = Some s"
    and "holds_chunk (history_push i \<lparr>Sequence = se_lastSequence s + 1, Data = d\<rparr> (bump_sequence i m)) k e"
  shows "e = pushed m d s \<or> holds_chunk m k e"
  using history_push_state(1) [OF assms(1), of d k] assms
  by (auto simp: holds_chunk_def pushed_session_def split: if_splits)

text \<open>
  What each session would hold if only the limit of the session counted: the appended one the
  longest end, with the new chunk, that fits its limit, the others what they had.
\<close>

definition share :: "Manager \<Rightarrow> StreamID \<Rightarrow> historyChunk \<Rightarrow> StreamID \<Rightarrow> Session \<Rightarrow> historyChunk list" where
  "share m i n j t = (if j = i then fit (HistoryBytes (m_config m)) (se_history t @ [n]) else se_history t)"

definition lost :: "Manager \<Rightarrow> StreamID \<Rightarrow> historyChunk \<Rightarrow> Manager \<Rightarrow> StreamID \<Rightarrow> historyChunk \<Rightarrow> bool" where
  "lost m i n m' j c \<longleftrightarrow> (\<exists>t. sess m j = Some t \<and> c \<in> set (share m i n j t)) \<and> \<not> holds_chunk m' j c"

lemma share_state:
  assumes "acc m" and "sess m i = Some s" and "i \<in> set (m_sessions m)" and "d \<noteq> []" and "0 < history_limit (m_config m)"
    and "m2 = evict_session i (history_push i \<lparr>Sequence = se_lastSequence s + 1, Data = d\<rparr> (bump_sequence i m))"
    and "sess m j = Some t"
  shows "\<exists>t2. sess m2 j = Some t2 \<and> se_history t2 = share m i (pushed m d s) j t"
proof (cases "j = i")
  case True
  let ?m1 = "history_push i \<lparr>Sequence = se_lastSequence s + 1, Data = d\<rparr> (bump_sequence i m)"
  have "acc ?m1" by (rule history_push_acc [OF assms(1-5)])
  with evict_session_exact [of ?m1 i] show ?thesis
    using True assms(2,6,7) history_push_state(1,2) [OF assms(2), of d] by (auto simp: share_def pushed_session_def)
next
  case False
  then show ?thesis
    using assms(6,7) evict_session_other [of j i] history_push_state(1) [OF assms(2), of d j] by (auto simp: share_def)
qed

text \<open>
  (C24) Appending output to a session's history, with both loops run to their end: the byte
  limits of the session and of the manager hold again and the histories stay accounted and
  unbroken; the new chunk (its newest bytes, if it alone exceeds a limit) is always kept. No
  more is given up than the limits require: for its own limit the session gives up only the
  chunks before the longest end that fits; for the total limit every session, the appended one
  included, keeps an end of what is then left, a chunk given up is nowhere younger than
  anything that is kept, and the youngest one given up would not have fitted the total limit.
\<close>

theorem history_append:
  assumes "hist_ok m" and "order_ok m" and "sess m i = Some s" and "i \<in> set (m_sessions m)" and "d \<noteq> []"
    and "0 < HistoryBytes (m_config m)" and "0 < MaxTotalHistoryBytes (m_config m)"
    and "m_nextHistory m \<noteq> - 1"
    and "m' = appendHistoryLocked i \<lparr>Sequence = se_lastSequence s + 1, Data = d\<rparr> (bump_sequence i m)"
    and "n = \<lparr>hc_event = \<lparr>Sequence = se_lastSequence s + 1, Data = kept (m_config m) d\<rparr>, order = m_nextHistory m + 1\<rparr>"
  shows "hist_ok m' \<and> order_ok m'
    \<and> (\<exists>s'. sess m' i = Some s' \<and> se_history s' \<noteq> [] \<and> last (se_history s') = n)
    \<and> (\<forall>j t. sess m j = Some t \<longrightarrow> (\<exists>t' k. sess m' j = Some t' \<and> se_history t' = drop k (share m i n j t)))
    \<and> (\<forall>j c k e. lost m i n m' j c \<and> holds_chunk m' k e \<longrightarrow> order c \<le> order e)
    \<and> ((\<exists>j c. lost m i n m' j c) \<longrightarrow>
         (\<exists>j c. lost m i n m' j c \<and> (\<forall>k e. lost m i n m' k e \<longrightarrow> order e \<le> order c)
            \<and> MaxTotalHistoryBytes (m_config m) < m_historyBytes m' + chunk_bytes c))"
proof -
  define m1 where "m1 = history_push i \<lparr>Sequence = se_lastSequence s + 1, Data = d\<rparr> (bump_sequence i m)"
  define m2 where "m2 = evict_session i m1"
  have n: "n = pushed m d s" by (simp add: assms(10) pushed_def history_cut_kept)
  have acc: "acc m" using assms(1) by (simp add: hist_ok_def)
  note st = append_stages [OF acc assms(2-8) m1_def m2_def]
  have m': "m' = evict_total m2" using st(1) assms(9) by simp
  have sh: "shrunk m2 m'" unfolding m' by (rule evict_total_shrunk)
  have 1: "hist_ok m'" using append_hist_ok [OF assms(1,3-5)] assms(6,7,9) by simp
  have 2: "order_ok m'" by (rule shrunk_order_ok [OF sh st(3)])
  have 3: "\<exists>s'. sess m' i = Some s' \<and> se_history s' \<noteq> [] \<and> last (se_history s') = n"
    using evict_total_newest [of m2 "pushed m d s" i] st by (auto simp: m' n newest_def)
  have lim: "0 < history_limit (m_config m)" using assms(6,7) by (simp add: history_limit_def Let_def)
  note share = share_state [OF acc assms(3-5) lim m2_def [unfolded m1_def], folded n]
  have 4: "\<exists>t' k. sess m' j = Some t' \<and> se_history t' = drop k (share m i n j t)" if "sess m j = Some t" for j t
    using share [OF that] shrunk_sess [OF sh] by metis
  have same: "sess m j = None \<longleftrightarrow> sess m2 j = None" for j
  proof -
    have "rel_option sess_shrunk (sess m1 j) (sess m2 j)" using st(5) by (simp add: shrunk_def)
    then have "sess m1 j = None \<longleftrightarrow> sess m2 j = None" by (cases "sess m1 j"; cases "sess m2 j") simp_all
    then show ?thesis using history_push_state(1) [OF assms(3), of d j] assms(3) by (simp add: m1_def split: if_splits)
  qed
  have lost: "lost m i n m' j c \<longleftrightarrow> given_up m2 m' j c" for j c
    using share [of j] same [of j] by (cases "sess m j") (auto simp: lost_def given_up_def holds_chunk_def)
  have 5: "order c \<le> order e" if "lost m i n m' j c" "holds_chunk m' k e" for j c k e
    using evict_total_oldest_first [of m2 j c k e] st(2,3) that by (simp add: m' lost [unfolded m'] given_up_def)
  have 6: "\<exists>j c. lost m i n m' j c \<and> (\<forall>k e. lost m i n m' k e \<longrightarrow> order e \<le> order c)
      \<and> MaxTotalHistoryBytes (m_config m) < m_historyBytes m' + chunk_bytes c"
    if "lost m i n m' j c" for j c
  proof -
    have "m' \<noteq> m2" using that by (auto simp: lost given_up_def)
    then show ?thesis using evict_total_minimal [of m2, folded m'] st(2,3,6) unfolding lost by auto
  qed
  from 1 2 3 4 5 6 show ?thesis by blast
qed

text \<open>A manager with two sessions and a total limit of five bytes that is nearly used up.\<close>

definition demo_session :: "StreamID \<Rightarrow> historyChunk list \<Rightarrow> Session" where
  "demo_session i h =
     \<lparr>se_id = i, se_pc = RunPumping, se_state = SessionRunning, se_size = \<lparr>Cols = 80, Rows = 24\<rparr>, se_startedAt = 0,
      se_lastSequence = of_nat (length h), se_exit = None, se_retained = False, se_removing = False,
      se_history = h, se_historyBytes = sum_list (map chunk_bytes h), se_attachments = [],
      se_killOnce = False, se_killErr = None\<rparr>"

definition demo_manager :: Manager where
  "demo_manager =
     \<lparr>m_ctx = None, m_config = DefaultManagerConfig\<lparr>HistoryBytes := 4, MaxTotalHistoryBytes := 5\<rparr>,
      m_store = [(1, demo_session 1 [\<lparr>hc_event = \<lparr>Sequence = 1, Data = [97, 98]\<rparr>, order = 1\<rparr>]),
                 (2, demo_session 2 [\<lparr>hc_event = \<lparr>Sequence = 1, Data = [99, 100]\<rparr>, order = 2\<rparr>])],
      m_sessions = [2, 1], m_retainedExited = [], m_atts = [], m_subs = [], m_observers = [],
      m_nextSession = 2, m_nextAttachment = 0, m_nextObserver = 0, m_nextHistory = 2, m_historyBytes = 4,
      m_historyTruncations = 0, m_historyTruncatedBytes = 0, m_processesStarted = 2, m_processesExited = 0,
      m_sessionsEvicted = 0, m_sessionsRemoved = 0, m_attachmentClosures = [], m_observerClosures = [],
      m_generation = 2, m_sessionIDExhausted = False, m_closing = False, m_closeErr = None, m_closed = False,
      m_starting = 0, m_activeSessions = 2\<rparr>"

lemma demo_manager_ok: "hist_ok demo_manager \<and> order_ok demo_manager"
  by (auto simp: hist_ok_def order_ok_def store_acc_def demo_manager_def demo_session_def is_map_def
      hist_acc_def hist_seq_def DefaultManagerConfig_def split: if_splits)

theorem history_append_witness:
  "hist_ok (appendHistoryLocked 2 \<lparr>Sequence = 2, Data = [101, 102]\<rparr> (bump_sequence 2 demo_manager))
   \<and> (\<exists>s'. sess (appendHistoryLocked 2 \<lparr>Sequence = 2, Data = [101, 102]\<rparr> (bump_sequence 2 demo_manager)) 2 = Some s'
        \<and> last (se_history s') = \<lparr>hc_event = \<lparr>Sequence = 2, Data = [101, 102]\<rparr>, order = 3\<rparr>)"
  using history_append [of demo_manager 2
      "demo_session 2 [\<lparr>hc_event = \<lparr>Sequence = 1, Data = [99, 100]\<rparr>, order = 2\<rparr>]" "[101, 102]"
      "appendHistoryLocked 2 \<lparr>Sequence = 2, Data = [101, 102]\<rparr> (bump_sequence 2 demo_manager)", OF _ _ _ _ _ _ _ _ _ refl]
    demo_manager_ok
  by (auto simp: demo_manager_def demo_session_def DefaultManagerConfig_def kept_def)

end
