(* ===== verification/Pty_Queues.thy ===== *)
theory Pty_Queues
  imports Pty_History
begin

text \<open>
  \<open>Attachment\<close> and \<open>Subscription\<close> of \<open>pty/manager.go\<close> as values: the queue operations, one
  turn of the attachment's worker, and the fan-out of an event to all observers. Both queues
  are interpretations of \<open>byte_queue\<close>. The channel \<open>changed\<close> only wakes the worker; a worker
  that waits may look again at any time, so the channel has no place in the state.
\<close>

section \<open>Attachments\<close>

definition newAttachment ::
    "gctx \<Rightarrow> StreamID \<Rightarrow> 64 word \<Rightarrow> int \<Rightarrow> bool \<Rightarrow> OutputEvent list \<Rightarrow> Attachment" where
  "newAttachment mctx s aid maxBytes active replay =
     \<lparr>at_session = s, at_id = aid, at_maxBytes = maxBytes, at_replay = replay, at_replayNext = 0,
      at_queue = [], at_bytes = 0, at_active = active, at_closing = False, at_closed = False,
      at_err = None, at_reason = None, at_done = False, at_started = False,
      at_registered = False, at_ctx = mctx\<rparr>"

definition at_start :: "Attachment \<Rightarrow> bool \<times> Attachment" where
  "at_start a = (if at_closed a then (False, a) else (True, a\<lparr>at_started := True\<rparr>))"

definition Activate :: "Attachment \<Rightarrow> gerror option \<times> Attachment" where
  "Activate a =
     (if at_closed a then (Some (Pty ErrAttachmentClosed), a)
      else (None, if \<not> at_active a then a\<lparr>at_active := True\<rparr> else a))"

fun attachmentEventBytes :: "AttachmentEvent \<Rightarrow> int" where
  "attachmentEventBytes (AttachmentOutput ev) = int (length (Data ev))"
| "attachmentEventBytes (AttachmentExit _) = 0"

definition at_push :: "AttachmentEvent \<Rightarrow> Attachment \<Rightarrow> Attachment" where
  "at_push ev a = a\<lparr>at_queue := at_queue a @ [ev], at_bytes := at_bytes a + attachmentEventBytes ev\<rparr>"

definition at_fits :: "int \<Rightarrow> AttachmentEvent \<Rightarrow> Attachment \<Rightarrow> bool" where
  "at_fits limit ev a =
     (let size = attachmentEventBytes ev in \<not> (size > limit \<or> at_bytes a + size > limit))"

definition enqueueLocked :: "AttachmentEvent \<Rightarrow> Attachment \<Rightarrow> gerror option \<times> Attachment" where
  "enqueueLocked ev a =
     (if at_closed a \<or> at_closing a then (Some (Pty ErrAttachmentClosed), a)
      else if \<not> at_fits (at_maxBytes a) ev a then (Some (Pty ErrQueueOverflow), a)
      else (None, at_push ev a))"

definition enqueueExitLocked :: "ExitStatus \<Rightarrow> Attachment \<Rightarrow> gerror option \<times> Attachment" where
  "enqueueExitLocked status a =
     (if at_closed a \<or> at_closing a then (Some (Pty ErrAttachmentClosed), a)
      else (None, a\<lparr>at_queue := at_queue a @ [AttachmentExit status], at_closing := True\<rparr>))"

text \<open>
  \<open>finish\<close> up to the release of \<open>a.mu\<close>, then \<open>cancel\<close>. Only \<open>finish\<close> sets \<open>closed\<close>, so the
  flag doubles as \<open>finishOnce\<close>.
\<close>

definition finish_locked :: "gerror option \<Rightarrow> AttachmentCloseReason \<Rightarrow> Attachment \<Rightarrow> Attachment" where
  "finish_locked err reason a =
     (if at_closed a then a
      else a\<lparr>at_replay := [], at_replayNext := 0, at_queue := [], at_bytes := 0, at_closed := True,
             at_err := err, at_reason := Some reason,
             at_ctx := (if at_ctx a = None then Some (Lib CtxCanceled) else at_ctx a)\<rparr>)"

definition closeDone :: "Attachment \<Rightarrow> Attachment" where
  "closeDone a = a\<lparr>at_done := True\<rparr>"

text \<open>What one turn of \<open>Attachment.run\<close> decides under \<open>a.mu\<close>.\<close>

datatype run_turn = TurnReturn | TurnFinish AttachmentCloseReason | TurnWait | TurnSend AttachmentEvent

definition at_pop :: "Attachment \<Rightarrow> (AttachmentEvent \<times> Attachment) option" where
  "at_pop a =
     (case at_queue a of
        [] \<Rightarrow> None
      | ev # rest \<Rightarrow> Some (ev, a\<lparr>at_queue := rest, at_bytes := at_bytes a - attachmentEventBytes ev\<rparr>))"

definition at_turn :: "Attachment \<Rightarrow> run_turn \<times> Attachment" where
  "at_turn a =
     (if at_closed a then (TurnReturn, a)
      else let replayPending = at_replayNext a < length (at_replay a) in
      if at_closing a \<and> \<not> replayPending \<and> at_queue a = [] then (TurnFinish AttachmentSessionExited, a)
      else if \<not> at_active a \<or> (\<not> replayPending \<and> at_queue a = []) then (TurnWait, a)
      else if replayPending then
        let output = at_replay a ! at_replayNext a;
            a1 = a\<lparr>at_replayNext := at_replayNext a + 1\<rparr>;
            a2 = (if at_replayNext a1 = length (at_replay a1)
                  then a1\<lparr>at_replay := [], at_replayNext := 0\<rparr> else a1)
        in (TurnSend (AttachmentOutput output), a2)
      else (case at_pop a of
              None \<Rightarrow> (TurnWait, a)
            | Some (ev, a') \<Rightarrow> (TurnSend ev, a')))"

text \<open>
  Why the worker closes the attachment when its context is done, or when the sink failed.
\<close>

definition wait_reason :: "gctx \<Rightarrow> AttachmentCloseReason" where
  "wait_reason mctx = (if mctx \<noteq> None then AttachmentManagerClosed else AttachmentContextCanceled)"

definition sink_reason :: "gctx \<Rightarrow> AttachmentCloseReason" where
  "sink_reason mctx = (if mctx \<noteq> None then AttachmentManagerClosed else AttachmentSinkFailure)"

interpretation att_queue: byte_queue at_queue at_bytes attachmentEventBytes at_push at_pop at_fits
  by unfold_locales
    (auto simp: at_push_def at_pop_def at_fits_def Let_def split: list.splits)

text \<open>Everything an attachment still has to hand to its sink, in order.\<close>

definition at_pending :: "Attachment \<Rightarrow> AttachmentEvent list" where
  "at_pending a = map AttachmentOutput (drop (at_replayNext a) (at_replay a)) @ at_queue a"

text \<open>
  One turn hands over the first pending event, or says exactly why it does not.
\<close>

lemma at_turn_cases:
  obtains (ret) "at_turn a = (TurnReturn, a)" "at_closed a"
  | (fin) "at_turn a = (TurnFinish AttachmentSessionExited, a)" "\<not> at_closed a" "at_closing a" "at_pending a = []"
  | (wait) "at_turn a = (TurnWait, a)" "\<not> at_closed a" "\<not> at_active a \<or> (at_pending a = [] \<and> \<not> at_closing a)"
  | (send) ev a' where "at_turn a = (TurnSend ev, a')" "\<not> at_closed a" "at_active a" "at_pending a = ev # at_pending a'"
      "at_closed a' = at_closed a" "at_closing a' = at_closing a" "at_session a' = at_session a"
      "at_registered a' = at_registered a" "at_id a' = at_id a" "at_done a' = at_done a"
      "at_maxBytes a' = at_maxBytes a"
      "at_started a' = at_started a" "at_bytes a' \<le> at_bytes a"
      "at_bytes a = sum_list (map attachmentEventBytes (at_queue a)) \<Longrightarrow>
         at_bytes a' = sum_list (map attachmentEventBytes (at_queue a'))"
proof (cases "at_closed a")
  case True
  then show ?thesis using ret by (simp add: at_turn_def)
next
  case open': False
  let ?rp = "at_replayNext a < length (at_replay a)"
  have pend: "at_pending a = [] \<longleftrightarrow> \<not> ?rp \<and> at_queue a = []" by (auto simp: at_pending_def)
  show ?thesis
  proof (cases "at_closing a \<and> \<not> ?rp \<and> at_queue a = []")
    case True
    then show ?thesis using fin open' pend by (simp add: at_turn_def Let_def)
  next
    case nfin: False
    show ?thesis
    proof (cases "\<not> at_active a \<or> (\<not> ?rp \<and> at_queue a = [])")
      case True
      then have "at_turn a = (TurnWait, a)" using open' nfin by (simp add: at_turn_def Let_def)
      then show ?thesis using wait open' nfin True pend by blast
    next
      case go: False
      show ?thesis
      proof (cases ?rp)
        case True
        define a1 where "a1 = a\<lparr>at_replayNext := at_replayNext a + 1\<rparr>"
        define a2 where "a2 = (if at_replayNext a1 = length (at_replay a1)
          then a1\<lparr>at_replay := [], at_replayNext := 0\<rparr> else a1)"
        have turn: "at_turn a = (TurnSend (AttachmentOutput (at_replay a ! at_replayNext a)), a2)"
          using open' nfin go True unfolding at_turn_def Let_def a1_def a2_def by simp
        have pend': "at_pending a = AttachmentOutput (at_replay a ! at_replayNext a) # at_pending a2"
          using True by (simp add: at_pending_def a1_def a2_def Cons_nth_drop_Suc [symmetric])
        show ?thesis
          by (rule send [OF turn open' _ pend']) (use go in \<open>auto simp: a1_def a2_def\<close>)
      next
        case False
        then obtain ev rest where q: "at_queue a = ev # rest" using go by (cases "at_queue a") auto
        have "0 \<le> attachmentEventBytes ev" by (cases ev) auto
        moreover have turn: "at_turn a = (TurnSend ev, a\<lparr>at_queue := rest, at_bytes := at_bytes a - attachmentEventBytes ev\<rparr>)"
          using open' nfin go False q by (simp add: at_turn_def Let_def at_pop_def)
        ultimately show ?thesis
          by (intro send [OF turn open']) (use go False q in \<open>auto simp: at_pending_def\<close>)
      qed
    qed
  qed
qed

section \<open>Subscriptions\<close>

definition newSubscription :: "gctx \<Rightarrow> 64 word \<Rightarrow> int \<Rightarrow> Subscription" where
  "newSubscription mctx oid limit =
     \<lparr>su_id = oid, su_maxBytes = limit, su_queue = [], su_bytes = 0, su_closed = False,
      su_err = None, su_reason = None, su_done = False, su_ctx = mctx\<rparr>"

definition eventBytes :: "Event \<Rightarrow> int" where
  "eventBytes ev = (case ev_Output ev of Some out \<Rightarrow> int (length (Data out)) + 64 | None \<Rightarrow> 128)"

definition su_push :: "Event \<Rightarrow> Subscription \<Rightarrow> Subscription" where
  "su_push ev s = s\<lparr>su_queue := su_queue s @ [ev], su_bytes := su_bytes s + eventBytes ev\<rparr>"

definition su_fits :: "int \<Rightarrow> Event \<Rightarrow> Subscription \<Rightarrow> bool" where
  "su_fits limit ev s =
     (let size = eventBytes ev in \<not> (size > limit \<or> su_bytes s + size > limit))"

definition su_enqueue :: "Event \<Rightarrow> Subscription \<Rightarrow> gerror option \<times> Subscription" where
  "su_enqueue ev s =
     (if su_closed s then (Some (Pty ErrObserverClosed), s)
      else if \<not> su_fits (su_maxBytes s) ev s then (Some (Pty ErrQueueOverflow), s)
      else (None, su_push ev s))"

definition su_pop :: "Subscription \<Rightarrow> (Event \<times> Subscription) option" where
  "su_pop s =
     (case su_queue s of
        [] \<Rightarrow> None
      | ev # rest \<Rightarrow> Some (ev, s\<lparr>su_queue := rest, su_bytes := su_bytes s - eventBytes ev\<rparr>))"

text \<open>
  One look of \<open>next\<close>: an event, the end, or another wait (\<open>None\<close>).
\<close>

definition su_next :: "Subscription \<Rightarrow> Event option option \<times> Subscription" where
  "su_next s =
     (case su_pop s of
        Some (ev, s') \<Rightarrow> (Some (Some ev), s')
      | None \<Rightarrow> if su_closed s \<or> su_ctx s \<noteq> None then (Some None, s) else (None, s))"

definition su_finish :: "gerror option \<Rightarrow> ObserverCloseReason \<Rightarrow> Subscription \<Rightarrow> Subscription" where
  "su_finish err reason s =
     (if su_closed s then s
      else s\<lparr>su_queue := [], su_bytes := 0, su_closed := True, su_err := err, su_reason := Some reason,
             su_ctx := (if su_ctx s = None then Some (Lib CtxCanceled) else su_ctx s)\<rparr>)"

interpretation sub_queue: byte_queue su_queue su_bytes eventBytes su_push su_pop su_fits
  by unfold_locales
    (auto simp: su_push_def su_pop_def su_fits_def Let_def split: list.splits)

section \<open>Fan-out\<close>

text \<open>
  \<open>emitLocked\<close> offers the event to every observer, in the map's order, and takes those that
  refuse it off the map; their subscriptions are finished after the lock is released.
\<close>

definition emit_step :: "Event \<Rightarrow> nat list \<times> Manager \<Rightarrow> 64 word \<times> nat \<Rightarrow> nat list \<times> Manager" where
  "emit_step ev st o' =
     (case su_enqueue ev (m_subs (snd st) ! snd o') of
        (None, s') \<Rightarrow> (fst st, upd_sub (snd o') (\<lambda>_. s') (snd st))
      | (Some _, _) \<Rightarrow>
          (fst st @ [snd o'], (snd st)\<lparr>m_observers := mdel (fst o') (m_observers (snd st))\<rparr>))"

definition emitLocked :: "Event \<Rightarrow> Manager \<Rightarrow> nat list \<times> Manager" where
  "emitLocked ev m = foldl (emit_step ev) ([], m) (m_observers m)"

text \<open>The observers' part of the state, and what an emission leaves alone.\<close>

definition core :: "Manager \<Rightarrow> Manager" where
  "core m = m\<lparr>m_subs := [], m_observers := []\<rparr>"

definition same_but_observers :: "Manager \<Rightarrow> Manager \<Rightarrow> bool" where
  "same_but_observers m m' \<longleftrightarrow> core m' = core m"

lemma same_but_observers_refl [simp]: "same_but_observers m m"
  by (simp add: same_but_observers_def)

lemma same_but_observers_trans:
  "same_but_observers a b \<Longrightarrow> same_but_observers b c \<Longrightarrow> same_but_observers a c"
  by (simp add: same_but_observers_def)

lemma core_fields [simp]:
  "m_store (core m) = m_store m" "m_sessions (core m) = m_sessions m" "m_config (core m) = m_config m"
  "m_atts (core m) = m_atts m" "m_retainedExited (core m) = m_retainedExited m"
  "m_historyBytes (core m) = m_historyBytes m" "m_nextHistory (core m) = m_nextHistory m"
  "m_starting (core m) = m_starting m" "m_activeSessions (core m) = m_activeSessions m"
  "m_nextSession (core m) = m_nextSession m" "m_sessionIDExhausted (core m) = m_sessionIDExhausted m"
  "m_closing (core m) = m_closing m" "m_ctx (core m) = m_ctx m" "m_nextAttachment (core m) = m_nextAttachment m"
  "m_generation (core m) = m_generation m" "m_closed (core m) = m_closed m"
  "m_nextObserver (core m) = m_nextObserver m"
  by (simp_all add: core_def)

lemma same_but_observers_fields:
  assumes "same_but_observers m m'"
  shows "m_store m' = m_store m" "m_sessions m' = m_sessions m" "m_config m' = m_config m"
    "m_atts m' = m_atts m" "m_retainedExited m' = m_retainedExited m" "m_historyBytes m' = m_historyBytes m"
    "m_nextHistory m' = m_nextHistory m" "m_starting m' = m_starting m" "m_activeSessions m' = m_activeSessions m"
    "m_nextSession m' = m_nextSession m" "m_sessionIDExhausted m' = m_sessionIDExhausted m"
    "m_closing m' = m_closing m" "m_ctx m' = m_ctx m" "m_nextAttachment m' = m_nextAttachment m"
    "m_generation m' = m_generation m" "m_closed m' = m_closed m" "m_nextObserver m' = m_nextObserver m"
proof -
  have c: "core m' = core m" using assms by (simp add: same_but_observers_def)
  show "m_store m' = m_store m" using arg_cong [OF c, of m_store] by simp
  show "m_sessions m' = m_sessions m" using arg_cong [OF c, of m_sessions] by simp
  show "m_config m' = m_config m" using arg_cong [OF c, of m_config] by simp
  show "m_atts m' = m_atts m" using arg_cong [OF c, of m_atts] by simp
  show "m_retainedExited m' = m_retainedExited m" using arg_cong [OF c, of m_retainedExited] by simp
  show "m_historyBytes m' = m_historyBytes m" using arg_cong [OF c, of m_historyBytes] by simp
  show "m_nextHistory m' = m_nextHistory m" using arg_cong [OF c, of m_nextHistory] by simp
  show "m_starting m' = m_starting m" using arg_cong [OF c, of m_starting] by simp
  show "m_activeSessions m' = m_activeSessions m" using arg_cong [OF c, of m_activeSessions] by simp
  show "m_nextSession m' = m_nextSession m" using arg_cong [OF c, of m_nextSession] by simp
  show "m_sessionIDExhausted m' = m_sessionIDExhausted m"
    using arg_cong [OF c, of m_sessionIDExhausted] by simp
  show "m_closing m' = m_closing m" using arg_cong [OF c, of m_closing] by simp
  show "m_ctx m' = m_ctx m" using arg_cong [OF c, of m_ctx] by simp
  show "m_nextAttachment m' = m_nextAttachment m" using arg_cong [OF c, of m_nextAttachment] by simp
  show "m_generation m' = m_generation m" using arg_cong [OF c, of m_generation] by simp
  show "m_closed m' = m_closed m" using arg_cong [OF c, of m_closed] by simp
  show "m_nextObserver m' = m_nextObserver m" using arg_cong [OF c, of m_nextObserver] by simp
qed

lemma core_upd [simp]: "core (upd_sub k f m) = core m" "core (m\<lparr>m_observers := x\<rparr>) = core m"
  "core (m\<lparr>m_subs := y\<rparr>) = core m"
  by (simp_all add: upd_sub_def core_def)

lemma emit_step_same: "same_but_observers (snd st) (snd (emit_step ev st o'))"
  by (auto simp: emit_step_def same_but_observers_def split: prod.splits option.splits)

lemma emitLocked_same: "same_but_observers m (snd (emitLocked ev m))"
proof -
  have "same_but_observers (snd st) (snd (foldl (emit_step ev) st os))" for st os
  proof (induction os arbitrary: st)
    case (Cons o' os)
    show ?case using same_but_observers_trans [OF emit_step_same Cons.IH] by simp
  qed simp
  from this [of "([], m)"] show ?thesis by (simp add: emitLocked_def)
qed

end
