(* ===== verification/Pty_Manager.thy ===== *)
theory Pty_Manager
  imports Pty_Queues
begin

text \<open>
  The operations of \<open>Manager\<close> and \<open>Session\<close> in \<open>pty/manager.go\<close>. An operation that takes
  \<open>m.mu\<close> more than once is one definition per critical section, in the order of the code.
  Processes are the environment: what \<open>StartManaged\<close>, \<open>WaitStatus\<close>, \<open>Kill\<close>, \<open>Resize\<close> and
  \<open>Output().Read\<close> return is an argument.
\<close>

section \<open>Joining errors\<close>

text \<open>The errors arrive in the order in which the goroutines finish.\<close>

definition runSessionOperation :: "gerror option list \<Rightarrow> gerror option" where
  "runSessionOperation results =
     foldl (\<lambda>result e. case e of None \<Rightarrow> result | Some _ \<Rightarrow> errors_Join [result, e]) None results"

section \<open>Creating managers and sessions\<close>

definition NewManager :: "gctx option \<Rightarrow> bool \<Rightarrow> ManagerConfig \<Rightarrow> Manager result" where
  "NewManager parent factory c =
     (case parent of
        None \<Rightarrow> Inl (ErrNew ''pty: nil Manager context'')
      | Some ctx \<Rightarrow>
          if \<not> factory then Inl (Pty ErrNilManagedFactory)
          else case ManagerConfig_validate c of
            Some e \<Rightarrow> Inl e
          | None \<Rightarrow> Inr
              \<lparr>m_ctx = ctx, m_config = c, m_store = [], m_sessions = [], m_retainedExited = [], m_atts = [],
               m_subs = [], m_observers = [], m_nextSession = 0, m_nextAttachment = 0, m_nextObserver = 0,
               m_nextHistory = 0, m_historyBytes = 0, m_historyTruncations = 0, m_historyTruncatedBytes = 0,
               m_processesStarted = 0, m_processesExited = 0, m_sessionsEvicted = 0, m_sessionsRemoved = 0,
               m_attachmentClosures = [], m_observerClosures = [], m_generation = 0,
               m_sessionIDExhausted = False, m_closing = False, m_closeErr = None, m_closed = False,
               m_starting = 0, m_activeSessions = 0\<rparr>)"

definition Open_check :: "gctx option \<Rightarrow> ProcessSpec \<Rightarrow> gerror option" where
  "Open_check ctx spec =
     (case ctx of
        None \<Rightarrow> Some (ErrNew ''pty: nil Open context'')
      | Some _ \<Rightarrow>
          (case ProcessSpec_Validate spec of
             Some e \<Rightarrow> Some e
           | None \<Rightarrow> Size_Validate (InitialSize spec)))"

definition open_reserve :: "Manager \<Rightarrow> StreamID result \<times> Manager" where
  "open_reserve m =
     (if m_closing m then (Inl (Pty ErrManagerClosed), m)
      else if m_activeSessions m + m_starting m \<ge> MaxSessions (m_config m) then (Inl (Pty ErrSessionLimit), m)
      else if m_sessionIDExhausted m then (Inl (Pty ErrSessionLimit), m)
      else
        let sid = m_nextSession m + 1; m1 = m\<lparr>m_nextSession := sid\<rparr> in
        if sid = 0 then (Inl (Pty ErrSessionLimit), m1\<lparr>m_sessionIDExhausted := True\<rparr>)
        else (Inr sid, m1\<lparr>m_starting := m_starting m1 + 1\<rparr>))"

definition open_abort :: "Manager \<Rightarrow> Manager" where
  "open_abort m = m\<lparr>m_starting := m_starting m - 1\<rparr>"

definition open_started :: "Manager \<Rightarrow> Manager" where
  "open_started m = m\<lparr>m_processesStarted := m_processesStarted m + 1\<rparr>"

definition recordProcessExited :: "Manager \<Rightarrow> Manager" where
  "recordProcessExited m = m\<lparr>m_processesExited := m_processesExited m + 1\<rparr>"

definition new_session :: "StreamID \<Rightarrow> Size \<Rightarrow> int \<Rightarrow> Session" where
  "new_session sid sz now =
     \<lparr>se_id = sid, se_pc = RunPumping, se_state = SessionRunning, se_size = sz, se_startedAt = now,
      se_lastSequence = 0, se_exit = None, se_retained = False, se_removing = False,
      se_history = [], se_historyBytes = 0, se_attachments = [], se_killOnce = False, se_killErr = None\<rparr>"

definition session_event :: "EventKind \<Rightarrow> Session \<Rightarrow> Event" where
  "session_event k s = \<lparr>ev_Kind = k, ev_Session = infoLocked s, ev_Output = None, ev_Attachment = None\<rparr>"

text \<open>
  The last critical section of \<open>Open\<close>: the session is registered and its observers to finish
  are returned, or the start is refused and the caller kills and reaps the process.
\<close>

definition open_register ::
    "StreamID \<Rightarrow> ProcessSpec \<Rightarrow> int \<Rightarrow> Manager \<Rightarrow> nat list result \<times> Manager" where
  "open_register sid spec now m0 =
     (let m = m0\<lparr>m_starting := m_starting m0 - 1\<rparr> in
      if m_closing m \<or> m_activeSessions m \<ge> MaxSessions (m_config m)
      then (Inl (Pty (if m_closing m then ErrManagerClosed else ErrSessionLimit)), m)
      else
        let s = new_session sid (InitialSize spec) now;
            m1 = m\<lparr>m_store := mput sid s (m_store m), m_sessions := m_sessions m @ [sid],
                   m_generation := m_generation m + 1, m_activeSessions := m_activeSessions m + 1\<rparr>
        in case emitLocked (session_event EventOpened s) m1 of (failed, m2) \<Rightarrow> (Inr failed, m2))"

section \<open>Looking at the registry\<close>

definition registered :: "Manager \<Rightarrow> StreamID \<Rightarrow> Session option" where
  "registered m i = (if i \<in> set (m_sessions m) then sess m i else None)"

definition Get :: "StreamID \<Rightarrow> Manager \<Rightarrow> Session option" where
  "Get i m = registered m i"

definition ListSnapshot :: "Manager \<Rightarrow> 64 word \<times> SessionInfo list" where
  "ListSnapshot m =
     (m_generation m, sort_key si_ID (map infoLocked (List.map_filter (registered m) (m_sessions m))))"

record ManagerStats =
  ms_Sessions :: int
  ms_ActiveSessions :: int
  ms_StartingSessions :: int
  ms_Attachments :: int
  ms_Subscriptions :: int
  ms_HistoryBytes :: int
  ms_HistoryTruncations :: "64 word"
  ms_HistoryTruncatedBytes :: "64 word"
  ms_ProcessesStarted :: "64 word"
  ms_ProcessesExited :: "64 word"
  ms_RetainedExitedSessions :: int
  ms_SessionsEvicted :: "64 word"
  ms_SessionsRemoved :: "64 word"
  ms_AttachmentClosures :: "(AttachmentCloseReason, 64 word) gomap"
  ms_ObserverClosures :: "(ObserverCloseReason, 64 word) gomap"

definition manager_Stats :: "Manager \<Rightarrow> ManagerStats" where
  "manager_Stats m =
     \<lparr>ms_Sessions = int (length (m_sessions m)), ms_ActiveSessions = m_activeSessions m,
      ms_StartingSessions = m_starting m,
      ms_Attachments = sum_list (map (\<lambda>s. int (length (se_attachments s)))
        (List.map_filter (registered m) (m_sessions m))),
      ms_Subscriptions = int (length (m_observers m)), ms_HistoryBytes = m_historyBytes m,
      ms_HistoryTruncations = m_historyTruncations m, ms_HistoryTruncatedBytes = m_historyTruncatedBytes m,
      ms_ProcessesStarted = m_processesStarted m, ms_ProcessesExited = m_processesExited m,
      ms_RetainedExitedSessions = int (length (m_retainedExited m)),
      ms_SessionsEvicted = m_sessionsEvicted m, ms_SessionsRemoved = m_sessionsRemoved m,
      ms_AttachmentClosures = m_attachmentClosures m, ms_ObserverClosures = m_observerClosures m\<rparr>"

section \<open>Talking to a session\<close>

definition Session_ProcessID :: "Session \<Rightarrow> (64 word result) option \<Rightarrow> 64 word result" where
  "Session_ProcessID s provider =
     (if se_state s \<noteq> SessionRunning then Inl (Pty ErrSessionExited)
      else case provider of
        None \<Rightarrow> Inl (Pty ErrProcessIDUnavailable)
      | Some (Inl e) \<Rightarrow> Inl e
      | Some (Inr pid) \<Rightarrow> if pid = 0 then Inl (Pty ErrProcessIDUnavailable) else Inr pid)"

text \<open>\<open>ctx\<close> is what the successive looks at the context find; a nil context is \<open>None\<close>.\<close>

definition Session_Input ::
    "Session \<Rightarrow> (nat \<Rightarrow> gctx) option \<Rightarrow> 'w writer \<Rightarrow> 'w \<Rightarrow> bytes \<Rightarrow> gerror option \<times> 'w" where
  "Session_Input s ctx wr w data =
     (case ctx of
        None \<Rightarrow> (Some (ErrNew ''pty: nil Input context''), w)
      | Some looks \<Rightarrow>
          if se_state s \<noteq> SessionRunning then (Some (Pty ErrSessionExited), w)
          else writeFullContext looks 0 wr w data)"

definition resize_check :: "Session \<Rightarrow> gctx option \<Rightarrow> Size \<Rightarrow> gerror option" where
  "resize_check s ctx sz =
     (case ctx of
        None \<Rightarrow> Some (ErrNew ''pty: nil Resize context'')
      | Some c \<Rightarrow>
          (case Size_Validate sz of
             Some e \<Rightarrow> Some e
           | None \<Rightarrow>
               if c \<noteq> None then c
               else if se_state s \<noteq> SessionRunning then Some (Pty ErrSessionExited) else None))"

definition resize_apply :: "StreamID \<Rightarrow> Size \<Rightarrow> Manager \<Rightarrow> Manager" where
  "resize_apply i sz =
     upd_session i (\<lambda>s. if se_state s = SessionRunning then s\<lparr>se_size := sz\<rparr> else s)"

definition kill_begin :: "StreamID \<Rightarrow> Manager \<Rightarrow> bool \<times> Manager" where
  "kill_begin i m =
     (case sess m i of
        None \<Rightarrow> (False, m)
      | Some s \<Rightarrow>
          if se_killOnce s then (False, m)
          else (se_state s = SessionRunning \<or> se_state s = SessionStopping,
                upd_session i (\<lambda>s. s\<lparr>se_state := (if se_state s = SessionRunning then SessionStopping else se_state s),
                  se_killOnce := True\<rparr>) m))"

definition kill_result :: "StreamID \<Rightarrow> gerror option \<Rightarrow> Manager \<Rightarrow> Manager" where
  "kill_result i err = upd_session i (\<lambda>s. s\<lparr>se_killErr := err\<rparr>)"

text \<open>What \<open>Wait\<close> may return: the exit once \<open>done\<close> is closed, or the context's error.\<close>

definition Wait_returns :: "Session \<Rightarrow> gctx option \<Rightarrow> ExitStatus result set" where
  "Wait_returns s ctx =
     (case ctx of
        None \<Rightarrow> {Inl (ErrNew ''pty: nil Wait context'')}
      | Some c \<Rightarrow>
          (if se_pc s = RunDone
           then {case se_exit s of None \<Rightarrow> Inl (Pty ErrSessionNotFound) | Some x \<Rightarrow> Inr x} else {})
          \<union> (case c of None \<Rightarrow> {} | Some e \<Rightarrow> {Inl e}))"

definition Kill_returns :: "Session \<Rightarrow> gctx option \<Rightarrow> gerror option set" where
  "Kill_returns s ctx =
     (case ctx of
        None \<Rightarrow> {Some (ErrNew ''pty: nil Kill context'')}
      | Some _ \<Rightarrow>
          (\<lambda>r. errors_Join [se_killErr s, case r of Inl e \<Rightarrow> Some e | Inr _ \<Rightarrow> None]) ` Wait_returns s ctx)"

definition Manager_Kill :: "StreamID \<Rightarrow> Manager \<Rightarrow> StreamID result" where
  "Manager_Kill i m = (case Get i m of None \<Rightarrow> Inl (Pty ErrSessionNotFound) | Some s \<Rightarrow> Inr (se_id s))"

section \<open>Attaching\<close>

definition attach_check :: "gctx option \<Rightarrow> AttachOptions \<Rightarrow> bool \<Rightarrow> AttachOptions result" where
  "attach_check ctx opts sink =
     (case ctx of
        None \<Rightarrow> Inl (ErrNew ''pty: nil Attach context'')
      | Some (Some e) \<Rightarrow> Inl e
      | Some None \<Rightarrow>
          if \<not> sink then Inl (ErrNew ''pty: nil OutputSink'')
          else
            let o1 = (if ao_Replay opts = '''' then opts\<lparr>ao_Replay := ReplayNone\<rparr> else opts) in
            if ao_Replay o1 \<noteq> ReplayNone \<and> ao_Replay o1 \<noteq> ReplayHistory
            then Inl (ErrNew ''pty: invalid replay mode'')
            else Inr o1)"

definition replay_step ::
    "64 word \<Rightarrow> AttachResult \<times> OutputEvent list \<Rightarrow> historyChunk \<Rightarrow> AttachResult \<times> OutputEvent list" where
  "replay_step resumeAfter st c =
     (let result = fst st; replay = snd st in
      if Sequence (hc_event c) \<le> resumeAfter then (result, replay)
      else
        let r1 = (if ar_ReplayFirst result = 0 then result\<lparr>ar_ReplayFirst := Sequence (hc_event c)\<rparr> else result)
        in (r1\<lparr>ar_ReplayLast := Sequence (hc_event c)\<rparr>, replay @ [hc_event c]))"

definition attach_replay :: "Session \<Rightarrow> AttachOptions \<Rightarrow> AttachResult \<times> OutputEvent list" where
  "attach_replay s opts =
     (let result = \<lparr>ar_ReplayFirst = 0, ar_ReplayLast = 0, ar_NextLive = se_lastSequence s + 1, ar_Truncated = False\<rparr> in
      if ao_Replay opts = ReplayHistory then
        let r1 = (case se_history s of
                    [] \<Rightarrow> result
                  | c # _ \<Rightarrow> if ao_ResumeAfter opts + 1 < Sequence (hc_event c)
                            then result\<lparr>ar_Truncated := True\<rparr> else result)
        in foldl (replay_step (ao_ResumeAfter opts)) (r1, []) (se_history s)
      else (result, []))"

text \<open>
  The critical section of \<open>Attach\<close>. \<open>raced\<close> is the parent context's error if its cancellation
  closed the new attachment before \<open>start\<close>. On success the attachment's index, the result and
  the observers to finish are returned.
\<close>

definition attach_locked ::
    "StreamID \<Rightarrow> AttachOptions \<Rightarrow> gctx \<Rightarrow> Manager \<Rightarrow> (nat \<times> AttachResult \<times> nat list) result \<times> Manager" where
  "attach_locked i opts raced m =
     (case sess m i of
        None \<Rightarrow> (Inl (Pty ErrSessionNotFound), m)
      | Some s \<Rightarrow>
     if m_closing m then (Inl (Pty ErrSessionNotFound), m)
     else if se_state s \<noteq> SessionRunning \<and> \<not> (se_state s = SessionExited \<and> se_retained s)
     then (Inl (Pty ErrSessionExited), m)
     else if int (length (se_attachments s)) \<ge> MaxAttachmentsPerSession (m_config m)
     then (Inl (Pty ErrAttachmentLimit), m)
     else if ao_ResumeAfter opts > se_lastSequence s then (Inl (Pty ErrFutureSequence), m)
     else
       let aid = m_nextAttachment m + 1; m1 = m\<lparr>m_nextAttachment := aid\<rparr> in
       if aid = 0 then (Inl (Pty ErrAttachmentLimit), m1)
       else
         case attach_replay s opts of (result, replay) \<Rightarrow>
         let a0 = newAttachment (m_ctx m) i aid (AttachmentQueueBytes (m_config m)) (\<not> ao_Paused opts) replay;
             a1 = (if raced = None then a0 else finish_locked None AttachmentContextCanceled a0)
         in case (if se_state s = SessionExited \<and> se_exit s \<noteq> None
                  then enqueueExitLocked (the (se_exit s)) a1 else (None, a1)) of
              (Some e, _) \<Rightarrow> (Inl e, m1)
            | (None, a2) \<Rightarrow>
                case at_start a2 of
                  (False, _) \<Rightarrow> (Inl (case raced of Some e \<Rightarrow> e | None \<Rightarrow> Pty ErrAttachmentClosed), m1)
                | (True, a3) \<Rightarrow>
                    let k = length (m_atts m1);
                        s' = s\<lparr>se_attachments := mput aid k (se_attachments s)\<rparr>;
                        m2 = m1\<lparr>m_store := mput i s' (m_store m1), m_atts := m_atts m1 @ [a3\<lparr>at_registered := True\<rparr>]\<rparr>
                    in case emitLocked \<lparr>ev_Kind = EventAttached, ev_Session = infoLocked s', ev_Output = None,
                              ev_Attachment = Some \<lparr>ai_ID = aid, ai_Reason = None\<rparr>\<rparr> m2 of
                         (failed, m3) \<Rightarrow> (Inr (k, result, failed), m3))"

definition recordAttachmentClose :: "nat \<Rightarrow> AttachmentCloseReason \<Rightarrow> Manager \<Rightarrow> nat list \<times> Manager" where
  "recordAttachmentClose k reason m =
     (if k < length (m_atts m) \<and> at_registered (m_atts m ! k) then
        let a = m_atts m ! k;
            m1 = upd_att k (\<lambda>a. a\<lparr>at_registered := False\<rparr>) m;
            m2 = upd_session (at_session a) (\<lambda>s. s\<lparr>se_attachments := mdel (at_id a) (se_attachments s)\<rparr>) m1;
            m3 = m2\<lparr>m_attachmentClosures := mput reason
                   ((case mget (m_attachmentClosures m2) reason of None \<Rightarrow> 0 | Some n \<Rightarrow> n) + 1)
                   (m_attachmentClosures m2)\<rparr>
        in case sess m3 (at_session a) of
             None \<Rightarrow> ([], m3)
           | Some s \<Rightarrow> emitLocked \<lparr>ev_Kind = EventDetached, ev_Session = infoLocked s, ev_Output = None,
                         ev_Attachment = Some \<lparr>ai_ID = at_id a, ai_Reason = Some reason\<rparr>\<rparr> m3
      else ([], m))"

section \<open>Output\<close>

text \<open>One turn of \<open>pumpOutput\<close>: what to publish, and what the pump returns if it stops.\<close>

definition pump_turn :: "ManagerConfig \<Rightarrow> read_outcome \<Rightarrow> bytes option \<times> gerror option option" where
  "pump_turn c r =
     (case r of (n, buffer, err) \<Rightarrow>
      if n < 0 \<or> n > ReadBufferBytes c
      then (None, Some (Some (Errorf (ErrNew ''pty: invalid read count'') [n])))
      else
        (if n > 0 then Some (take (nat n) buffer) else None,
         case err of
           Some e \<Rightarrow> Some (if errorsIs e (Lib IoEOF) then None else Some e)
         | None \<Rightarrow> if n = 0 then Some (Some (Lib IoErrNoProgress)) else None))"

definition publish_step :: "StreamID \<Rightarrow> OutputEvent \<Rightarrow> nat list \<times> Manager \<Rightarrow> 64 word \<times> nat \<Rightarrow> nat list \<times> Manager" where
  "publish_step i ev st a =
     (case enqueueLocked (AttachmentOutput ev) (m_atts (snd st) ! snd a) of
        (None, a') \<Rightarrow> (fst st, upd_att (snd a) (\<lambda>_. a') (snd st))
      | (Some _, _) \<Rightarrow>
          (fst st @ [snd a],
           upd_session i (\<lambda>s. s\<lparr>se_attachments := mdel (fst a) (se_attachments s)\<rparr>) (snd st)))"

definition publish :: "StreamID \<Rightarrow> bytes \<Rightarrow> Manager \<Rightarrow> (nat list \<times> nat list) \<times> Manager" where
  "publish i data m =
     (let m1 = bump_sequence i m in
      case sess m1 i of
        None \<Rightarrow> (([], []), m1)
      | Some s \<Rightarrow>
          let ev = \<lparr>Sequence = se_lastSequence s, Data = data\<rparr>;
              m2 = appendHistoryLocked i ev m1
          in case foldl (publish_step i ev) ([], m2) (se_attachments s) of
               (failed, m3) \<Rightarrow>
                 (case sess m3 i of
                    None \<Rightarrow> ((failed, []), m3)
                  | Some s3 \<Rightarrow>
                      case emitLocked \<lparr>ev_Kind = EventOutput, ev_Session = infoLocked s3, ev_Output = Some ev,
                             ev_Attachment = None\<rparr> m3 of
                        (failedObs, m4) \<Rightarrow> ((failed, failedObs), m4)))"

section \<open>The end of a session\<close>

text \<open>\<open>errText\<close> is \<open>Error()\<close> of an error value.\<close>

definition run_status ::
    "(gerror \<Rightarrow> string) \<Rightarrow> ExitStatus \<Rightarrow> gerror option \<Rightarrow> gerror option \<Rightarrow> ExitStatus" where
  "run_status errText status0 waitErr outputErr =
     (let status1 = (case waitErr of
            Some e \<Rightarrow> if ErrorText status0 = '''' then status0\<lparr>ErrorText := errText e\<rparr> else status0
          | None \<Rightarrow> status0)
      in case outputErr of
           Some e \<Rightarrow> if ErrorText status1 = ''''
                    then status1\<lparr>Reason := ExitReasonIOFailure, ErrorText := errText e\<rparr> else status1
         | None \<Rightarrow> status1)"

definition exit_step :: "ExitStatus \<Rightarrow> nat list \<times> Manager \<Rightarrow> nat \<Rightarrow> nat list \<times> Manager" where
  "exit_step status st k =
     (case enqueueExitLocked status (m_atts (snd st) ! k) of
        (None, a') \<Rightarrow> (fst st, upd_att k (\<lambda>_. a') (snd st))
      | (Some _, _) \<Rightarrow> (fst st @ [k], snd st))"

text \<open>
  The first critical section at the end of \<open>run\<close>: the exit becomes visible, the attachments
  get their exit event, and \<open>run\<close> goes on to wait for them.
\<close>

definition run_exit :: "StreamID \<Rightarrow> ExitStatus \<Rightarrow> Manager \<Rightarrow> (nat list \<times> nat list) \<times> Manager" where
  "run_exit i status m =
     (case sess m i of
        None \<Rightarrow> (([], []), m)
      | Some s \<Rightarrow>
          let atts = map snd (se_attachments s);
              s1 = s\<lparr>se_pc := RunDraining atts, se_state := SessionExited, se_exit := Some status\<rparr>;
              m1 = m\<lparr>m_store := mput i s1 (m_store m),
                     m_processesExited := m_processesExited m + 1,
                     m_activeSessions := (if m_activeSessions m > 0 then m_activeSessions m - 1 else m_activeSessions m)\<rparr>
          in case foldl (exit_step status) ([], m1) atts of
               (failed, m2) \<Rightarrow>
                 case emitLocked (session_event EventExited s1) m2 of
                   (failedObs, m3) \<Rightarrow> ((failed, failedObs), m3))"

definition removeRetainedIDLocked :: "StreamID \<Rightarrow> Manager \<Rightarrow> Manager" where
  "removeRetainedIDLocked i m = m\<lparr>m_retainedExited := remove1 i (m_retainedExited m)\<rparr>"

definition removeSessionLocked :: "StreamID \<Rightarrow> Manager \<Rightarrow> Manager" where
  "removeSessionLocked i m =
     (let m1 = m\<lparr>m_sessions := filter (\<lambda>j. j \<noteq> i) (m_sessions m)\<rparr>;
          m2 = removeRetainedIDLocked i m1;
          m3 = upd_session i (\<lambda>s. s\<lparr>se_retained := False, se_removing := False\<rparr>) m2;
          m4 = removeHistoryLocked i m3
      in m4\<lparr>m_generation := m_generation m4 + 1\<rparr>)"

definition beginRetainedRemovalLocked ::
    "StreamID \<Rightarrow> AttachmentCloseReason \<Rightarrow> EventKind \<Rightarrow> Manager \<Rightarrow> retainedRemoval option \<times> Manager" where
  "beginRetainedRemovalLocked i reason kind m =
     (case sess m i of
        None \<Rightarrow> (None, m)
      | Some s \<Rightarrow>
          if \<not> se_retained s \<or> se_removing s then (None, m)
          else
            let atts = map snd (se_attachments s);
                m1 = upd_session i (\<lambda>s. s\<lparr>se_attachments := []\<rparr>) m;
                m2 = removeRetainedIDLocked i m1;
                m3 = upd_session i (\<lambda>s. s\<lparr>se_retained := False, se_removing := True\<rparr>) m2
            in (Some \<lparr>rr_session = i, rr_attachments = atts, rr_attachmentReason = reason, rr_eventKind = kind\<rparr>, m3))"

text \<open>
  The eviction loop could run forever on a session that is both retained and being removed,
  so not returning is a possible value of its model.
\<close>

partial_function (option) evict_retained ::
    "Manager \<Rightarrow> retainedRemoval list \<Rightarrow> (retainedRemoval list \<times> Manager) option" where
  "evict_retained m removals =
     (if int (length (m_retainedExited m)) > MaxRetainedSessions (SessionLifecycle (m_config m))
      then case m_retainedExited m of
             [] \<Rightarrow> Some (removals, m)
           | i # rest \<Rightarrow>
               if (case registered m i of None \<Rightarrow> True | Some s \<Rightarrow> \<not> se_retained s)
               then evict_retained (m\<lparr>m_retainedExited := rest\<rparr>) removals
               else case beginRetainedRemovalLocked i AttachmentSessionEvicted EventEvicted m of
                      (None, m') \<Rightarrow> evict_retained m' removals
                    | (Some r, m') \<Rightarrow> evict_retained m' (removals @ [r])
      else Some (removals, m))"

definition beginRetentionEvictionsLocked :: "Manager \<Rightarrow> (retainedRemoval list \<times> Manager) option" where
  "beginRetentionEvictionsLocked m = evict_retained m []"

text \<open>
  The second critical section at the end of \<open>run\<close>, once every attachment is done: the session
  is retained, which may evict others, or removed.
\<close>

definition run_retire :: "StreamID \<Rightarrow> Manager \<Rightarrow> (nat list \<times> Manager) option" where
  "run_retire i m =
     (let m1 = upd_session i (\<lambda>s. s\<lparr>se_attachments := []\<rparr>) m in
      if \<not> m_closing m1 \<and> ExitPolicy (SessionLifecycle (m_config m1)) = ExitedSessionRetain
      then
        let m2 = (upd_session i (\<lambda>s. s\<lparr>se_retained := True\<rparr>) m1)
                   \<lparr>m_retainedExited := m_retainedExited m1 @ [i], m_generation := m_generation m1 + 1\<rparr>
        in case sess m2 i of
             None \<Rightarrow> None
           | Some s \<Rightarrow>
               (case emitLocked (session_event EventRetained s) m2 of
                  (failedObs, m3) \<Rightarrow>
                    (case beginRetentionEvictionsLocked m3 of
                       None \<Rightarrow> None
                     | Some (removals, m4) \<Rightarrow>
                         Some (failedObs, upd_session i (\<lambda>s. s\<lparr>se_pc := RunEvicting removals\<rparr>) m4)))
      else
        let m2 = removeSessionLocked i m1; m3 = m2\<lparr>m_sessionsRemoved := m_sessionsRemoved m2 + 1\<rparr>
        in case sess m3 i of
             None \<Rightarrow> None
           | Some s \<Rightarrow>
               (case emitLocked (session_event EventRemoved s) m3 of
                  (failedObs, m4) \<Rightarrow>
                    Some (failedObs, upd_session i (\<lambda>s. s\<lparr>se_pc := RunEvicting []\<rparr>) m4)))"

text \<open>
  \<open>finishRetainedRemoval\<close> after the attachments of the removal are done. Identifiers are
  never reused, so the registered session of that identifier is the removal's session.
\<close>

definition finishRetainedRemoval :: "retainedRemoval \<Rightarrow> Manager \<Rightarrow> nat list \<times> Manager" where
  "finishRetainedRemoval r m =
     (case registered m (rr_session r) of
        None \<Rightarrow> ([], m)
      | Some s \<Rightarrow>
          if \<not> se_removing s then ([], m)
          else
            let m1 = removeSessionLocked (rr_session r) m;
                m2 = (if rr_eventKind r = EventEvicted
                      then m1\<lparr>m_sessionsEvicted := m_sessionsEvicted m1 + 1\<rparr>
                      else m1\<lparr>m_sessionsRemoved := m_sessionsRemoved m1 + 1\<rparr>)
            in case sess m2 (rr_session r) of
                 None \<Rightarrow> ([], m2)
               | Some s2 \<Rightarrow> emitLocked (session_event (rr_eventKind r) s2) m2)"

definition Remove_begin :: "StreamID \<Rightarrow> Manager \<Rightarrow> retainedRemoval result \<times> Manager" where
  "Remove_begin i m =
     (if m_closing m then (Inl (Pty ErrManagerClosed), m)
      else case registered m i of
        None \<Rightarrow> (Inl (Pty ErrSessionNotFound), m)
      | Some s \<Rightarrow>
          if se_state s = SessionRunning \<or> se_state s = SessionStopping then (Inl (Pty ErrSessionRunning), m)
          else case beginRetainedRemovalLocked i AttachmentSessionRemoved EventRemoved m of
            (None, m') \<Rightarrow> (Inl (Pty ErrSessionNotFound), m')
          | (Some r, m') \<Rightarrow> (Inr r, m'))"

section \<open>Observers and shutdown\<close>

definition Subscribe :: "Manager \<Rightarrow> nat result \<times> Manager" where
  "Subscribe m =
     (if m_closing m then (Inl (Pty ErrManagerClosed), m)
      else if int (length (m_observers m)) \<ge> MaxObservers (m_config m) then (Inl (Pty ErrObserverLimit), m)
      else
        let oid = m_nextObserver m + 1; k = length (m_subs m) in
        (Inr k, m\<lparr>m_subs := m_subs m @ [newSubscription (m_ctx m) oid (ObserverQueueBytes (m_config m))],
                  m_observers := mput oid k (m_observers m), m_nextObserver := oid\<rparr>))"

definition Subscription_unlink :: "nat \<Rightarrow> Manager \<Rightarrow> Manager" where
  "Subscription_unlink k m =
     (if k < length (m_subs m) then m\<lparr>m_observers := mdel (su_id (m_subs m ! k)) (m_observers m)\<rparr> else m)"

definition recordObserverClose :: "ObserverCloseReason \<Rightarrow> Manager \<Rightarrow> Manager" where
  "recordObserverClose reason m =
     m\<lparr>m_observerClosures := mput reason
         ((case mget (m_observerClosures m) reason of None \<Rightarrow> 0 | Some n \<Rightarrow> n) + 1) (m_observerClosures m)\<rparr>"

text \<open>
  \<open>Close\<close>: under the lock it stops new work and collects what is to be ended; the calls to
  \<open>Terminate\<close> and \<open>Kill\<close> follow without the lock, and when every session and worker is done
  the registry is emptied.
\<close>

definition close_begin :: "Manager \<Rightarrow> (StreamID list \<times> StreamID list \<times> nat list) \<times> Manager" where
  "close_begin m =
     (let active = filter (\<lambda>i. case sess m i of None \<Rightarrow> False
                      | Some s \<Rightarrow> se_state s = SessionRunning \<or> se_state s = SessionStopping) (m_sessions m);
          stop = (\<lambda>i. upd_session i (\<lambda>s. if se_state s = SessionRunning then s\<lparr>se_state := SessionStopping\<rparr> else s));
          m1 = fold stop (m_sessions m) (m\<lparr>m_closing := True\<rparr>)
      in ((m_sessions m, active, map snd (m_observers m)), m1\<lparr>m_observers := []\<rparr>))"

definition manager_cancel :: "Manager \<Rightarrow> Manager" where
  "manager_cancel m = (if m_ctx m = None then m\<lparr>m_ctx := Some (Lib CtxCanceled)\<rparr> else m)"

definition close_joins :: "gerror option list \<Rightarrow> gerror option list \<Rightarrow> Manager \<Rightarrow> Manager" where
  "close_joins terminated killed m =
     (let e1 = errors_Join [m_closeErr m, runSessionOperation terminated];
          e2 = errors_Join [e1, runSessionOperation killed]
      in m\<lparr>m_closeErr := e2\<rparr>)"

definition close_end :: "Manager \<Rightarrow> Manager" where
  "close_end m =
     (let m1 = fold (\<lambda>i m. upd_session i (\<lambda>s. s\<lparr>se_retained := False, se_removing := False\<rparr>)
                 (removeHistoryLocked i m)) (m_sessions m) m
      in m1\<lparr>m_sessions := [], m_retainedExited := [], m_generation := m_generation m1 + 1, m_closed := True,
            m_activeSessions := 0\<rparr>)"

end
