(* ===== verification/Pty_Life.thy ===== *)
theory Pty_Life
  imports Pty_Manager
begin

text \<open>
  The running manager: one labelled step per critical section of \<open>pty/manager.go\<close>, in every
  interleaving of callers, session goroutines, attachment workers and shutdown, and the
  lifecycle of sessions: which states they pass, and the limits on how many there are.
\<close>

section \<open>The system\<close>

text \<open>
  Beside the manager: the calls of \<open>Open\<close> whose process is starting, the removals that
  callers of \<open>Remove\<close> have begun, and three records of what happened that no code reads: the
  output each session has published, the events each attachment's sink was given, and for each
  attachment the number of chunks before the first one it gets, replay included, and the
  number published when it attached.
\<close>

record msys =
  y_m :: Manager
  y_opens :: "(StreamID \<times> ProcessSpec) list"
  y_removals :: "retainedRemoval list"
  y_published :: "StreamID \<Rightarrow> bytes list"
  y_sent :: "nat \<Rightarrow> AttachmentEvent list"
  y_base :: "nat \<Rightarrow> nat \<times> nat"

definition new_msys :: "Manager \<Rightarrow> msys" where
  "new_msys m = \<lparr>y_m = m, y_opens = [], y_removals = [], y_published = (\<lambda>_. []),
     y_sent = (\<lambda>_. []), y_base = (\<lambda>_. (0, 0))\<rparr>"

definition pump_effect :: "StreamID \<Rightarrow> bytes option \<Rightarrow> gerror option option \<Rightarrow> Manager \<Rightarrow> Manager" where
  "pump_effect i pub ret m =
     (let m1 = (case pub of None \<Rightarrow> m | Some d \<Rightarrow> snd (publish i d m))
      in case ret of None \<Rightarrow> m1 | Some e \<Rightarrow> upd_session i (\<lambda>s. s\<lparr>se_pc := RunPumped e\<rparr>) m1)"

definition atts_done :: "Manager \<Rightarrow> nat list \<Rightarrow> bool" where
  "atts_done m ks \<longleftrightarrow> (\<forall>k \<in> set ks. k < length (m_atts m) \<longrightarrow> at_done (m_atts m ! k))"

definition su_finish_at :: "nat \<Rightarrow> gerror option \<Rightarrow> ObserverCloseReason \<Rightarrow> Manager \<Rightarrow> Manager" where
  "su_finish_at k e reason m =
     (if k < length (m_subs m) \<and> \<not> su_closed (m_subs m ! k)
      then upd_sub k (\<lambda>s. s\<lparr>su_done := True\<rparr>)
             (recordObserverClose reason (upd_sub k (su_finish e reason) m))
      else m)"

definition first_seq :: "Session \<Rightarrow> AttachOptions \<Rightarrow> nat \<Rightarrow> nat" where
  "first_seq s opts n =
     (case snd (attach_replay s opts) of [] \<Rightarrow> n | ev # _ \<Rightarrow> unat (Sequence ev) - 1)"

datatype msys_label =
    LOpen StreamID | LOpenRefused gerror | LStartFailed StreamID | LStarted | LReaped
  | LRegistered StreamID | LRegisterRefused StreamID gerror
  | LPump StreamID "bytes option" "gerror option option" | LExit StreamID ExitStatus
  | LFinish nat AttachmentCloseReason | LRecord nat | LSend nat AttachmentEvent | LWorkerDone nat
  | LActivate nat | LAttach StreamID AttachOptions nat AttachResult | LAttachRefused StreamID gerror
  | LKill StreamID | LKilled StreamID | LResize StreamID Size
  | LRetire StreamID | LEvict StreamID retainedRemoval | LRunDone StreamID
  | LRemove StreamID | LRemoveFinish retainedRemoval
  | LSubscribe "nat result" | LSubClose nat | LSubFinish nat ObserverCloseReason | LSubNext nat
  | LCancel | LCloseBegin | LCloseJoin | LCloseEnd

inductive manager_step :: "msys \<Rightarrow> msys_label \<Rightarrow> msys \<Rightarrow> bool" where
  reserve: "Open_check ctx spec = None \<Longrightarrow> open_reserve (y_m y) = (Inr sid, m') \<Longrightarrow>
     manager_step y (LOpen sid) (y\<lparr>y_m := m', y_opens := y_opens y @ [(sid, spec)]\<rparr>)"
| reserve_refused: "open_reserve (y_m y) = (Inl e, m') \<Longrightarrow>
     manager_step y (LOpenRefused e) (y\<lparr>y_m := m'\<rparr>)"
| start_failed: "(sid, spec) \<in> set (y_opens y) \<Longrightarrow>
     manager_step y (LStartFailed sid)
       (y\<lparr>y_m := open_abort (y_m y), y_opens := remove1 (sid, spec) (y_opens y)\<rparr>)"
| started: "manager_step y LStarted (y\<lparr>y_m := open_started (y_m y)\<rparr>)"
| reaped: "manager_step y LReaped (y\<lparr>y_m := recordProcessExited (y_m y)\<rparr>)"
| register: "(sid, spec) \<in> set (y_opens y) \<Longrightarrow> open_register sid spec now (y_m y) = (Inr failed, m') \<Longrightarrow>
     manager_step y (LRegistered sid) (y\<lparr>y_m := m', y_opens := remove1 (sid, spec) (y_opens y)\<rparr>)"
| register_refused: "(sid, spec) \<in> set (y_opens y) \<Longrightarrow> open_register sid spec now (y_m y) = (Inl e, m') \<Longrightarrow>
     manager_step y (LRegisterRefused sid e) (y\<lparr>y_m := m', y_opens := remove1 (sid, spec) (y_opens y)\<rparr>)"
| pump: "sess (y_m y) i = Some s \<Longrightarrow> se_pc s = RunPumping \<Longrightarrow>
     int (length (fst (snd r))) = ReadBufferBytes (m_config (y_m y)) \<Longrightarrow>
     pump_turn (m_config (y_m y)) r = (pub, ret) \<Longrightarrow>
     manager_step y (LPump i pub ret)
       (y\<lparr>y_m := pump_effect i pub ret (y_m y),
          y_published := (y_published y)(i := y_published y i @ (case pub of None \<Rightarrow> [] | Some d \<Rightarrow> [d]))\<rparr>)"
| exit: "sess (y_m y) i = Some s \<Longrightarrow> se_pc s = RunPumped oe \<Longrightarrow>
     status = run_status errText st we oe \<Longrightarrow>
     manager_step y (LExit i status) (y\<lparr>y_m := snd (run_exit i status (y_m y))\<rparr>)"
| finish: "manager_step y (LFinish k reason) (y\<lparr>y_m := upd_att k (finish_locked e reason) (y_m y)\<rparr>)"
| record_close: "k < length (m_atts (y_m y)) \<Longrightarrow> at_closed (m_atts (y_m y) ! k) \<Longrightarrow>
     at_reason (m_atts (y_m y) ! k) = Some reason \<Longrightarrow>
     manager_step y (LRecord k) (y\<lparr>y_m := snd (recordAttachmentClose k reason (y_m y))\<rparr>)"
| send: "k < length (m_atts (y_m y)) \<Longrightarrow> at_turn (m_atts (y_m y) ! k) = (TurnSend ev, a') \<Longrightarrow>
     manager_step y (LSend k ev)
       (y\<lparr>y_m := upd_att k (\<lambda>_. a') (y_m y), y_sent := (y_sent y)(k := y_sent y k @ [ev])\<rparr>)"
| worker_done: "k < length (m_atts (y_m y)) \<Longrightarrow> at_closed (m_atts (y_m y) ! k) \<Longrightarrow>
     manager_step y (LWorkerDone k) (y\<lparr>y_m := upd_att k closeDone (y_m y)\<rparr>)"
| activate: "manager_step y (LActivate k) (y\<lparr>y_m := upd_att k (\<lambda>a. snd (Activate a)) (y_m y)\<rparr>)"
| attach: "attach_check ctx opts0 sink = Inr opts \<Longrightarrow> sess (y_m y) i = Some s \<Longrightarrow>
     attach_locked i opts raced (y_m y) = (Inr (k, result, failed), m') \<Longrightarrow>
     manager_step y (LAttach i opts k result)
       (y\<lparr>y_m := m', y_base := (y_base y)(k := (first_seq s opts (length (y_published y i)), length (y_published y i)))\<rparr>)"
| attach_refused: "attach_check ctx opts0 sink = Inr opts \<Longrightarrow>
     attach_locked i opts raced (y_m y) = (Inl e, m') \<Longrightarrow>
     manager_step y (LAttachRefused i e) (y\<lparr>y_m := m'\<rparr>)"
| kill: "manager_step y (LKill i) (y\<lparr>y_m := snd (kill_begin i (y_m y))\<rparr>)"
| killed: "manager_step y (LKilled i) (y\<lparr>y_m := kill_result i e (y_m y)\<rparr>)"
| resize: "manager_step y (LResize i sz) (y\<lparr>y_m := resize_apply i sz (y_m y)\<rparr>)"
| retire: "sess (y_m y) i = Some s \<Longrightarrow> se_pc s = RunDraining ks \<Longrightarrow> atts_done (y_m y) ks \<Longrightarrow>
     run_retire i (y_m y) = Some (failed, m') \<Longrightarrow>
     manager_step y (LRetire i) (y\<lparr>y_m := m'\<rparr>)"
| evict: "sess (y_m y) i = Some s \<Longrightarrow> se_pc s = RunEvicting (r # rs) \<Longrightarrow> atts_done (y_m y) (rr_attachments r) \<Longrightarrow>
     manager_step y (LEvict i r)
       (y\<lparr>y_m := upd_session i (\<lambda>s. s\<lparr>se_pc := RunEvicting rs\<rparr>) (snd (finishRetainedRemoval r (y_m y)))\<rparr>)"
| run_done: "sess (y_m y) i = Some s \<Longrightarrow> se_pc s = RunEvicting [] \<Longrightarrow>
     manager_step y (LRunDone i) (y\<lparr>y_m := upd_session i (\<lambda>s. s\<lparr>se_pc := RunDone\<rparr>) (y_m y)\<rparr>)"
| remove: "Remove_begin i (y_m y) = (Inr r, m') \<Longrightarrow>
     manager_step y (LRemove i) (y\<lparr>y_m := m', y_removals := y_removals y @ [r]\<rparr>)"
| remove_finish: "r \<in> set (y_removals y) \<Longrightarrow> atts_done (y_m y) (rr_attachments r) \<Longrightarrow>
     manager_step y (LRemoveFinish r)
       (y\<lparr>y_m := snd (finishRetainedRemoval r (y_m y)), y_removals := remove1 r (y_removals y)\<rparr>)"
| subscribe: "Subscribe (y_m y) = (res, m') \<Longrightarrow> manager_step y (LSubscribe res) (y\<lparr>y_m := m'\<rparr>)"
| sub_close: "manager_step y (LSubClose k) (y\<lparr>y_m := Subscription_unlink k (y_m y)\<rparr>)"
| sub_finish: "manager_step y (LSubFinish k reason) (y\<lparr>y_m := su_finish_at k e reason (y_m y)\<rparr>)"
| sub_next: "manager_step y (LSubNext k) (y\<lparr>y_m := upd_sub k (\<lambda>s. snd (su_next s)) (y_m y)\<rparr>)"
| cancel: "manager_step y LCancel (y\<lparr>y_m := manager_cancel (y_m y)\<rparr>)"
| close_begin: "\<not> m_closing (y_m y) \<Longrightarrow>
     manager_step y LCloseBegin (y\<lparr>y_m := snd (close_begin (y_m y))\<rparr>)"
| close_join: "m_closing (y_m y) \<Longrightarrow>
     manager_step y LCloseJoin (y\<lparr>y_m := close_joins terminated killed (y_m y)\<rparr>)"
| close_end: "m_closing (y_m y) \<Longrightarrow> \<not> m_closed (y_m y) \<Longrightarrow> y_opens y = [] \<Longrightarrow>
     \<forall>i \<in> set (m_sessions (y_m y)). \<forall>s. sess (y_m y) i = Some s \<longrightarrow> se_pc s = RunDone \<Longrightarrow>
     \<forall>a \<in> set (m_atts (y_m y)). at_done a \<Longrightarrow>
     manager_step y LCloseEnd (y\<lparr>y_m := close_end (y_m y)\<rparr>)"

section \<open>The lifecycle part of the state\<close>

definition life :: "Session \<Rightarrow> StreamID \<times> run_pc \<times> SessionState \<times> ExitStatus option \<times> bool \<times> bool" where
  "life s = (se_id s, se_pc s, se_state s, se_exit s, se_retained s, se_removing s)"

text \<open>\<open>life_same\<close>: an operation that leaves the lifecycle of all sessions alone.\<close>

definition life_same :: "Manager \<Rightarrow> Manager \<Rightarrow> bool" where
  "life_same m m' \<longleftrightarrow>
     (\<forall>j. map_option life (sess m' j) = map_option life (sess m j))
     \<and> (is_map (m_store m) \<longrightarrow> is_map (m_store m'))
     \<and> m_config m' = m_config m \<and> m_sessions m' = m_sessions m \<and> m_retainedExited m' = m_retainedExited m
     \<and> m_starting m' = m_starting m \<and> m_activeSessions m' = m_activeSessions m
     \<and> m_nextSession m' = m_nextSession m \<and> m_sessionIDExhausted m' = m_sessionIDExhausted m
     \<and> m_closing m' = m_closing m"

lemma life_same_refl [simp]: "life_same m m"
  by (simp add: life_same_def)

lemma life_same_trans: "life_same a b \<Longrightarrow> life_same b c \<Longrightarrow> life_same a c"
  by (simp add: life_same_def)

lemma life_same_emit: "life_same m (snd (emitLocked ev m))"
  using same_but_observers_fields [OF emitLocked_same [of m ev]] by (simp add: life_same_def)

lemma is_map_upd_session [simp]: "is_map (m_store m) \<Longrightarrow> is_map (m_store (upd_session i f m))"
  by (auto simp: upd_session_def split: option.splits)

lemma upd_session_fields [simp]:
  "m_config (upd_session i f m) = m_config m" "m_sessions (upd_session i f m) = m_sessions m"
  "m_retainedExited (upd_session i f m) = m_retainedExited m" "m_starting (upd_session i f m) = m_starting m"
  "m_activeSessions (upd_session i f m) = m_activeSessions m" "m_nextSession (upd_session i f m) = m_nextSession m"
  "m_sessionIDExhausted (upd_session i f m) = m_sessionIDExhausted m" "m_closing (upd_session i f m) = m_closing m"
  "m_atts (upd_session i f m) = m_atts m" "m_subs (upd_session i f m) = m_subs m"
  "m_observers (upd_session i f m) = m_observers m" "m_historyBytes (upd_session i f m) = m_historyBytes m"
  "m_nextHistory (upd_session i f m) = m_nextHistory m" "m_ctx (upd_session i f m) = m_ctx m"
  "m_nextAttachment (upd_session i f m) = m_nextAttachment m" "m_generation (upd_session i f m) = m_generation m"
  "m_nextObserver (upd_session i f m) = m_nextObserver m"
  by (simp_all add: upd_session_def split: option.splits)

lemma upd_att_fields [simp]:
  "m_config (upd_att k f m) = m_config m" "m_sessions (upd_att k f m) = m_sessions m"
  "m_retainedExited (upd_att k f m) = m_retainedExited m" "m_starting (upd_att k f m) = m_starting m"
  "m_activeSessions (upd_att k f m) = m_activeSessions m" "m_nextSession (upd_att k f m) = m_nextSession m"
  "m_sessionIDExhausted (upd_att k f m) = m_sessionIDExhausted m" "m_closing (upd_att k f m) = m_closing m"
  "m_store (upd_att k f m) = m_store m" "m_subs (upd_att k f m) = m_subs m"
  "m_observers (upd_att k f m) = m_observers m" "m_historyBytes (upd_att k f m) = m_historyBytes m"
  "m_nextHistory (upd_att k f m) = m_nextHistory m" "m_nextAttachment (upd_att k f m) = m_nextAttachment m"
  "length (m_atts (upd_att k f m)) = length (m_atts m)"
  by (simp_all add: upd_att_def)

lemma upd_sub_fields [simp]:
  "m_config (upd_sub k f m) = m_config m" "m_sessions (upd_sub k f m) = m_sessions m"
  "m_retainedExited (upd_sub k f m) = m_retainedExited m" "m_starting (upd_sub k f m) = m_starting m"
  "m_activeSessions (upd_sub k f m) = m_activeSessions m" "m_nextSession (upd_sub k f m) = m_nextSession m"
  "m_sessionIDExhausted (upd_sub k f m) = m_sessionIDExhausted m" "m_closing (upd_sub k f m) = m_closing m"
  "m_store (upd_sub k f m) = m_store m" "m_atts (upd_sub k f m) = m_atts m"
  "m_observers (upd_sub k f m) = m_observers m" "m_historyBytes (upd_sub k f m) = m_historyBytes m"
  "m_nextHistory (upd_sub k f m) = m_nextHistory m" "length (m_subs (upd_sub k f m)) = length (m_subs m)"
  by (simp_all add: upd_sub_def)

lemma life_same_upd_session:
  assumes "\<And>s. sess m i = Some s \<Longrightarrow> life (f s) = life s"
  shows "life_same m (upd_session i f m)"
  using assms by (auto simp: life_same_def option.map_comp o_def map_option_case split: option.splits)

lemma life_same_shrunk: "shrunk m m' \<Longrightarrow> is_map (m_store m') \<or> \<not> is_map (m_store m) \<Longrightarrow> life_same m m'"
proof -
  assume sh: "shrunk m m'" and mp: "is_map (m_store m') \<or> \<not> is_map (m_store m)"
  have "map_option life (sess m' j) = map_option life (sess m j)" for j
  proof (cases "sess m j")
    case None
    then have "sess m' j = None" using sh by (auto simp: shrunk_def dest!: spec [of _ j])
    then show ?thesis using None by simp
  next
    case (Some s)
    then obtain s' where "sess m' j = Some s'" "sess_shrunk s s'" using shrunk_sess [OF sh] by metis
    then show ?thesis using Some by (auto simp: sess_shrunk_def life_def)
  qed
  with sh mp show ?thesis by (auto simp: life_same_def shrunk_def)
qed

lemma drop_is_map: "is_map (m_store m) \<Longrightarrow> is_map (m_store (dropFirstHistoryLocked i m))"
  by (auto simp: dropFirstHistoryLocked_def Let_def split: option.splits list.splits)

lemma evict_session_is_map: "is_map (m_store m) \<longrightarrow> is_map (m_store (evict_session i m))"
  by (induction rule: evict_session_rule) (auto intro: drop_is_map)

lemma evict_total_is_map: "is_map (m_store m) \<longrightarrow> is_map (m_store (evict_total m))"
  by (induction rule: evict_total_rule) (auto intro: drop_is_map)

lemma history_push_life: "life_same m (history_push i ev m)"
  by (auto simp: life_same_def history_push_def Let_def life_def split: option.splits)

lemma appendHistory_life: "life_same m (appendHistoryLocked i ev m)"
proof (cases "HistoryBytes (m_config m) = 0 \<or> MaxTotalHistoryBytes (m_config m) = 0")
  case True
  then show ?thesis by (simp add: appendHistoryLocked_def)
next
  case False
  define m1 where "m1 = history_push i ev m"
  have 1: "life_same m m1" unfolding m1_def by (rule history_push_life)
  have 2: "life_same m1 (evict_session i m1)"
    by (rule life_same_shrunk [OF evict_session_shrunk]) (use evict_session_is_map in blast)
  have 3: "life_same (evict_session i m1) (evict_total (evict_session i m1))"
    by (rule life_same_shrunk [OF evict_total_shrunk]) (use evict_total_is_map in blast)
  show ?thesis
    using False life_same_trans [OF life_same_trans [OF 1 2] 3] by (simp add: appendHistoryLocked_def m1_def)
qed

lemma life_upd_att: "life_same m (upd_att k f m)"
  by (simp add: life_same_def)

lemma life_upd_sub: "life_same m (upd_sub k f m)"
  by (simp add: life_same_def)

lemma publish_step_life: "life_same (snd st) (snd (publish_step i ev st a))"
  by (auto simp: publish_step_def life_upd_att split: prod.splits option.splits
      intro!: life_same_upd_session) (simp add: life_def)

lemma foldl_rel:
  assumes "\<And>st x. R (snd st) (snd (f st x))" and "\<And>a. R a a" and "\<And>a b c. R a b \<Longrightarrow> R b c \<Longrightarrow> R a c"
  shows "R (snd st) (snd (foldl f st xs))"
proof (induction xs arbitrary: st)
  case (Cons x xs)
  show ?case using assms(3) [OF assms(1) Cons.IH] by simp
qed (simp add: assms(2))

lemmas foldl_life = foldl_rel [where R = life_same, OF _ life_same_refl life_same_trans]

lemma bump_life: "life_same m (bump_sequence i m)"
  unfolding bump_sequence_def by (rule life_same_upd_session) (simp add: life_def)

text \<open>The states inside \<open>publish\<close>, named once for all the proofs about it.\<close>

lemma publish_states:
  assumes "sess m i = Some s"
  obtains m2 failed m3 s3 ev where
    "ev = \<lparr>Sequence = se_lastSequence s + 1, Data = d\<rparr>"
    "m2 = appendHistoryLocked i ev (bump_sequence i m)"
    "foldl (publish_step i ev) ([], m2) (se_attachments s) = (failed, m3)"
    "sess m3 i = Some s3"
    "snd (publish i d m) = snd (emitLocked \<lparr>ev_Kind = EventOutput, ev_Session = infoLocked s3,
        ev_Output = Some ev, ev_Attachment = None\<rparr> m3)"
proof -
  let ?ev = "\<lparr>Sequence = se_lastSequence s + 1, Data = d\<rparr>"
  let ?m2 = "appendHistoryLocked i ?ev (bump_sequence i m)"
  obtain failed m3 where m3: "foldl (publish_step i ?ev) ([], ?m2) (se_attachments s) = (failed, m3)"
    by (cases "foldl (publish_step i ?ev) ([], ?m2) (se_attachments s)")
  have "life_same (bump_sequence i m) ?m2" by (rule appendHistory_life)
  moreover have "life_same ?m2 m3"
    using foldl_life [where f = "publish_step i ?ev" and st = "([], ?m2)" and xs = "se_attachments s",
        OF publish_step_life] m3 by simp
  ultimately have "sess m3 i \<noteq> None"
    using bump_life [of m i] assms by (auto simp: life_same_def dest!: spec [of _ i])
  then obtain s3 where s3: "sess m3 i = Some s3" by blast
  have b: "sess (bump_sequence i m) i = Some (s\<lparr>se_lastSequence := se_lastSequence s + 1\<rparr>)"
    using assms by (simp add: bump_sequence_def)
  show ?thesis
    by (rule that [OF refl refl m3 s3]) (auto simp: publish_def b m3 s3 Let_def split: prod.splits)
qed

lemma publish_life: "life_same m (snd (publish i d m))"
proof (cases "sess m i")
  case None
  then show ?thesis using bump_life [of m i] by (simp add: publish_def Let_def bump_sequence_def)
next
  case (Some s)
  from publish_states [OF Some, of d] obtain m2 failed m3 s3 ev where
    p: "ev = \<lparr>Sequence = se_lastSequence s + 1, Data = d\<rparr>"
    "m2 = appendHistoryLocked i ev (bump_sequence i m)"
    "foldl (publish_step i ev) ([], m2) (se_attachments s) = (failed, m3)"
    "snd (publish i d m) = snd (emitLocked \<lparr>ev_Kind = EventOutput, ev_Session = infoLocked s3,
        ev_Output = Some ev, ev_Attachment = None\<rparr> m3)" by metis
  have "life_same m2 m3"
    using foldl_life [where f = "publish_step i ev" and st = "([], m2)" and xs = "se_attachments s",
        OF publish_step_life] p(3) by simp
  then have "life_same m m3"
    using life_same_trans [OF life_same_trans [OF bump_life appendHistory_life]] p(2) by blast
  then show ?thesis unfolding p(4) by (rule life_same_trans [OF _ life_same_emit])
qed

lemma exit_step_life: "life_same (snd st) (snd (exit_step status st k))"
  by (auto simp: exit_step_def life_upd_att split: prod.splits option.splits)

section \<open>The lifecycle invariant\<close>

fun early :: "run_pc \<Rightarrow> bool" where
  "early RunPumping = True" | "early (RunPumped _) = True" | "early _ = False"

fun late :: "run_pc \<Rightarrow> bool" where
  "late (RunEvicting _) = True" | "late RunDone = True" | "late _ = False"

lemma early_not_late: "early pc \<Longrightarrow> \<not> late pc"
  by (cases pc) auto

text \<open>
  A session's goroutine and its visible state agree; a session is registered at least until
  its goroutine has retired it; a session is never retained and being removed at once, which
  is what lets the eviction loop end.
\<close>

definition session_ok :: "StreamID list \<Rightarrow> StreamID list \<Rightarrow> StreamID \<Rightarrow> Session \<Rightarrow> bool" where
  "session_ok regs retained i s \<longleftrightarrow>
     se_id s = i
     \<and> (if early (se_pc s) then (se_state s = SessionRunning \<or> se_state s = SessionStopping) \<and> se_exit s = None
        else se_state s = SessionExited \<and> se_exit s \<noteq> None)
     \<and> (\<not> late (se_pc s) \<longrightarrow> i \<in> set regs \<and> \<not> se_retained s \<and> \<not> se_removing s)
     \<and> \<not> (se_retained s \<and> se_removing s)
     \<and> (se_retained s \<longleftrightarrow> i \<in> set retained)
     \<and> (se_retained s \<or> se_removing s \<longrightarrow> i \<in> set regs)"

definition is_early :: "Manager \<Rightarrow> StreamID \<Rightarrow> bool" where
  "is_early m i = (case sess m i of None \<Rightarrow> False | Some s \<Rightarrow> early (se_pc s))"

definition sessions_ok :: "Manager \<Rightarrow> bool" where
  "sessions_ok m \<longleftrightarrow>
     is_map (m_store m) \<and> distinct (m_sessions m) \<and> distinct (m_retainedExited m)
     \<and> (\<forall>i \<in> set (m_sessions m). sess m i \<noteq> None)
     \<and> (\<forall>i \<in> set (m_retainedExited m). sess m i \<noteq> None)
     \<and> (\<forall>i s. sess m i = Some s \<longrightarrow> session_ok (m_sessions m) (m_retainedExited m) i s)
     \<and> m_activeSessions m = int (length (filter (is_early m) (m_sessions m)))"

definition ids_ok :: "Manager \<Rightarrow> (StreamID \<times> ProcessSpec) list \<Rightarrow> bool" where
  "ids_ok m opens \<longleftrightarrow>
     distinct (map fst opens) \<and> (\<forall>i \<in> set (map fst opens). sess m i = None)
     \<and> (\<forall>i. i \<in> set (map fst opens) \<or> sess m i \<noteq> None \<longrightarrow> i \<noteq> 0 \<and> (m_sessionIDExhausted m \<or> i \<le> m_nextSession m))
     \<and> m_starting m = int (length opens)"

definition life_ok :: "msys \<Rightarrow> bool" where
  "life_ok y \<longleftrightarrow>
     sessions_ok (y_m y) \<and> ids_ok (y_m y) (y_opens y)
     \<and> ManagerConfig_validate (m_config (y_m y)) = None
     \<and> m_activeSessions (y_m y) + m_starting (y_m y) \<le> MaxSessions (m_config (y_m y))
     \<and> int (length (m_retainedExited (y_m y))) \<le> MaxRetainedSessions (SessionLifecycle (m_config (y_m y)))"

lemma session_ok_retained:
  "j \<in> set ret \<longleftrightarrow> j \<in> set ret' \<Longrightarrow> session_ok regs ret j s = session_ok regs ret' j s"
  by (simp add: session_ok_def)

lemma session_ok_life: "life s = life t \<Longrightarrow> session_ok regs ret i s = session_ok regs ret i t"
  by (simp add: session_ok_def life_def)

lemma life_same_sess: "life_same m m' \<Longrightarrow> map_option life (sess m' i) = map_option life (sess m i)"
  by (simp add: life_same_def)

lemma life_same_some:
  "life_same m m' \<Longrightarrow> sess m' i = Some s' \<Longrightarrow> \<exists>s. sess m i = Some s \<and> life s' = life s"
  using life_same_sess [of m m' i] by (cases "sess m i") auto

lemma life_same_None: "life_same m m' \<Longrightarrow> (sess m' i = None) = (sess m i = None)"
  using life_same_sess [of m m' i] by (cases "sess m i"; cases "sess m' i") auto

lemma life_same_early: "life_same m m' \<Longrightarrow> is_early m' i = is_early m i"
  using life_same_sess [of m m' i]
  by (cases "sess m i"; cases "sess m' i") (auto simp: is_early_def life_def)

lemma life_same_fields:
  assumes "life_same m m'"
  shows "m_config m' = m_config m" "m_sessions m' = m_sessions m" "m_retainedExited m' = m_retainedExited m"
    "m_starting m' = m_starting m" "m_activeSessions m' = m_activeSessions m"
    "m_nextSession m' = m_nextSession m" "m_sessionIDExhausted m' = m_sessionIDExhausted m"
    "m_closing m' = m_closing m" "is_map (m_store m) \<Longrightarrow> is_map (m_store m')"
  using assms by (simp_all add: life_same_def)

lemma life_same_sessions_ok:
  assumes "life_same m m'" and "sessions_ok m"
  shows "sessions_ok m'"
proof -
  have 1: "filter (is_early m') (m_sessions m') = filter (is_early m) (m_sessions m)"
    using life_same_early [OF assms(1)] life_same_fields(2) [OF assms(1)] by (auto intro: filter_cong)
  have 2: "session_ok (m_sessions m') (m_retainedExited m') i s'" if s': "sess m' i = Some s'" for i s'
  proof -
    obtain s where s: "sess m i = Some s" "life s' = life s" using life_same_some [OF assms(1) s'] by blast
    then have "session_ok (m_sessions m) (m_retainedExited m) i s"
      using assms(2) by (simp add: sessions_ok_def)
    then show ?thesis
      using session_ok_life [OF s(2)] life_same_fields(2,3) [OF assms(1)] by simp
  qed
  show ?thesis
    using assms(2) 1 2 life_same_None [OF assms(1)] life_same_fields [OF assms(1)]
    unfolding sessions_ok_def by simp
qed

lemma life_same_ids_ok:
  assumes "life_same m m'" and "ids_ok m opens"
  shows "ids_ok m' opens"
  using assms(2) life_same_None [OF assms(1)] life_same_fields [OF assms(1)]
  unfolding ids_ok_def by simp

lemma life_same_life_ok:
  assumes "life_same (y_m y) (y_m y')" and "life_ok y" and "y_opens y' = y_opens y"
  shows "life_ok y'"
  using assms(2,3) life_same_sessions_ok [OF assms(1)] life_same_ids_ok [OF assms(1)]
    life_same_fields [OF assms(1)]
  unfolding life_ok_def by simp

section \<open>Operations that move a session\<close>

lemma sessions_okD:
  assumes "sessions_ok m"
  shows "is_map (m_store m)" "distinct (m_sessions m)" "distinct (m_retainedExited m)"
    "i \<in> set (m_sessions m) \<Longrightarrow> sess m i \<noteq> None" "i \<in> set (m_retainedExited m) \<Longrightarrow> sess m i \<noteq> None"
    "sess m i = Some s \<Longrightarrow> session_ok (m_sessions m) (m_retainedExited m) i s"
    "m_activeSessions m = int (length (filter (is_early m) (m_sessions m)))"
  using assms unfolding sessions_ok_def by blast+

lemma sessions_ok_upd:
  assumes "sessions_ok m"
    and "\<And>s. sess m i = Some s \<Longrightarrow> session_ok (m_sessions m) (m_retainedExited m) i (f s)"
    and "\<And>s. sess m i = Some s \<Longrightarrow> early (se_pc (f s)) = early (se_pc s)"
  shows "sessions_ok (upd_session i f m)"
proof -
  have "is_early (upd_session i f m) = is_early m"
    using assms(3) by (auto simp: is_early_def fun_eq_iff split: option.splits)
  moreover have "session_ok (m_sessions m) (m_retainedExited m) j t"
    if "sess (upd_session i f m) j = Some t" for j t
    using that assms(2) sessions_okD(6) [OF assms(1), of j] by (auto split: if_splits)
  ultimately show ?thesis using assms(1) by (simp add: sessions_ok_def)
qed

lemma ids_ok_upd [simp]: "ids_ok m opens \<Longrightarrow> ids_ok (upd_session i f m) opens"
  by (auto simp: ids_ok_def)

lemma open_reserve_cases:
  obtains (refused) e where "fst (open_reserve m) = Inl e" "snd (open_reserve m) = m"
  | (exhausted) e where "fst (open_reserve m) = Inl e" "\<not> m_sessionIDExhausted m" "m_nextSession m + 1 = 0"
      "snd (open_reserve m) = m\<lparr>m_nextSession := 0, m_sessionIDExhausted := True\<rparr>"
  | (ok) "fst (open_reserve m) = Inr (m_nextSession m + 1)" "\<not> m_closing m" "\<not> m_sessionIDExhausted m"
      "m_nextSession m + 1 \<noteq> 0" "m_activeSessions m + m_starting m < MaxSessions (m_config m)"
      "snd (open_reserve m) = m\<lparr>m_nextSession := m_nextSession m + 1, m_starting := m_starting m + 1\<rparr>"
proof -
  consider "m_closing m \<or> m_activeSessions m + m_starting m \<ge> MaxSessions (m_config m) \<or> m_sessionIDExhausted m"
    | "\<not> m_closing m" "m_activeSessions m + m_starting m < MaxSessions (m_config m)" "\<not> m_sessionIDExhausted m"
      "m_nextSession m + 1 = 0"
    | "\<not> m_closing m" "m_activeSessions m + m_starting m < MaxSessions (m_config m)" "\<not> m_sessionIDExhausted m"
      "m_nextSession m + 1 \<noteq> 0" by fastforce
  then show ?thesis
  proof cases
    case 1
    then have "snd (open_reserve m) = m" "\<exists>e. fst (open_reserve m) = Inl e"
      by (auto simp: open_reserve_def)
    then show ?thesis using refused by blast
  next
    case 2
    then show ?thesis using exhausted by (simp add: open_reserve_def Let_def)
  next
    case 3
    then show ?thesis using ok by (simp add: open_reserve_def Let_def)
  qed
qed

lemma reserve_fresh:
  assumes "ids_ok m opens" and "\<not> m_sessionIDExhausted m" and "m_nextSession m + 1 \<noteq> 0"
  shows "m_nextSession m + 1 \<notin> set (map fst opens)" "sess m (m_nextSession m + 1) = None"
    "m_nextSession m < m_nextSession m + 1"
proof -
  show lt: "m_nextSession m < m_nextSession m + 1"
    using assms(3) by (intro word_less_succ) (metis add.commute add.right_inverse)
  have "\<not> m_nextSession m + 1 \<le> m_nextSession m" using lt by simp
  then show "m_nextSession m + 1 \<notin> set (map fst opens)" "sess m (m_nextSession m + 1) = None"
    using assms(1,2) unfolding ids_ok_def by blast+
qed

lemma open_reserve_ids:
  assumes "ids_ok m opens" and "open_reserve m = (Inr sid, m')"
  shows "ids_ok m' (opens @ [(sid, spec)])"
proof (cases m rule: open_reserve_cases)
  case ok
  then have sid: "sid = m_nextSession m + 1"
    and m': "m' = m\<lparr>m_nextSession := m_nextSession m + 1, m_starting := m_starting m + 1\<rparr>"
    using assms(2) by auto
  note fresh = reserve_fresh [OF assms(1) ok(3,4)]
  have "i \<noteq> 0 \<and> i \<le> m_nextSession m + 1" if "i \<in> set (map fst opens) \<or> sess m i \<noteq> None" for i
  proof -
    have "i \<noteq> 0 \<and> i \<le> m_nextSession m" using that assms(1) ok(3) unfolding ids_ok_def by blast
    then show ?thesis using fresh(3) by auto
  qed
  then show ?thesis
    using assms(1) fresh(1,2) ok(4) unfolding ids_ok_def by (auto simp: m' sid)
qed (use assms(2) in auto)

lemma open_reserve_refused_ok:
  assumes "ids_ok m opens" and "open_reserve m = (Inl e, m')"
  shows "ids_ok m' opens"
proof (cases m rule: open_reserve_cases)
  case exhausted
  then show ?thesis using assms unfolding ids_ok_def by auto
qed (use assms in auto)

lemma ids_ok_remove:
  assumes "ids_ok m opens" and "p \<in> set opens"
  shows "ids_ok (m\<lparr>m_starting := m_starting m - 1\<rparr>) (remove1 p opens)"
proof -
  have "length (remove1 p opens) + 1 = length opens"
    using assms(2) length_pos_if_in_set [OF assms(2)] by (simp add: length_remove1)
  then have "int (length (remove1 p opens)) = int (length opens) - 1" by linarith
  moreover have "distinct (map fst (remove1 p opens))"
    using assms(1) by (simp add: ids_ok_def distinct_map distinct_remove1 inj_on_diff)
  moreover have "set (map fst (remove1 p opens)) \<subseteq> set (map fst opens)"
    using set_remove1_subset [of p opens] by auto
  ultimately show ?thesis using assms(1) unfolding ids_ok_def by (auto simp: subset_iff)
qed

lemma open_register_cases:
  assumes "open_register sid spec now m = (res, m')"
  obtains (refused) e where "res = Inl e" "m' = m\<lparr>m_starting := m_starting m - 1\<rparr>"
  | (ok) m1 failed where "res = Inr failed" "\<not> m_closing m" "m_activeSessions m < MaxSessions (m_config m)"
      "m1 = m\<lparr>m_starting := m_starting m - 1,
              m_store := mput sid (new_session sid (InitialSize spec) now) (m_store m),
              m_sessions := m_sessions m @ [sid], m_generation := m_generation m + 1,
              m_activeSessions := m_activeSessions m + 1\<rparr>"
      "m' = snd (emitLocked (session_event EventOpened (new_session sid (InitialSize spec) now)) m1)"
proof (cases "m_closing m \<or> m_activeSessions m \<ge> MaxSessions (m_config m)")
  case True
  then show ?thesis using refused assms by (auto simp: open_register_def Let_def)
next
  case False
  define m1 where "m1 = m\<lparr>m_starting := m_starting m - 1,
              m_store := mput sid (new_session sid (InitialSize spec) now) (m_store m),
              m_sessions := m_sessions m @ [sid], m_generation := m_generation m + 1,
              m_activeSessions := m_activeSessions m + 1\<rparr>"
  obtain failed m2 where em: "emitLocked (session_event EventOpened (new_session sid (InitialSize spec) now)) m1 = (failed, m2)"
    by fastforce
  have "(res, m') = (Inr failed, m2)"
    using assms False em unfolding open_register_def Let_def m1_def by simp
  then show ?thesis using ok [OF _ _ _ m1_def] False em by simp
qed

lemma sessions_ok_add:
  assumes "sessions_ok m" and "sess m sid = None"
    and "m1 = m\<lparr>m_starting := x, m_store := mput sid (new_session sid sz now) (m_store m),
              m_sessions := m_sessions m @ [sid], m_generation := g, m_activeSessions := m_activeSessions m + 1\<rparr>"
  shows "sessions_ok m1"
proof -
  have new: "sid \<notin> set (m_sessions m)" "sid \<notin> set (m_retainedExited m)"
    using sessions_okD(4,5) [OF assms(1), of sid] assms(2) by auto
  have "filter (is_early m1) (m_sessions m) = filter (is_early m) (m_sessions m)"
    using new by (intro filter_cong) (auto simp: assms(3) is_early_def)
  moreover have "is_early m1 sid" by (simp add: assms(3) is_early_def new_session_def)
  ultimately have act: "m_activeSessions m1 = int (length (filter (is_early m1) (m_sessions m1)))"
    using sessions_okD(7) [OF assms(1)] by (simp add: assms(3))
  have ok: "session_ok (m_sessions m1) (m_retainedExited m1) j t" if "sess m1 j = Some t" for j t
  proof (cases "j = sid")
    case True
    then show ?thesis using that new by (auto simp: assms(3) session_ok_def new_session_def)
  next
    case False
    then have "session_ok (m_sessions m) (m_retainedExited m) j t"
      using that sessions_okD(6) [OF assms(1)] by (simp add: assms(3))
    then show ?thesis by (auto simp: assms(3) session_ok_def)
  qed
  show ?thesis unfolding sessions_ok_def
    using act ok new sessions_okD(1-5) [OF assms(1)] by (auto simp: assms(3))
qed

lemma ids_ok_add:
  assumes "ids_ok m opens" and "(sid, spec) \<in> set opens"
    and "m1 = m\<lparr>m_starting := m_starting m - 1, m_store := mput sid s (m_store m),
              m_sessions := r, m_generation := g, m_activeSessions := a\<rparr>"
  shows "ids_ok m1 (remove1 (sid, spec) opens)"
proof -
  have d: "distinct (map fst opens)" using assms(1) by (simp add: ids_ok_def)
  have out: "sid \<notin> set (map fst (remove1 (sid, spec) opens))"
    using d assms(2) by (induction opens) (auto simp: image_iff)
  have out': "(sid, b) \<notin> set (remove1 (sid, spec) opens)" for b using out by force
  have sid: "sid \<in> set (map fst opens)" using assms(2) by force
  show ?thesis
    using ids_ok_remove [OF assms(1,2)] out' sid assms(1) unfolding ids_ok_def
    by (auto simp: assms(3))
qed

lemma run_exit_states:
  assumes "sess m i = Some s"
  obtains m1 failed m2 s1 where
    "s1 = s\<lparr>se_pc := RunDraining (map snd (se_attachments s)), se_state := SessionExited, se_exit := Some status\<rparr>"
    "m1 = m\<lparr>m_store := mput i s1 (m_store m), m_processesExited := m_processesExited m + 1,
            m_activeSessions := (if m_activeSessions m > 0 then m_activeSessions m - 1 else m_activeSessions m)\<rparr>"
    "foldl (exit_step status) ([], m1) (map snd (se_attachments s)) = (failed, m2)"
    "snd (run_exit i status m) = snd (emitLocked (session_event EventExited s1) m2)"
    "life_same m1 (snd (run_exit i status m))"
proof -
  define s1 where "s1 = s\<lparr>se_pc := RunDraining (map snd (se_attachments s)), se_state := SessionExited, se_exit := Some status\<rparr>"
  define m1 where "m1 = m\<lparr>m_store := mput i s1 (m_store m), m_processesExited := m_processesExited m + 1,
            m_activeSessions := (if m_activeSessions m > 0 then m_activeSessions m - 1 else m_activeSessions m)\<rparr>"
  obtain failed m2 where m2: "foldl (exit_step status) ([], m1) (map snd (se_attachments s)) = (failed, m2)"
    by fastforce
  have fin: "snd (run_exit i status m) = snd (emitLocked (session_event EventExited s1) m2)"
    using assms m2 by (simp add: run_exit_def Let_def m1_def s1_def split: prod.splits)
  have "life_same m1 m2"
    using foldl_life [where f = "exit_step status" and st = "([], m1)" and xs = "map snd (se_attachments s)",
        OF exit_step_life] m2 by simp
  then have "life_same m1 (snd (run_exit i status m))"
    unfolding fin by (rule life_same_trans [OF _ life_same_emit])
  then show ?thesis using that [OF s1_def m1_def m2 fin] by blast
qed

lemma filter_one_less:
  assumes "distinct xs" and "i \<in> set xs" and "P i" and "\<not> Q i" and "\<And>j. j \<in> set xs \<Longrightarrow> j \<noteq> i \<Longrightarrow> Q j = P j"
  shows "int (length (filter Q xs)) = int (length (filter P xs)) - 1"
  using assms
proof (induction xs)
  case (Cons x xs)
  show ?case
  proof (cases "x = i")
    case True
    then have "filter Q xs = filter P xs" using Cons.prems by (intro filter_cong) auto
    then show ?thesis using True Cons.prems by simp
  next
    case False
    then show ?thesis using Cons by auto
  qed
qed simp

lemma run_exit_sessions_ok:
  assumes "sessions_ok m" and s: "sess m i = Some s" and "early (se_pc s)"
  shows "sessions_ok (snd (run_exit i status m))"
    "m_activeSessions (snd (run_exit i status m)) = m_activeSessions m - 1"
proof -
  from run_exit_states [OF s] obtain m1 s1 where
    s1: "s1 = s\<lparr>se_pc := RunDraining (map snd (se_attachments s)), se_state := SessionExited, se_exit := Some status\<rparr>"
    and m1: "m1 = m\<lparr>m_store := mput i s1 (m_store m), m_processesExited := m_processesExited m + 1,
            m_activeSessions := (if m_activeSessions m > 0 then m_activeSessions m - 1 else m_activeSessions m)\<rparr>"
    and same: "life_same m1 (snd (run_exit i status m))" by metis
  have so: "session_ok (m_sessions m) (m_retainedExited m) i s" by (rule sessions_okD(6) [OF assms(1) s])
  have reg: "i \<in> set (m_sessions m)" and nr: "\<not> se_retained s" "\<not> se_removing s" "i \<notin> set (m_retainedExited m)"
    "se_id s = i"
    using so early_not_late [OF assms(3)] unfolding session_ok_def by blast+
  have "int (length (filter (is_early m1) (m_sessions m))) = int (length (filter (is_early m) (m_sessions m))) - 1"
    by (rule filter_one_less [OF sessions_okD(2) [OF assms(1)] reg])
      (use s assms(3) in \<open>auto simp: m1 s1 is_early_def\<close>)
  moreover have "0 < m_activeSessions m"
  proof -
    have "i \<in> set (filter (is_early m) (m_sessions m))" using reg s assms(3) by (simp add: is_early_def)
    then show ?thesis using sessions_okD(7) [OF assms(1)] length_pos_if_in_set by fastforce
  qed
  ultimately have act: "m_activeSessions m1 = int (length (filter (is_early m1) (m_sessions m1)))"
    and act': "m_activeSessions m1 = m_activeSessions m - 1"
    using sessions_okD(7) [OF assms(1)] by (simp_all add: m1)
  have ok: "session_ok (m_sessions m1) (m_retainedExited m1) j t" if "sess m1 j = Some t" for j t
  proof (cases "j = i")
    case True
    then have "t = s1" using that by (simp add: m1)
    then show ?thesis using True reg nr by (simp add: m1 s1 session_ok_def)
  next
    case False
    then show ?thesis using that sessions_okD(6) [OF assms(1)] by (simp add: m1)
  qed
  have "sessions_ok m1" unfolding sessions_ok_def
    using act ok sessions_okD(1-5) [OF assms(1)] by (auto simp: m1)
  then show "sessions_ok (snd (run_exit i status m))" by (rule life_same_sessions_ok [OF same])
  show "m_activeSessions (snd (run_exit i status m)) = m_activeSessions m - 1"
    using life_same_fields(5) [OF same] act' by simp
qed

section \<open>Retention and removal\<close>

text \<open>
  While \<open>run\<close> retires its own session, that session's goroutine has not yet moved on; the
  invariant is stated with such sessions read as if it had.
\<close>

definition sessions_okX :: "StreamID set \<Rightarrow> Manager \<Rightarrow> bool" where
  "sessions_okX X m \<longleftrightarrow>
     is_map (m_store m) \<and> distinct (m_sessions m) \<and> distinct (m_retainedExited m)
     \<and> (\<forall>i \<in> set (m_sessions m). sess m i \<noteq> None)
     \<and> (\<forall>i \<in> set (m_retainedExited m). sess m i \<noteq> None)
     \<and> (\<forall>i s. sess m i = Some s \<longrightarrow> session_ok (m_sessions m) (m_retainedExited m) i
          (if i \<in> X then s\<lparr>se_pc := RunDone\<rparr> else s) \<and> (i \<in> X \<longrightarrow> \<not> early (se_pc s)))
     \<and> m_activeSessions m = int (length (filter (is_early m) (m_sessions m)))"

lemma sessions_okX_empty: "sessions_okX {} m \<longleftrightarrow> sessions_ok m"
  by (simp add: sessions_okX_def sessions_ok_def)

lemma sessions_okXD:
  assumes "sessions_okX X m"
  shows "is_map (m_store m)" "distinct (m_sessions m)" "distinct (m_retainedExited m)"
    "i \<in> set (m_sessions m) \<Longrightarrow> sess m i \<noteq> None" "i \<in> set (m_retainedExited m) \<Longrightarrow> sess m i \<noteq> None"
    "sess m i = Some s \<Longrightarrow> session_ok (m_sessions m) (m_retainedExited m) i (if i \<in> X then s\<lparr>se_pc := RunDone\<rparr> else s)"
    "sess m i = Some s \<Longrightarrow> i \<in> X \<Longrightarrow> \<not> early (se_pc s)"
    "m_activeSessions m = int (length (filter (is_early m) (m_sessions m)))"
  using assms unfolding sessions_okX_def by blast+

lemma sessions_okX_enter:
  assumes "sessions_ok m" and "sess m i = Some s" and "\<not> early (se_pc s)"
  shows "sessions_okX {i} m"
proof -
  have "session_ok (m_sessions m) (m_retainedExited m) i (s\<lparr>se_pc := RunDone\<rparr>)"
    using sessions_okD(6) [OF assms(1,2)] assms(3) by (simp add: session_ok_def)
  then show ?thesis
    using assms sessions_okD(6) [OF assms(1)] unfolding sessions_okX_def sessions_ok_def by auto
qed

lemma sessions_okX_leave:
  assumes "sessions_okX {i} m" and "late p"
  shows "sessions_ok (upd_session i (\<lambda>s. s\<lparr>se_pc := p\<rparr>) m)"
proof -
  let ?m = "upd_session i (\<lambda>s. s\<lparr>se_pc := p\<rparr>) m"
  have ne: "\<not> early p" using assms(2) early_not_late by blast
  have "is_early ?m = is_early m"
    using sessions_okXD(7) [OF assms(1)] ne by (auto simp: is_early_def fun_eq_iff split: option.splits)
  moreover have "session_ok (m_sessions m) (m_retainedExited m) j t" if "sess ?m j = Some t" for j t
    using that sessions_okXD(6) [OF assms(1), of j] ne assms(2)
    by (cases "j = i") (auto simp: session_ok_def)
  ultimately show ?thesis
    using sessions_okXD [OF assms(1)] unfolding sessions_ok_def by auto
qed

lemma life_same_okX:
  assumes "life_same m m'" and "sessions_okX X m"
  shows "sessions_okX X m'"
proof -
  have 1: "filter (is_early m') (m_sessions m') = filter (is_early m) (m_sessions m)"
    using life_same_early [OF assms(1)] life_same_fields(2) [OF assms(1)] by (auto intro: filter_cong)
  have 2: "session_ok (m_sessions m') (m_retainedExited m') i (if i \<in> X then s'\<lparr>se_pc := RunDone\<rparr> else s')
      \<and> (i \<in> X \<longrightarrow> \<not> early (se_pc s'))"
    if s': "sess m' i = Some s'" for i s'
  proof -
    obtain s where s: "sess m i = Some s" "life s' = life s" using life_same_some [OF assms(1) s'] by blast
    have "session_ok (m_sessions m) (m_retainedExited m) i (if i \<in> X then s\<lparr>se_pc := RunDone\<rparr> else s)"
      "i \<in> X \<Longrightarrow> \<not> early (se_pc s)"
      using sessions_okXD(6,7) [OF assms(2) s(1)] by auto
    moreover have "life (if i \<in> X then s'\<lparr>se_pc := RunDone\<rparr> else s') = life (if i \<in> X then s\<lparr>se_pc := RunDone\<rparr> else s)"
      and "se_pc s' = se_pc s"
      using s(2) by (simp_all add: life_def)
    ultimately show ?thesis
      using session_ok_life life_same_fields(2,3) [OF assms(1)] by metis
  qed
  show ?thesis
    using sessions_okXD [OF assms(2)] 1 2 life_same_None [OF assms(1)] life_same_fields [OF assms(1)]
    unfolding sessions_okX_def by simp
qed

lemma removeHistory_life: "life_same m (removeHistoryLocked i m)"
  by (auto simp: life_same_def removeHistoryLocked_def life_def split: option.splits)

lemma filter_drop_false:
  "\<not> P i \<Longrightarrow> filter P (filter (\<lambda>j. j \<noteq> i) xs) = filter P xs"
  by (induction xs) auto

lemma removeSession_okX:
  assumes "sessions_okX X m" and s: "sess m i = Some s" and "late (se_pc s) \<or> i \<in> X"
  shows "sessions_okX X (removeSessionLocked i m)"
proof -
  define m3 where "m3 = upd_session i (\<lambda>s. s\<lparr>se_retained := False, se_removing := False\<rparr>)
    (removeRetainedIDLocked i (m\<lparr>m_sessions := filter (\<lambda>j. j \<noteq> i) (m_sessions m)\<rparr>))"
  have f3: "m_sessions m3 = filter (\<lambda>j. j \<noteq> i) (m_sessions m)"
    "m_retainedExited m3 = remove1 i (m_retainedExited m)" "m_activeSessions m3 = m_activeSessions m"
    by (simp_all add: m3_def removeRetainedIDLocked_def)
  have s3: "sess m3 j = (if i = j then map_option (\<lambda>s. s\<lparr>se_retained := False, se_removing := False\<rparr>) (sess m j) else sess m j)" for j
    by (simp add: m3_def removeRetainedIDLocked_def)
  have mp: "is_map (m_store m3)"
    using sessions_okXD(1) [OF assms(1)] by (simp add: m3_def removeRetainedIDLocked_def)
  have ne: "\<not> is_early m i"
    using s assms(3) sessions_okXD(7) [OF assms(1) s] early_not_late by (auto simp: is_early_def)
  have e3: "is_early m3 = is_early m" by (auto simp: is_early_def s3 fun_eq_iff split: option.splits)
  have act: "m_activeSessions m3 = int (length (filter (is_early m3) (m_sessions m3)))"
    using filter_drop_false [of "is_early m" i "m_sessions m"] ne sessions_okXD(8) [OF assms(1)] by (simp add: f3 e3)
  have d: "distinct (m_retainedExited m)" by (rule sessions_okXD(3) [OF assms(1)])
  have ok: "session_ok (m_sessions m3) (m_retainedExited m3) j (if j \<in> X then t\<lparr>se_pc := RunDone\<rparr> else t)
      \<and> (j \<in> X \<longrightarrow> \<not> early (se_pc t))" if t: "sess m3 j = Some t" for j t
  proof (cases "j = i")
    case True
    then have "t = s\<lparr>se_retained := False, se_removing := False\<rparr>" using t s by (simp add: s3)
    then show ?thesis
      using True d sessions_okXD(6,7) [OF assms(1) s] assms(3) by (auto simp: session_ok_def f3)
  next
    case False
    then have "sess m j = Some t" using t by (simp add: s3)
    from sessions_okXD(6,7) [OF assms(1) this] False d show ?thesis
      by (auto simp: session_ok_def f3 in_set_remove1)
  qed
  have "sessions_okX X m3" unfolding sessions_okX_def
    using mp act ok sessions_okXD(2-5) [OF assms(1)] d
    by (auto simp: f3 s3 distinct_remove1 dest: notin_set_remove1 in_set_remove1 [THEN iffD1, rotated])
  then have "sessions_okX X (removeHistoryLocked i m3)" by (rule life_same_okX [OF removeHistory_life])
  moreover have "life_same a (a\<lparr>m_generation := g\<rparr>)" for a g by (simp add: life_same_def)
  ultimately show ?thesis
    unfolding removeSessionLocked_def Let_def m3_def [symmetric] using life_same_okX by blast
qed

text \<open>What eviction does to the rest of the state: it detaches and marks the evicted sessions.\<close>

definition evicted_session :: "Session \<Rightarrow> Session" where
  "evicted_session s = s\<lparr>se_attachments := [], se_retained := False, se_removing := True\<rparr>"

definition evicted :: "Manager \<Rightarrow> Manager \<Rightarrow> bool" where
  "evicted m m' \<longleftrightarrow>
     (\<exists>st ret. m' = m\<lparr>m_store := st, m_retainedExited := ret\<rparr>)
     \<and> (\<forall>j. rel_option (\<lambda>s s'. s' = s \<or> s' = evicted_session s) (sess m j) (sess m' j))"

lemma evicted_refl [simp]: "evicted m m"
proof -
  have "m = m\<lparr>m_store := m_store m, m_retainedExited := m_retainedExited m\<rparr>" by simp
  then show ?thesis unfolding evicted_def by (blast intro: option.rel_refl)
qed

lemma evicted_trans:
  assumes "evicted a b" and "evicted b c"
  shows "evicted a c"
proof -
  have "rel_option (\<lambda>s s'. s' = s \<or> s' = evicted_session s) (sess a j) (sess c j)" for j
  proof -
    have "rel_option (\<lambda>s s'. s' = s \<or> s' = evicted_session s) (sess a j) (sess b j)"
      "rel_option (\<lambda>s s'. s' = s \<or> s' = evicted_session s) (sess b j) (sess c j)"
      using assms by (auto simp: evicted_def)
    then show ?thesis
      by (cases "sess a j"; cases "sess b j"; cases "sess c j") (auto simp: evicted_session_def)
  qed
  then show ?thesis using assms by (fastforce simp: evicted_def)
qed

lemma evicted_fields:
  assumes "evicted m m'"
  shows "m_config m' = m_config m" "m_sessions m' = m_sessions m" "m_starting m' = m_starting m"
    "m_activeSessions m' = m_activeSessions m" "m_nextSession m' = m_nextSession m"
    "m_sessionIDExhausted m' = m_sessionIDExhausted m" "m_closing m' = m_closing m" "m_atts m' = m_atts m"
    "m_observers m' = m_observers m" "m_subs m' = m_subs m" "m_historyBytes m' = m_historyBytes m"
    "m_nextHistory m' = m_nextHistory m" "m_nextAttachment m' = m_nextAttachment m"
    "m_nextObserver m' = m_nextObserver m"
  using assms by (auto simp: evicted_def)

lemma evicted_some:
  assumes "evicted m m'" and "sess m' j = Some s'"
  obtains s where "sess m j = Some s" "s' = s \<or> s' = evicted_session s"
  using assms by (auto simp: evicted_def option_rel_Some2 dest!: spec [of _ j])

lemma evicted_None: "evicted m m' \<Longrightarrow> (sess m' j = None) = (sess m j = None)"
  by (cases "sess m j"; cases "sess m' j") (auto simp: evicted_def dest!: spec [of _ j])

lemma beginRemoval_cases:
  obtains (no) "beginRetainedRemovalLocked i reason kind m = (None, m)"
      "\<not> (\<exists>s. sess m i = Some s \<and> se_retained s \<and> \<not> se_removing s)"
  | (yes) s m' where "sess m i = Some s" "se_retained s" "\<not> se_removing s"
      "beginRetainedRemovalLocked i reason kind m =
         (Some \<lparr>rr_session = i, rr_attachments = map snd (se_attachments s), rr_attachmentReason = reason,
                rr_eventKind = kind\<rparr>, m')"
      "m' = m\<lparr>m_store := mput i (evicted_session s) (m_store m), m_retainedExited := remove1 i (m_retainedExited m)\<rparr>"
proof (cases "\<exists>s. sess m i = Some s \<and> se_retained s \<and> \<not> se_removing s")
  case True
  then obtain s where s: "sess m i = Some s" "se_retained s" "\<not> se_removing s" by blast
  have up: "mput i x (mput i z st) = mput i x st" for x z and st :: "(StreamID, Session) gomap"
    by (induction st) auto
  show ?thesis
    by (rule yes [OF s _ refl])
      (use s in \<open>simp add: beginRetainedRemovalLocked_def Let_def upd_session_def removeRetainedIDLocked_def
        up evicted_session_def\<close>)
next
  case False
  then show ?thesis using no
    by (auto simp: beginRetainedRemovalLocked_def split: option.splits)
qed

lemma beginRemoval_okX:
  assumes "sessions_okX X m" and s: "sess m i = Some s" "se_retained s" "\<not> se_removing s"
    and m': "m' = m\<lparr>m_store := mput i (evicted_session s) (m_store m), m_retainedExited := remove1 i (m_retainedExited m)\<rparr>"
  shows "sessions_okX X m' \<and> evicted m m'"
proof -
  have d: "distinct (m_retainedExited m)" by (rule sessions_okXD(3) [OF assms(1)])
  have e: "is_early m' = is_early m"
    using s(1) by (auto simp: m' is_early_def fun_eq_iff evicted_session_def)
  have so: "session_ok (m_sessions m) (m_retainedExited m) i (if i \<in> X then s\<lparr>se_pc := RunDone\<rparr> else s)"
    by (rule sessions_okXD(6) [OF assms(1) s(1)])
  have ok: "session_ok (m_sessions m') (m_retainedExited m') j (if j \<in> X then t\<lparr>se_pc := RunDone\<rparr> else t)
      \<and> (j \<in> X \<longrightarrow> \<not> early (se_pc t))" if t: "sess m' j = Some t" for j t
  proof (cases "j = i")
    case True
    then have "t = evicted_session s" using t by (simp add: m')
    then show ?thesis
      using True d so s(2) sessions_okXD(7) [OF assms(1) s(1)]
      by (cases "i \<in> X") (auto simp: session_ok_def m' evicted_session_def)
  next
    case False
    then have tm: "sess m j = Some t" using t by (simp add: m')
    have "j \<in> set (remove1 i (m_retainedExited m)) \<longleftrightarrow> j \<in> set (m_retainedExited m)"
      using False by (simp add: in_set_remove1)
    from session_ok_retained [OF this] show ?thesis
      using sessions_okXD(6,7) [OF assms(1) tm] by (simp add: m')
  qed
  have "sessions_okX X m'" unfolding sessions_okX_def
    using ok sessions_okXD(1-5,8) [OF assms(1)] d s(1) e
    by (auto simp: m' distinct_remove1 dest: notin_set_remove1 in_set_remove1 [THEN iffD1, rotated])
  moreover have "evicted m m'"
    using s(1) unfolding evicted_def by (auto simp: m' option.rel_refl)
  ultimately show ?thesis ..
qed

text \<open>
  The eviction loop ends, and takes exactly the oldest retained sessions beyond the limit.
\<close>

lemma evict_retained_returns:
  assumes "sessions_okX X m" and "0 \<le> MaxRetainedSessions (SessionLifecycle (m_config m))"
  shows "\<exists>rs m'. evict_retained m removals = Some (removals @ rs, m')
    \<and> sessions_okX X m' \<and> evicted m m'
    \<and> map rr_session rs
        = take (length (m_retainedExited m) - nat (MaxRetainedSessions (SessionLifecycle (m_config m)))) (m_retainedExited m)
    \<and> m_retainedExited m'
        = drop (length (m_retainedExited m) - nat (MaxRetainedSessions (SessionLifecycle (m_config m)))) (m_retainedExited m)"
  using assms
proof (induction "m_retainedExited m" arbitrary: m removals)
  case Nil
  then have "evict_retained m removals = Some (removals, m)"
    by (subst evict_retained.simps) simp
  then show ?case using Nil by (intro exI [of _ "[]"] exI [of _ m]) simp
next
  case (Cons i rest)
  let ?max = "MaxRetainedSessions (SessionLifecycle (m_config m))"
  have hd: "m_retainedExited m = i # rest" using Cons.hyps(2) by simp
  show ?case
  proof (cases "int (length (m_retainedExited m)) > ?max")
    case False
    then have "evict_retained m removals = Some (removals, m)"
      by (subst evict_retained.simps) simp
    then show ?thesis using False Cons.prems by (intro exI [of _ "[]"] exI [of _ m]) simp
  next
    case True
    obtain s where s: "sess m i = Some s" using sessions_okXD(5) [OF Cons.prems(1), of i] hd by auto
    have so: "session_ok (m_sessions m) (m_retainedExited m) i (if i \<in> X then s\<lparr>se_pc := RunDone\<rparr> else s)"
      by (rule sessions_okXD(6) [OF Cons.prems(1) s])
    have ret: "se_retained s" "\<not> se_removing s" "i \<in> set (m_sessions m)"
      using so hd by (auto simp: session_ok_def split: if_splits)
    define m1 where "m1 = m\<lparr>m_store := mput i (evicted_session s) (m_store m), m_retainedExited := remove1 i (m_retainedExited m)\<rparr>"
    define r where "r = \<lparr>rr_session = i, rr_attachments = map snd (se_attachments s),
      rr_attachmentReason = AttachmentSessionEvicted, rr_eventKind = EventEvicted\<rparr>"
    have beg: "beginRetainedRemovalLocked i AttachmentSessionEvicted EventEvicted m = (Some r, m1)"
      using ret s by (cases rule: beginRemoval_cases [where i = i and m = m
          and reason = AttachmentSessionEvicted and kind = EventEvicted])
        (auto simp: m1_def r_def)
    have ok1: "sessions_okX X m1" "evicted m m1"
      using beginRemoval_okX [OF Cons.prems(1) s ret(1,2) m1_def] by auto
    have m1r: "m_retainedExited m1 = rest" "m_config m1 = m_config m" by (simp_all add: m1_def hd)
    have "evict_retained m removals = evict_retained m1 (removals @ [r])"
      using True hd s ret beg by (subst evict_retained.simps) (simp add: registered_def)
    moreover obtain rs m' where ih: "evict_retained m1 (removals @ [r]) = Some ((removals @ [r]) @ rs, m')"
      "sessions_okX X m'" "evicted m1 m'"
      "map rr_session rs = take (length rest - nat ?max) rest" "m_retainedExited m' = drop (length rest - nat ?max) rest"
      using Cons.hyps(1) [of m1 "removals @ [r]"] m1r ok1(1) Cons.prems(2) by auto
    moreover have "length (m_retainedExited m) - nat ?max = Suc (length rest - nat ?max)"
      using True Cons.prems(2) hd by simp
    ultimately show ?thesis
      using evicted_trans [OF ok1(2) ih(3)]
      by (intro exI [of _ "r # rs"] exI [of _ m']) (simp add: hd r_def)
  qed
qed

end
