(* ===== verification/Pty_Limits.thy ===== *)
theory Pty_Limits
  imports Pty_Life
begin

text \<open>
  The lifecycle invariant holds in every reachable state of the manager: sessions move only
  forward, and the configured numbers of sessions and retained sessions are never exceeded.
\<close>

section \<open>Retiring a session\<close>

lemma run_retire_cases:
  assumes "run_retire i m = Some (failed, m')"
  obtains (retain) m1 m2 m3 m4 s2 removals where
      "m1 = upd_session i (\<lambda>s. s\<lparr>se_attachments := []\<rparr>) m"
      "\<not> m_closing m" "ExitPolicy (SessionLifecycle (m_config m)) = ExitedSessionRetain"
      "m2 = (upd_session i (\<lambda>s. s\<lparr>se_retained := True\<rparr>) m1)
                   \<lparr>m_retainedExited := m_retainedExited m1 @ [i], m_generation := m_generation m1 + 1\<rparr>"
      "sess m2 i = Some s2" "m3 = snd (emitLocked (session_event EventRetained s2) m2)"
      "evict_retained m3 [] = Some (removals, m4)"
      "m' = upd_session i (\<lambda>s. s\<lparr>se_pc := RunEvicting removals\<rparr>) m4"
  | (remove) m1 m2 m3 s3 where
      "m1 = upd_session i (\<lambda>s. s\<lparr>se_attachments := []\<rparr>) m"
      "m2 = removeSessionLocked i m1" "m3 = m2\<lparr>m_sessionsRemoved := m_sessionsRemoved m2 + 1\<rparr>"
      "sess m3 i = Some s3"
      "m' = upd_session i (\<lambda>s. s\<lparr>se_pc := RunEvicting []\<rparr>) (snd (emitLocked (session_event EventRemoved s3) m3))"
proof -
  define m1 where "m1 = upd_session i (\<lambda>s. s\<lparr>se_attachments := []\<rparr>) m"
  have f1: "m_closing m1 = m_closing m" "m_config m1 = m_config m" by (simp_all add: m1_def)
  show ?thesis
  proof (cases "\<not> m_closing m \<and> ExitPolicy (SessionLifecycle (m_config m)) = ExitedSessionRetain")
    case True
    define m2 where "m2 = (upd_session i (\<lambda>s. s\<lparr>se_retained := True\<rparr>) m1)
      \<lparr>m_retainedExited := m_retainedExited m1 @ [i], m_generation := m_generation m1 + 1\<rparr>"
    from assms True obtain s2 where s2: "sess m2 i = Some s2"
      unfolding run_retire_def Let_def m1_def [symmetric] m2_def [symmetric]
      by (auto simp: f1 split: option.splits)
    obtain f3 m3 where em: "emitLocked (session_event EventRetained s2) m2 = (f3, m3)" by fastforce
    from assms True s2 em obtain removals m4 where ev: "evict_retained m3 [] = Some (removals, m4)"
      "m' = upd_session i (\<lambda>s. s\<lparr>se_pc := RunEvicting removals\<rparr>) m4"
      unfolding run_retire_def Let_def m1_def [symmetric] m2_def [symmetric]
      by (auto simp: f1 beginRetentionEvictionsLocked_def split: option.splits)
    show ?thesis using retain [OF m1_def _ _ m2_def s2 _ ev] True em by simp
  next
    case False
    define m2 where "m2 = removeSessionLocked i m1"
    define m3 where "m3 = m2\<lparr>m_sessionsRemoved := m_sessionsRemoved m2 + 1\<rparr>"
    from assms False obtain s3 where s3: "sess m3 i = Some s3"
      unfolding run_retire_def Let_def m1_def [symmetric] m2_def [symmetric] m3_def [symmetric]
      by (auto simp: f1 split: option.splits)
    have "m' = upd_session i (\<lambda>s. s\<lparr>se_pc := RunEvicting []\<rparr>) (snd (emitLocked (session_event EventRemoved s3) m3))"
      using assms False s3
      unfolding run_retire_def Let_def m1_def [symmetric] m2_def [symmetric] m3_def [symmetric]
      by (auto simp: f1 split: option.splits prod.splits)
    then show ?thesis by (rule remove [OF m1_def m2_def m3_def s3])
  qed
qed

lemma config_limits:
  assumes "ManagerConfig_validate c = None"
  shows "0 < MaxSessions c" "0 \<le> HistoryBytes c" "0 \<le> MaxTotalHistoryBytes c" "0 < ReadBufferBytes c"
    "0 < AttachmentQueueBytes c" "0 < ObserverQueueBytes c" "0 < MaxObservers c" "0 < MaxAttachmentsPerSession c"
    "0 \<le> MaxRetainedSessions (SessionLifecycle c)"
    "ExitPolicy (SessionLifecycle c) = ExitedSessionRetain \<Longrightarrow> 0 < MaxRetainedSessions (SessionLifecycle c)"
  using assms by (auto simp: ManagerConfig_validate_def ExitedSessionRemove_def ExitedSessionRetain_def
      split: if_splits)

lemma retain_okX:
  assumes "sessions_okX {i} m" and s: "sess m i = Some s" "\<not> se_retained s" "\<not> se_removing s" "i \<in> set (m_sessions m)"
    and m2: "m2 = (upd_session i (\<lambda>s. s\<lparr>se_retained := True\<rparr>) m)
                   \<lparr>m_retainedExited := m_retainedExited m @ [i], m_generation := g\<rparr>"
  shows "sessions_okX {i} m2"
proof -
  have so: "session_ok (m_sessions m) (m_retainedExited m) i (s\<lparr>se_pc := RunDone\<rparr>)"
    using sessions_okXD(6) [OF assms(1) s(1)] by simp
  have new: "i \<notin> set (m_retainedExited m)" using so s(2) by (simp add: session_ok_def)
  have e: "is_early m2 = is_early m" by (auto simp: m2 is_early_def fun_eq_iff split: option.splits)
  have ok: "session_ok (m_sessions m2) (m_retainedExited m2) j (if j \<in> {i} then t\<lparr>se_pc := RunDone\<rparr> else t)
      \<and> (j \<in> {i} \<longrightarrow> \<not> early (se_pc t))" if t: "sess m2 j = Some t" for j t
  proof (cases "j = i")
    case True
    then have "t = s\<lparr>se_retained := True\<rparr>" using t s(1) by (simp add: m2)
    then show ?thesis using True so s(3,4) sessions_okXD(7) [OF assms(1) s(1)] by (simp add: session_ok_def m2)
  next
    case False
    then have tm: "sess m j = Some t" using t by (simp add: m2)
    have "j \<in> set (m_retainedExited m @ [i]) \<longleftrightarrow> j \<in> set (m_retainedExited m)" using False by simp
    from session_ok_retained [OF this] show ?thesis
      using sessions_okXD(6) [OF assms(1) tm] False by (simp add: m2)
  qed
  show ?thesis unfolding sessions_okX_def
    using ok new e s(1) sessions_okXD(1-5,8) [OF assms(1)] by (auto simp: m2)
qed

text \<open>
  Retiring keeps the invariant; \<open>run_retire_returns\<close> is the other half: it never hangs.
\<close>

lemma draining_session:
  assumes "sessions_ok m" and "sess m i = Some s" and "se_pc s = RunDraining ks"
  shows "sessions_okX {i} m" "\<not> se_retained s" "\<not> se_removing s" "i \<in> set (m_sessions m)"
    "i \<notin> set (m_retainedExited m)"
  using sessions_okX_enter [OF assms(1,2)] sessions_okD(6) [OF assms(1,2)] assms(3)
  by (auto simp: session_ok_def)

lemma detach_life: "life_same m (upd_session i (\<lambda>s. s\<lparr>se_attachments := x\<rparr>) m)"
  by (rule life_same_upd_session) (simp add: life_def)

lemma run_retire_evicts:
  assumes "sessions_ok m" and "sess m i = Some s" and "se_pc s = RunDraining ks"
    and "ManagerConfig_validate (m_config m) = None"
    and m1: "m1 = upd_session i (\<lambda>s. s\<lparr>se_attachments := []\<rparr>) m"
    and m2: "m2 = (upd_session i (\<lambda>s. s\<lparr>se_retained := True\<rparr>) m1)
                   \<lparr>m_retainedExited := m_retainedExited m1 @ [i], m_generation := m_generation m1 + 1\<rparr>"
    and "sess m2 i = Some s2" and m3: "m3 = snd (emitLocked (session_event EventRetained s2) m2)"
    and ev: "evict_retained m3 [] = Some (removals, m4)"
  shows "evicted m3 m4" "sessions_okX {i} m4" "m_config m3 = m_config m"
    "m_retainedExited m4 = drop (length (m_retainedExited m) + 1 - nat (MaxRetainedSessions (SessionLifecycle (m_config m))))
       (m_retainedExited m @ [i])"
    "map rr_session removals = take (length (m_retainedExited m) + 1 - nat (MaxRetainedSessions (SessionLifecycle (m_config m))))
       (m_retainedExited m @ [i])"
proof -
  note d = draining_session [OF assms(1-3)]
  have l1: "life_same m m1" unfolding m1 by (rule detach_life)
  have s1: "sess m1 i = Some (s\<lparr>se_attachments := []\<rparr>)" using assms(2) by (simp add: m1)
  have "sessions_okX {i} m2"
    by (rule retain_okX [OF life_same_okX [OF l1 d(1)] s1 _ _ _ m2])
      (use d life_same_fields(2) [OF l1] in auto)
  moreover have l3: "life_same m2 m3" unfolding m3 by (rule life_same_emit)
  ultimately have ok3: "sessions_okX {i} m3" by (rule life_same_okX [rotated])
  show c3: "m_config m3 = m_config m" using life_same_fields(1) [OF l3] m2 life_same_fields(1) [OF l1] by simp
  have q: "m_retainedExited m3 = m_retainedExited m @ [i]"
    using life_same_fields(3) [OF l3] life_same_fields(3) [OF l1] by (simp add: m2)
  have max: "0 \<le> MaxRetainedSessions (SessionLifecycle (m_config m3))"
    using config_limits(9) [OF assms(4)] c3 by simp
  from evict_retained_returns [OF ok3 max, of "[]"] ev show "evicted m3 m4" "sessions_okX {i} m4"
    "m_retainedExited m4 = drop (length (m_retainedExited m) + 1 - nat (MaxRetainedSessions (SessionLifecycle (m_config m))))
       (m_retainedExited m @ [i])"
    "map rr_session removals = take (length (m_retainedExited m) + 1 - nat (MaxRetainedSessions (SessionLifecycle (m_config m))))
       (m_retainedExited m @ [i])"
    unfolding q c3 by auto
qed

lemma run_retire_ok:
  assumes "sessions_ok m" and "sess m i = Some s" and "se_pc s = RunDraining ks"
    and "ManagerConfig_validate (m_config m) = None"
    and "int (length (m_retainedExited m)) \<le> MaxRetainedSessions (SessionLifecycle (m_config m))"
    and "run_retire i m = Some (failed, m')"
  shows "sessions_ok m' \<and> int (length (m_retainedExited m')) \<le> MaxRetainedSessions (SessionLifecycle (m_config m))
    \<and> m_config m' = m_config m \<and> m_starting m' = m_starting m \<and> m_activeSessions m' = m_activeSessions m
    \<and> m_nextSession m' = m_nextSession m \<and> m_sessionIDExhausted m' = m_sessionIDExhausted m
    \<and> (\<forall>j. sess m' j = None \<longleftrightarrow> sess m j = None)"
  using assms(6)
proof (cases rule: run_retire_cases)
  case (retain m1 m2 m3 m4 s2 removals)
  note ev = run_retire_evicts [OF assms(1-4) retain(1,4,5,6,7)]
  have l1: "life_same m m1" unfolding retain(1) by (rule detach_life)
  have l3: "life_same m2 m3" unfolding retain(6) by (rule life_same_emit)
  have "sessions_ok m'" unfolding retain(8) by (rule sessions_okX_leave [OF ev(2)]) simp
  moreover have "int (length (m_retainedExited m')) \<le> MaxRetainedSessions (SessionLifecycle (m_config m))"
    using config_limits(9) [OF assms(4)] by (simp add: retain(8) ev(4))
  ultimately show ?thesis
    using evicted_fields [OF ev(1)] life_same_fields [OF l3] life_same_fields [OF l1]
      evicted_None [OF ev(1)] life_same_None [OF l3] life_same_None [OF l1]
    by (simp add: retain(8,4))
next
  case (remove m1 m2 m3 s3)
  note d = draining_session [OF assms(1-3)]
  have l1: "life_same m m1" unfolding remove(1) by (rule detach_life)
  have s1: "sess m1 i = Some (s\<lparr>se_attachments := []\<rparr>)" using assms(2) by (simp add: remove(1))
  have "sessions_okX {i} m2"
    unfolding remove(2) by (rule removeSession_okX [OF life_same_okX [OF l1 d(1)] s1]) simp
  moreover have l3: "life_same m2 (snd (emitLocked (session_event EventRemoved s3) m3))"
    by (rule life_same_trans [OF _ life_same_emit]) (simp add: remove(3) life_same_def)
  ultimately have "sessions_okX {i} (snd (emitLocked (session_event EventRemoved s3) m3))"
    by (rule life_same_okX [rotated])
  then have "sessions_ok m'" unfolding remove(5) by (rule sessions_okX_leave) simp
  moreover have f2: "m_config m2 = m_config m1 \<and> m_starting m2 = m_starting m1 \<and> m_activeSessions m2 = m_activeSessions m1
    \<and> m_nextSession m2 = m_nextSession m1 \<and> m_sessionIDExhausted m2 = m_sessionIDExhausted m1
    \<and> length (m_retainedExited m2) \<le> length (m_retainedExited m1) \<and> (\<forall>j. sess m2 j = None \<longleftrightarrow> sess m1 j = None)"
    by (auto simp: remove(2) removeSessionLocked_def Let_def removeHistoryLocked_def removeRetainedIDLocked_def
        length_remove1 split: option.splits)
  ultimately show ?thesis
    using life_same_fields [OF l3] life_same_fields [OF l1] life_same_None [OF l3] life_same_None [OF l1] assms(5)
    by (simp add: remove(5))
qed

section \<open>The other moves\<close>

lemma removeSession_fields:
  "m_config (removeSessionLocked i m) = m_config m" "m_starting (removeSessionLocked i m) = m_starting m"
  "m_activeSessions (removeSessionLocked i m) = m_activeSessions m"
  "m_nextSession (removeSessionLocked i m) = m_nextSession m"
  "m_sessionIDExhausted (removeSessionLocked i m) = m_sessionIDExhausted m"
  "length (m_retainedExited (removeSessionLocked i m)) \<le> length (m_retainedExited m)"
  "(sess (removeSessionLocked i m) j = None) = (sess m j = None)"
  by (auto simp: removeSessionLocked_def Let_def removeHistoryLocked_def removeRetainedIDLocked_def
      length_remove1 split: option.splits)

text \<open>\<open>moved\<close>: an operation that keeps the registry's counters and never adds a retained session.\<close>

definition moved :: "Manager \<Rightarrow> Manager \<Rightarrow> bool" where
  "moved m m' \<longleftrightarrow>
     m_config m' = m_config m \<and> m_starting m' = m_starting m \<and> m_activeSessions m' = m_activeSessions m
     \<and> m_nextSession m' = m_nextSession m \<and> m_sessionIDExhausted m' = m_sessionIDExhausted m
     \<and> length (m_retainedExited m') \<le> length (m_retainedExited m)
     \<and> (\<forall>j. sess m' j = None \<longleftrightarrow> sess m j = None)"

lemma moved_ids_ok: "moved m m' \<Longrightarrow> ids_ok m opens \<Longrightarrow> ids_ok m' opens"
  unfolding moved_def ids_ok_def by simp

lemma moved_life_ok:
  assumes "moved (y_m y) (y_m y')" and "sessions_ok (y_m y')" and "life_ok y" and "y_opens y' = y_opens y"
  shows "life_ok y'"
  using assms moved_ids_ok [OF assms(1)] unfolding life_ok_def moved_def by auto

lemma life_same_moved: "life_same m m' \<Longrightarrow> moved m m'"
  using life_same_fields [of m m'] life_same_None [of m m'] by (simp add: moved_def)

lemma moved_trans: "moved a b \<Longrightarrow> moved b c \<Longrightarrow> moved a c"
  unfolding moved_def by auto

lemma moved_upd_session: "moved m (upd_session i f m)"
  unfolding moved_def by simp

lemma finishRemoval_cases:
  obtains (stale) "finishRetainedRemoval r m = ([], m)"
  | (removed) s m2 s2 where "sess m (rr_session r) = Some s" "rr_session r \<in> set (m_sessions m)" "se_removing s"
      "m2 = (if rr_eventKind r = EventEvicted
             then (removeSessionLocked (rr_session r) m)\<lparr>m_sessionsEvicted := m_sessionsEvicted (removeSessionLocked (rr_session r) m) + 1\<rparr>
             else (removeSessionLocked (rr_session r) m)\<lparr>m_sessionsRemoved := m_sessionsRemoved (removeSessionLocked (rr_session r) m) + 1\<rparr>)"
      "sess m2 (rr_session r) = Some s2"
      "snd (finishRetainedRemoval r m) = snd (emitLocked (session_event (rr_eventKind r) s2) m2)"
proof (cases "\<exists>s. registered m (rr_session r) = Some s \<and> se_removing s")
  case True
  then obtain s where s: "sess m (rr_session r) = Some s" "rr_session r \<in> set (m_sessions m)" "se_removing s"
    by (auto simp: registered_def split: if_splits)
  define m1 where "m1 = removeSessionLocked (rr_session r) m"
  define m2 where "m2 = (if rr_eventKind r = EventEvicted
    then m1\<lparr>m_sessionsEvicted := m_sessionsEvicted m1 + 1\<rparr> else m1\<lparr>m_sessionsRemoved := m_sessionsRemoved m1 + 1\<rparr>)"
  have "sess m2 (rr_session r) \<noteq> None"
    using s(1) removeSession_fields(7) [of "rr_session r" m "rr_session r"] by (simp add: m2_def m1_def)
  then obtain s2 where s2: "sess m2 (rr_session r) = Some s2" by blast
  have "snd (finishRetainedRemoval r m) = snd (emitLocked (session_event (rr_eventKind r) s2) m2)"
    using s s2 unfolding finishRetainedRemoval_def Let_def m1_def [symmetric] m2_def [symmetric]
    by (simp add: registered_def)
  then show ?thesis using removed [OF s _ s2] by (simp add: m2_def m1_def)
next
  case False
  then show ?thesis using stale by (auto simp: finishRetainedRemoval_def split: option.splits)
qed

lemma removing_late: "sessions_ok m \<Longrightarrow> sess m i = Some s \<Longrightarrow> se_removing s \<or> se_retained s \<Longrightarrow> late (se_pc s)"
  using sessions_okD(6) [of m i s] unfolding session_ok_def by blast

lemma finishRemoval_ok:
  assumes "sessions_ok m"
  shows "sessions_ok (snd (finishRetainedRemoval r m)) \<and> moved m (snd (finishRetainedRemoval r m))"
proof (cases r m rule: finishRemoval_cases)
  case stale
  then show ?thesis using assms by (simp add: moved_def)
next
  case (removed s m2 s2)
  let ?m1 = "removeSessionLocked (rr_session r) m"
  have "late (se_pc s)" using removing_late [OF assms removed(1)] removed(3) by simp
  then have "sessions_ok ?m1"
    using removeSession_okX [of "{}" m "rr_session r" s] assms removed(1) by (simp add: sessions_okX_empty)
  moreover have l: "life_same ?m1 (snd (finishRetainedRemoval r m))"
    unfolding removed(6)
    by (rule life_same_trans [OF _ life_same_emit]) (simp add: removed(4) life_same_def)
  ultimately have "sessions_ok (snd (finishRetainedRemoval r m))" by (rule life_same_sessions_ok [rotated])
  moreover have "moved m ?m1" unfolding moved_def by (simp add: removeSession_fields)
  ultimately show ?thesis using moved_trans [OF _ life_same_moved [OF l]] by blast
qed

lemma finishRemoval_pc:
  assumes "sess (snd (finishRetainedRemoval r m)) i = Some t"
  shows "\<exists>s. sess m i = Some s \<and> se_pc t = se_pc s \<and> se_state t = se_state s \<and> se_exit t = se_exit s"
proof (cases r m rule: finishRemoval_cases)
  case stale
  then show ?thesis using assms by simp
next
  case (removed s m2 s2)
  have "sess (snd (finishRetainedRemoval r m)) i = sess (removeSessionLocked (rr_session r) m) i"
    using same_but_observers_fields(1) [OF emitLocked_same [of m2]] by (simp add: removed(6,4))
  then show ?thesis using assms
    by (cases "sess m i") (auto simp: removeSessionLocked_def Let_def removeHistoryLocked_def
        removeRetainedIDLocked_def split: option.splits if_splits)
qed

lemma evicted_moved: "evicted m m' \<Longrightarrow> length (m_retainedExited m') \<le> length (m_retainedExited m) \<Longrightarrow> moved m m'"
  using evicted_fields [of m m'] evicted_None [of m m'] by (simp add: moved_def)

lemma Remove_begin_ok:
  assumes "sessions_ok m" and "Remove_begin i m = (Inr r, m')"
  shows "sessions_ok m' \<and> moved m m' \<and> evicted m m'"
proof (cases rule: beginRemoval_cases [where i = i and m = m and reason = AttachmentSessionRemoved and kind = EventRemoved])
  case no
  then show ?thesis using assms(2) by (auto simp: Remove_begin_def split: if_splits option.splits)
next
  case (yes s m1)
  have "m' = m1" using assms(2) yes(4) by (auto simp: Remove_begin_def split: if_splits option.splits)
  moreover have "sessions_okX {} m1 \<and> evicted m m1"
    by (rule beginRemoval_okX [OF _ yes(1,2,3,5)]) (use assms(1) in \<open>simp add: sessions_okX_empty\<close>)
  moreover have "length (m_retainedExited m1) \<le> length (m_retainedExited m)"
    by (simp add: yes(5) length_remove1)
  ultimately show ?thesis using evicted_moved by (auto simp: sessions_okX_empty)
qed

definition stop_session :: "Session \<Rightarrow> Session" where
  "stop_session s = (if se_state s = SessionRunning then s\<lparr>se_state := SessionStopping\<rparr> else s)"

lemma stop_ok:
  assumes "sessions_ok m"
  shows "sessions_ok (upd_session i stop_session m)"
proof (rule sessions_ok_upd [OF assms])
  fix s assume "sess m i = Some s"
  from sessions_okD(6) [OF assms this] show "session_ok (m_sessions m) (m_retainedExited m) i (stop_session s)"
    by (cases "early (se_pc s)") (auto simp: session_ok_def stop_session_def)
qed (simp add: stop_session_def)

lemma stop_all_ok:
  "sessions_ok m \<Longrightarrow> sessions_ok (fold (\<lambda>i. upd_session i stop_session) is m)
     \<and> moved m (fold (\<lambda>i. upd_session i stop_session) is m)"
proof (induction "is" arbitrary: m)
  case (Cons i "is")
  show ?case using Cons.IH [OF stop_ok [OF Cons.prems, of i]] moved_trans [OF moved_upd_session] by auto
qed (simp add: moved_def)

lemma close_begin_state:
  "snd (close_begin m) = (fold (\<lambda>i. upd_session i stop_session) (m_sessions m) (m\<lparr>m_closing := True\<rparr>))\<lparr>m_observers := []\<rparr>"
  by (simp add: close_begin_def Let_def stop_session_def [abs_def])

lemma is_early_other [simp]:
  "is_early (m\<lparr>m_closing := b\<rparr>) = is_early m" "is_early (m\<lparr>m_observers := obs\<rparr>) = is_early m"
  by (simp_all add: is_early_def fun_eq_iff)

lemma sessions_ok_closing [simp]:
  "sessions_ok (m\<lparr>m_closing := b\<rparr>) = sessions_ok m" "sessions_ok (m\<lparr>m_observers := obs\<rparr>) = sessions_ok m"
  by (simp_all add: sessions_ok_def)

lemma close_begin_ok:
  assumes "sessions_ok m"
  shows "sessions_ok (snd (close_begin m)) \<and> moved m (snd (close_begin m))"
  using stop_all_ok [of "m\<lparr>m_closing := True\<rparr>" "m_sessions m"] assms
  by (auto simp: close_begin_state moved_def)

definition clear_session :: "StreamID \<Rightarrow> Manager \<Rightarrow> Manager" where
  "clear_session i m = upd_session i (\<lambda>s. s\<lparr>se_retained := False, se_removing := False\<rparr>) (removeHistoryLocked i m)"

lemma clear_session_sess:
  "sess (clear_session i m) j =
     (if i = j then map_option (\<lambda>s. s\<lparr>se_history := [], se_historyBytes := 0, se_retained := False, se_removing := False\<rparr>) (sess m j)
      else sess m j)"
  by (auto simp: clear_session_def removeHistoryLocked_def split: option.splits)

lemma clear_session_fields:
  "m_config (clear_session i m) = m_config m" "m_starting (clear_session i m) = m_starting m"
  "m_nextSession (clear_session i m) = m_nextSession m" "m_sessions (clear_session i m) = m_sessions m"
  "m_sessionIDExhausted (clear_session i m) = m_sessionIDExhausted m"
  "m_atts (clear_session i m) = m_atts m" "m_observers (clear_session i m) = m_observers m"
  "m_subs (clear_session i m) = m_subs m" "m_closing (clear_session i m) = m_closing m"
  "m_nextHistory (clear_session i m) = m_nextHistory m" "m_nextAttachment (clear_session i m) = m_nextAttachment m"
  "m_nextObserver (clear_session i m) = m_nextObserver m"
  "is_map (m_store m) \<Longrightarrow> is_map (m_store (clear_session i m))"
  by (auto simp: clear_session_def removeHistoryLocked_def split: option.splits)

lemma clear_all_sess:
  "sess (fold clear_session is m) j =
     (if j \<in> set is then map_option (\<lambda>s. s\<lparr>se_history := [], se_historyBytes := 0, se_retained := False, se_removing := False\<rparr>) (sess m j)
      else sess m j)"
  by (induction "is" arbitrary: m) (auto simp: clear_session_sess option.map_comp o_def)

lemma clear_all_fields:
  "m_config (fold clear_session is m) = m_config m" "m_starting (fold clear_session is m) = m_starting m"
  "m_nextSession (fold clear_session is m) = m_nextSession m" "m_sessions (fold clear_session is m) = m_sessions m"
  "m_sessionIDExhausted (fold clear_session is m) = m_sessionIDExhausted m"
  "m_atts (fold clear_session is m) = m_atts m" "m_observers (fold clear_session is m) = m_observers m"
  "m_subs (fold clear_session is m) = m_subs m" "m_closing (fold clear_session is m) = m_closing m"
  "m_nextHistory (fold clear_session is m) = m_nextHistory m"
  "m_nextAttachment (fold clear_session is m) = m_nextAttachment m"
  "m_nextObserver (fold clear_session is m) = m_nextObserver m"
  "is_map (m_store m) \<Longrightarrow> is_map (m_store (fold clear_session is m))"
  by (induction "is" arbitrary: m) (simp_all add: clear_session_fields)

lemma close_end_state:
  "close_end m = (fold clear_session (m_sessions m) m)
     \<lparr>m_sessions := [], m_retainedExited := [], m_generation := m_generation (fold clear_session (m_sessions m) m) + 1,
      m_closed := True, m_activeSessions := 0\<rparr>"
  by (simp add: close_end_def Let_def clear_session_def [abs_def])

lemma close_end_ok:
  assumes "sessions_ok m" and "\<forall>i \<in> set (m_sessions m). \<forall>s. sess m i = Some s \<longrightarrow> se_pc s = RunDone"
  shows "sessions_ok (close_end m) \<and> m_config (close_end m) = m_config m \<and> m_starting (close_end m) = m_starting m
    \<and> m_activeSessions (close_end m) \<le> m_activeSessions m \<and> m_nextSession (close_end m) = m_nextSession m
    \<and> m_sessionIDExhausted (close_end m) = m_sessionIDExhausted m \<and> m_retainedExited (close_end m) = []
    \<and> (\<forall>j. sess (close_end m) j = None \<longleftrightarrow> sess m j = None)"
proof -
  have ok: "session_ok [] [] j t" if t: "sess (close_end m) j = Some t" for j t
  proof (cases "j \<in> set (m_sessions m)")
    case True
    then obtain s where s: "sess m j = Some s"
      "t = s\<lparr>se_history := [], se_historyBytes := 0, se_retained := False, se_removing := False\<rparr>"
      using t by (auto simp: close_end_state clear_all_sess)
    then show ?thesis using sessions_okD(6) [OF assms(1) s(1)] assms(2) True by (simp add: session_ok_def)
  next
    case False
    then have "sess m j = Some t" using t by (simp add: close_end_state clear_all_sess)
    from sessions_okD(6) [OF assms(1) this] sessions_okD(5) [OF assms(1)] False show ?thesis
      by (auto simp: session_ok_def)
  qed
  have "is_map (m_store (close_end m))"
    using sessions_okD(1) [OF assms(1)] by (simp add: close_end_state clear_all_fields)
  then have "sessions_ok (close_end m)"
    using ok unfolding sessions_ok_def by (simp add: close_end_state)
  then show ?thesis
    using sessions_okD(7) [OF assms(1)] by (simp add: close_end_state clear_all_fields clear_all_sess)
qed

section \<open>Attaching and detaching\<close>

text \<open>The attachment a successful \<open>Attach\<close> registers.\<close>

definition attached :: "Manager \<Rightarrow> StreamID \<Rightarrow> Session \<Rightarrow> AttachOptions \<Rightarrow> Attachment" where
  "attached m i s opts =
     (let a = newAttachment (m_ctx m) i (m_nextAttachment m + 1) (AttachmentQueueBytes (m_config m))
                (\<not> ao_Paused opts) (snd (attach_replay s opts));
          b = (if se_state s = SessionExited \<and> se_exit s \<noteq> None
               then a\<lparr>at_queue := [AttachmentExit (the (se_exit s))], at_closing := True\<rparr> else a)
      in b\<lparr>at_started := True, at_registered := True\<rparr>)"

lemma attach_refused_state:
  assumes "attach_locked i opts raced m = (Inl e, m')"
  shows "m' = m \<or> m' = m\<lparr>m_nextAttachment := m_nextAttachment m + 1\<rparr>"
  using assms unfolding attach_locked_def Let_def
  by (auto split: option.splits if_splits prod.splits bool.splits)

lemma attach_ok_state:
  assumes "attach_locked i opts raced m = (Inr (k, result, failed), m')" and "sess m i = Some s"
  obtains m2 ev where "\<not> m_closing m" "se_state s = SessionRunning \<or> se_state s = SessionExited \<and> se_retained s"
    "int (length (se_attachments s)) < MaxAttachmentsPerSession (m_config m)"
    "ao_ResumeAfter opts \<le> se_lastSequence s" "m_nextAttachment m + 1 \<noteq> 0"
    "result = fst (attach_replay s opts)" "k = length (m_atts m)"
    "m2 = m\<lparr>m_nextAttachment := m_nextAttachment m + 1,
            m_store := mput i (s\<lparr>se_attachments := mput (m_nextAttachment m + 1) k (se_attachments s)\<rparr>) (m_store m),
            m_atts := m_atts m @ [attached m i s opts]\<rparr>"
    "m' = snd (emitLocked ev m2)"
proof -
  define aid where "aid = m_nextAttachment m + 1"
  define m1 where "m1 = m\<lparr>m_nextAttachment := aid\<rparr>"
  obtain res replay where rep: "attach_replay s opts = (res, replay)" by fastforce
  define a0 where "a0 = newAttachment (m_ctx m) i aid (AttachmentQueueBytes (m_config m)) (\<not> ao_Paused opts) replay"
  have guards: "\<not> m_closing m" "se_state s = SessionRunning \<or> se_state s = SessionExited \<and> se_retained s"
    "int (length (se_attachments s)) < MaxAttachmentsPerSession (m_config m)"
    "ao_ResumeAfter opts \<le> se_lastSequence s" "aid \<noteq> 0"
    using assms unfolding attach_locked_def Let_def aid_def
    by (auto simp: not_le not_less split: if_splits)
  have a0c: "\<not> at_closed a0" "\<not> at_closing a0" "at_queue a0 = []" by (simp_all add: a0_def newAttachment_def)
  have live: "raced = None"
  proof (rule ccontr)
    assume "raced \<noteq> None"
    then have "\<exists>e. fst (attach_locked i opts raced m) = Inl e"
      using assms(2) guards a0c
      by (auto simp: attach_locked_def Let_def aid_def [symmetric] rep a0_def [symmetric] finish_locked_def
          enqueueExitLocked_def at_start_def)
    then show False using assms(1) by simp
  qed
  define a3 where "a3 = (if se_state s = SessionExited \<and> se_exit s \<noteq> None
    then a0\<lparr>at_queue := [AttachmentExit (the (se_exit s))], at_closing := True\<rparr> else a0)\<lparr>at_started := True\<rparr>"
  define s' where "s' = s\<lparr>se_attachments := mput aid (length (m_atts m)) (se_attachments s)\<rparr>"
  define m2 where "m2 = m1\<lparr>m_store := mput i s' (m_store m1), m_atts := m_atts m1 @ [a3\<lparr>at_registered := True\<rparr>]\<rparr>"
  define ev where "ev = \<lparr>ev_Kind = EventAttached, ev_Session = infoLocked s', ev_Output = None,
    ev_Attachment = Some \<lparr>ai_ID = aid, ai_Reason = None\<rparr>\<rparr>"
  obtain fo m3 where em: "emitLocked ev m2 = (fo, m3)" by fastforce
  have "attach_locked i opts raced m = (case emitLocked ev m2 of (fo, m3) \<Rightarrow> (Inr (length (m_atts m), res, fo), m3))"
  proof (cases "se_state s = SessionExited \<and> se_exit s \<noteq> None")
    case True
    then show ?thesis using assms(2) guards
      by (auto simp: attach_locked_def Let_def rep live enqueueExitLocked_def at_start_def newAttachment_def
          ev_def m2_def s'_def m1_def a3_def a0_def aid_def not_le)
  next
    case False
    then show ?thesis using assms(2) guards
      by (auto simp: attach_locked_def Let_def rep live at_start_def newAttachment_def
          ev_def m2_def s'_def m1_def a3_def a0_def aid_def not_le)
  qed
  then have eq: "k = length (m_atts m)" "result = res" "m' = m3" using assms(1) em by auto
  have "a3\<lparr>at_registered := True\<rparr> = attached m i s opts"
    by (auto simp: attached_def Let_def a3_def a0_def aid_def rep)
  then have "m2 = m\<lparr>m_nextAttachment := m_nextAttachment m + 1,
            m_store := mput i (s\<lparr>se_attachments := mput (m_nextAttachment m + 1) k (se_attachments s)\<rparr>) (m_store m),
            m_atts := m_atts m @ [attached m i s opts]\<rparr>"
    by (simp add: m2_def m1_def s'_def eq(1) aid_def)
  then show ?thesis
    using that [of m2 ev] guards eq rep em by (simp add: aid_def)
qed

lemma attach_life:
  assumes "attach_locked i opts raced m = (res, m')"
  shows "life_same m m'"
proof (cases res)
  case (Inl e)
  then show ?thesis using attach_refused_state [of i opts raced m e m'] assms by (auto simp: life_same_def)
next
  case (Inr r)
  obtain k result failed where r: "r = (k, result, failed)" by (cases r) auto
  have a: "attach_locked i opts raced m = (Inr (k, result, failed), m')" using assms Inr r by simp
  then obtain s where s: "sess m i = Some s" by (auto simp: attach_locked_def split: option.splits)
  from attach_ok_state [OF a s] obtain m2 ev where
    m2: "m2 = m\<lparr>m_nextAttachment := m_nextAttachment m + 1,
            m_store := mput i (s\<lparr>se_attachments := mput (m_nextAttachment m + 1) k (se_attachments s)\<rparr>) (m_store m),
            m_atts := m_atts m @ [attached m i s opts]\<rparr>" and m': "m' = snd (emitLocked ev m2)" by metis
  have "life_same m m2" using s by (simp add: m2 life_same_def life_def)
  then show ?thesis unfolding m' by (rule life_same_trans [OF _ life_same_emit])
qed

lemma recordClose_states:
  assumes "k < length (m_atts m)" and "at_registered (m_atts m ! k)"
  obtains m3 where
    "m3 = (upd_session (at_session (m_atts m ! k)) (\<lambda>s. s\<lparr>se_attachments := mdel (at_id (m_atts m ! k)) (se_attachments s)\<rparr>)
       (upd_att k (\<lambda>a. a\<lparr>at_registered := False\<rparr>) m))\<lparr>m_attachmentClosures := mput reason
         ((case mget (m_attachmentClosures m) reason of None \<Rightarrow> 0 | Some n \<Rightarrow> n) + 1) (m_attachmentClosures m)\<rparr>"
    "snd (recordAttachmentClose k reason m) = m3 \<or> (\<exists>ev. snd (recordAttachmentClose k reason m) = snd (emitLocked ev m3))"
proof -
  have c: "m_attachmentClosures (upd_session i f (upd_att k g m)) = m_attachmentClosures m" for i f g
    by (simp add: upd_session_def upd_att_def split: option.splits)
  show ?thesis
    by (rule that [OF refl]) (use assms in \<open>auto simp: recordAttachmentClose_def Let_def c split: option.splits\<close>)
qed

lemma recordClose_noop:
  "\<not> (k < length (m_atts m) \<and> at_registered (m_atts m ! k)) \<Longrightarrow> recordAttachmentClose k reason m = ([], m)"
  unfolding recordAttachmentClose_def by (rule if_not_P)

lemma recordClose_life: "life_same m (snd (recordAttachmentClose k reason m))"
proof (cases "k < length (m_atts m) \<and> at_registered (m_atts m ! k)")
  case True
  from recordClose_states [of k m reason] True obtain m3 where
    m3: "m3 = (upd_session (at_session (m_atts m ! k)) (\<lambda>s. s\<lparr>se_attachments := mdel (at_id (m_atts m ! k)) (se_attachments s)\<rparr>)
       (upd_att k (\<lambda>a. a\<lparr>at_registered := False\<rparr>) m))\<lparr>m_attachmentClosures := mput reason
         ((case mget (m_attachmentClosures m) reason of None \<Rightarrow> 0 | Some n \<Rightarrow> n) + 1) (m_attachmentClosures m)\<rparr>"
    and fin: "snd (recordAttachmentClose k reason m) = m3 \<or> (\<exists>ev. snd (recordAttachmentClose k reason m) = snd (emitLocked ev m3))"
    by metis
  have "life_same m (upd_att k (\<lambda>a. a\<lparr>at_registered := False\<rparr>) m)" by (rule life_upd_att)
  moreover have "life_same (upd_att k (\<lambda>a. a\<lparr>at_registered := False\<rparr>) m) m3"
    by (auto simp: m3 life_same_def life_def [abs_def] option.map_comp o_def)
  ultimately have "life_same m m3" by (rule life_same_trans)
  then show ?thesis using fin life_same_trans [OF _ life_same_emit] by metis
qed (simp add: recordClose_noop)

section \<open>Every reachable state\<close>

lemma kill_begin_state:
  "snd (kill_begin i m) = m \<or>
   (\<exists>s. sess m i = Some s \<and> snd (kill_begin i m) = upd_session i
      (\<lambda>s. s\<lparr>se_state := (if se_state s = SessionRunning then SessionStopping else se_state s), se_killOnce := True\<rparr>) m)"
  by (auto simp: kill_begin_def split: option.splits)

lemma kill_begin_ok:
  assumes "sessions_ok m"
  shows "sessions_ok (snd (kill_begin i m)) \<and> moved m (snd (kill_begin i m))"
proof -
  let ?f = "\<lambda>s. s\<lparr>se_state := (if se_state s = SessionRunning then SessionStopping else se_state s), se_killOnce := True\<rparr>"
  have "sessions_ok (upd_session i ?f m)"
  proof (rule sessions_ok_upd [OF assms])
    fix s assume "sess m i = Some s"
    from sessions_okD(6) [OF assms this] show "session_ok (m_sessions m) (m_retainedExited m) i (?f s)"
      by (cases "early (se_pc s)") (auto simp: session_ok_def)
  qed simp
  then show ?thesis using kill_begin_state [of i m] assms moved_upd_session by (auto simp: moved_def)
qed

lemma session_ok_pc:
  "early (se_pc s) = early p \<Longrightarrow> late (se_pc s) = late p \<Longrightarrow>
     session_ok regs ret i (s\<lparr>se_pc := p\<rparr>) = session_ok regs ret i s"
  by (simp add: session_ok_def)

lemma pc_move_ok:
  assumes "sessions_ok m" and "\<And>s. sess m i = Some s \<Longrightarrow> early (se_pc s) = early p \<and> late (se_pc s) = late p"
  shows "sessions_ok (upd_session i (\<lambda>s. s\<lparr>se_pc := p\<rparr>) m) \<and> moved m (upd_session i (\<lambda>s. s\<lparr>se_pc := p\<rparr>) m)"
proof -
  have "sessions_ok (upd_session i (\<lambda>s. s\<lparr>se_pc := p\<rparr>) m)"
  proof (rule sessions_ok_upd [OF assms(1)])
    fix s assume s: "sess m i = Some s"
    from sessions_okD(6) [OF assms(1) s] assms(2) [OF s]
    show "session_ok (m_sessions m) (m_retainedExited m) i (s\<lparr>se_pc := p\<rparr>)" by (simp add: session_ok_pc)
  qed (use assms(2) in auto)
  then show ?thesis using moved_upd_session by blast
qed

lemma pump_ok:
  assumes "sessions_ok m" and "sess m i = Some s" and "se_pc s = RunPumping"
  shows "sessions_ok (pump_effect i pub ret m) \<and> moved m (pump_effect i pub ret m)"
proof -
  define m1 where "m1 = (case pub of None \<Rightarrow> m | Some d \<Rightarrow> snd (publish i d m))"
  have l: "life_same m m1" by (simp add: m1_def publish_life split: option.splits)
  have ok: "sessions_ok m1" by (rule life_same_sessions_ok [OF l assms(1)])
  have pc: "early (se_pc t) \<and> \<not> late (se_pc t)" if "sess m1 i = Some t" for t
    using life_same_some [OF l that] assms(2,3) by (auto simp: life_def)
  show ?thesis
  proof (cases ret)
    case None
    then show ?thesis using ok life_same_moved [OF l] by (simp add: pump_effect_def m1_def [symmetric])
  next
    case (Some e)
    have "sessions_ok (upd_session i (\<lambda>s. s\<lparr>se_pc := RunPumped e\<rparr>) m1)
        \<and> moved m1 (upd_session i (\<lambda>s. s\<lparr>se_pc := RunPumped e\<rparr>) m1)"
      by (rule pc_move_ok [OF ok]) (use pc in auto)
    then show ?thesis
      using Some moved_trans [OF life_same_moved [OF l]] by (simp add: pump_effect_def m1_def [symmetric])
  qed
qed

lemma life_same_simple:
  "life_same m (open_started m)" "life_same m (recordProcessExited m)" "life_same m (kill_result i e m)"
  "life_same m (resize_apply i sz m)" "life_same m (Subscription_unlink k m)" "life_same m (su_finish_at k e' r m)"
  "life_same m (manager_cancel m)" "life_same m (close_joins ts ks m)" "life_same m (snd (Subscribe m))"
proof -
  show "life_same m (kill_result i e m)" unfolding kill_result_def
    by (rule life_same_upd_session) (simp add: life_def)
  show "life_same m (resize_apply i sz m)" unfolding resize_apply_def
    by (rule life_same_upd_session) (simp add: life_def)
qed (auto simp: life_same_def open_started_def recordProcessExited_def Subscription_unlink_def su_finish_at_def
    recordObserverClose_def manager_cancel_def close_joins_def Let_def Subscribe_def)

lemma life_okD:
  assumes "life_ok y"
  shows "sessions_ok (y_m y)" and "ids_ok (y_m y) (y_opens y)" and "ManagerConfig_validate (m_config (y_m y)) = None"
    and "m_activeSessions (y_m y) + m_starting (y_m y) \<le> MaxSessions (m_config (y_m y))"
    and "int (length (m_retainedExited (y_m y))) \<le> MaxRetainedSessions (SessionLifecycle (m_config (y_m y)))"
  using assms by (auto simp: life_ok_def)

text \<open>The steps of \<open>Open\<close> and the end of a session.\<close>

lemma reserve_life_ok:
  assumes "life_ok y" and r: "open_reserve (y_m y) = (Inr sid, m')"
    and y': "y_m y' = m'" "y_opens y' = y_opens y @ [(sid, spec)]"
  shows "life_ok y'"
proof (cases "y_m y" rule: open_reserve_cases)
  case ok: ok
  then have "m' = (y_m y)\<lparr>m_nextSession := m_nextSession (y_m y) + 1, m_starting := m_starting (y_m y) + 1\<rparr>"
    using r by auto
  then show ?thesis using open_reserve_ids [OF life_okD(2) [OF assms(1)] r, of spec] assms(1) ok(5) y'
    by (auto simp: life_ok_def sessions_ok_def is_early_def [abs_def])
qed (use r in auto)

lemma reserve_refused_life_ok:
  assumes "life_ok y" and r: "open_reserve (y_m y) = (Inl e, m')" and y': "y_m y' = m'" "y_opens y' = y_opens y"
  shows "life_ok y'"
proof (cases "y_m y" rule: open_reserve_cases)
  case refused
  then show ?thesis using r y' assms(1) by (auto simp: life_ok_def)
next
  case exhausted
  then show ?thesis using r y' open_reserve_refused_ok [OF life_okD(2) [OF assms(1)] r] assms(1)
    by (auto simp: life_ok_def sessions_ok_def is_early_def [abs_def])
next
  case ok
  then show ?thesis using r by auto
qed

lemma register_life_ok:
  assumes "life_ok y" and "(sid, spec) \<in> set (y_opens y)" and r: "open_register sid spec now (y_m y) = (Inr failed, m')"
    and y': "y_m y' = m'" "y_opens y' = remove1 (sid, spec) (y_opens y)"
  shows "life_ok y'"
  using r
proof (cases rule: open_register_cases)
  case (ok m1 failed')
  note l = life_okD [OF assms(1)]
  have none: "sess (y_m y) sid = None" using l(2) assms(2) by (force simp: ids_ok_def)
  have "sessions_ok m1" by (rule sessions_ok_add [OF l(1) none ok(4)])
  moreover have "ids_ok m1 (remove1 (sid, spec) (y_opens y))" by (rule ids_ok_add [OF l(2) assms(2) ok(4)])
  moreover have ls: "life_same m1 m'" unfolding ok(5) by (rule life_same_emit)
  ultimately have "sessions_ok m'" "ids_ok m' (remove1 (sid, spec) (y_opens y))"
    by (auto intro: life_same_sessions_ok life_same_ids_ok)
  then show ?thesis using y' l(3-5) life_same_fields [OF ls] by (simp add: life_ok_def ok(4))
qed simp

lemma exit_life_ok:
  assumes "life_ok y" and s: "sess (y_m y) i = Some s" "early (se_pc s)"
    and y': "y_m y' = snd (run_exit i status (y_m y))" "y_opens y' = y_opens y"
  shows "life_ok y'"
proof -
  note l = life_okD [OF assms(1)]
  from run_exit_states [OF s(1), of status] obtain m1 s1 where
    m1_def: "m1 = (y_m y)\<lparr>m_store := mput i s1 (m_store (y_m y)), m_processesExited := m_processesExited (y_m y) + 1,
          m_activeSessions := (if m_activeSessions (y_m y) > 0 then m_activeSessions (y_m y) - 1 else m_activeSessions (y_m y))\<rparr>"
    and same': "life_same m1 (snd (run_exit i status (y_m y)))"
    by metis
  have m1: "m_starting m1 = m_starting (y_m y)" "m_config m1 = m_config (y_m y)" "m_nextSession m1 = m_nextSession (y_m y)"
      "m_sessionIDExhausted m1 = m_sessionIDExhausted (y_m y)" "m_retainedExited m1 = m_retainedExited (y_m y)"
      "(sess m1 j = None) = (sess (y_m y) j = None)" for j
    using s(1) by (auto simp: m1_def)
  have "ids_ok m1 (y_opens y)" using l(2) m1 unfolding ids_ok_def by simp
  from life_same_ids_ok [OF same' this] show ?thesis
    using y' run_exit_sessions_ok [OF l(1) s, of status] l(3-5) life_same_fields [OF same'] m1
    by (simp add: life_ok_def)
qed

lemma evict_moved:
  assumes "sessions_ok m" and "sess m i = Some s" and "se_pc s = RunEvicting (r # rs)"
  shows "sessions_ok (upd_session i (\<lambda>s. s\<lparr>se_pc := RunEvicting rs\<rparr>) (snd (finishRetainedRemoval r m)))
    \<and> moved m (upd_session i (\<lambda>s. s\<lparr>se_pc := RunEvicting rs\<rparr>) (snd (finishRetainedRemoval r m)))"
proof -
  let ?m1 = "snd (finishRetainedRemoval r m)"
  from finishRemoval_ok [OF assms(1), of r] have f: "sessions_ok ?m1" "moved m ?m1" by auto
  have pc: "\<not> early (se_pc t) \<and> late (se_pc t)" if "sess ?m1 i = Some t" for t
    using finishRemoval_pc [OF that] assms(2,3) by auto
  have "sessions_ok (upd_session i (\<lambda>s. s\<lparr>se_pc := RunEvicting rs\<rparr>) ?m1)
      \<and> moved ?m1 (upd_session i (\<lambda>s. s\<lparr>se_pc := RunEvicting rs\<rparr>) ?m1)"
    by (rule pc_move_ok [OF f(1)]) (use pc in auto)
  then show ?thesis using moved_trans [OF f(2)] by blast
qed

lemma manager_step_life_ok:
  assumes "life_ok y" and "manager_step y l y'"
  shows "life_ok y'"
proof -
  note ok = life_okD(1) [OF assms(1)] and ids = life_okD(2) [OF assms(1)] and cfg = life_okD(3) [OF assms(1)]
    and lim = life_okD(4) [OF assms(1)] and ret = life_okD(5) [OF assms(1)]
  note same = life_same_life_ok [OF _ assms(1)]
  note mv = moved_life_ok [OF _ _ assms(1)]
  show ?thesis using assms(2)
  proof cases
    case (reserve ctx spec sid m')
    show ?thesis by (rule reserve_life_ok [OF assms(1) reserve(4)]) (simp_all add: reserve(2))
  next
    case (reserve_refused e m')
    show ?thesis by (rule reserve_refused_life_ok [OF assms(1) reserve_refused(3)]) (simp_all add: reserve_refused(2))
  next
    case (start_failed sid spec)
    from ids_ok_remove [OF ids start_failed(3)] show ?thesis
      using start_failed(2) assms(1)
      by (auto simp: life_ok_def open_abort_def sessions_ok_def is_early_def [abs_def])
  next
    case (register sid spec now failed m')
    show ?thesis by (rule register_life_ok [OF assms(1) register(3,4)]) (simp_all add: register(2))
  next
    case (register_refused sid spec now e m')
    show ?thesis using register_refused(4)
    proof (cases rule: open_register_cases)
      case (refused e')
      from ids_ok_remove [OF ids register_refused(3)] show ?thesis
        using register_refused(2) refused(2) assms(1)
        by (auto simp: life_ok_def sessions_ok_def is_early_def [abs_def])
    qed simp
  next
    case (pump i s r pub ret')
    from pump_ok [OF ok pump(3,4)] show ?thesis using pump(2) by (intro mv) auto
  next
    case (exit i s oe status errText st we)
    have "early (se_pc s)" using exit(4) by simp
    then show ?thesis by (rule exit_life_ok [OF assms(1) exit(3)]) (simp_all add: exit(2))
  next
    case (retire i s ks failed m')
    from run_retire_ok [OF ok retire(3,4) cfg ret retire(6)] show ?thesis
      using retire(2) cfg lim ids unfolding life_ok_def ids_ok_def by simp
  next
    case (evict i s r rs)
    from evict_moved [OF ok evict(3,4)] show ?thesis using evict(2) by (intro mv) auto
  next
    case (run_done i s)
    have "sessions_ok (upd_session i (\<lambda>s. s\<lparr>se_pc := RunDone\<rparr>) (y_m y))
        \<and> moved (y_m y) (upd_session i (\<lambda>s. s\<lparr>se_pc := RunDone\<rparr>) (y_m y))"
      by (rule pc_move_ok [OF ok]) (use run_done in auto)
    then show ?thesis using run_done(2) by (intro mv) auto
  next
    case (remove i r m')
    from Remove_begin_ok [OF ok remove(3)] show ?thesis using remove(2) by (intro mv) auto
  next
    case (remove_finish r)
    from finishRemoval_ok [OF ok, of r] show ?thesis using remove_finish(2) by (intro mv) auto
  next
    case (kill i)
    from kill_begin_ok [OF ok, of i] show ?thesis using kill(2) by (intro mv) auto
  next
    case close_begin
    from close_begin_ok [OF ok] show ?thesis using close_begin(2) by (intro mv) auto
  next
    case close_end
    from close_end_ok [OF ok close_end(6)] show ?thesis
      using close_end(2) cfg lim ids config_limits(9) [OF cfg] unfolding life_ok_def ids_ok_def by simp
  next
    case (attach ctx opts0 sink opts i s raced k result failed m')
    from attach_life [OF attach(5)] show ?thesis using attach(2) by (intro same) auto
  next
    case (attach_refused ctx opts0 sink opts i raced e m')
    from attach_life [OF attach_refused(4)] show ?thesis using attach_refused(2) by (intro same) auto
  next
    case (record_close k reason)
    from recordClose_life [of "y_m y" k reason] show ?thesis using record_close(2) by (intro same) auto
  next
    case (subscribe res m')
    from life_same_simple(9) [of "y_m y"] show ?thesis using subscribe by (intro same) auto
  qed (auto intro!: same life_upd_att life_upd_sub life_same_simple)
qed

interpretation manager_life: step_invariant manager_step life_ok
  by unfold_locales (rule manager_step_life_ok)

end
