(* ===== verification/Pty_Delivery.thy ===== *)
theory Pty_Delivery
  imports Pty_Limits
begin

text \<open>
  What reaches an attachment's sink: replayed history followed by live output, chunk after
  chunk with no gap, repetition or change, and the exit status as the last item. Proved for
  every interleaving of the pump, the workers, attaching, detaching, eviction and shutdown,
  as long as no session has published 2^64 chunks.
\<close>

section \<open>One attachment\<close>

lemma unat_of_nat_small: "n < 2 ^ 64 \<Longrightarrow> unat (of_nat n :: 64 word) = n"
  by (simp add: unat_of_nat take_bit_nat_eq_self)

text \<open>
  \<open>pub\<close> is all output of the session so far; \<open>b\<close> is the number of chunks before the first one
  of this attachment and the number published when it attached. From there on the chunks are as
  the process wrote them; a replayed chunk is what the history keeps of it, which is all of it
  unless it alone exceeds a history limit; \<open>sent\<close> what the sink was given, \<open>x\<close> the session's exit, and \<open>linked\<close> says
  that the session still feeds the attachment.
\<close>

definition chunk_at :: "ManagerConfig \<Rightarrow> bytes list \<Rightarrow> nat \<times> nat \<Rightarrow> nat \<Rightarrow> bytes" where
  "chunk_at mc pub b j = (if snd b \<le> fst b + j then pub ! (fst b + j) else kept mc (pub ! (fst b + j)))"

definition stream_of :: "ManagerConfig \<Rightarrow> bytes list \<Rightarrow> nat \<times> nat \<Rightarrow> OutputEvent list \<Rightarrow> bool" where
  "stream_of mc pub b evs \<longleftrightarrow>
     map Sequence evs = map (\<lambda>j. of_nat (fst b + 1 + j)) [0..<length evs]
     \<and> fst b + length evs \<le> length pub \<and> snd b \<le> length pub
     \<and> map Data evs = map (chunk_at mc pub b) [0..<length evs]"

definition att_good ::
    "ManagerConfig \<Rightarrow> bytes list \<Rightarrow> nat \<times> nat \<Rightarrow> AttachmentEvent list \<Rightarrow> ExitStatus option \<Rightarrow> bool \<Rightarrow> Attachment \<Rightarrow> bool" where
  "att_good mc pub b sent x linked a \<longleftrightarrow>
     (\<exists>evs ex. sent @ at_pending a = map AttachmentOutput evs @ ex
        \<and> stream_of mc pub b evs
        \<and> (ex = [] \<or> (\<exists>st. ex = [AttachmentExit st] \<and> x = Some st))
        \<and> (ex \<noteq> [] \<longrightarrow> fst b + length evs = length pub)
        \<and> (at_closed a \<longrightarrow> at_pending a = [])
        \<and> (\<not> at_closed a \<longrightarrow> (ex = [] \<longleftrightarrow> \<not> at_closing a))
        \<and> (\<not> at_closed a \<and> linked \<longrightarrow> fst b + length evs = length pub))"

lemma stream_of_take:
  assumes "stream_of mc pub b evs"
  shows "stream_of mc pub b (take n evs)"
proof -
  have t: "map f (take n evs) = map g [0..<length (take n evs)]" if "map f evs = map g [0..<length evs]" for f g
    using that by (simp add: take_map [symmetric] min_def) (simp add: take_map)
  have "fst b + length (take n evs) \<le> length pub" using assms by (auto simp: stream_of_def)
  then show ?thesis using assms t [of Sequence] t [of Data] unfolding stream_of_def by simp
qed

lemma chunk_at_grow: "fst b + j < length pub \<Longrightarrow> chunk_at mc (pub @ ds) b j = chunk_at mc pub b j"
  by (simp add: chunk_at_def nth_append)

lemma stream_of_grow:
  assumes "stream_of mc pub b evs"
  shows "stream_of mc (pub @ [d]) b evs"
  using assms by (auto simp: stream_of_def chunk_at_grow)

lemma stream_of_push:
  assumes "stream_of mc pub b evs" and "fst b + length evs = length pub" and "Sequence ev = of_nat (length pub + 1)"
    and "Data ev = d"
  shows "stream_of mc (pub @ [d]) b (evs @ [ev])"
proof -
  have "(of_nat (length pub) :: 64 word) = of_nat (fst b) + of_nat (length evs)"
    by (simp flip: of_nat_add add: assms(2))
  moreover have "chunk_at mc (pub @ [d]) b (length evs) = d" using assms(1,2) by (simp add: chunk_at_def nth_append stream_of_def)
  moreover have "map Data evs = map (chunk_at mc (pub @ [d]) b) [0..<length evs]"
    using stream_of_grow [OF assms(1), of d] by (simp add: stream_of_def)
  ultimately show ?thesis using assms(1-4) by (simp add: stream_of_def)
qed

lemma att_good_unlink: "att_good mc pub b sent x l a \<Longrightarrow> att_good mc pub b sent x False a"
  unfolding att_good_def by auto

lemma att_good_cong:
  "at_pending a' = at_pending a \<Longrightarrow> at_closed a' = at_closed a \<Longrightarrow> at_closing a' = at_closing a \<Longrightarrow>
     att_good mc pub b sent x l a' = att_good mc pub b sent x l a"
  by (simp add: att_good_def)

lemma att_good_send:
  assumes "att_good mc pub b sent x l a" and "at_turn a = (TurnSend ev, a')"
  shows "att_good mc pub b (sent @ [ev]) x l a'"
proof (cases a rule: at_turn_cases)
  case (send ev' a'')
  then have "ev' = ev" "a'' = a'" using assms(2) by auto
  with send show ?thesis using assms(1) by (simp add: att_good_def)
qed (use assms(2) in auto)

lemma att_good_finish:
  assumes "att_good mc pub b sent x l a"
  shows "att_good mc pub b sent x l (finish_locked e r a)"
proof (cases "at_closed a")
  case True
  then show ?thesis using assms by (simp add: finish_locked_def)
next
  case False
  let ?a = "finish_locked e r a"
  have a: "at_pending ?a = []" "at_closed ?a" using False by (simp_all add: finish_locked_def at_pending_def)
  from assms obtain evs ex where
    l: "sent @ at_pending a = map AttachmentOutput evs @ ex" and st: "stream_of mc pub b evs"
    and ex: "ex = [] \<or> (\<exists>st. ex = [AttachmentExit st] \<and> x = Some st)"
    and full: "ex \<noteq> [] \<longrightarrow> fst b + length evs = length pub"
    by (auto simp: att_good_def)
  define evs' ex' where "evs' = take (length sent) evs" and "ex' = take (length sent - length evs) ex"
  have "sent = take (length sent) (sent @ at_pending a)" by simp
  then have "sent = map AttachmentOutput evs' @ ex'" by (simp add: l take_map evs'_def ex'_def)
  moreover have "ex' = [] \<or> (\<exists>st. ex' = [AttachmentExit st] \<and> x = Some st)"
    using ex unfolding ex'_def by (cases "length sent - length evs") auto
  moreover have "ex' \<noteq> [] \<longrightarrow> fst b + length evs' = length pub"
    using full by (auto simp: evs'_def ex'_def)
  moreover have "stream_of mc pub b evs'" unfolding evs'_def by (rule stream_of_take [OF st])
  ultimately show ?thesis using a unfolding att_good_def by (intro exI [of _ evs'] exI [of _ ex']) simp
qed

lemma att_good_grow:
  assumes "att_good mc pub b sent None l a" and "at_closed a \<or> \<not> l'"
  shows "att_good mc (pub @ [d]) b sent None l' a"
  using assms stream_of_grow unfolding att_good_def by blast

lemma att_good_enqueue:
  assumes "att_good mc pub b sent x True a" and "enqueueLocked (AttachmentOutput ev) a = (None, a')"
    and "Sequence ev = of_nat (length pub + 1)" and "Data ev = d"
  shows "att_good mc (pub @ [d]) b sent x True a'"
proof -
  have c: "\<not> at_closed a" "\<not> at_closing a" and a': "a' = at_push (AttachmentOutput ev) a"
    using assms(2) by (auto simp: enqueueLocked_def split: if_splits)
  from assms(1) c obtain evs where
    l: "sent @ at_pending a = map AttachmentOutput evs" and st: "stream_of mc pub b evs" "fst b + length evs = length pub"
    by (auto simp: att_good_def)
  have "at_pending a' = at_pending a @ [AttachmentOutput ev]" "\<not> at_closed a'" "\<not> at_closing a'"
    using c by (simp_all add: a' at_push_def at_pending_def)
  then show ?thesis
    using l stream_of_push [OF st assms(3,4)] st(2) unfolding att_good_def
    by (intro exI [of _ "evs @ [ev]"] exI [of _ "[]"]) simp
qed

lemma att_good_exit:
  assumes "att_good mc pub b sent None True a" and "enqueueExitLocked st a = (r, a')"
  shows "att_good mc pub b sent (Some st) True a'"
proof -
  from assms(1) obtain evs where
    l: "sent @ at_pending a = map AttachmentOutput evs" and stp: "stream_of mc pub b evs"
    and rest: "at_closed a \<longrightarrow> at_pending a = []" "\<not> at_closed a \<longrightarrow> \<not> at_closing a"
      "\<not> at_closed a \<longrightarrow> fst b + length evs = length pub"
    by (auto simp: att_good_def)
  show ?thesis
  proof (cases "at_closed a")
    case True
    then have "a' = a" using assms(2) by (auto simp: enqueueExitLocked_def)
    then show ?thesis using l stp rest True unfolding att_good_def
      by (intro exI [of _ evs] exI [of _ "[]"]) simp
  next
    case False
    then have "a' = a\<lparr>at_queue := at_queue a @ [AttachmentExit st], at_closing := True\<rparr>"
      using assms(2) rest by (auto simp: enqueueExitLocked_def)
    then have "at_pending a' = at_pending a @ [AttachmentExit st]" "\<not> at_closed a'" "at_closing a'"
      using False by (simp_all add: at_pending_def)
    then show ?thesis using l stp rest False unfolding att_good_def
      by (intro exI [of _ evs] exI [of _ "[AttachmentExit st]"]) simp
  qed
qed

lemma att_good_exit_other:
  assumes "att_good mc pub b sent None l a" and "at_closed a \<or> \<not> l'"
  shows "att_good mc pub b sent (Some st) l' a"
  using assms unfolding att_good_def by blast

section \<open>Replay\<close>

definition hist_data :: "ManagerConfig \<Rightarrow> bytes list \<Rightarrow> historyChunk list \<Rightarrow> bool" where
  "hist_data mc pub h \<longleftrightarrow>
     length h \<le> length pub
     \<and> map (\<lambda>x. Data (hc_event x)) h = map (kept mc) (drop (length pub - length h) pub)"

lemma hist_data_drop:
  assumes "hist_data mc pub h"
  shows "hist_data mc pub (drop q h)"
proof (cases "q \<le> length h")
  case True
  have "drop q (map (\<lambda>x. Data (hc_event x)) h) = drop q (map (kept mc) (drop (length pub - length h) pub))"
    using assms by (simp add: hist_data_def)
  moreover have "length pub - (length h - q) = q + (length pub - length h)"
    using True assms by (simp add: hist_data_def)
  moreover have "length h - q \<le> length pub"
    using assms diff_le_self [of "length h" q] unfolding hist_data_def by linarith
  ultimately show ?thesis using assms True by (simp add: hist_data_def drop_map)
qed (use assms in \<open>simp add: hist_data_def\<close>)

lemma hist_data_push:
  assumes "hist_data mc pub h" and "Data (hc_event x) = kept mc d"
  shows "hist_data mc (pub @ [d]) (h @ [x])"
  using assms by (simp add: hist_data_def)

lemma replay_fold:
  "snd (foldl (replay_step w) st h) = snd st @ map hc_event (filter (\<lambda>c. w < Sequence (hc_event c)) h)"
proof (induction h arbitrary: st)
  case (Cons c h)
  show ?case
  proof (cases "Sequence (hc_event c) \<le> w")
    case True
    then have "\<not> w < Sequence (hc_event c)" by simp
    then show ?thesis using True Cons.IH by (simp add: replay_step_def Let_def)
  next
    case False
    then show ?thesis using Cons.IH by (simp add: replay_step_def Let_def)
  qed
qed simp

lemma attach_replay_events:
  "snd (attach_replay s opts) =
     (if ao_Replay opts = ReplayHistory
      then map hc_event (filter (\<lambda>c. ao_ResumeAfter opts < Sequence (hc_event c)) (se_history s)) else [])"
  by (simp add: attach_replay_def Let_def replay_fold)

lemma hist_seq_nth:
  assumes "hist_seq s" and "se_lastSequence s = of_nat n" and "length (se_history s) \<le> n" and "j < length (se_history s)"
  shows "Sequence (hc_event (se_history s ! j)) = of_nat (n - length (se_history s) + 1 + j)"
proof -
  let ?l = "length (se_history s)"
  have "map (\<lambda>c. Sequence (hc_event c)) (se_history s) ! j
      = map (\<lambda>k. se_lastSequence s - of_nat k) (rev [0..<?l]) ! j"
    using assms(1) by (simp add: hist_seq_def)
  then have "Sequence (hc_event (se_history s ! j)) = of_nat n - of_nat (?l - Suc j)"
    using assms(2,4) by (simp add: rev_nth)
  also have "\<dots> = of_nat (n - (?l - Suc j))" using assms(3) by (simp add: of_nat_diff)
  also have "n - (?l - Suc j) = n - ?l + 1 + j" using assms(3,4) by linarith
  finally show ?thesis .
qed

lemma filter_sorted_drop:
  "sorted_wrt (<) (map f xs) \<Longrightarrow> filter (\<lambda>x. w < f x) xs = drop (length (takeWhile (\<lambda>x. f x \<le> w) xs)) xs"
  for f :: "'x \<Rightarrow> 64 word"
proof (induction xs)
  case (Cons x xs)
  show ?case
  proof (cases "f x \<le> w")
    case True
    then show ?thesis using Cons by (simp add: linorder_not_less [symmetric])
  next
    case False
    then have "\<forall>y \<in> set xs. w < f y" using Cons.prems by (auto simp: not_le)
    then show ?thesis using False by (simp add: not_le filter_id_conv)
  qed
qed simp

text \<open>What an attachment starts with is exactly the end of the session's output.\<close>

lemma replay_stream:
  fixes opts :: AttachOptions
  assumes "hist_seq s" and last: "se_lastSequence s = of_nat (length pub)" and d: "hist_data mc pub (se_history s)"
    and small: "length pub < 2 ^ 64"
  defines "b \<equiv> first_seq s opts (length pub)"
  shows "stream_of mc pub (b, length pub) (snd (attach_replay s opts)) \<and> b + length (snd (attach_replay s opts)) = length pub"
proof (cases "ao_Replay opts = ReplayHistory")
  case False
  then show ?thesis by (simp add: b_def first_seq_def attach_replay_events stream_of_def)
next
  case True
  let ?h = "se_history s" and ?n = "length pub" and ?f = "\<lambda>c. Sequence (hc_event c)"
  have len: "length ?h \<le> ?n" using d by (simp add: hist_data_def)
  have nth: "?f (?h ! j) = of_nat (?n - length ?h + 1 + j)" if "j < length ?h" for j
    by (rule hist_seq_nth [OF assms(1) last len that])
  have un: "unat (?f (?h ! j)) = ?n - length ?h + 1 + j" if "j < length ?h" for j
  proof -
    have "?n - length ?h + 1 + j < 2 ^ 64" using that len small by linarith
    then show ?thesis unfolding nth [OF that] by (rule unat_of_nat_small)
  qed
  have "sorted_wrt (<) (map ?f ?h)"
    by (auto simp: sorted_wrt_iff_nth_less word_less_nat_alt un)
  from filter_sorted_drop [OF this] obtain q where
    q: "filter (\<lambda>c. ao_ResumeAfter opts < ?f c) ?h = drop q ?h" "q \<le> length ?h"
    using length_takeWhile_le by metis
  have ev: "snd (attach_replay s opts) = map hc_event (drop q ?h)"
    using True q(1) by (simp add: attach_replay_events)
  have b: "b = ?n - length ?h + q"
  proof (cases "drop q ?h")
    case Nil
    then show ?thesis using q(2) len by (simp add: b_def first_seq_def ev)
  next
    case (Cons c cs)
    then have "q < length ?h" "c = ?h ! q" using q(2) by (auto simp: nth_via_drop dest: arg_cong [of _ _ length])
    then show ?thesis using un [of q] Cons by (simp add: b_def first_seq_def ev)
  qed
  have seqs: "map Sequence (snd (attach_replay s opts)) = map (\<lambda>j. of_nat (b + 1 + j)) [0..<length ?h - q]"
    using q(2) nth by (intro nth_equalityI) (auto simp: ev b)
  have "hist_data mc pub (drop q ?h)" by (rule hist_data_drop [OF d])
  then have "map Data (snd (attach_replay s opts)) = map (kept mc) (drop b pub)"
    using q(2) len by (simp add: hist_data_def ev b o_def)
  moreover have "map (kept mc) (drop b pub) = map (chunk_at mc pub (b, ?n)) [0..<length ?h - q]"
    using q(2) len by (intro nth_equalityI) (auto simp: b chunk_at_def)
  ultimately show ?thesis
    using seqs q(2) len by (simp add: stream_of_def ev b)
qed

section \<open>The loops over attachments\<close>

abbreviation att_link :: "Session \<Rightarrow> nat \<Rightarrow> Attachment \<Rightarrow> bool" where
  "att_link s k a \<equiv> (at_id a, k) \<in> set (se_attachments s)"

definition refuses :: "OutputEvent \<Rightarrow> Manager \<Rightarrow> 64 word \<times> nat \<Rightarrow> bool" where
  "refuses ev m p \<longleftrightarrow> fst (enqueueLocked (AttachmentOutput ev) (m_atts m ! snd p)) \<noteq> None"

lemma mdel_filter: "mdel k xs = filter (\<lambda>q. fst q \<noteq> k) xs"
  by (induction xs) auto

lemma upd_att_nth:
  "j < length (m_atts m) \<Longrightarrow> m_atts (upd_att k f m) ! j = (if j = k then f (m_atts m ! j) else m_atts m ! j)"
  by (simp add: upd_att_def nth_list_update)

text \<open>
  The loop of \<open>publish\<close>: every linked attachment is offered the event once, and exactly those
  that refuse it are taken off the session's map.
\<close>

lemma publish_loop:
  assumes "foldl (publish_step i ev) st ps = (failed, m')"
    and "distinct (map snd ps)" and "\<forall>p \<in> set ps. snd p < length (m_atts (snd st))"
    and "sess (snd st) i = Some s"
  shows "length (m_atts m') = length (m_atts (snd st))
    \<and> (\<forall>k < length (m_atts (snd st)). m_atts m' ! k =
         (if k \<in> snd ` set ps then snd (enqueueLocked (AttachmentOutput ev) (m_atts (snd st) ! k)) else m_atts (snd st) ! k))
    \<and> sess m' i = Some (s\<lparr>se_attachments := filter (\<lambda>q. fst q \<notin> fst ` {p \<in> set ps. refuses ev (snd st) p}) (se_attachments s)\<rparr>)
    \<and> (\<forall>j. j \<noteq> i \<longrightarrow> sess m' j = sess (snd st) j)
    \<and> m_historyBytes m' = m_historyBytes (snd st) \<and> m_nextHistory m' = m_nextHistory (snd st)
    \<and> m_observers m' = m_observers (snd st) \<and> m_subs m' = m_subs (snd st) \<and> m_nextAttachment m' = m_nextAttachment (snd st)
    \<and> m_nextObserver m' = m_nextObserver (snd st)"
  using assms
proof (induction ps arbitrary: st s)
  case (Cons p ps)
  let ?m = "snd st" and ?a = "m_atts (snd st) ! snd p"
  have k: "snd p < length (m_atts ?m)" using Cons.prems(3) by simp
  define st1 where "st1 = publish_step i ev st p"
  have run: "foldl (publish_step i ev) st1 ps = (failed, m')" using Cons.prems(1) by (simp add: st1_def)
  have new: "snd p \<notin> snd ` set ps" "distinct (map snd ps)" using Cons.prems(2) by auto
  show ?case
  proof (cases "refuses ev ?m p")
    case False
    then obtain a' where a': "enqueueLocked (AttachmentOutput ev) ?a = (None, a')"
      by (cases "enqueueLocked (AttachmentOutput ev) ?a") (auto simp: refuses_def)
    have m1: "snd st1 = upd_att (snd p) (\<lambda>_. a') ?m" by (simp add: st1_def publish_step_def a')
    have nth1: "m_atts (snd st1) ! j = (if j = snd p then a' else m_atts ?m ! j)" if "j < length (m_atts ?m)" for j
      using that by (simp add: m1 upd_att_nth)
    have ref: "refuses ev (snd st1) q = refuses ev ?m q" if "q \<in> set ps" for q
    proof -
      have "snd q \<noteq> snd p" using new(1) that by (metis imageI)
      then show ?thesis using that nth1 [of "snd q"] Cons.prems(3) by (simp add: refuses_def)
    qed
    have s1: "sess (snd st1) i = Some s" using Cons.prems(4) by (simp add: m1)
    have bound: "\<forall>p \<in> set ps. snd p < length (m_atts (snd st1))" using Cons.prems(3) by (simp add: m1)
    have set_eq: "{q \<in> set (p # ps). refuses ev ?m q} = {q \<in> set ps. refuses ev (snd st1) q}"
      using ref False by auto
    note ih = Cons.IH [OF run new(2) bound s1]
    have "m_atts m' ! j = (if j \<in> snd ` set (p # ps)
        then snd (enqueueLocked (AttachmentOutput ev) (m_atts ?m ! j)) else m_atts ?m ! j)"
      if "j < length (m_atts ?m)" for j
    proof -
      have "m_atts m' ! j = (if j \<in> snd ` set ps
          then snd (enqueueLocked (AttachmentOutput ev) (m_atts (snd st1) ! j)) else m_atts (snd st1) ! j)"
        using ih that by (simp add: m1)
      then show ?thesis using nth1 [OF that] new(1) a' by (cases "j = snd p") auto
    qed
    then show ?thesis using ih unfolding set_eq by (simp add: m1) (simp add: upd_att_def)
  next
    case True
    then obtain e where e: "enqueueLocked (AttachmentOutput ev) ?a = (Some e, ?a)"
      by (auto simp: refuses_def enqueueLocked_def split: if_splits)
    have m1: "snd st1 = upd_session i (\<lambda>s. s\<lparr>se_attachments := mdel (fst p) (se_attachments s)\<rparr>) ?m"
      by (simp add: st1_def publish_step_def e)
    have ref: "refuses ev (snd st1) = refuses ev ?m" by (simp add: refuses_def fun_eq_iff m1)
    define s1 where "s1 = s\<lparr>se_attachments := filter (\<lambda>q. fst q \<noteq> fst p) (se_attachments s)\<rparr>"
    have ss1: "sess (snd st1) i = Some s1" using Cons.prems(4) by (simp add: m1 mdel_filter s1_def)
    have bound: "\<forall>p \<in> set ps. snd p < length (m_atts (snd st1))" using Cons.prems(3) by (simp add: m1)
    have set_eq: "fst ` {q \<in> set (p # ps). refuses ev ?m q} = insert (fst p) (fst ` {q \<in> set ps. refuses ev (snd st1) q})"
      using True by (auto simp: ref)
    have flt: "filter (\<lambda>q. fst q \<notin> B) (filter (\<lambda>q. fst q \<noteq> c) xs) = filter (\<lambda>q. fst q \<notin> insert c B) xs"
      for B c and xs :: "(64 word \<times> nat) list" by (induction xs) auto
    from Cons.IH [OF run new(2) bound ss1] show ?thesis
      using e k unfolding set_eq by (auto simp: m1 s1_def flt)
  qed
qed simp

lemma exit_loop:
  assumes "foldl (exit_step status) st ks = (failed, m')"
    and "distinct ks" and "\<forall>k \<in> set ks. k < length (m_atts (snd st))"
  shows "length (m_atts m') = length (m_atts (snd st))
    \<and> (\<forall>k < length (m_atts (snd st)). m_atts m' ! k =
         (if k \<in> set ks then snd (enqueueExitLocked status (m_atts (snd st) ! k)) else m_atts (snd st) ! k))
    \<and> m_store m' = m_store (snd st) \<and> m_historyBytes m' = m_historyBytes (snd st)
    \<and> m_nextHistory m' = m_nextHistory (snd st) \<and> m_observers m' = m_observers (snd st) \<and> m_subs m' = m_subs (snd st)
    \<and> m_nextAttachment m' = m_nextAttachment (snd st) \<and> m_nextObserver m' = m_nextObserver (snd st)"
  using assms
proof (induction ks arbitrary: st)
  case (Cons k ks)
  define st1 where "st1 = exit_step status st k"
  have run: "foldl (exit_step status) st1 ks = (failed, m')" using Cons.prems(1) by (simp add: st1_def)
  have k: "k < length (m_atts (snd st))" using Cons.prems(3) by simp
  have m1: "snd st1 = upd_att k (\<lambda>a. snd (enqueueExitLocked status a)) (snd st)"
    using k by (auto simp: st1_def exit_step_def upd_att_def enqueueExitLocked_def)
  have bound: "\<forall>k \<in> set ks. k < length (m_atts (snd st1))" using Cons.prems(3) by (simp add: m1)
  have "distinct ks" "k \<notin> set ks" using Cons.prems(2) by auto
  from Cons.IH [OF run this(1) bound] this(2) show ?case
    by (auto simp: m1 upd_att_nth) (simp_all add: upd_att_def)
qed simp

section \<open>The invariant\<close>

definition links_ok :: "Manager \<Rightarrow> bool" where
  "links_ok m \<longleftrightarrow>
     (\<forall>i s. sess m i = Some s \<longrightarrow> is_map (se_attachments s)
        \<and> int (length (se_attachments s)) \<le> MaxAttachmentsPerSession (m_config m)
        \<and> (\<forall>p \<in> set (se_attachments s). snd p < length (m_atts m)
             \<and> at_session (m_atts m ! snd p) = i \<and> at_id (m_atts m ! snd p) = fst p))
     \<and> (\<forall>k < length (m_atts m). sess m (at_session (m_atts m ! k)) \<noteq> None)"

definition att_queue_ok :: "ManagerConfig \<Rightarrow> Attachment \<Rightarrow> bool" where
  "att_queue_ok c a \<longleftrightarrow>
     at_maxBytes a = AttachmentQueueBytes c
     \<and> at_bytes a = sum_list (map attachmentEventBytes (at_queue a)) \<and> at_bytes a \<le> at_maxBytes a"

definition feed_ok :: "msys \<Rightarrow> bool" where
  "feed_ok y \<longleftrightarrow>
     (\<forall>i. sess (y_m y) i = None \<longrightarrow> y_published y i = [])
     \<and> (\<forall>i s. sess (y_m y) i = Some s \<longrightarrow>
          se_lastSequence s = of_nat (length (y_published y i)) \<and> hist_data (m_config (y_m y)) (y_published y i) (se_history s))
     \<and> (\<forall>k \<ge> length (m_atts (y_m y)). y_sent y k = [])
     \<and> (\<forall>k < length (m_atts (y_m y)). \<forall>s. sess (y_m y) (at_session (m_atts (y_m y) ! k)) = Some s \<longrightarrow>
          att_good (m_config (y_m y)) (y_published y (at_session (m_atts (y_m y) ! k))) (y_base y k) (y_sent y k) (se_exit s)
            (att_link s k (m_atts (y_m y) ! k)) (m_atts (y_m y) ! k))"

text \<open>\<open>small\<close>: no session has used up its 64-bit sequence numbers.\<close>

definition small :: "msys \<Rightarrow> bool" where
  "small y \<longleftrightarrow> (\<forall>i. length (y_published y i) < 2 ^ 64)"

definition deliver_ok :: "msys \<Rightarrow> bool" where
  "deliver_ok y \<longleftrightarrow>
     life_ok y \<and> hist_ok (y_m y) \<and> links_ok (y_m y)
     \<and> (\<forall>a \<in> set (m_atts (y_m y)). att_queue_ok (m_config (y_m y)) a)
     \<and> (small y \<longrightarrow> feed_ok y)"

lemma links_okD:
  assumes "links_ok m" and "sess m i = Some s"
  shows "is_map (se_attachments s)" "int (length (se_attachments s)) \<le> MaxAttachmentsPerSession (m_config m)"
    "p \<in> set (se_attachments s) \<Longrightarrow> snd p < length (m_atts m) \<and> at_session (m_atts m ! snd p) = i \<and> at_id (m_atts m ! snd p) = fst p"
  using assms unfolding links_ok_def by blast+

lemma links_distinct:
  assumes "links_ok m" and "sess m i = Some s"
  shows "distinct (map snd (se_attachments s))"
proof -
  have "distinct (se_attachments s)" using links_okD(1) [OF assms] by (simp add: is_map_def distinct_map)
  moreover have "inj_on snd (set (se_attachments s))"
  proof (rule inj_onI)
    fix p q assume "p \<in> set (se_attachments s)" "q \<in> set (se_attachments s)" "snd p = snd q"
    then show "p = q" using links_okD(3) [OF assms, of p] links_okD(3) [OF assms, of q] by (simp add: prod_eq_iff)
  qed
  ultimately show ?thesis by (simp add: distinct_map)
qed

text \<open>
  \<open>weaker\<close>: sessions may lose links and their history, and nothing else about feeding changes.
\<close>

fun state_rank :: "SessionState \<Rightarrow> nat" where
  "state_rank SessionStarting = 0" | "state_rank SessionRunning = 1" | "state_rank SessionStopping = 2"
| "state_rank SessionExited = 3" | "state_rank SessionFailed = 3"

definition sess_weaker :: "Session \<Rightarrow> Session \<Rightarrow> bool" where
  "sess_weaker s s' \<longleftrightarrow>
     se_lastSequence s' = se_lastSequence s \<and> se_exit s' = se_exit s \<and> se_id s' = se_id s
     \<and> state_rank (se_state s) \<le> state_rank (se_state s')
     \<and> (\<exists>P. se_attachments s' = filter P (se_attachments s))
     \<and> (se_history s' = se_history s \<or> se_history s' = [])"

definition weaker :: "Manager \<Rightarrow> Manager \<Rightarrow> bool" where
  "weaker m m' \<longleftrightarrow>
     m_config m' = m_config m \<and> m_atts m' = m_atts m \<and> (\<forall>j. rel_option sess_weaker (sess m j) (sess m' j))"

lemma sess_weaker_refl [simp]: "sess_weaker s s"
proof -
  have "se_attachments s = filter (\<lambda>_. True) (se_attachments s)" by simp
  then show ?thesis unfolding sess_weaker_def by blast
qed

lemma sess_weakerI:
  assumes "se_lastSequence s' = se_lastSequence s" "se_exit s' = se_exit s" "se_id s' = se_id s"
    "state_rank (se_state s) \<le> state_rank (se_state s')"
    "se_attachments s' = se_attachments s \<or> se_attachments s' = [] \<or> (\<exists>c. se_attachments s' = mdel c (se_attachments s))"
    "se_history s' = se_history s \<or> se_history s' = []"
  shows "sess_weaker s s'"
proof -
  have "xs = filter (\<lambda>_. True) xs" "[] = filter (\<lambda>_. False) xs" for xs :: "(64 word \<times> nat) list" by auto
  then have "\<exists>P. se_attachments s' = filter P (se_attachments s)"
    using assms(5) unfolding mdel_filter by metis
  then show ?thesis using assms unfolding sess_weaker_def by blast
qed

lemma sess_weaker_trans: "sess_weaker a b \<Longrightarrow> sess_weaker b c \<Longrightarrow> sess_weaker a c"
  unfolding sess_weaker_def by (elim conjE exE) (auto simp: filter_filter)

lemma weaker_refl [simp]: "weaker m m"
  by (simp add: weaker_def option.rel_refl)

lemma weaker_trans:
  assumes "weaker a b" and "weaker b c"
  shows "weaker a c"
proof -
  have "rel_option sess_weaker (sess a j) (sess c j)" for j
  proof -
    have "rel_option sess_weaker (sess a j) (sess b j)" "rel_option sess_weaker (sess b j) (sess c j)"
      using assms by (auto simp: weaker_def)
    then show ?thesis
      by (cases "sess a j"; cases "sess b j"; cases "sess c j") (auto intro: sess_weaker_trans)
  qed
  then show ?thesis using assms by (simp add: weaker_def)
qed

lemma weaker_emit: "weaker m (snd (emitLocked ev m))"
  using same_but_observers_fields [OF emitLocked_same [of m ev]] by (simp add: weaker_def option.rel_refl)

lemma weaker_upd_session:
  assumes "\<And>s. sess m i = Some s \<Longrightarrow> sess_weaker s (f s)"
  shows "weaker m (upd_session i f m)"
proof -
  have "rel_option sess_weaker (sess m j) (sess (upd_session i f m) j)" for j
    using assms by (cases "sess m j") (auto simp: option.rel_refl)
  then show ?thesis by (simp add: weaker_def)
qed

lemma weaker_some:
  assumes "weaker m m'" and "sess m' i = Some s'"
  obtains s where "sess m i = Some s" "sess_weaker s s'"
  using assms by (auto simp: weaker_def option_rel_Some2 dest!: spec [of _ i])

lemma weaker_None: "weaker m m' \<Longrightarrow> (sess m' i = None) = (sess m i = None)"
  by (cases "sess m i"; cases "sess m' i") (auto simp: weaker_def dest!: spec [of _ i])

lemma is_map_filter: "is_map xs \<Longrightarrow> is_map (filter P xs)"
  by (simp add: is_map_def distinct_map_filter)

lemma weaker_links:
  assumes "weaker m m'" and "links_ok m"
  shows "links_ok m'"
proof -
  have f: "m_config m' = m_config m" "m_atts m' = m_atts m" using assms(1) by (auto simp: weaker_def)
  have "is_map (se_attachments s') \<and> int (length (se_attachments s')) \<le> MaxAttachmentsPerSession (m_config m)
      \<and> (\<forall>p \<in> set (se_attachments s'). snd p < length (m_atts m) \<and> at_session (m_atts m ! snd p) = i \<and> at_id (m_atts m ! snd p) = fst p)"
    if s': "sess m' i = Some s'" for i s'
  proof -
    obtain s where s: "sess m i = Some s" "sess_weaker s s'" using weaker_some [OF assms(1) s'] by blast
    then obtain P where P: "se_attachments s' = filter P (se_attachments s)" by (auto simp: sess_weaker_def)
    have "int (length (se_attachments s')) \<le> int (length (se_attachments s))" by (simp add: P)
    then have "int (length (se_attachments s')) \<le> MaxAttachmentsPerSession (m_config m)"
      using links_okD(2) [OF assms(2) s(1)] by linarith
    then show ?thesis using links_okD(1,3) [OF assms(2) s(1)] by (auto simp: P intro: is_map_filter)
  qed
  then show ?thesis using assms(2) weaker_None [OF assms(1)] unfolding links_ok_def by (simp add: f)
qed

lemma hist_data_Nil [simp]: "hist_data mc pub []"
  by (simp add: hist_data_def)

lemma weaker_feed:
  assumes "weaker (y_m y) (y_m y')" and "feed_ok y"
    and "y_published y' = y_published y" "y_sent y' = y_sent y" "y_base y' = y_base y"
  shows "feed_ok y'"
proof -
  have f: "m_atts (y_m y') = m_atts (y_m y)" "m_config (y_m y') = m_config (y_m y)" using assms(1) by (simp_all add: weaker_def)
  have 1: "se_lastSequence s' = of_nat (length (y_published y i)) \<and> hist_data (m_config (y_m y)) (y_published y i) (se_history s')"
    if s': "sess (y_m y') i = Some s'" for i s'
  proof -
    obtain s where "sess (y_m y) i = Some s" "sess_weaker s s'" using weaker_some [OF assms(1) s'] by blast
    then show ?thesis using assms(2) by (auto simp: feed_ok_def sess_weaker_def)
  qed
  have 2: "att_good (m_config (y_m y)) (y_published y (at_session a)) (y_base y k) (y_sent y k) (se_exit s') (att_link s' k a) a"
    if k: "k < length (m_atts (y_m y))" "a = m_atts (y_m y) ! k" "sess (y_m y') (at_session a) = Some s'" for k a s'
  proof -
    obtain s where s: "sess (y_m y) (at_session a) = Some s" "sess_weaker s s'"
      using weaker_some [OF assms(1) k(3)] by blast
    then have g: "att_good (m_config (y_m y)) (y_published y (at_session a)) (y_base y k) (y_sent y k) (se_exit s) (att_link s k a) a"
      using assms(2) k by (simp add: feed_ok_def)
    have "att_link s' k a \<Longrightarrow> att_link s k a" "se_exit s' = se_exit s" using s(2) by (auto simp: sess_weaker_def)
    then show ?thesis using g att_good_unlink [OF g] by (cases "att_link s' k a") auto
  qed
  show ?thesis
    using assms(2) 1 2 weaker_None [OF assms(1)] unfolding feed_ok_def by (simp add: f assms(3-5))
qed

end
