(* ===== verification/Pty_Delivery_Sys.thy ===== *)
theory Pty_Delivery_Sys
  imports Pty_Delivery
begin

text \<open>
  The delivery invariant, operation by operation and then for every reachable state of the
  manager, with the properties that rest on it: resource limits, unbroken history, and what
  a sink receives.
\<close>

section \<open>History under the other operations\<close>

lemma msum_dom:
  assumes "is_map st"
  shows "msum f st = (\<Sum>k \<in> dom (mget st). f (the (mget st k)))"
  using assms
proof (induction st)
  case (Cons p st)
  obtain k v where p: "p = (k, v)" by (cases p)
  have k: "k \<notin> fst ` set st" and mp: "is_map st" using Cons.prems by (auto simp: is_map_def p)
  have d: "dom (mget (p # st)) = insert k (dom (mget st))" by (auto simp: p)
  have nd: "k \<notin> dom (mget st)" using k by (simp add: domIff mget_None_keys)
  let ?g = "\<lambda>j. f (the (mget (p # st) j))"
  have "sum ?g (insert k (dom (mget st))) = ?g k + sum ?g (dom (mget st))"
    using nd by (intro sum.insert) (simp_all add: finite_dom_map_of)
  moreover have "sum ?g (dom (mget st)) = (\<Sum>j \<in> dom (mget st). f (the (mget st j)))"
    using nd by (intro sum.cong) (auto simp: p)
  moreover have "?g k = f v" by (simp add: p)
  ultimately have "f v + msum f st = sum ?g (dom (mget (p # st)))" using Cons.IH [OF mp] d by simp
  moreover have "msum f (p # st) = f v + msum f st" by (simp add: p)
  ultimately show ?case by (rule trans [rotated])
qed simp

lemma msum_pointwise:
  assumes "is_map st" "is_map st'" and "\<And>k. map_option f (mget st' k) = map_option f (mget st k)"
  shows "msum f st' = msum f st"
proof -
  have d: "dom (mget st') = dom (mget st)"
  proof -
    have "(mget st' k = None) = (mget st k = None)" for k
      using assms(3) [of k] by (cases "mget st k"; cases "mget st' k") auto
    then show ?thesis by (auto simp: dom_def)
  qed
  show ?thesis unfolding msum_dom [OF assms(1)] msum_dom [OF assms(2)] d
  proof (rule sum.cong)
    fix k assume "k \<in> dom (mget st)"
    then show "f (the (mget st' k)) = f (the (mget st k))" using assms(3) [of k] by (cases "mget st' k") auto
  qed simp
qed

definition hist_view :: "Session \<Rightarrow> historyChunk list \<times> int \<times> 64 word" where
  "hist_view s = (se_history s, se_historyBytes s, se_lastSequence s)"

definition hist_same :: "Manager \<Rightarrow> Manager \<Rightarrow> bool" where
  "hist_same m m' \<longleftrightarrow>
     m_config m' = m_config m \<and> m_historyBytes m' = m_historyBytes m \<and> set (m_sessions m) \<subseteq> set (m_sessions m')
     \<and> (is_map (m_store m) \<longrightarrow> is_map (m_store m'))
     \<and> (\<forall>j. map_option hist_view (sess m' j) = map_option hist_view (sess m j))"

lemma hist_same_refl [simp]: "hist_same m m"
  by (simp add: hist_same_def)

lemma hist_same_trans: "hist_same a b \<Longrightarrow> hist_same b c \<Longrightarrow> hist_same a c"
  unfolding hist_same_def by auto

lemma hist_same_ok:
  assumes "hist_same m m'" and "hist_ok m"
  shows "hist_ok m'"
proof -
  have a: "acc m" using assms(2) by (simp add: hist_ok_def)
  have mp: "is_map (m_store m)" "is_map (m_store m')" using a assms(1) by (auto simp: store_acc_def hist_same_def)
  have v: "map_option hist_view (sess m' j) = map_option hist_view (sess m j)" for j
    using assms(1) by (simp add: hist_same_def)
  have s: "\<exists>s. sess m j = Some s \<and> hist_view s' = hist_view s" if "sess m' j = Some s'" for j s'
    using v [of j] that by (cases "sess m j") auto
  have "map_option se_historyBytes (sess m' j) = map_option se_historyBytes (sess m j)" for j
    using v [of j] by (cases "sess m j"; cases "sess m' j") (auto simp: hist_view_def)
  then have sum: "msum se_historyBytes (m_store m') = msum se_historyBytes (m_store m)"
    by (rule msum_pointwise [OF mp])
  have one: "hist_acc s' \<and> (j \<notin> set (m_sessions m') \<longrightarrow> se_history s' = []) \<and> se_historyBytes s' \<le> HistoryBytes (m_config m')"
    if s': "sess m' j = Some s'" for j s'
  proof -
    obtain s where s: "sess m j = Some s" "hist_view s' = hist_view s" using s [OF s'] by blast
    have "hist_acc s' = hist_acc s" using s(2) by (simp add: hist_acc_def hist_seq_def hist_view_def)
    then show ?thesis
      using store_accD [OF a s(1)] assms s by (auto simp: hist_ok_def hist_same_def hist_view_def)
  qed
  show ?thesis
    using assms sum mp one a unfolding hist_ok_def store_acc_def hist_same_def by auto
qed

lemma hist_same_emit: "hist_same m (snd (emitLocked ev m))"
  using same_but_observers_fields [OF emitLocked_same [of m ev]] by (simp add: hist_same_def)

lemma hist_same_upd_session:
  assumes "\<And>s. sess m i = Some s \<Longrightarrow> hist_view (f s) = hist_view s"
  shows "hist_same m (upd_session i f m)"
proof -
  have "map_option hist_view (sess (upd_session i f m) j) = map_option hist_view (sess m j)" for j
    using assms by (cases "sess m j") auto
  then show ?thesis by (simp add: hist_same_def)
qed

lemma removeHistory_ok:
  assumes "hist_ok m"
  shows "hist_ok (removeHistoryLocked i m)"
    "sess (removeHistoryLocked i m) i = Some s \<Longrightarrow> se_history s = []"
proof -
  show "sess (removeHistoryLocked i m) i = Some s \<Longrightarrow> se_history s = []"
    by (auto simp: removeHistoryLocked_def split: option.splits)
  show "hist_ok (removeHistoryLocked i m)"
  proof (cases "sess m i")
    case None
    then show ?thesis using assms by (simp add: removeHistoryLocked_def)
  next
    case (Some t)
    have a: "acc m" using assms by (simp add: hist_ok_def)
    have "0 \<le> se_historyBytes t" using store_accD [OF a Some] hist_acc_nonneg by blast
    moreover have "hist_acc (t\<lparr>se_history := [], se_historyBytes := 0\<rparr>)" by (simp add: hist_acc_def hist_seq_def)
    moreover have "0 \<le> HistoryBytes (m_config m)"
      using assms Some \<open>0 \<le> se_historyBytes t\<close> unfolding hist_ok_def by force
    ultimately show ?thesis using assms Some
      by (auto simp: removeHistoryLocked_def hist_ok_def store_acc_def msum_mput)
  qed
qed

lemma hist_ok_unregister:
  assumes "hist_ok m" and "\<And>s. sess m i = Some s \<Longrightarrow> se_history s = []"
    and "set (m_sessions m) - {i} \<subseteq> set regs"
  shows "hist_ok (m\<lparr>m_sessions := regs\<rparr>)"
proof -
  have "hist_acc s \<and> (j \<notin> set regs \<longrightarrow> se_history s = [])" if "sess m j = Some s" for j s
    using assms(1) that assms(2,3) store_accD [of "m_store m" "m_sessions m" "m_historyBytes m" j s]
    by (cases "j = i") (auto simp: hist_ok_def)
  then show ?thesis using assms(1) unfolding hist_ok_def store_acc_def by auto
qed

lemma sessions_commute:
  "removeRetainedIDLocked i (m\<lparr>m_sessions := r\<rparr>) = (removeRetainedIDLocked i m)\<lparr>m_sessions := r\<rparr>"
  "upd_session i f (m\<lparr>m_sessions := r\<rparr>) = (upd_session i f m)\<lparr>m_sessions := r\<rparr>"
  "removeHistoryLocked i (m\<lparr>m_sessions := r\<rparr>) = (removeHistoryLocked i m)\<lparr>m_sessions := r\<rparr>"
  by (simp_all add: removeRetainedIDLocked_def upd_session_def removeHistoryLocked_def split: option.splits)

lemma removeSession_hist_ok:
  assumes "hist_ok m"
  shows "hist_ok (removeSessionLocked i m)"
proof -
  define m3 where "m3 = upd_session i (\<lambda>s. s\<lparr>se_retained := False, se_removing := False\<rparr>) (removeRetainedIDLocked i m)"
  have "hist_same m (removeRetainedIDLocked i m)" by (simp add: hist_same_def removeRetainedIDLocked_def)
  moreover have "hist_same (removeRetainedIDLocked i m) m3" unfolding m3_def
    by (rule hist_same_upd_session) (simp add: hist_view_def)
  ultimately have "hist_ok m3" using hist_same_ok [OF _ assms] hist_same_trans by blast
  note h = removeHistory_ok [OF this, of i]
  have ses: "m_sessions (removeHistoryLocked i m3) = m_sessions m"
    by (simp add: removeHistoryLocked_def m3_def removeRetainedIDLocked_def split: option.splits)
  have "hist_ok ((removeHistoryLocked i m3)\<lparr>m_sessions := filter (\<lambda>j. j \<noteq> i) (m_sessions m)\<rparr>)"
    by (rule hist_ok_unregister [OF h]) (auto simp: ses)
  moreover have "removeSessionLocked i m =
      ((removeHistoryLocked i m3)\<lparr>m_sessions := filter (\<lambda>j. j \<noteq> i) (m_sessions m)\<rparr>)
        \<lparr>m_generation := m_generation (removeHistoryLocked i m3) + 1\<rparr>"
    by (simp add: removeSessionLocked_def Let_def m3_def sessions_commute)
  moreover have "hist_same a (a\<lparr>m_generation := g\<rparr>)" for a g by (simp add: hist_same_def)
  ultimately show ?thesis using hist_same_ok by metis
qed

section \<open>Operations that only detach\<close>

definition keeps :: "Manager \<Rightarrow> Manager \<Rightarrow> bool" where
  "keeps m m' \<longleftrightarrow> weaker m m' \<and> (hist_ok m \<longrightarrow> hist_ok m')"

lemma keeps_refl [simp]: "keeps m m"
  by (simp add: keeps_def)

lemma keeps_trans: "keeps a b \<Longrightarrow> keeps b c \<Longrightarrow> keeps a c"
  unfolding keeps_def using weaker_trans by blast

lemma keepsI: "weaker m m' \<Longrightarrow> hist_same m m' \<Longrightarrow> keeps m m'"
  unfolding keeps_def using hist_same_ok by blast

lemma keeps_emit: "keeps m (snd (emitLocked ev m))"
  by (rule keepsI [OF weaker_emit hist_same_emit])

lemma keeps_upd_session:
  assumes "\<And>s. sess m i = Some s \<Longrightarrow> sess_weaker s (f s) \<and> hist_view (f s) = hist_view s"
  shows "keeps m (upd_session i f m)"
  by (rule keepsI [OF weaker_upd_session hist_same_upd_session]) (use assms in auto)

text \<open>Updates of fields the invariant does not look at.\<close>

lemma keeps_other:
  "m_config m' = m_config m \<Longrightarrow> m_atts m' = m_atts m \<Longrightarrow> m_store m' = m_store m \<Longrightarrow>
   m_historyBytes m' = m_historyBytes m \<Longrightarrow> m_sessions m' = m_sessions m \<Longrightarrow> keeps m m'"
  by (rule keepsI) (simp_all add: weaker_def hist_same_def option.rel_refl)

lemma keeps_deliver:
  assumes "keeps (y_m y) (y_m y')" and "deliver_ok y" and "life_ok y'"
    and "y_published y' = y_published y" "y_sent y' = y_sent y" "y_base y' = y_base y"
  shows "deliver_ok y'"
proof -
  have w: "weaker (y_m y) (y_m y')" using assms(1) by (simp add: keeps_def)
  have f: "m_config (y_m y') = m_config (y_m y)" "m_atts (y_m y') = m_atts (y_m y)" using w by (auto simp: weaker_def)
  have "small y' = small y" by (simp add: small_def assms(4))
  moreover have "feed_ok y \<Longrightarrow> feed_ok y'" by (rule weaker_feed [OF w _ assms(4-6)])
  ultimately show ?thesis
    using assms(1-3) weaker_links [OF w] unfolding deliver_ok_def keeps_def by (simp add: f)
qed

lemma removeSession_weaker: "weaker m (removeSessionLocked i m)"
proof -
  have "rel_option sess_weaker (sess m j) (sess (removeSessionLocked i m) j)" for j
    by (cases "sess m j") (auto simp: removeSessionLocked_def Let_def removeRetainedIDLocked_def
        removeHistoryLocked_def split: option.splits if_splits intro!: sess_weakerI)
  moreover have "m_atts (removeSessionLocked i m) = m_atts m"
    by (simp add: removeSessionLocked_def Let_def removeRetainedIDLocked_def removeHistoryLocked_def
        split: option.splits)
  ultimately show ?thesis by (simp add: weaker_def removeSession_fields)
qed

lemma keeps_removeSession: "keeps m (removeSessionLocked i m)"
  unfolding keeps_def using removeSession_weaker removeSession_hist_ok by blast

lemma keeps_evicted:
  assumes "evicted m m'" and "is_map (m_store m')"
  shows "keeps m m'"
proof (rule keepsI)
  have v: "\<exists>s. sess m j = Some s \<and> (s' = s \<or> s' = evicted_session s)" if "sess m' j = Some s'" for j s'
    using evicted_some [OF assms(1) that] by blast
  have "rel_option sess_weaker (sess m j) (sess m' j)" for j
    using v [of j] evicted_None [OF assms(1), of j]
    by (cases "sess m j"; cases "sess m' j") (auto simp: evicted_session_def intro!: sess_weakerI)
  then show "weaker m m'" by (simp add: weaker_def evicted_fields [OF assms(1)])
  have "map_option hist_view (sess m' j) = map_option hist_view (sess m j)" for j
    using v [of j] evicted_None [OF assms(1), of j]
    by (cases "sess m j"; cases "sess m' j") (auto simp: evicted_session_def hist_view_def)
  then show "hist_same m m'" using assms(2) by (simp add: hist_same_def evicted_fields [OF assms(1)])
qed

lemma keeps_finishRemoval: "keeps m (snd (finishRetainedRemoval r m))"
proof (cases r m rule: finishRemoval_cases)
  case (removed s m2 s2)
  have "keeps (removeSessionLocked (rr_session r) m) m2" by (rule keeps_other) (simp_all add: removed(4))
  then show ?thesis unfolding removed(6)
    using keeps_trans [OF keeps_trans [OF keeps_removeSession]] keeps_emit by blast
qed simp

lemma keeps_run_retire:
  assumes "sessions_ok m" and s: "sess m i = Some s" "se_pc s = RunDraining ks"
    and "ManagerConfig_validate (m_config m) = None" and "run_retire i m = Some (failed, m')"
  shows "keeps m m'"
  using assms(5)
proof (cases rule: run_retire_cases)
  case (retain m1 m2 m3 m4 s2 removals)
  have k1: "keeps m m1" unfolding retain(1)
    by (rule keeps_upd_session) (auto simp: hist_view_def intro!: sess_weakerI)
  have "keeps m1 (upd_session i (\<lambda>s. s\<lparr>se_retained := True\<rparr>) m1)"
    by (rule keeps_upd_session) (auto simp: hist_view_def intro!: sess_weakerI)
  moreover have "keeps (upd_session i (\<lambda>s. s\<lparr>se_retained := True\<rparr>) m1) m2"
    by (rule keeps_other) (simp_all add: retain(4))
  moreover have "keeps m2 m3" unfolding retain(6) by (rule keeps_emit)
  ultimately have k3: "keeps m m3" using k1 keeps_trans by blast
  note ev = run_retire_evicts [OF assms(1) s assms(4) retain(1,4,5,6,7)]
  have k4: "keeps m3 m4" by (rule keeps_evicted [OF ev(1)]) (rule sessions_okXD(1) [OF ev(2)])
  have "keeps m4 m'" unfolding retain(8)
    by (rule keeps_upd_session) (auto simp: hist_view_def intro!: sess_weakerI)
  then show ?thesis using k3 k4 keeps_trans by blast
next
  case (remove m1 m2 m3 s3)
  have k1: "keeps m m1" unfolding remove(1)
    by (rule keeps_upd_session) (auto simp: hist_view_def intro!: sess_weakerI)
  have k2: "keeps m1 m2" unfolding remove(2) by (rule keeps_removeSession)
  have k3: "keeps m2 m3" by (rule keeps_other) (simp_all add: remove(3))
  have "keeps (snd (emitLocked (session_event EventRemoved s3) m3)) m'" unfolding remove(5)
    by (rule keeps_upd_session) (auto simp: hist_view_def intro!: sess_weakerI)
  then show ?thesis using k1 k2 k3 keeps_emit keeps_trans by metis
qed

lemma keeps_close_begin: "keeps m (snd (close_begin m))"
proof -
  have "keeps a (fold (\<lambda>i. upd_session i stop_session) is a)" for a "is"
  proof (induction "is" arbitrary: a)
    case (Cons i "is")
    have "keeps a (upd_session i stop_session a)"
      by (rule keeps_upd_session) (auto simp: hist_view_def stop_session_def intro!: sess_weakerI)
    from keeps_trans [OF this Cons.IH] show ?case by simp
  qed simp
  moreover have "keeps m (m\<lparr>m_closing := True\<rparr>)" by (rule keeps_other) simp_all
  moreover have "keeps b (b\<lparr>m_observers := []\<rparr>)" for b by (rule keeps_other) simp_all
  ultimately show ?thesis unfolding close_begin_state using keeps_trans by blast
qed

lemma clear_session_ok: "hist_ok m \<Longrightarrow> hist_ok (clear_session i m)"
  unfolding clear_session_def
  by (rule hist_same_ok [OF hist_same_upd_session removeHistory_ok(1)]) (simp_all add: hist_view_def)

lemma keeps_close_end:
  "keeps m (close_end m)"
proof -
  let ?m = "fold clear_session (m_sessions m) m"
  have "rel_option sess_weaker (sess m j) (sess (close_end m) j)" for j
    by (cases "sess m j") (auto simp: close_end_state clear_all_sess intro!: sess_weakerI)
  then have "weaker m (close_end m)" by (simp add: weaker_def close_end_state clear_all_fields)
  moreover have "hist_ok (close_end m)" if h: "hist_ok m"
  proof -
    have "hist_ok (fold clear_session is a)" if "hist_ok a" for "is" a
      using that by (induction "is" arbitrary: a) (auto intro: clear_session_ok)
    then have c: "hist_ok ?m" using h by blast
    have "se_history s = []" if "sess ?m j = Some s" for j s
      using that h store_accD [of "m_store m" "m_sessions m" "m_historyBytes m" j]
      by (auto simp: clear_all_sess hist_ok_def split: if_splits)
    then have "hist_ok (?m\<lparr>m_sessions := []\<rparr>)"
      using c unfolding hist_ok_def store_acc_def by auto
    moreover have "hist_same (?m\<lparr>m_sessions := []\<rparr>) (close_end m)"
      by (simp add: hist_same_def close_end_state)
    ultimately show ?thesis using hist_same_ok by blast
  qed
  ultimately show ?thesis by (simp add: keeps_def)
qed

lemma keeps_simple:
  "keeps m (open_started m)" "keeps m (recordProcessExited m)" "keeps m (kill_result i e m)"
  "keeps m (resize_apply i sz m)" "keeps m (Subscription_unlink k m)" "keeps m (su_finish_at k e' r m)"
  "keeps m (manager_cancel m)" "keeps m (close_joins ts ks m)" "keeps m (snd (Subscribe m))"
  "keeps m (snd (kill_begin i m))" "keeps m (upd_sub k g m)" "keeps m (snd (open_reserve m))" "keeps m (open_abort m)"
  "keeps m (upd_session i (\<lambda>s. s\<lparr>se_pc := p\<rparr>) m)"
proof -
  show "keeps m (kill_result i e m)" unfolding kill_result_def
    by (rule keeps_upd_session) (auto simp: hist_view_def intro!: sess_weakerI)
  show "keeps m (resize_apply i sz m)" unfolding resize_apply_def
    by (rule keeps_upd_session) (auto simp: hist_view_def intro!: sess_weakerI)
  show "keeps m (upd_session i (\<lambda>s. s\<lparr>se_pc := p\<rparr>) m)"
    by (rule keeps_upd_session) (auto simp: hist_view_def intro!: sess_weakerI)
  have "keeps m (upd_session i (\<lambda>s. s\<lparr>se_state := (if se_state s = SessionRunning then SessionStopping else se_state s),
      se_killOnce := True\<rparr>) m)"
    by (rule keeps_upd_session) (auto simp: hist_view_def intro!: sess_weakerI)
  then show "keeps m (snd (kill_begin i m))" using kill_begin_state [of i m] by auto
qed (rule keeps_other; simp add: open_started_def recordProcessExited_def Subscription_unlink_def su_finish_at_def
    recordObserverClose_def manager_cancel_def close_joins_def Let_def Subscribe_def open_reserve_def open_abort_def)+

section \<open>Operations on one attachment\<close>

lemma upd_att_links:
  assumes "links_ok m" and "\<And>a. at_session (f a) = at_session a \<and> at_id (f a) = at_id a"
  shows "links_ok (upd_att k f m)"
proof -
  have id': "at_session (m_atts (upd_att k f m) ! j) = at_session (m_atts m ! j)"
    "at_id (m_atts (upd_att k f m) ! j) = at_id (m_atts m ! j)" if "j < length (m_atts m)" for j
    using that assms(2) by (simp_all add: upd_att_nth)
  show ?thesis using assms(1) unfolding links_ok_def by (auto simp: id')
qed

lemma upd_att_queue:
  assumes "\<forall>a \<in> set (m_atts m). att_queue_ok c a" and "\<And>a. att_queue_ok c a \<Longrightarrow> att_queue_ok c (f a)"
  shows "\<forall>a \<in> set (m_atts (upd_att k f m)). att_queue_ok c a"
proof (cases "k < length (m_atts m)")
  case True
  then have "att_queue_ok c (f (m_atts m ! k))" using assms by simp
  then show ?thesis using assms(1) True by (auto simp: upd_att_def dest!: set_update_subset_insert [THEN subsetD])
qed (use assms(1) in \<open>simp add: upd_att_def\<close>)

text \<open>
  An update of one attachment that is right for that attachment is right for the system.
\<close>

lemma upd_att_deliver:
  assumes "deliver_ok y" and "life_ok y'"
    and y': "y_m y' = upd_att k f (y_m y)" "y_published y' = y_published y" "y_base y' = y_base y"
    and sent: "\<And>j. j \<noteq> k \<Longrightarrow> y_sent y' j = y_sent y j"
      "k \<ge> length (m_atts (y_m y)) \<Longrightarrow> y_sent y' k = y_sent y k"
    and ids: "\<And>a. at_session (f a) = at_session a \<and> at_id (f a) = at_id a"
    and q: "\<And>a. att_queue_ok (m_config (y_m y)) a \<Longrightarrow> att_queue_ok (m_config (y_m y)) (f a)"
    and good: "\<And>mc pub x l. k < length (m_atts (y_m y)) \<Longrightarrow>
        att_good mc pub (y_base y k) (y_sent y k) x l (m_atts (y_m y) ! k) \<Longrightarrow>
        att_good mc pub (y_base y k) (y_sent y' k) x l (f (m_atts (y_m y) ! k))"
  shows "deliver_ok y'"
proof -
  have st: "m_store (y_m y') = m_store (y_m y)" "m_config (y_m y') = m_config (y_m y)"
    "length (m_atts (y_m y')) = length (m_atts (y_m y))" by (simp_all add: y')
  have "hist_ok (y_m y')"
    by (rule hist_same_ok [of "y_m y"]) (use assms(1) in \<open>auto simp: deliver_ok_def hist_same_def y'\<close>)
  moreover have "links_ok (y_m y')"
    unfolding y'(1) by (rule upd_att_links [OF _ ids]) (use assms(1) in \<open>simp add: deliver_ok_def\<close>)
  moreover have "\<forall>a \<in> set (m_atts (y_m y')). att_queue_ok (m_config (y_m y')) a"
    unfolding y'(1) upd_att_fields
    by (rule upd_att_queue [OF _ q]) (use assms(1) in \<open>simp_all add: deliver_ok_def\<close>)
  moreover have "feed_ok y'" if "feed_ok y"
  proof -
    have a: "att_good (m_config (y_m y)) (y_published y (at_session (m_atts (y_m y') ! j))) (y_base y j) (y_sent y' j) (se_exit s)
        (att_link s j (m_atts (y_m y') ! j)) (m_atts (y_m y') ! j)"
      if j: "j < length (m_atts (y_m y))" and s: "sess (y_m y) (at_session (m_atts (y_m y') ! j)) = Some s" for j s
    proof (cases "j = k")
      case True
      then have e: "m_atts (y_m y') ! k = f (m_atts (y_m y) ! k)" using j by (simp add: y'(1) upd_att_nth)
      have "sess (y_m y) (at_session (m_atts (y_m y) ! k)) = Some s" using s True e ids by simp
      then have "att_good (m_config (y_m y)) (y_published y (at_session (m_atts (y_m y) ! k))) (y_base y k) (y_sent y k) (se_exit s)
          (att_link s k (m_atts (y_m y) ! k)) (m_atts (y_m y) ! k)"
        using \<open>feed_ok y\<close> j True by (simp add: feed_ok_def)
      from good [OF _ this] show ?thesis using j True e ids by simp
    next
      case False
      then have "m_atts (y_m y') ! j = m_atts (y_m y) ! j" using j by (simp add: y'(1) upd_att_nth)
      then show ?thesis using \<open>feed_ok y\<close> j s sent(1) [OF False] by (simp add: feed_ok_def)
    qed
    have b: "y_sent y' j = []" if "j \<ge> length (m_atts (y_m y))" for j
      using \<open>feed_ok y\<close> sent that by (cases "j = k") (auto simp: feed_ok_def)
    show ?thesis using \<open>feed_ok y\<close> a b unfolding feed_ok_def by (simp add: st y'(2,3))
  qed
  moreover have "small y' = small y" by (simp add: small_def y'(2))
  ultimately show ?thesis using assms(1,2) unfolding deliver_ok_def by simp
qed

lemma send_deliver:
  assumes "deliver_ok y" and "life_ok y'" and k: "k < length (m_atts (y_m y))"
    and turn: "at_turn (m_atts (y_m y) ! k) = (TurnSend ev, a')"
    and y': "y' = y\<lparr>y_m := upd_att k (\<lambda>_. a') (y_m y), y_sent := (y_sent y)(k := y_sent y k @ [ev])\<rparr>"
  shows "deliver_ok y'"
proof (rule upd_att_deliver [OF assms(1,2), of k "\<lambda>a. if a = m_atts (y_m y) ! k then a' else a"])
  let ?a = "m_atts (y_m y) ! k"
  have fields: "at_session a' = at_session ?a" "at_id a' = at_id ?a" "at_maxBytes a' = at_maxBytes ?a"
    "at_bytes a' \<le> at_bytes ?a"
    "at_bytes ?a = sum_list (map attachmentEventBytes (at_queue ?a)) \<Longrightarrow>
       at_bytes a' = sum_list (map attachmentEventBytes (at_queue a'))"
    by (cases ?a rule: at_turn_cases; use turn in auto)+
  show "y_m y' = upd_att k (\<lambda>a. if a = ?a then a' else a) (y_m y)" using k by (simp add: y' upd_att_def)
  show "at_session (if a = ?a then a' else a) = at_session a \<and> at_id (if a = ?a then a' else a) = at_id a" for a
    using fields by simp
  show "att_queue_ok (m_config (y_m y)) (if a = ?a then a' else a)" if "att_queue_ok (m_config (y_m y)) a" for a
    using that fields by (auto simp: att_queue_ok_def)
  show "att_good mc pub (y_base y k) (y_sent y' k) x l (if ?a = ?a then a' else ?a)"
    if "att_good mc pub (y_base y k) (y_sent y k) x l ?a" for mc pub x l
    using att_good_send [OF that turn] by (simp add: y')
qed (use k in \<open>auto simp: y'\<close>)

lemma simple_att_deliver:
  assumes "deliver_ok y" and "life_ok y'" and "y' = y\<lparr>y_m := upd_att k f (y_m y)\<rparr>"
    and "\<And>a. at_session (f a) = at_session a \<and> at_id (f a) = at_id a \<and> at_maxBytes (f a) = at_maxBytes a
        \<and> (at_queue (f a) = at_queue a \<and> at_bytes (f a) = at_bytes a \<or> at_queue (f a) = [] \<and> at_bytes (f a) = 0)"
    and "\<And>mc pub b sent x l a. att_good mc pub b sent x l a \<Longrightarrow> att_good mc pub b sent x l (f a)"
  shows "deliver_ok y'"
proof (rule upd_att_deliver [OF assms(1,2), of k f])
  have c: "0 < AttachmentQueueBytes (m_config (y_m y))"
    using assms(1) config_limits(5) by (auto simp: deliver_ok_def life_ok_def)
  show "att_queue_ok (m_config (y_m y)) (f a)" if "att_queue_ok (m_config (y_m y)) a" for a
    using that assms(4) [of a] c by (auto simp: att_queue_ok_def)
qed (use assms(3,4,5) in auto)

lemma finish_deliver:
  assumes "deliver_ok y" and "life_ok y'" and "y' = y\<lparr>y_m := upd_att k (finish_locked e r) (y_m y)\<rparr>"
  shows "deliver_ok y'"
proof (rule simple_att_deliver [OF assms])
  show "att_good mc pub b sent x l (finish_locked e r a)" if "att_good mc pub b sent x l a" for mc pub b sent x l a
    by (rule att_good_finish [OF that])
qed (simp add: finish_locked_def)

lemma flag_deliver:
  assumes "deliver_ok y" and "life_ok y'" and "y' = y\<lparr>y_m := upd_att k f (y_m y)\<rparr>"
    and "\<And>a. f a = snd (Activate a) \<or> f a = closeDone a \<or> f a = a\<lparr>at_registered := False\<rparr>"
  shows "deliver_ok y'"
proof (rule simple_att_deliver [OF assms(1-3)])
  have p: "at_pending (f a) = at_pending a" "at_closed (f a) = at_closed a" "at_closing (f a) = at_closing a" for a
    using assms(4) [of a] by (auto simp: Activate_def closeDone_def at_pending_def split: if_splits)
  show "att_good mc pub b sent x l (f a)" if "att_good mc pub b sent x l a" for mc pub b sent x l a
    using that att_good_cong [OF p] by simp
  show "at_session (f a) = at_session a \<and> at_id (f a) = at_id a \<and> at_maxBytes (f a) = at_maxBytes a
      \<and> (at_queue (f a) = at_queue a \<and> at_bytes (f a) = at_bytes a \<or> at_queue (f a) = [] \<and> at_bytes (f a) = 0)" for a
    using assms(4) [of a] by (auto simp: Activate_def closeDone_def split: if_splits)
qed

section \<open>Registering, publishing, exiting, attaching\<close>

lemma register_deliver:
  assumes "deliver_ok y" and "life_ok y'" and none: "sess (y_m y) sid = None"
    and m1: "m1 = (y_m y)\<lparr>m_starting := x, m_store := mput sid (new_session sid sz now) (m_store (y_m y)),
              m_sessions := m_sessions (y_m y) @ [sid], m_generation := g, m_activeSessions := n\<rparr>"
    and y': "y_m y' = snd (emitLocked ev m1)" "y_published y' = y_published y" "y_sent y' = y_sent y" "y_base y' = y_base y"
  shows "deliver_ok y'"
proof -
  let ?m = "y_m y"
  have h: "hist_ok ?m" and l: "links_ok ?m" using assms(1) by (auto simp: deliver_ok_def)
  have c: "0 \<le> HistoryBytes (m_config ?m)" "0 < MaxAttachmentsPerSession (m_config ?m)"
    using assms(1) config_limits by (auto simp: deliver_ok_def life_ok_def)
  have s1: "sess m1 j = (if j = sid then Some (new_session sid sz now) else sess ?m j)" for j by (simp add: m1)
  have "hist_acc (new_session sid sz now)" by (simp add: hist_acc_def hist_seq_def new_session_def)
  then have "hist_ok m1"
    using h none c(1) unfolding hist_ok_def store_acc_def by (auto simp: m1 msum_mput new_session_def)
  moreover have "links_ok m1"
    using l c(2) unfolding links_ok_def by (auto simp: m1 new_session_def)
  moreover have "feed_ok y''" if "feed_ok y" and "y_m y'' = m1" "y_published y'' = y_published y"
      "y_sent y'' = y_sent y" "y_base y'' = y_base y" for y''
  proof -
    have "at_session (m_atts ?m ! k) \<noteq> sid" if "k < length (m_atts ?m)" for k
      using l none that unfolding links_ok_def by metis
    then show ?thesis using that none unfolding feed_ok_def
      by (auto simp: m1 new_session_def)
  qed
  moreover have a1: "m_atts m1 = m_atts ?m" "m_config m1 = m_config ?m" by (simp_all add: m1)
  moreover have k: "keeps m1 (y_m y')" unfolding y'(1) by (rule keeps_emit)
  ultimately have "hist_ok (y_m y')" "links_ok (y_m y')" "m_atts (y_m y') = m_atts ?m" "m_config (y_m y') = m_config ?m"
    using weaker_links [of m1 "y_m y'"] by (auto simp: keeps_def weaker_def)
  moreover have "feed_ok y'" if "feed_ok y"
  proof (rule weaker_feed [of "y\<lparr>y_m := m1\<rparr>"])
    show "feed_ok (y\<lparr>y_m := m1\<rparr>)"
      using \<open>\<And>y''. feed_ok y \<Longrightarrow> y_m y'' = m1 \<Longrightarrow> y_published y'' = y_published y \<Longrightarrow> y_sent y'' = y_sent y \<Longrightarrow>
        y_base y'' = y_base y \<Longrightarrow> feed_ok y''\<close> that by simp
  qed (use k y' in \<open>auto simp: keeps_def\<close>)
  moreover have "small y' = small y" by (simp add: small_def y'(2))
  ultimately show ?thesis using assms(1,2) unfolding deliver_ok_def by simp
qed

lemma appendHistory_shape:
  fixes d :: bytes
  assumes s: "sess m i = Some s"
  defines "m2 \<equiv> appendHistoryLocked i \<lparr>Sequence = se_lastSequence s + 1, Data = d\<rparr> (bump_sequence i m)"
  shows "m_atts m2 = m_atts m \<and> m_config m2 = m_config m \<and> m_sessions m2 = m_sessions m
    \<and> (\<exists>t. sess m2 i = Some t \<and> se_lastSequence t = se_lastSequence s + 1 \<and> se_attachments t = se_attachments s
         \<and> se_exit t = se_exit s
         \<and> (\<exists>q c. se_history t = drop q (se_history s @ [c]) \<and> Data (hc_event c) = kept (m_config m) d
              \<or> (HistoryBytes (m_config m) = 0 \<or> MaxTotalHistoryBytes (m_config m) = 0) \<and> se_history t = se_history s))
    \<and> (\<forall>j. j \<noteq> i \<longrightarrow> rel_option (\<lambda>u u'. se_lastSequence u' = se_lastSequence u \<and> se_attachments u' = se_attachments u
         \<and> se_exit u' = se_exit u \<and> (\<exists>q. se_history u' = drop q (se_history u))) (sess m j) (sess m2 j))"
proof (cases "HistoryBytes (m_config m) = 0 \<or> MaxTotalHistoryBytes (m_config m) = 0")
  case True
  have b: "bump_sequence i m = m\<lparr>m_store := mput i (s\<lparr>se_lastSequence := se_lastSequence s + 1\<rparr>) (m_store m)\<rparr>"
    using s by (simp add: bump_sequence_def upd_session_def)
  have "rel_option (\<lambda>u u'. se_lastSequence u' = se_lastSequence u \<and> se_attachments u' = se_attachments u
         \<and> se_exit u' = se_exit u \<and> (\<exists>q. se_history u' = drop q (se_history u))) x x" for x
    by (rule option.rel_refl) (auto intro: exI [of _ 0])
  then show ?thesis using True by (auto simp: m2_def appendHistoryLocked_def b)
next
  case False
  let ?ev = "\<lparr>Sequence = se_lastSequence s + 1, Data = d\<rparr>"
  define m1 where "m1 = history_push i ?ev (bump_sequence i m)"
  have cb: "m_config (bump_sequence i m) = m_config m" "m_atts (bump_sequence i m) = m_atts m"
    by (simp_all add: bump_sequence_def)
  have a1: "m_atts m1 = m_atts m" by (simp add: m1_def history_push_def Let_def cb split: option.splits)
  have m2: "m2 = evict_total (evict_session i m1)" using False by (simp add: m2_def appendHistoryLocked_def m1_def cb)
  have sh: "shrunk m1 m2" unfolding m2 by (rule shrunk_trans [OF evict_session_shrunk evict_total_shrunk])
  note p = history_push_state [OF s, where d = d, folded m1_def]
  have f: "m_atts m2 = m_atts m" "m_config m2 = m_config m" "m_sessions m2 = m_sessions m"
    using shrunk_fields [OF sh] a1 p(2,3) by simp_all
  have "sess m1 i = Some (pushed_session m d s)" using p(1) by simp
  from shrunk_sess [OF sh this] obtain t k where
    t: "sess m2 i = Some t" "sess_shrunk (pushed_session m d s) t" "se_history t = drop k (se_history (pushed_session m d s))"
    by metis
  have "Data (hc_event (pushed m d s)) = kept (m_config m) d"
    by (simp add: pushed_def history_cut_kept)
  then have own: "\<exists>t. sess m2 i = Some t \<and> se_lastSequence t = se_lastSequence s + 1 \<and> se_attachments t = se_attachments s
         \<and> se_exit t = se_exit s
         \<and> (\<exists>q c. se_history t = drop q (se_history s @ [c]) \<and> Data (hc_event c) = kept (m_config m) d
              \<or> (HistoryBytes (m_config m) = 0 \<or> MaxTotalHistoryBytes (m_config m) = 0) \<and> se_history t = se_history s)"
    using t by (auto simp: sess_shrunk_def pushed_session_def)
  have "rel_option (\<lambda>u u'. se_lastSequence u' = se_lastSequence u \<and> se_attachments u' = se_attachments u
         \<and> se_exit u' = se_exit u \<and> (\<exists>q. se_history u' = drop q (se_history u))) (sess m j) (sess m2 j)" if "j \<noteq> i" for j
  proof -
    have "rel_option sess_shrunk (sess m j) (sess m2 j)" using sh p(1) [of j] that by (auto simp: shrunk_def dest!: spec [of _ j])
    then show ?thesis by (rule option.rel_mono_strong) (auto simp: sess_shrunk_def)
  qed
  with f own show ?thesis by blast
qed

lemma enqueue_fields:
  "at_session (snd (enqueueLocked ev a)) = at_session a" "at_id (snd (enqueueLocked ev a)) = at_id a"
  "at_session (snd (enqueueExitLocked st a)) = at_session a" "at_id (snd (enqueueExitLocked st a)) = at_id a"
  by (simp_all add: enqueueLocked_def enqueueExitLocked_def at_push_def)

lemma enqueue_queue_ok:
  assumes "att_queue_ok c a"
  shows "att_queue_ok c (snd (enqueueLocked ev a))" "att_queue_ok c (snd (enqueueExitLocked st a))"
  using assms by (auto simp: att_queue_ok_def enqueueLocked_def enqueueExitLocked_def at_push_def at_fits_def Let_def)

text \<open>
  A loop that offers something to the linked attachments of one session changes attachments
  pointwise; what that means for links and queues is the same for \<open>publish\<close> and \<open>run\<close>.
\<close>

text \<open>The operations below change the manager and end by telling the observers.\<close>

lemma deliver_emit:
  assumes "life_ok y'" and "y_m y' = snd (emitLocked ev m)" and "hist_ok m" and "links_ok m"
    and "\<forall>a \<in> set (m_atts m). att_queue_ok (m_config m) a" and "small y' \<Longrightarrow> feed_ok (y'\<lparr>y_m := m\<rparr>)"
  shows "deliver_ok y'"
proof -
  have k: "keeps m (y_m y')" unfolding assms(2) by (rule keeps_emit)
  have "feed_ok y'" if "small y'"
    by (rule weaker_feed [OF _ assms(6) [OF that]]) (use k in \<open>auto simp: keeps_def\<close>)
  moreover have "hist_ok (y_m y')" "links_ok (y_m y')" "m_atts (y_m y') = m_atts m" "m_config (y_m y') = m_config m"
    using k assms(3,4) weaker_links [of m "y_m y'"] by (auto simp: keeps_def weaker_def)
  ultimately show ?thesis using assms(1,5) unfolding deliver_ok_def by simp
qed

text \<open>
  What publishing one chunk has done before the observers are told: \<open>s\<close> is the session before,
  \<open>u\<close> after. Attachments that refuse the chunk are taken off the session and left as they were.
\<close>

definition fanned :: "StreamID \<Rightarrow> Session \<Rightarrow> Session \<Rightarrow> OutputEvent \<Rightarrow> Manager \<Rightarrow> Manager \<Rightarrow> bool" where
  "fanned i s u ev m m3 \<longleftrightarrow>
     length (m_atts m3) = length (m_atts m) \<and> m_config m3 = m_config m \<and> hist_ok m3
     \<and> (\<forall>k < length (m_atts m). m_atts m3 ! k =
          (if k \<in> snd ` set (se_attachments s) then snd (enqueueLocked (AttachmentOutput ev) (m_atts m ! k)) else m_atts m ! k))
     \<and> sess m3 i = Some u \<and> se_lastSequence u = se_lastSequence s + 1 \<and> se_exit u = se_exit s
     \<and> se_attachments u = filter (\<lambda>q. fst q \<notin> fst ` {p \<in> set (se_attachments s). refuses ev m p}) (se_attachments s)
     \<and> (\<exists>q c. se_history u = drop q (se_history s @ [c]) \<and> Data (hc_event c) = kept (m_config m) (Data ev)
          \<or> (HistoryBytes (m_config m) = 0 \<or> MaxTotalHistoryBytes (m_config m) = 0) \<and> se_history u = se_history s)
     \<and> (\<forall>j. (sess m3 j = None) = (sess m j = None))
     \<and> (\<forall>j w. j \<noteq> i \<longrightarrow> sess m j = Some w \<longrightarrow> (\<exists>w'. sess m3 j = Some w' \<and> se_lastSequence w' = se_lastSequence w
          \<and> se_attachments w' = se_attachments w \<and> se_exit w' = se_exit w \<and> (\<exists>q. se_history w' = drop q (se_history w))))"

lemma fannedD:
  assumes "fanned i s u ev m m3"
  shows "length (m_atts m3) = length (m_atts m)" "m_config m3 = m_config m" "hist_ok m3"
    and "k < length (m_atts m) \<Longrightarrow> m_atts m3 ! k =
          (if k \<in> snd ` set (se_attachments s) then snd (enqueueLocked (AttachmentOutput ev) (m_atts m ! k)) else m_atts m ! k)"
    and "sess m3 i = Some u" "se_lastSequence u = se_lastSequence s + 1" "se_exit u = se_exit s"
    and "se_attachments u = filter (\<lambda>q. fst q \<notin> fst ` {p \<in> set (se_attachments s). refuses ev m p}) (se_attachments s)"
    and "\<exists>q c. se_history u = drop q (se_history s @ [c]) \<and> Data (hc_event c) = kept (m_config m) (Data ev)
          \<or> (HistoryBytes (m_config m) = 0 \<or> MaxTotalHistoryBytes (m_config m) = 0) \<and> se_history u = se_history s"
    and "(sess m3 j = None) = (sess m j = None)"
    and "j \<noteq> i \<Longrightarrow> sess m j = Some w \<Longrightarrow> \<exists>w'. sess m3 j = Some w' \<and> se_lastSequence w' = se_lastSequence w
          \<and> se_attachments w' = se_attachments w \<and> se_exit w' = se_exit w \<and> (\<exists>q. se_history w' = drop q (se_history w))"
    and "k < length (m_atts m) \<Longrightarrow> at_session (m_atts m3 ! k) = at_session (m_atts m ! k)"
    and "k < length (m_atts m) \<Longrightarrow> at_id (m_atts m3 ! k) = at_id (m_atts m ! k)"
  using assms unfolding fanned_def by (blast | simp add: enqueue_fields)+

lemma publish_fanned:
  assumes "hist_ok m" and "links_ok m" and "ManagerConfig_validate (m_config m) = None"
    and s: "sess m i = Some s" and "i \<in> set (m_sessions m)" and "d \<noteq> []"
  obtains u m3 e where "fanned i s u \<lparr>Sequence = se_lastSequence s + 1, Data = d\<rparr> m m3"
    and "snd (publish i d m) = snd (emitLocked e m3)"
proof -
  let ?ps = "se_attachments s"
  from publish_states [OF s, of d] obtain m2 failed m3 s3 ev where
    ev: "ev = \<lparr>Sequence = se_lastSequence s + 1, Data = d\<rparr>" and m2: "m2 = appendHistoryLocked i ev (bump_sequence i m)"
    and run: "foldl (publish_step i ev) ([], m2) ?ps = (failed, m3)"
    and fin: "snd (publish i d m) = snd (emitLocked \<lparr>ev_Kind = EventOutput, ev_Session = infoLocked s3,
        ev_Output = Some ev, ev_Attachment = None\<rparr> m3)" by metis
  have h2: "hist_ok m2" unfolding m2 ev
    by (rule append_hist_ok [OF assms(1) s assms(5,6)]) (use config_limits [OF assms(3)] in auto)
  note shape = appendHistory_shape [OF s, of d, folded ev, folded m2]
  from shape obtain t where t: "sess m2 i = Some t" "se_lastSequence t = se_lastSequence s + 1"
      "se_attachments t = ?ps" "se_exit t = se_exit s"
    and th: "\<exists>q c. se_history t = drop q (se_history s @ [c]) \<and> Data (hc_event c) = kept (m_config m) d
       \<or> (HistoryBytes (m_config m) = 0 \<or> MaxTotalHistoryBytes (m_config m) = 0) \<and> se_history t = se_history s"
    by blast
  have a2: "m_atts m2 = m_atts m" "m_config m2 = m_config m" using shape by auto
  have bound: "\<forall>p \<in> set ?ps. snd p < length (m_atts (snd ([] :: nat list, m2)))"
    using links_okD(3) [OF assms(2) s] a2 by simp
  have ref: "refuses ev m2 = refuses ev m" by (simp add: refuses_def fun_eq_iff a2)
  note loop = publish_loop [OF run links_distinct [OF assms(2) s] bound, unfolded snd_conv, OF t(1), unfolded a2 t(3) ref]
  have ls: "life_same m2 m3"
    using foldl_life [where f = "publish_step i ev" and st = "([], m2)" and xs = ?ps, OF publish_step_life] run by simp
  have "map_option hist_view (sess m3 j) = map_option hist_view (sess m2 j)" for j
    using loop t(1) by (cases "j = i") (auto simp: hist_view_def)
  then have h3: "hist_ok m3" using loop life_same_fields [OF ls] by (intro hist_same_ok [OF _ h2]) (simp add: hist_same_def)
  have "life_same m m2" unfolding m2 by (rule life_same_trans [OF bump_life appendHistory_life])
  then have none: "(sess m3 j = None) = (sess m j = None)" for j using life_same_None [OF ls, of j] life_same_None [of m m2 j] by simp
  have other: "\<exists>w'. sess m3 j = Some w' \<and> se_lastSequence w' = se_lastSequence w \<and> se_attachments w' = se_attachments w
      \<and> se_exit w' = se_exit w \<and> (\<exists>q. se_history w' = drop q (se_history w))" if "j \<noteq> i" "sess m j = Some w" for j w
    using shape that loop by (auto simp: option_rel_Some1 dest!: spec [of _ j])
  have "fanned i s (t\<lparr>se_attachments := filter (\<lambda>q. fst q \<notin> fst ` {p \<in> set ?ps. refuses ev m p}) ?ps\<rparr>) ev m m3"
    unfolding fanned_def using loop life_same_fields [OF ls] a2 t h3 th none other by (simp add: ev)
  then show thesis using that fin unfolding ev by blast
qed

lemma fanned_links:
  assumes f: "fanned i s u ev m m3" and l: "links_ok m" and s: "sess m i = Some s"
  shows "links_ok m3"
  unfolding links_ok_def
proof (intro conjI allI impI)
  fix j v assume v: "sess m3 j = Some v"
  obtain w where w: "sess m j = Some w" using fannedD(10) [OF f, of j] v by fastforce
  obtain P where P: "se_attachments v = filter P (se_attachments w)"
  proof (cases "j = i")
    case True
    then show ?thesis using that v w s fannedD(5,8) [OF f] by simp
  next
    case False
    have "se_attachments v = filter (\<lambda>_. True) (se_attachments w)" using fannedD(11) [OF f False w] v by auto
    then show ?thesis by (rule that)
  qed
  have "int (length (se_attachments v)) \<le> int (length (se_attachments w))" by (simp add: P)
  then show "int (length (se_attachments v)) \<le> MaxAttachmentsPerSession (m_config m3)"
    using links_okD(2) [OF l w] by (simp add: fannedD(2) [OF f])
  show "is_map (se_attachments v)" using links_okD(1) [OF l w] by (simp add: P is_map_filter)
  show "\<forall>p \<in> set (se_attachments v). snd p < length (m_atts m3) \<and> at_session (m_atts m3 ! snd p) = j
      \<and> at_id (m_atts m3 ! snd p) = fst p"
    using links_okD(3) [OF l w] by (auto simp: P fannedD(1,12,13) [OF f])
next
  fix k assume "k < length (m_atts m3)"
  then show "sess m3 (at_session (m_atts m3 ! k)) \<noteq> None"
    using l fannedD(1,10,12) [OF f] unfolding links_ok_def by simp
qed

lemma fanned_queue:
  assumes f: "fanned i s u ev m m3" and "\<forall>a \<in> set (m_atts m). att_queue_ok (m_config m) a"
  shows "\<forall>a \<in> set (m_atts m3). att_queue_ok (m_config m3) a"
  using assms(2) unfolding all_set_conv_all_nth fannedD(1,2) [OF f] by (auto simp: fannedD(4) [OF f] enqueue_queue_ok)

text \<open>An attachment of the session has the new chunk in its stream, or is off the session.\<close>

lemma fanned_own:
  assumes f: "fanned i s u ev m m3" and l: "links_ok m" and s: "sess m i = Some s" and "se_exit s = None"
    and k: "k < length (m_atts m)" and j: "at_session (m_atts m ! k) = i"
    and ev: "Sequence ev = of_nat (length pub + 1)" "Data ev = d"
    and g: "att_good mc pub b sent (se_exit s) (att_link s k (m_atts m ! k)) (m_atts m ! k)"
  shows "att_good mc (pub @ [d]) b sent (se_exit u) (att_link u k (m_atts m3 ! k)) (m_atts m3 ! k)"
proof -
  let ?a = "m_atts m ! k" and ?ps = "se_attachments s"
  note nth = fannedD(4) [OF f k]
  show ?thesis
  proof (cases "k \<in> snd ` set ?ps \<and> \<not> refuses ev m (at_id ?a, k)")
    case True
    then obtain a' where a': "enqueueLocked (AttachmentOutput ev) ?a = (None, a')"
      by (cases "enqueueLocked (AttachmentOutput ev) ?a") (auto simp: refuses_def)
    have "att_link s k ?a" using True links_okD(3) [OF l s] by force
    then have "att_good mc pub b sent (se_exit s) True ?a" using g by simp
    from att_good_enqueue [OF this a' ev] have "att_good mc (pub @ [d]) b sent (se_exit s) True a'" .
    moreover have "m_atts m3 ! k = a'" using nth True a' by simp
    ultimately show ?thesis using att_good_unlink fannedD(7) [OF f] by (cases "att_link u k a'") auto
  next
    case False
    have same: "m_atts m3 ! k = ?a"
      using nth False by (auto simp: refuses_def enqueueLocked_def split: if_splits)
    have "\<not> att_link u k ?a"
    proof
      assume "att_link u k ?a"
      then have "(at_id ?a, k) \<in> set ?ps" "at_id ?a \<notin> fst ` {p \<in> set ?ps. refuses ev m p}"
        by (auto simp: fannedD(8) [OF f])
      then show False using False by force
    qed
    then show ?thesis
      using att_good_grow [of _ _ _ _ "att_link s k ?a" ?a "att_link u k ?a" d] g same fannedD(7) [OF f] assms(4) by simp
  qed
qed

lemma fanned_feed:
  assumes f: "fanned i s u ev (y_m y) m3" and l: "links_ok (y_m y)" and h: "hist_ok (y_m y)"
    and s: "sess (y_m y) i = Some s" "se_exit s = None" and fe: "feed_ok y"
    and ev: "ev = \<lparr>Sequence = se_lastSequence s + 1, Data = d\<rparr>"
    and y': "y_published y' = (y_published y)(i := y_published y i @ [d])" "y_sent y' = y_sent y" "y_base y' = y_base y"
  shows "feed_ok (y'\<lparr>y_m := m3\<rparr>)"
proof -
  let ?m = "y_m y"
  have fi: "se_lastSequence s = of_nat (length (y_published y i))" "hist_data (m_config (y_m y)) (y_published y i) (se_history s)"
    using fe s(1) by (auto simp: feed_ok_def)
  have evp: "Sequence ev = of_nat (length (y_published y i) + 1)" "Data ev = d" by (simp_all add: ev fi(1))
  have hd: "hist_data (m_config (y_m y)) (y_published y i @ [d]) (se_history u)"
    using fannedD(9) [OF f] evp(2) hist_ok_disabled [OF h _ s(1)] hist_data_drop [OF hist_data_push [OF fi(2)]] by fastforce
  have sess_part: "se_lastSequence v = of_nat (length (y_published y' j)) \<and> hist_data (m_config (y_m y)) (y_published y' j) (se_history v)"
    if v: "sess m3 j = Some v" for j v
  proof (cases "j = i")
    case True
    then show ?thesis using v fannedD(5,6) [OF f] fi(1) hd by (simp add: y'(1))
  next
    case False
    obtain w where w: "sess ?m j = Some w" using fannedD(10) [OF f, of j] v by fastforce
    have "se_lastSequence w = of_nat (length (y_published y j)) \<and> hist_data (m_config (y_m y)) (y_published y j) (se_history w)"
      using fe w by (simp add: feed_ok_def)
    then show ?thesis using fannedD(11) [OF f False w] v False hist_data_drop by (auto simp: y'(1))
  qed
  have att_part: "att_good (m_config (y_m y)) (y_published y' (at_session (m_atts m3 ! k))) (y_base y k) (y_sent y k) (se_exit v)
      (att_link v k (m_atts m3 ! k)) (m_atts m3 ! k)"
    if k: "k < length (m_atts ?m)" and v: "sess m3 (at_session (m_atts m3 ! k)) = Some v" for k v
  proof -
    let ?a = "m_atts ?m ! k" and ?j = "at_session (m_atts ?m ! k)"
    note v = v [unfolded fannedD(12) [OF f k]]
    obtain w where w: "sess ?m ?j = Some w" using fannedD(10) [OF f, of ?j] v by fastforce
    have g: "att_good (m_config (y_m y)) (y_published y ?j) (y_base y k) (y_sent y k) (se_exit w) (att_link w k ?a) ?a"
      using fe k w by (simp add: feed_ok_def)
    show ?thesis
    proof (cases "?j = i")
      case False
      have "k \<notin> snd ` set (se_attachments s)" using links_okD(3) [OF l s(1)] False by auto
      then have "m_atts m3 ! k = ?a" using fannedD(4) [OF f k] by simp
      moreover have "se_exit v = se_exit w" "se_attachments v = se_attachments w" using fannedD(11) [OF f False w] v by auto
      ultimately show ?thesis using g False by (simp add: y'(1))
    next
      case True
      then have "w = s" "v = u" using w v s(1) fannedD(5) [OF f] by simp_all
      then show ?thesis using fanned_own [OF f l s k True evp] g True by (simp add: y'(1) fannedD(12) [OF f k])
    qed
  qed
  show ?thesis
    using fe sess_part att_part fannedD(1,2,10) [OF f] unfolding feed_ok_def by (simp add: y'(2,3)) (auto simp: y'(1) s(1))
qed

lemma publish_deliver:
  assumes "deliver_ok y" and "life_ok y'" and s: "sess (y_m y) i = Some s" "se_pc s = RunPumping" and "d \<noteq> []"
    and y': "y_m y' = snd (publish i d (y_m y))" "y_published y' = (y_published y)(i := y_published y i @ [d])"
      "y_sent y' = y_sent y" "y_base y' = y_base y"
  shows "deliver_ok y'"
proof -
  have h: "hist_ok (y_m y)" and l: "links_ok (y_m y)" and q: "\<forall>a \<in> set (m_atts (y_m y)). att_queue_ok (m_config (y_m y)) a"
    and so: "sessions_ok (y_m y)" and cfg: "ManagerConfig_validate (m_config (y_m y)) = None"
    using assms(1) by (auto simp: deliver_ok_def life_ok_def)
  have reg: "i \<in> set (m_sessions (y_m y))" and x: "se_exit s = None"
    using sessions_okD(6) [OF so s(1)] s(2) by (simp_all add: session_ok_def)
  obtain u m3 e where f: "fanned i s u \<lparr>Sequence = se_lastSequence s + 1, Data = d\<rparr> (y_m y) m3"
    and fin: "snd (publish i d (y_m y)) = snd (emitLocked e m3)" by (rule publish_fanned [OF h l cfg s(1) reg assms(5)])
  have "small y" if "small y'"
    using that unfolding small_def y'(2) by (metis (no_types, lifting) Suc_lessD fun_upd_apply length_append_singleton)
  then have "feed_ok (y'\<lparr>y_m := m3\<rparr>)" if "small y'"
    using fanned_feed [OF f l h s(1) x _ refl y'(2-4)] assms(1) that by (simp add: deliver_ok_def)
  then show ?thesis
    by (rule deliver_emit [OF assms(2) y'(1) [unfolded fin] fannedD(3) [OF f] fanned_links [OF f l s(1)] fanned_queue [OF f q]])
qed

text \<open>The streams after the exit status was offered to the attachments of the session.\<close>

lemma exit_feed:
  assumes l: "links_ok (y_m y)" and s: "sess (y_m y) i = Some s" and x: "se_exit s = None" and f: "feed_ok y"
    and s1: "s1 = s\<lparr>se_pc := RunDraining (map snd (se_attachments s)), se_state := SessionExited, se_exit := Some status\<rparr>"
    and len: "length (m_atts m2) = length (m_atts (y_m y))" and cfg: "m_config m2 = m_config (y_m y)"
    and nth: "\<And>k. k < length (m_atts (y_m y)) \<Longrightarrow> m_atts m2 ! k =
         (if k \<in> set (map snd (se_attachments s)) then snd (enqueueExitLocked status (m_atts (y_m y) ! k)) else m_atts (y_m y) ! k)"
    and sess2: "\<And>j. sess m2 j = (if j = i then Some s1 else sess (y_m y) j)"
    and y': "y_published y' = y_published y" "y_sent y' = y_sent y" "y_base y' = y_base y"
  shows "feed_ok (y'\<lparr>y_m := m2\<rparr>)"
proof -
  let ?m = "y_m y" and ?ks = "map snd (se_attachments s)"
  have ids: "at_session (m_atts m2 ! k) = at_session (m_atts ?m ! k)" "at_id (m_atts m2 ! k) = at_id (m_atts ?m ! k)"
    if "k < length (m_atts ?m)" for k using nth [OF that] by (auto simp: enqueue_fields)
  have att_part: "att_good (m_config (y_m y)) (y_published y (at_session (m_atts m2 ! k))) (y_base y k) (y_sent y k) (se_exit u)
      (att_link u k (m_atts m2 ! k)) (m_atts m2 ! k)"
    if k: "k < length (m_atts ?m)" and u: "sess m2 (at_session (m_atts m2 ! k)) = Some u" for k u
  proof -
    let ?a = "m_atts ?m ! k" and ?j = "at_session (m_atts ?m ! k)"
    obtain w where w: "sess ?m ?j = Some w" using l k unfolding links_ok_def by blast
    have g: "att_good (m_config (y_m y)) (y_published y ?j) (y_base y k) (y_sent y k) (se_exit w) (att_link w k ?a) ?a"
      using f k w by (simp add: feed_ok_def)
    show ?thesis
    proof (cases "?j = i")
      case False
      have "k \<notin> set ?ks" using links_okD(3) [OF l s] False by auto
      then show ?thesis using g False u w nth [OF k] by (simp add: sess2)
    next
      case True
      then have ws: "w = s" and us: "u = s1" using w s u ids [OF k] by (simp_all add: sess2)
      obtain r a' where a': "enqueueExitLocked status ?a = (r, a')" by fastforce
      show ?thesis
      proof (cases "k \<in> set ?ks")
        case linked: True
        have al: "att_link s k ?a" using linked links_okD(3) [OF l s] by force
        then have "att_good (m_config (y_m y)) (y_published y ?j) (y_base y k) (y_sent y k) None True ?a" using g ws x by simp
        from att_good_exit [OF this a'] show ?thesis
          using linked al a' nth [OF k] ids(1,2) [OF k] by (simp add: us s1)
      next
        case False
        then have "\<not> att_link s k ?a" by (auto simp: image_iff)
        moreover have "att_good (m_config (y_m y)) (y_published y ?j) (y_base y k) (y_sent y k) None (att_link s k ?a) ?a" using g ws x by simp
        ultimately show ?thesis
          using att_good_exit_other [of _ _ _ _ "att_link s k ?a" ?a "att_link s k ?a" status] False nth [OF k] by (simp add: us s1)
      qed
    qed
  qed
  show ?thesis
    using f att_part s unfolding feed_ok_def by (auto simp: len cfg y' sess2 s1 split: if_splits)
qed

lemma exit_deliver:
  assumes "deliver_ok y" and "life_ok y'" and s: "sess (y_m y) i = Some s" "early (se_pc s)"
    and y': "y_m y' = snd (run_exit i status (y_m y))" "y_published y' = y_published y"
      "y_sent y' = y_sent y" "y_base y' = y_base y"
  shows "deliver_ok y'"
proof -
  let ?m = "y_m y" and ?ks = "map snd (se_attachments s)"
  have h: "hist_ok ?m" and l: "links_ok ?m" and q: "\<forall>a \<in> set (m_atts ?m). att_queue_ok (m_config ?m) a"
    and so: "sessions_ok ?m"
    using assms(1) by (auto simp: deliver_ok_def life_ok_def)
  have x: "se_exit s = None" using sessions_okD(6) [OF so s(1)] s(2) by (simp add: session_ok_def)
  from run_exit_states [OF s(1), of status] obtain m1 failed m2 s1 where
    s1: "s1 = s\<lparr>se_pc := RunDraining ?ks, se_state := SessionExited, se_exit := Some status\<rparr>"
    and m1: "m1 = ?m\<lparr>m_store := mput i s1 (m_store ?m), m_processesExited := m_processesExited ?m + 1,
            m_activeSessions := (if m_activeSessions ?m > 0 then m_activeSessions ?m - 1 else m_activeSessions ?m)\<rparr>"
    and run: "foldl (exit_step status) ([], m1) ?ks = (failed, m2)"
    and fin: "snd (run_exit i status ?m) = snd (emitLocked (session_event EventExited s1) m2)" by metis
  have bound: "\<forall>k \<in> set ?ks. k < length (m_atts (snd ([] :: nat list, m1)))"
    using links_okD(3) [OF l s(1)] by (auto simp: m1)
  from exit_loop [OF run links_distinct [OF l s(1)] bound] have
    len: "length (m_atts m2) = length (m_atts ?m)"
    and nth: "\<And>k. k < length (m_atts ?m) \<Longrightarrow> m_atts m2 ! k =
         (if k \<in> set ?ks then snd (enqueueExitLocked status (m_atts ?m ! k)) else m_atts ?m ! k)"
    and st: "m_store m2 = m_store m1" and hb: "m_historyBytes m2 = m_historyBytes ?m"
    by (auto simp: m1)
  have ls: "life_same m1 m2"
    using foldl_life [where f = "exit_step status" and st = "([], m1)" and xs = ?ks, OF exit_step_life] run by simp
  have c2: "m_config m2 = m_config ?m" "m_sessions m2 = m_sessions ?m" using life_same_fields [OF ls] by (auto simp: m1)
  have sess2: "sess m2 j = (if j = i then Some s1 else sess ?m j)" for j by (simp add: st m1)
  have ids: "at_session (m_atts m2 ! k) = at_session (m_atts ?m ! k)" "at_id (m_atts m2 ! k) = at_id (m_atts ?m ! k)"
    if "k < length (m_atts ?m)" for k using nth [OF that] by (auto simp: enqueue_fields)
  have "hist_same ?m m2"
    using s(1) sess2 by (auto simp: hist_same_def c2 hb st m1 s1 hist_view_def)
  then have h2: "hist_ok m2" by (rule hist_same_ok [OF _ h])
  have links2: "links_ok m2"
    using l s(1) unfolding links_ok_def by (auto simp: sess2 s1 len c2 ids)
  have queue2: "\<forall>a \<in> set (m_atts m2). att_queue_ok (m_config m2) a"
    using q unfolding all_set_conv_all_nth len c2 by (auto simp: nth enqueue_queue_ok)
  have feed2: "feed_ok (y'\<lparr>y_m := m2\<rparr>)" if "feed_ok y" by (rule exit_feed [OF l s(1) x that s1 len c2(1) nth sess2 y'(2-4)])
  have "small y' = small y" by (simp add: small_def y'(2))
  then show ?thesis
    using assms(1) by (intro deliver_emit [OF assms(2) y'(1) [unfolded fin] h2 links2 queue2] feed2) (simp add: deliver_ok_def)
qed

lemma mput_subset: "set (mput k v xs) \<subseteq> insert (k, v) (set xs)"
  by (induction xs) auto

lemma attached_fields:
  "at_session (attached m i s opts) = i" "at_id (attached m i s opts) = m_nextAttachment m + 1"
  "\<not> at_closed (attached m i s opts)"
  "at_pending (attached m i s opts) = map AttachmentOutput (snd (attach_replay s opts))
     @ (if se_state s = SessionExited \<and> se_exit s \<noteq> None then [AttachmentExit (the (se_exit s))] else [])"
  "at_closing (attached m i s opts) = (se_state s = SessionExited \<and> se_exit s \<noteq> None)"
  "0 < AttachmentQueueBytes (m_config m) \<Longrightarrow> att_queue_ok (m_config m) (attached m i s opts)"
  by (simp_all add: attached_def Let_def newAttachment_def at_pending_def att_queue_ok_def)

lemma attached_shape:
  assumes "m2 = m\<lparr>m_nextAttachment := m_nextAttachment m + 1,
        m_store := mput i (s\<lparr>se_attachments := mput (m_nextAttachment m + 1) k (se_attachments s)\<rparr>) (m_store m),
        m_atts := m_atts m @ [attached m i s opts]\<rparr>"
  shows "sess m2 j = (if j = i then Some (s\<lparr>se_attachments := mput (m_nextAttachment m + 1) k (se_attachments s)\<rparr>) else sess m j)"
    and "length (m_atts m2) = Suc (length (m_atts m))" and "m_config m2 = m_config m"
    and "p < length (m_atts m2) \<Longrightarrow> m_atts m2 ! p = (if p < length (m_atts m) then m_atts m ! p else attached m i s opts)"
  using assms by (simp_all add: nth_append)

lemma attached_links:
  assumes m2: "m2 = m\<lparr>m_nextAttachment := m_nextAttachment m + 1,
        m_store := mput i (s\<lparr>se_attachments := mput (m_nextAttachment m + 1) k (se_attachments s)\<rparr>) (m_store m),
        m_atts := m_atts m @ [attached m i s opts]\<rparr>"
    and l: "links_ok m" and s: "sess m i = Some s" and k: "k = length (m_atts m)"
    and lim: "int (length (se_attachments s)) < MaxAttachmentsPerSession (m_config m)"
  shows "links_ok m2"
  unfolding links_ok_def
proof (intro conjI allI impI)
  fix j u assume u: "sess m2 j = Some u"
  show "is_map (se_attachments u)" "int (length (se_attachments u)) \<le> MaxAttachmentsPerSession (m_config m2)"
    using u links_okD(1,2) [OF l s] links_okD(1,2) [OF l, of j] lim
    by (auto simp: attached_shape(1) [OF m2] attached_shape(2,3) [OF m2] length_mput split: if_splits option.splits)
  show "\<forall>p \<in> set (se_attachments u). snd p < length (m_atts m2) \<and> at_session (m_atts m2 ! snd p) = j
      \<and> at_id (m_atts m2 ! snd p) = fst p"
  proof
    fix p assume p: "p \<in> set (se_attachments u)"
    consider "j = i" "p = (m_nextAttachment m + 1, k)" | w where "sess m j = Some w" "p \<in> set (se_attachments w)"
      using p u s mput_subset [of "m_nextAttachment m + 1" k "se_attachments s"] by (auto simp: attached_shape(1) [OF m2] split: if_splits)
    then show "snd p < length (m_atts m2) \<and> at_session (m_atts m2 ! snd p) = j \<and> at_id (m_atts m2 ! snd p) = fst p"
    proof cases
      case 1
      then show ?thesis by (simp add: k attached_shape(2,3) [OF m2] attached_shape(4) [OF m2] attached_fields)
    next
      case 2
      from links_okD(3) [OF l 2] show ?thesis by (simp add: attached_shape(4) [OF m2] attached_shape(2,3) [OF m2])
    qed
  qed
next
  fix j assume "j < length (m_atts m2)"
  then show "sess m2 (at_session (m_atts m2 ! j)) \<noteq> None"
    using l by (auto simp: attached_shape(1) [OF m2] attached_shape(4) [OF m2] attached_shape(2,3) [OF m2] attached_fields links_ok_def)
qed

lemma attached_feed:
  assumes m2: "m2 = (y_m y)\<lparr>m_nextAttachment := m_nextAttachment (y_m y) + 1,
        m_store := mput i (s\<lparr>se_attachments := mput (m_nextAttachment (y_m y) + 1) k (se_attachments s)\<rparr>) (m_store (y_m y)),
        m_atts := m_atts (y_m y) @ [attached (y_m y) i s opts]\<rparr>"
    and l: "links_ok (y_m y)" and h: "hist_ok (y_m y)" and s: "sess (y_m y) i = Some s" and k: "k = length (m_atts (y_m y))"
    and f: "feed_ok y" and sm: "small y"
    and y': "y_published y' = y_published y" "y_sent y' = y_sent y"
      "y_base y' = (y_base y)(k := (first_seq s opts (length (y_published y i)), length (y_published y i)))"
  shows "feed_ok (y'\<lparr>y_m := m2\<rparr>)"
proof -
  let ?m = "y_m y" and ?new = "attached (y_m y) i s opts"
  let ?b = "(first_seq s opts (length (y_published y i)), length (y_published y i))"
  have fi: "se_lastSequence s = of_nat (length (y_published y i))" "hist_data (m_config (y_m y)) (y_published y i) (se_history s)"
    using f s by (auto simp: feed_ok_def)
  have hs: "hist_seq s" using h s by (auto simp: hist_ok_def store_acc_def hist_acc_def)
  have sl: "length (y_published y i) < 2 ^ 64" using sm by (simp add: small_def)
  note rep = replay_stream [OF hs fi sl, of opts]
  have "y_sent y k = []" using f k by (simp add: feed_ok_def)
  then have new: "att_good (m_config (y_m y)) (y_published y i) ?b (y_sent y k) (se_exit s) True ?new"
    using rep unfolding att_good_def
    by (intro exI [of _ "snd (attach_replay s opts)"]
        exI [of _ "if se_state s = SessionExited \<and> se_exit s \<noteq> None then [AttachmentExit (the (se_exit s))] else []"])
      (auto simp: attached_fields)
  have att_part: "att_good (m_config (y_m y)) (y_published y (at_session (m_atts m2 ! j))) (y_base y' j) (y_sent y j) (se_exit u)
      (att_link u j (m_atts m2 ! j)) (m_atts m2 ! j)"
    if j: "j < length (m_atts m2)" and u: "sess m2 (at_session (m_atts m2 ! j)) = Some u" for j u
  proof (cases "j = k")
    case True
    then show ?thesis
      using u new att_good_unlink [OF new] by (auto simp: attached_shape(4) [OF m2] attached_shape(2,3) [OF m2] k attached_fields attached_shape(1) [OF m2] y'(3))
        (metis (full_types))
  next
    case False
    then have jk: "j < length (m_atts ?m)" using j k by (simp add: attached_shape(2,3) [OF m2])
    let ?a = "m_atts ?m ! j"
    have aj: "m_atts m2 ! j = ?a" using jk by (simp add: attached_shape(4) [OF m2] attached_shape(2,3) [OF m2])
    obtain w where w: "sess ?m (at_session ?a) = Some w" using l jk unfolding links_ok_def by blast
    have g: "att_good (m_config (y_m y)) (y_published y (at_session ?a)) (y_base y j) (y_sent y j) (se_exit w) (att_link w j ?a) ?a"
      using f jk w by (simp add: feed_ok_def)
    have "att_link u j ?a \<Longrightarrow> att_link w j ?a" "se_exit u = se_exit w"
      using u w s mput_subset [of "m_nextAttachment ?m + 1" k "se_attachments s"] False
      by (auto simp: aj attached_shape(1) [OF m2] split: if_splits)
    then show ?thesis using g att_good_unlink [OF g] False by (cases "att_link u j ?a") (auto simp: aj y'(3))
  qed
  show ?thesis
    using f att_part s unfolding feed_ok_def
    by (auto simp: attached_shape(2,3) [OF m2] y'(1,2) attached_shape(1) [OF m2] split: if_splits)
qed

lemma attach_deliver:
  assumes "deliver_ok y" and "life_ok y'" and s: "sess (y_m y) i = Some s"
    and a: "attach_locked i opts raced (y_m y) = (Inr (k, result, failed), m')"
    and y': "y_m y' = m'" "y_published y' = y_published y" "y_sent y' = y_sent y"
      "y_base y' = (y_base y)(k := (first_seq s opts (length (y_published y i)), length (y_published y i)))"
  shows "deliver_ok y'"
proof -
  let ?m = "y_m y" and ?new = "attached (y_m y) i s opts"
  have h: "hist_ok ?m" and l: "links_ok ?m" and q: "\<forall>a \<in> set (m_atts ?m). att_queue_ok (m_config ?m) a"
    and so: "sessions_ok ?m" and cfg: "ManagerConfig_validate (m_config ?m) = None"
    using assms(1) by (auto simp: deliver_ok_def life_ok_def)
  from attach_ok_state [OF a s] obtain m2 ev where
    lim: "int (length (se_attachments s)) < MaxAttachmentsPerSession (m_config ?m)" and k: "k = length (m_atts ?m)"
    and m2: "m2 = ?m\<lparr>m_nextAttachment := m_nextAttachment ?m + 1,
            m_store := mput i (s\<lparr>se_attachments := mput (m_nextAttachment ?m + 1) k (se_attachments s)\<rparr>) (m_store ?m),
            m_atts := m_atts ?m @ [?new]\<rparr>" and m': "m' = snd (emitLocked ev m2)"
    by metis
  have "hist_same ?m m2" using s by (auto simp: hist_same_def m2 hist_view_def)
  then have h2: "hist_ok m2" by (rule hist_same_ok [OF _ h])
  have links2: "links_ok m2" by (rule attached_links [OF m2 l s k lim])
  have queue2: "\<forall>a \<in> set (m_atts m2). att_queue_ok (m_config m2) a"
    using q attached_fields(6) [of ?m i s opts] config_limits(5) [OF cfg] by (simp add: m2)
  have feed2: "feed_ok (y'\<lparr>y_m := m2\<rparr>)" if "feed_ok y" "small y"
    by (rule attached_feed [OF m2 l h s k that y'(2-4)])
  have "small y' = small y" by (simp add: small_def y'(2))
  then show ?thesis
    using assms(1) by (intro deliver_emit [OF assms(2) y'(1) [unfolded m'] h2 links2 queue2] feed2) (simp_all add: deliver_ok_def)
qed

end
