(* ===== verification/Pty_Reach.thy ===== *)
theory Pty_Reach
  imports Pty_Delivery_Sys
begin

text \<open>
  The delivery invariant in every reachable state of the running manager, and the properties
  of \<open>pty/manager.go\<close> that rest on it: resource limits, unbroken history, what a sink
  receives, and the one-way lifecycle of a session.
\<close>

section \<open>Every reachable state\<close>

lemma pump_deliver:
  assumes "deliver_ok y" and "life_ok y'" and s: "sess (y_m y) i = Some s" "se_pc s = RunPumping"
    and r: "int (length (fst (snd r))) = ReadBufferBytes (m_config (y_m y))" "pump_turn (m_config (y_m y)) r = (pub, ret)"
    and y': "y' = y\<lparr>y_m := pump_effect i pub ret (y_m y),
          y_published := (y_published y)(i := y_published y i @ (case pub of None \<Rightarrow> [] | Some d \<Rightarrow> [d]))\<rparr>"
  shows "deliver_ok y'"
proof -
  define z where "z = y\<lparr>y_m := pump_effect i pub None (y_m y), y_published := y_published y'\<rparr>"
  have ok: "life_ok y" using assms(1) by (simp add: deliver_ok_def)
  have "life_same (y_m y) (y_m z)" by (simp add: z_def pump_effect_def publish_life split: option.splits)
  then have lz: "life_ok z" by (rule life_same_life_ok [OF _ ok]) (simp add: z_def)
  have dz: "deliver_ok z"
  proof (cases pub)
    case None
    then have "z = y" by (simp add: z_def pump_effect_def y')
    then show ?thesis using assms(1) by simp
  next
    case (Some d)
    have "d \<noteq> []" using r Some by (cases r) (auto simp: pump_turn_def split: if_splits)
    then show ?thesis
      by (rule publish_deliver [OF assms(1) lz s]) (simp_all add: z_def y' Some pump_effect_def)
  qed
  have "keeps (y_m z) (y_m y')" by (auto simp: z_def y' pump_effect_def Let_def keeps_simple split: option.splits)
  then show ?thesis by (rule keeps_deliver [OF _ dz assms(2)]) (simp_all add: z_def y')
qed

lemma record_deliver:
  assumes "deliver_ok y" and "life_ok y'" and y': "y' = y\<lparr>y_m := snd (recordAttachmentClose k reason (y_m y))\<rparr>"
  shows "deliver_ok y'"
proof (cases "k < length (m_atts (y_m y)) \<and> at_registered (m_atts (y_m y) ! k)")
  case True
  let ?m = "y_m y" and ?f = "\<lambda>a. a\<lparr>at_registered := False\<rparr>"
  let ?a = "m_atts ?m ! k"
  let ?z = "y\<lparr>y_m := upd_att k ?f ?m\<rparr>"
  from recordClose_states [of k ?m reason] True obtain m3 where
    m3: "m3 = (upd_session (at_session ?a) (\<lambda>s. s\<lparr>se_attachments := mdel (at_id ?a) (se_attachments s)\<rparr>)
       (upd_att k ?f ?m))\<lparr>m_attachmentClosures := mput reason
         ((case mget (m_attachmentClosures ?m) reason of None \<Rightarrow> 0 | Some n \<Rightarrow> n) + 1) (m_attachmentClosures ?m)\<rparr>"
    and fin: "y_m y' = m3 \<or> (\<exists>ev. y_m y' = snd (emitLocked ev m3))"
    unfolding y' by auto
  have "life_ok ?z"
    by (rule life_same_life_ok [where y = y]) (use assms(1) in \<open>simp_all add: deliver_ok_def life_upd_att\<close>)
  then have dz: "deliver_ok ?z" by (rule flag_deliver [OF assms(1) _ refl]) simp
  let ?m2 = "upd_session (at_session ?a) (\<lambda>s. s\<lparr>se_attachments := mdel (at_id ?a) (se_attachments s)\<rparr>) (upd_att k ?f ?m)"
  have "keeps (upd_att k ?f ?m) ?m2"
    by (rule keeps_upd_session) (auto simp: hist_view_def intro!: sess_weakerI)
  moreover have "keeps ?m2 m3" by (rule keeps_other) (simp_all add: m3)
  ultimately have "keeps (upd_att k ?f ?m) m3" by (rule keeps_trans)
  then have "keeps (y_m ?z) (y_m y')" using fin keeps_trans [OF _ keeps_emit] by auto
  then show ?thesis by (rule keeps_deliver [OF _ dz assms(2)]) (simp_all add: y')
next
  case False
  then show ?thesis using assms(1) by (simp add: y' recordClose_noop)
qed

lemma open_deliver:
  assumes "deliver_ok y" and "life_ok y'" and sp: "(sid, spec) \<in> set (y_opens y)"
    and r: "open_register sid spec now (y_m y) = (res, m')"
    and y': "y' = y\<lparr>y_m := m', y_opens := remove1 (sid, spec) (y_opens y)\<rparr>"
  shows "deliver_ok y'"
  using r
proof (cases rule: open_register_cases)
  case (refused e)
  have "keeps (y_m y) (y_m y')" by (rule keeps_other) (simp_all add: y' refused)
  then show ?thesis by (rule keeps_deliver [OF _ assms(1,2)]) (simp_all add: y')
next
  case (ok m1 failed)
  have "sess (y_m y) sid = None" using assms(1) sp by (force simp: deliver_ok_def life_ok_def ids_ok_def)
  then show ?thesis by (rule register_deliver [OF assms(1,2) _ ok(4)]) (simp_all add: y' ok(5))
qed

lemma manager_step_deliver_ok:
  assumes "deliver_ok y" and "manager_step y l y'"
  shows "deliver_ok y'"
proof -
  have l: "life_ok y" using assms(1) by (simp add: deliver_ok_def)
  have l': "life_ok y'" by (rule manager_step_life_ok [OF l assms(2)])
  have so: "sessions_ok (y_m y)" and cfg: "ManagerConfig_validate (m_config (y_m y)) = None"
    using l by (auto simp: life_ok_def)
  note same = keeps_deliver [OF _ assms(1) l']
  show ?thesis using assms(2)
  proof cases
    case (reserve ctx spec sid m')
    from keeps_simple(12) [of "y_m y"] show ?thesis using reserve(4) by (intro same) (simp_all add: reserve(2))
  next
    case (reserve_refused e m')
    from keeps_simple(12) [of "y_m y"] show ?thesis using reserve_refused(3) by (intro same) (simp_all add: reserve_refused(2))
  next
    case (register sid spec now failed m')
    from open_deliver [OF assms(1) l' register(3,4,2)] show ?thesis .
  next
    case (register_refused sid spec now e m')
    from open_deliver [OF assms(1) l' register_refused(3,4,2)] show ?thesis .
  next
    case (pump i s r pub ret')
    from pump_deliver [OF assms(1) l' pump(3-6,2)] show ?thesis .
  next
    case (exit i s oe status errText st we)
    show ?thesis by (rule exit_deliver [OF assms(1) l' exit(3)]) (simp_all add: exit(2,4))
  next
    case (finish k reason e)
    from finish_deliver [OF assms(1) l' finish(2)] show ?thesis .
  next
    case (record_close k reason)
    from record_deliver [OF assms(1) l' record_close(2)] show ?thesis .
  next
    case (send k ev a')
    show ?thesis by (rule send_deliver [OF assms(1) l' send(3,4)]) (simp add: send(2))
  next
    case (worker_done k)
    show ?thesis by (rule flag_deliver [OF assms(1) l' worker_done(2)]) simp
  next
    case (activate k)
    show ?thesis by (rule flag_deliver [OF assms(1) l' activate(2)]) simp
  next
    case (attach ctx opts0 sink opts i s raced k result failed m')
    show ?thesis by (rule attach_deliver [OF assms(1) l' attach(4,5)]) (simp_all add: attach(2))
  next
    case (attach_refused ctx opts0 sink opts i raced e m')
    have "keeps (y_m y) m'"
      by (rule keeps_other) (use attach_refused_state [OF attach_refused(4)] in auto)
    then show ?thesis by (intro same) (simp_all add: attach_refused(2))
  next
    case (retire i s ks failed m')
    from keeps_run_retire [OF so retire(3,4) cfg retire(6)] show ?thesis by (intro same) (simp_all add: retire(2))
  next
    case (evict i s r rs)
    show ?thesis
      by (rule same) (use keeps_trans [OF keeps_finishRemoval keeps_simple(14)] in \<open>simp_all add: evict(2)\<close>)
  next
    case (remove i r m')
    from Remove_begin_ok [OF so remove(3)] have "keeps (y_m y) m'"
      by (intro keeps_evicted) (auto dest: sessions_okD(1))
    then show ?thesis by (intro same) (simp_all add: remove(2))
  next
    case (subscribe res m')
    from keeps_simple(9) [of "y_m y"] show ?thesis using subscribe(3) by (intro same) (simp_all add: subscribe(2))
  qed (rule same; simp add: keeps_simple keeps_finishRemoval keeps_close_begin keeps_close_end)+
qed

interpretation manager_delivery: step_invariant manager_step deliver_ok
  by unfold_locales (rule manager_step_deliver_ok)

section \<open>States only move forward\<close>

definition sess_onward :: "Session \<Rightarrow> Session \<Rightarrow> bool" where
  "sess_onward s s' \<longleftrightarrow>
     se_id s' = se_id s \<and> state_rank (se_state s) \<le> state_rank (se_state s')
     \<and> (se_exit s = None \<or> se_exit s' = se_exit s)"

definition onward :: "Manager \<Rightarrow> Manager \<Rightarrow> bool" where
  "onward m m' \<longleftrightarrow> m_config m' = m_config m
     \<and> (\<forall>i s. sess m i = Some s \<longrightarrow> (\<exists>s'. sess m' i = Some s' \<and> sess_onward s s'))"

lemma sess_onward_refl [simp]: "sess_onward s s"
  by (simp add: sess_onward_def)

lemma sess_onward_trans: "sess_onward a b \<Longrightarrow> sess_onward b c \<Longrightarrow> sess_onward a c"
  unfolding sess_onward_def by auto

lemma onward_refl [simp]: "onward m m"
  by (simp add: onward_def)

lemma onward_trans: "onward a b \<Longrightarrow> onward b c \<Longrightarrow> onward a c"
  using sess_onward_trans unfolding onward_def by (elim conjE) (intro conjI, simp, meson)

lemma onward_None: "onward m m' \<Longrightarrow> sess m' i = None \<Longrightarrow> sess m i = None"
  by (cases "sess m i") (force simp: onward_def)+

lemma onward_weaker: "weaker m m' \<Longrightarrow> onward m m'"
  unfolding onward_def
proof (intro conjI allI impI)
  fix i s assume w: "weaker m m'" and s: "sess m i = Some s"
  then have "rel_option sess_weaker (Some s) (sess m' i)" unfolding weaker_def by metis
  then obtain s' where "sess m' i = Some s'" "sess_weaker s s'" by (auto simp: option_rel_Some1)
  then show "\<exists>s'. sess m' i = Some s' \<and> sess_onward s s'" by (auto simp: sess_onward_def sess_weaker_def)
qed (simp add: weaker_def)

lemma onward_keeps: "keeps m m' \<Longrightarrow> onward m m'"
  using onward_weaker by (simp add: keeps_def)

lemma onward_life: "life_same m m' \<Longrightarrow> onward m m'"
  unfolding onward_def
proof (intro conjI allI impI)
  fix i s assume l: "life_same m m'" and s: "sess m i = Some s"
  with life_same_sess [OF l, of i] obtain s' where "sess m' i = Some s'" "life s' = life s" by auto
  then show "\<exists>s'. sess m' i = Some s' \<and> sess_onward s s'" by (auto simp: sess_onward_def life_def)
qed (simp add: life_same_def)

lemma onward_add:
  assumes "sess m i = None" and "m_store m' = mput i s (m_store m)" and "m_config m' = m_config m"
  shows "onward m m'"
  using assms by (auto simp: onward_def)

lemma onward_exit:
  assumes "sessions_ok m" and s: "sess m i = Some s" and "early (se_pc s)"
  shows "onward m (snd (run_exit i status m))"
proof -
  from run_exit_states [OF s, of status] obtain m1 s1 where
    s1: "s1 = s\<lparr>se_pc := RunDraining (map snd (se_attachments s)), se_state := SessionExited, se_exit := Some status\<rparr>"
    and m1: "m1 = m\<lparr>m_store := mput i s1 (m_store m), m_processesExited := m_processesExited m + 1,
            m_activeSessions := (if m_activeSessions m > 0 then m_activeSessions m - 1 else m_activeSessions m)\<rparr>"
    and l: "life_same m1 (snd (run_exit i status m))"
    by metis
  have "se_exit s = None" "state_rank (se_state s) \<le> 3"
    using sessions_okD(6) [OF assms(1) s] assms(3) by (auto simp: session_ok_def)
  then have "sess_onward s s1" by (simp add: sess_onward_def s1)
  then have "onward m m1" using s by (auto simp: onward_def m1)
  then show ?thesis using onward_trans onward_life [OF l] by blast
qed

lemma manager_step_onward:
  assumes "life_ok y" and "manager_step y l y'"
  shows "onward (y_m y) (y_m y') \<and> (\<forall>i. l = LRegistered i \<longrightarrow> sess (y_m y) i = None \<and> sess (y_m y') i \<noteq> None)"
proof -
  have so: "sessions_ok (y_m y)" and cfg: "ManagerConfig_validate (m_config (y_m y)) = None"
    and ids: "ids_ok (y_m y) (y_opens y)"
    using assms(1) by (auto simp: life_ok_def)
  show ?thesis using assms(2)
  proof cases
    case (reserve ctx spec sid m')
    from onward_keeps [OF keeps_simple(12) [of "y_m y"]] show ?thesis using reserve(4) by (simp add: reserve(1,2))
  next
    case (reserve_refused e m')
    from onward_keeps [OF keeps_simple(12) [of "y_m y"]] show ?thesis using reserve_refused(3) by (simp add: reserve_refused(1,2))
  next
    case (register sid spec now failed m')
    have none: "sess (y_m y) sid = None" using ids register(3) by (force simp: ids_ok_def)
    show ?thesis using register(4)
    proof (cases rule: open_register_cases)
      case (ok m1 failed')
      have l: "life_same m1 m'" unfolding ok(5) by (rule life_same_emit)
      have "onward (y_m y) m1" by (rule onward_add [OF none]) (simp_all add: ok(4))
      moreover have "sess m' sid \<noteq> None" using life_same_None [OF l, of sid] by (simp add: ok(4))
      ultimately show ?thesis using onward_trans [OF _ onward_life [OF l]] none by (simp add: register(1,2))
    qed simp
  next
    case (register_refused sid spec now e m')
    show ?thesis using register_refused(4)
    proof (cases rule: open_register_cases)
      case (refused e')
      then show ?thesis using onward_keeps [OF keeps_other, of m' "y_m y"] by (simp add: register_refused(1,2))
    qed simp
  next
    case (pump i s r pub ret')
    have l: "life_same (y_m y) (pump_effect i pub None (y_m y))"
      by (simp add: pump_effect_def publish_life split: option.splits)
    have "onward (pump_effect i pub None (y_m y)) (pump_effect i pub ret' (y_m y))"
      using onward_keeps [OF keeps_simple(14)] by (auto simp: pump_effect_def Let_def split: option.splits)
    then show ?thesis using onward_trans [OF onward_life [OF l]] by (simp add: pump(1,2))
  next
    case (exit i s oe status errText st we)
    from onward_exit [OF so exit(3)] show ?thesis using exit(4) by (simp add: exit(1,2))
  next
    case (record_close k reason)
    from onward_life [OF recordClose_life] show ?thesis by (simp add: record_close(1,2))
  next
    case (attach ctx opts0 sink opts i s raced k result failed m')
    from onward_life [OF attach_life [OF attach(5)]] show ?thesis by (simp add: attach(1,2))
  next
    case (attach_refused ctx opts0 sink opts i raced e m')
    from onward_life [OF attach_life [OF attach_refused(4)]] show ?thesis by (simp add: attach_refused(1,2))
  next
    case (retire i s ks failed m')
    from onward_keeps [OF keeps_run_retire [OF so retire(3,4) cfg retire(6)]] show ?thesis by (simp add: retire(1,2))
  next
    case (evict i s r rs)
    from onward_keeps [OF keeps_trans [OF keeps_finishRemoval keeps_simple(14)]] show ?thesis by (simp add: evict(1,2))
  next
    case (remove i r m')
    from Remove_begin_ok [OF so remove(3)] have "keeps (y_m y) m'"
      by (intro keeps_evicted) (auto dest: sessions_okD(1))
    then show ?thesis using onward_keeps by (simp add: remove(1,2))
  next
    case (subscribe res m')
    from onward_keeps [OF keeps_simple(9) [of "y_m y"]] show ?thesis using subscribe(3) by (simp add: subscribe(1,2))
  qed (simp_all add: onward_life life_upd_att onward_keeps keeps_simple keeps_finishRemoval keeps_close_begin keeps_close_end)
qed

lemma trace_onward:
  assumes "trace manager_step y ls z" and "life_ok y"
  shows "life_ok z \<and> onward (y_m y) (y_m z)
    \<and> (\<forall>i \<in> {i. LRegistered i \<in> set ls}. sess (y_m y) i = None \<and> sess (y_m z) i \<noteq> None)
    \<and> distinct (filter (\<lambda>l. \<exists>i. l = LRegistered i) ls)"
  using assms
proof (induction rule: trace.induct)
  case (trace_snoc y ls z l u)
  then have z: "life_ok z" "onward (y_m y) (y_m z)"
    "\<And>i. LRegistered i \<in> set ls \<Longrightarrow> sess (y_m y) i = None \<and> sess (y_m z) i \<noteq> None"
    "distinct (filter (\<lambda>l. \<exists>i. l = LRegistered i) ls)" by auto
  note st = manager_step_onward [OF z(1) trace_snoc.hyps(2)]
  have on: "onward (y_m y) (y_m u)" using onward_trans [OF z(2)] st by blast
  have up: "sess (y_m z) i \<noteq> None \<Longrightarrow> sess (y_m u) i \<noteq> None" for i
    by (rule contrapos_nn, assumption, rule onward_None) (use st in auto)
  have new: "sess (y_m z) i = None" "sess (y_m u) i \<noteq> None" if "l = LRegistered i" for i
    using st that by simp_all
  have reg: "sess (y_m y) i = None \<and> sess (y_m u) i \<noteq> None" if "LRegistered i \<in> set (ls @ [l])" for i
  proof (cases "LRegistered i \<in> set ls")
    case True
    then show ?thesis using z(3) [OF True] up [of i] by simp
  next
    case False
    then have l: "l = LRegistered i" using that by simp
    show ?thesis using onward_None [OF z(2) new(1) [OF l]] new(2) [OF l] by simp
  qed
  have "l \<notin> set ls" if "l = LRegistered i" for i using new(1) [OF that] z(3) [of i] that by auto
  then have "distinct (filter (\<lambda>l. \<exists>i. l = LRegistered i) (ls @ [l]))" using z(4) by auto
  moreover have "life_ok u" by (rule manager_step_life_ok [OF z(1) trace_snoc.hyps(2)])
  ultimately show ?case using on reg by (intro conjI ballI) (blast+)
qed auto

section \<open>Properties of the running manager\<close>

lemma NewManager_ok:
  assumes "NewManager parent factory c = Inr m"
  shows "deliver_ok (new_msys m)" "m_config m = c" "ManagerConfig_validate c = None"
proof -
  from assms show c: "m_config m = c" "ManagerConfig_validate c = None"
    by (auto simp: NewManager_def split: option.splits if_splits)
  note l = config_limits [OF c(2)]
  have f: "m_store m = []" "m_sessions m = []" "m_retainedExited m = []" "m_atts m = []" "m_historyBytes m = 0"
    "m_starting m = 0" "m_activeSessions m = 0"
    using assms by (auto simp: NewManager_def split: option.splits if_splits)
  have "life_ok (new_msys m)"
    using c l by (simp add: new_msys_def life_ok_def sessions_ok_def ids_ok_def is_map_def f)
  then show "deliver_ok (new_msys m)"
    using c l by (simp add: new_msys_def deliver_ok_def hist_ok_def store_acc_def is_map_def links_ok_def feed_ok_def f)
qed

lemma reachable_deliver_ok:
  assumes "NewManager parent factory c = Inr m" and "trace manager_step (new_msys m) ls y"
  shows "deliver_ok y"
  using manager_delivery.trace_keeps [OF assms(2) NewManager_ok(1) [OF assms(1)]] .

lemma reachable_config:
  assumes "NewManager parent factory c = Inr m" and "trace manager_step (new_msys m) ls y"
  shows "m_config (y_m y) = c"
  using trace_onward [OF assms(2)] NewManager_ok(1,2) [OF assms(1)] by (simp add: onward_def new_msys_def deliver_ok_def)

text \<open>What an attachment was given, whether or not its queue still holds the rest.\<close>

lemma att_good_sent:
  assumes g: "att_good mc pub b sent x linked a"
  obtains evs ex where "sent = map AttachmentOutput evs @ ex" and "stream_of mc pub b evs"
    and "ex = [] \<or> ex = [AttachmentExit (the x)] \<and> x \<noteq> None \<and> fst b + length evs = length pub"
proof -
  have "at_pending (finish_locked None AttachmentDetached a) = []"
    using g by (cases "at_closed a") (auto simp: finish_locked_def at_pending_def att_good_def)
  with att_good_finish [OF g, of None AttachmentDetached] obtain evs ex where
    "sent = map AttachmentOutput evs @ ex" "stream_of mc pub b evs"
    and ex: "ex = [] \<or> (\<exists>st. ex = [AttachmentExit st] \<and> x = Some st)" "ex \<noteq> [] \<longrightarrow> fst b + length evs = length pub"
    unfolding att_good_def by (metis append_Nil2)
  moreover have "ex = [] \<or> ex = [AttachmentExit (the x)] \<and> x \<noteq> None \<and> fst b + length evs = length pub" using ex by auto
  ultimately show thesis using that by blast
qed

lemma reachable_att_good:
  assumes "NewManager parent factory c = Inr m" and "trace manager_step (new_msys m) ls y" and "small y"
    and "k < length (m_atts (y_m y))" and "a = m_atts (y_m y) ! k"
  obtains s where "sess (y_m y) (at_session a) = Some s"
    and "att_good c (y_published y (at_session a)) (y_base y k) (y_sent y k) (se_exit s) (att_link s k a) a"
proof -
  have d: "deliver_ok y" by (rule reachable_deliver_ok [OF assms(1,2)])
  then obtain s where s: "sess (y_m y) (at_session a) = Some s"
    using assms(4,5) unfolding deliver_ok_def links_ok_def by blast
  then show thesis using that d assms(3-5) reachable_config [OF assms(1,2)] unfolding deliver_ok_def feed_ok_def by blast
qed

text \<open>
  (C3) What a sink is given is the session's output with nothing missing, repeated or out of
  order, up to some point: consecutive sequence numbers from the chunk the attachment starts
  with, each with the data the process wrote: every chunk published since the attaching byte for
  byte, and every replayed chunk as the history keeps it, which is byte for byte too unless
  the chunk alone exceeds a history limit, when it is its newest bytes up to that limit
  (\<open>kept\<close>). The exit comes at most once, after all
  output, and is the session's exit status. An attachment that is open and still fed by its
  session has the rest of the output in its queue.
\<close>

theorem attachment_delivery:
  assumes "NewManager parent factory c = Inr m" and "trace manager_step (new_msys m) ls y" and "small y"
    and "k < length (m_atts (y_m y))" and "a = m_atts (y_m y) ! k" and "pub = y_published y (at_session a)"
  shows "\<exists>s evs ex. sess (y_m y) (at_session a) = Some s
    \<and> y_sent y k = map AttachmentOutput evs @ ex \<and> stream_of c pub (y_base y k) evs
    \<and> (ex = [] \<or> ex = [AttachmentExit (the (se_exit s))] \<and> se_exit s \<noteq> None
                  \<and> fst (y_base y k) + length evs = length pub)
    \<and> (at_closed a \<or> \<not> att_link s k a \<or>
        (\<exists>evs' ex'. y_sent y k @ at_pending a = map AttachmentOutput evs' @ ex'
           \<and> stream_of c pub (y_base y k) evs' \<and> fst (y_base y k) + length evs' = length pub
           \<and> (ex' = [] \<or> ex' = [AttachmentExit (the (se_exit s))])))"
proof -
  obtain s where s: "sess (y_m y) (at_session a) = Some s"
    and g: "att_good c pub (y_base y k) (y_sent y k) (se_exit s) (att_link s k a) a"
    using reachable_att_good [OF assms(1-5)] unfolding assms(6) .
  obtain evs ex where sent: "y_sent y k = map AttachmentOutput evs @ ex" "stream_of c pub (y_base y k) evs"
    "ex = [] \<or> ex = [AttachmentExit (the (se_exit s))] \<and> se_exit s \<noteq> None \<and> fst (y_base y k) + length evs = length pub"
    using att_good_sent [OF g] .
  moreover have "\<exists>evs' ex'. y_sent y k @ at_pending a = map AttachmentOutput evs' @ ex'
      \<and> stream_of c pub (y_base y k) evs' \<and> fst (y_base y k) + length evs' = length pub
      \<and> (ex' = [] \<or> ex' = [AttachmentExit (the (se_exit s))])" if "\<not> at_closed a" "att_link s k a"
  proof -
    from g that obtain evs' ex' where e: "y_sent y k @ at_pending a = map AttachmentOutput evs' @ ex'"
      "stream_of c pub (y_base y k) evs'" "fst (y_base y k) + length evs' = length pub"
      "ex' = [] \<or> (\<exists>st. ex' = [AttachmentExit st] \<and> se_exit s = Some st)"
      unfolding att_good_def by blast
    then have "ex' = [] \<or> ex' = [AttachmentExit (the (se_exit s))]" by auto
    with e(1-3) show ?thesis by blast
  qed
  ultimately show ?thesis using s by blast
qed

text \<open>
  (C23) In every reachable state the history a session keeps is an unbroken run of its newest
  output: its last chunk is the newest one, the sequence numbers have no gap, the data of each
  chunk is what the process wrote under that number (all of it, or its newest bytes up to the
  smaller history limit if it alone is longer), no chunk is
  empty, and the byte counts of the session and the manager are exact.
\<close>

theorem history_is_newest_output:
  assumes "NewManager parent factory c = Inr m" and "trace manager_step (new_msys m) ls y" and "small y"
    and "sess (y_m y) i = Some s" and "n = length (se_history s)" and "pub = y_published y i"
  shows "n \<le> length pub
    \<and> map (\<lambda>h. Sequence (hc_event h)) (se_history s) = map of_nat [length pub - n + 1..<length pub + 1]
    \<and> map (\<lambda>h. Data (hc_event h)) (se_history s) = map (kept c) (drop (length pub - n) pub)
    \<and> [] \<notin> set (map (\<lambda>h. Data (hc_event h)) (se_history s))
    \<and> se_lastSequence s = of_nat (length pub)
    \<and> se_historyBytes s = sum_list (map chunk_bytes (se_history s))
    \<and> m_historyBytes (y_m y) = msum se_historyBytes (m_store (y_m y))"
proof -
  have d: "deliver_ok y" by (rule reachable_deliver_ok [OF assms(1,2)])
  have f: "se_lastSequence s = of_nat (length pub)" "hist_data c pub (se_history s)"
    using d assms(3,4,6) reachable_config [OF assms(1,2)] by (auto simp: deliver_ok_def feed_ok_def)
  have h: "hist_acc s" "m_historyBytes (y_m y) = msum se_historyBytes (m_store (y_m y))"
    using d assms(4) by (auto simp: deliver_ok_def hist_ok_def store_acc_def)
  have len: "n \<le> length pub" using f(2) by (simp add: hist_data_def assms(5))
  have seq: "hist_seq s" using h(1) by (simp add: hist_acc_def)
  have "map (\<lambda>h. Sequence (hc_event h)) (se_history s) = map of_nat [length pub - n + 1..<length pub + 1]"
  proof (rule nth_equalityI)
    fix j assume "j < length (map (\<lambda>h. Sequence (hc_event h)) (se_history s))"
    then have j: "j < n" by (simp add: assms(5))
    then have "[length pub - n + 1..<length pub + 1] ! j = length pub - n + 1 + j" using len by (simp del: upt_Suc)
    then show "map (\<lambda>h. Sequence (hc_event h)) (se_history s) ! j = map of_nat [length pub - n + 1..<length pub + 1] ! j"
      using hist_seq_nth [OF seq f(1), of j] j len unfolding assms(5) by (simp del: of_nat_add of_nat_Suc upt_Suc)
  qed (use len assms(5) in \<open>simp del: upt_Suc\<close>)
  moreover have "[] \<notin> set (map (\<lambda>h. Data (hc_event h)) (se_history s))"
    using h(1) by (auto simp: hist_acc_def)
  moreover have "map (\<lambda>h. Data (hc_event h)) (se_history s) = map (kept c) (drop (length pub - n) pub)"
    using f(2) by (simp add: hist_data_def assms(5))
  moreover have "se_historyBytes s = sum_list (map chunk_bytes (se_history s))" using h(1) by (simp add: hist_acc_def)
  ultimately show ?thesis using f(1) h(2) len by blast
qed

section \<open>A run of the manager\<close>

text \<open>
  A concrete run for the witnesses: one session is opened, a sink attaches, the process writes
  two bytes and the worker hands them to the sink.
\<close>

definition demo_config :: ManagerConfig where
  "demo_config = DefaultManagerConfig\<lparr>ReadBufferBytes := 2\<rparr>"

definition demo_spec :: ProcessSpec where
  "demo_spec = \<lparr>Command = ''sh'', Args = [], Env = None, Dir = '''', InitialSize = \<lparr>Cols = 80, Rows = 24\<rparr>\<rparr>"

definition demo_opts :: AttachOptions where
  "demo_opts = \<lparr>ao_Replay = ReplayNone, ao_ResumeAfter = 0, ao_Paused = False\<rparr>"

definition demo_m0 :: Manager where "demo_m0 = projr (NewManager (Some None) True demo_config)"
definition demo_m1 :: Manager where "demo_m1 = snd (open_reserve demo_m0)"
definition demo_m2 :: Manager where "demo_m2 = snd (open_register 1 demo_spec 0 demo_m1)"
definition demo_m3 :: Manager where "demo_m3 = snd (attach_locked 1 demo_opts None demo_m2)"
definition demo_m4 :: Manager where "demo_m4 = pump_effect 1 (Some [7, 8]) None demo_m3"
definition demo_m5 :: Manager where
  "demo_m5 = upd_att 0 (\<lambda>_. snd (at_turn (m_atts demo_m4 ! 0))) demo_m4"

lemma demo_m5_val: "demo_m5 =
\<lparr>m_ctx = None,
    m_config =
      \<lparr>MaxSessions = 256, HistoryBytes = 16777216,
         MaxTotalHistoryBytes = 536870912, ReadBufferBytes = 2,
         AttachmentQueueBytes = 4194304, ObserverQueueBytes = 4194304,
         MaxObservers = 32,
         SessionLifecycle = \<lparr>ExitPolicy = 0, MaxRetainedSessions = 0\<rparr>,
         MaxAttachmentsPerSession = 1, AttachmentDrainTimeout = 2000000000,
         GracefulKillTimeout = 2000000000\<rparr>,
    m_store =
      [(1, \<lparr>se_id = 1, se_pc = RunPumping, se_state = SessionRunning,
              se_size = \<lparr>Cols = 80, Rows = 24\<rparr>, se_startedAt = 0,
              se_lastSequence = 1, se_exit = None, se_retained = False,
              se_removing = False,
              se_history =
                [\<lparr>hc_event = \<lparr>Sequence = 1, Data = [7, 8]\<rparr>, order = 1\<rparr>],
              se_historyBytes = 2, se_attachments = [(1, 0)],
              se_killOnce = False, se_killErr = None\<rparr>)],
    m_sessions = [1], m_retainedExited = [],
    m_atts =
      [\<lparr>at_session = 1, at_id = 1, at_maxBytes = 4194304, at_replay = [],
          at_replayNext = 0, at_queue = [], at_bytes = 0, at_active = True,
          at_closing = False, at_closed = False, at_err = None,
          at_reason = None, at_done = False, at_started = True,
          at_registered = True, at_ctx = None\<rparr>],
    m_subs = [], m_observers = [], m_nextSession = 1, m_nextAttachment = 1,
    m_nextObserver = 0, m_nextHistory = 1, m_historyBytes = 2,
    m_historyTruncations = 0, m_historyTruncatedBytes = 0,
    m_processesStarted = 0, m_processesExited = 0, m_sessionsEvicted = 0,
    m_sessionsRemoved = 0, m_attachmentClosures = [],
    m_observerClosures = [], m_generation = 1, m_sessionIDExhausted = False,
    m_closing = False, m_closeErr = None, m_closed = False, m_starting = 0,
    m_activeSessions = 1\<rparr>" by code_simp

lemma demo_m0_val: "demo_m0 = \<lparr>m_ctx = None, m_config = demo_config, m_store = [], m_sessions = [], m_retainedExited = [],
    m_atts = [], m_subs = [], m_observers = [], m_nextSession = 0, m_nextAttachment = 0, m_nextObserver = 0,
    m_nextHistory = 0, m_historyBytes = 0, m_historyTruncations = 0, m_historyTruncatedBytes = 0,
    m_processesStarted = 0, m_processesExited = 0, m_sessionsEvicted = 0, m_sessionsRemoved = 0,
    m_attachmentClosures = [], m_observerClosures = [], m_generation = 0, m_sessionIDExhausted = False,
    m_closing = False, m_closeErr = None, m_closed = False, m_starting = 0, m_activeSessions = 0\<rparr>" (is "_ = ?m")
  and demo_new: "NewManager (Some None) True demo_config = Inr demo_m0"
proof -
  have "NewManager (Some None) True demo_config = Inr ?m"
    by (simp add: NewManager_def ManagerConfig_validate_def demo_config_def DefaultManagerConfig_def
        DefaultReadBufferSize_def ExitedSessionRemove_def ExitedSessionRetain_def)
  then show "demo_m0 = ?m" "NewManager (Some None) True demo_config = Inr demo_m0" by (simp_all add: demo_m0_def)
qed

lemmas demo_defs = demo_m0_val Let_def demo_config_def DefaultManagerConfig_def

lemma demo_m1_val: "open_reserve demo_m0 = (Inr 1, demo_m1)" "demo_m1 = demo_m0\<lparr>m_nextSession := 1, m_starting := 1\<rparr>"
  by (simp_all add: demo_m1_def demo_defs open_reserve_def)

lemma demo_m2_val:
  "open_register 1 demo_spec 0 demo_m1 = (Inr [], demo_m2)"
  "demo_m2 = demo_m1\<lparr>m_starting := 0, m_store := [(1, new_session 1 (InitialSize demo_spec) 0)], m_sessions := [1],
     m_generation := 1, m_activeSessions := 1\<rparr>"
  by (simp_all add: demo_m2_def demo_m1_val(2) demo_defs open_register_def emitLocked_def)

lemma demo_m3_val:
  "attach_locked 1 demo_opts None demo_m2 =
     (Inr (0, fst (attach_replay (new_session 1 (InitialSize demo_spec) 0) demo_opts), []), demo_m3)"
  "demo_m3 = demo_m2\<lparr>m_nextAttachment := 1,
     m_store := [(1, (new_session 1 (InitialSize demo_spec) 0)\<lparr>se_attachments := [(1, 0)]\<rparr>)],
     m_atts := [(newAttachment None 1 1 4194304 True [])\<lparr>at_started := True, at_registered := True\<rparr>]\<rparr>"
  by (simp_all add: demo_m3_def attach_locked_def demo_m2_val(2) demo_m1_val(2) demo_defs at_start_def newAttachment_def
      demo_opts_def ReplayNone_def ReplayHistory_def emitLocked_def attach_replay_def new_session_def)

definition demo_y :: "Manager \<Rightarrow> bytes list \<Rightarrow> AttachmentEvent list \<Rightarrow> msys" where
  "demo_y m pub sent =
     \<lparr>y_m = m, y_opens = [], y_removals = [], y_published = (\<lambda>_. [])(1 := pub), y_sent = (\<lambda>_. [])(0 := sent),
      y_base = (\<lambda>_. (0, 0))\<rparr>"

lemmas manager_snoc = trace_snoc [where step = manager_step]

lemma demo_trace:
  "trace manager_step (new_msys demo_m0)
     [LOpen 1, LRegistered 1, LAttach 1 demo_opts 0 (fst (attach_replay (new_session 1 (InitialSize demo_spec) 0) demo_opts)),
      LPump 1 (Some [7, 8]) None, LSend 0 (AttachmentOutput \<lparr>Sequence = 1, Data = [7, 8]\<rparr>)]
     (demo_y demo_m5 [[7, 8]] [AttachmentOutput \<lparr>Sequence = 1, Data = [7, 8]\<rparr>])"
proof -
  have c: "Open_check (Some None) demo_spec = None"
    by (simp add: Open_check_def demo_spec_def ProcessSpec_Validate_def Size_Validate_def)
  note 1 = demo_m1_val(1) and 2 = demo_m2_val(1) and 3 = demo_m3_val(1)
  have s2: "sess demo_m2 1 = Some (new_session 1 (InitialSize demo_spec) 0)" by (simp add: demo_m2_val(2))
  let ?ev = "AttachmentOutput \<lparr>Sequence = 1, Data = [7, 8]\<rparr>"
  let ?r = "fst (attach_replay (new_session 1 (InitialSize demo_spec) 0) demo_opts)"
  have pt: "pump_turn (m_config demo_m3) (2, [7, 8], None) = (Some [7, 8], None)"
    "int (length [7, 8 :: byte]) = ReadBufferBytes (m_config demo_m3)"
    by (simp_all add: pump_turn_def demo_m3_val(2) demo_m2_val(2) demo_m1_val(2) demo_defs)
  obtain s where s3: "sess demo_m3 1 = Some s" "se_pc s = RunPumping"
  proof -
    have "map_option se_pc (sess demo_m3 1) = Some RunPumping" by (simp add: demo_m3_val(2) new_session_def)
    then show ?thesis using that by auto
  qed
  have 5: "at_turn (m_atts demo_m4 ! 0) = (TurnSend ?ev, snd (at_turn (m_atts demo_m4 ! 0)))"
    "0 < length (m_atts demo_m4)" by code_simp+
  have a: "attach_check (Some None) demo_opts True = Inr demo_opts"
    by (simp add: attach_check_def demo_opts_def ReplayNone_def)
  have f: "first_seq (new_session 1 (InitialSize demo_spec) 0) demo_opts 0 = 0"
    by (simp add: first_seq_def attach_replay_def demo_opts_def ReplayNone_def ReplayHistory_def new_session_def)
  let ?y1 = "(new_msys demo_m0)\<lparr>y_m := demo_m1, y_opens := [(1, demo_spec)]\<rparr>"
  have "manager_step (new_msys demo_m0) (LOpen 1) ?y1"
    using manager_step.reserve [of "Some None" demo_spec "new_msys demo_m0", OF c] 1 by (simp add: new_msys_def)
  then have t1: "trace manager_step (new_msys demo_m0) [LOpen 1] ?y1" by (rule trace_one)
  have "manager_step ?y1 (LRegistered 1) (demo_y demo_m2 [] [])"
    using manager_step.register [of 1 demo_spec ?y1] 2 by (simp add: new_msys_def demo_y_def fun_upd_idem)
  note t2 = manager_snoc [OF t1 this]
  have "manager_step (demo_y demo_m2 [] []) (LAttach 1 demo_opts 0 ?r) (demo_y demo_m3 [] [])"
    using manager_step.attach [of "Some None" demo_opts True demo_opts "demo_y demo_m2 [] []" 1
        "new_session 1 (InitialSize demo_spec) 0" None 0 ?r "[]" demo_m3, OF a] s2 3 f
    by (simp add: demo_y_def fun_upd_idem)
  note t3 = manager_snoc [OF t2 this]
  have "manager_step (demo_y demo_m3 [] []) (LPump 1 (Some [7, 8]) None) (demo_y demo_m4 [[7, 8]] [])"
    using manager_step.pump [of "demo_y demo_m3 [] []" 1 s "(2, [7, 8], None)" "Some [7, 8]" None] s3 pt
    by (simp add: demo_y_def demo_m4_def)
  note t4 = manager_snoc [OF t3 this]
  have "manager_step (demo_y demo_m4 [[7, 8]] []) (LSend 0 ?ev) (demo_y demo_m5 [[7, 8]] [?ev])"
    using manager_step.send [of 0 "demo_y demo_m4 [[7, 8]] []"] 5 by (simp add: demo_y_def demo_m5_def)
  note t5 = manager_snoc [OF t4 this]
  from t5 show ?thesis by (simp only: append.simps)
qed

lemma demo_small: "small (demo_y m [[7, 8]] sent)"
  by (simp add: small_def demo_y_def)

lemma demo_att: "at_session (m_atts demo_m5 ! 0) = 1" "0 < length (m_atts demo_m5)"
  by (simp_all add: demo_m5_val)

theorem attachment_delivery_witness:
  "\<exists>s evs ex. sess demo_m5 1 = Some s
     \<and> [AttachmentOutput \<lparr>Sequence = 1, Data = [7, 8]\<rparr>] = map AttachmentOutput evs @ ex
     \<and> stream_of demo_config [[7, 8]] (0, 0) evs"
proof -
  let ?y = "demo_y demo_m5 [[7, 8]] [AttachmentOutput \<lparr>Sequence = 1, Data = [7, 8]\<rparr>]"
  have k: "0 < length (m_atts (y_m ?y))" using demo_att(2) by (simp add: demo_y_def)
  from attachment_delivery [OF demo_new demo_trace demo_small k refl refl]
  obtain s evs ex where "sess (y_m ?y) (at_session (m_atts (y_m ?y) ! 0)) = Some s"
    "y_sent ?y 0 = map AttachmentOutput evs @ ex"
    "stream_of demo_config (y_published ?y (at_session (m_atts (y_m ?y) ! 0))) (y_base ?y 0) evs" by blast
  then have "sess demo_m5 1 = Some s" "stream_of demo_config [[7, 8]] (0, 0) evs"
    "[AttachmentOutput \<lparr>Sequence = 1, Data = [7, 8]\<rparr>] = map AttachmentOutput evs @ ex"
    using demo_att(1) by (simp_all add: demo_y_def)
  then show ?thesis by blast
qed

theorem history_is_newest_output_witness:
  "\<exists>s. sess demo_m5 1 = Some s \<and> map (\<lambda>h. Sequence (hc_event h)) (se_history s) = [1]
     \<and> se_lastSequence s = 1 \<and> m_historyBytes demo_m5 = 2"
proof -
  let ?y = "demo_y demo_m5 [[7, 8]] [AttachmentOutput \<lparr>Sequence = 1, Data = [7, 8]\<rparr>]"
  have len: "map_option (\<lambda>s. length (se_history s)) (sess demo_m5 1) = Some 1" by (simp add: demo_m5_val)
  then obtain s where s: "sess demo_m5 1 = Some s" "length (se_history s) = 1" by auto
  have b: "m_historyBytes demo_m5 = 2" by (simp add: demo_m5_val)
  have "sess (y_m ?y) 1 = Some s" using s(1) by (simp add: demo_y_def)
  from history_is_newest_output [OF demo_new demo_trace demo_small this refl refl] show ?thesis
    using s b by (simp add: demo_y_def)
qed

end
