(* ===== verification/Pty_Bounds.thy ===== *)
theory Pty_Bounds
  imports Pty_Reach
begin

text \<open>
  The resource limits of \<open>ManagerConfig\<close> in every reachable state of the manager in
  \<open>pty/manager.go\<close>, observers and their queues included.
\<close>

section \<open>Observers\<close>

definition sub_queue_ok :: "ManagerConfig \<Rightarrow> Subscription \<Rightarrow> bool" where
  "sub_queue_ok c s \<longleftrightarrow>
     su_maxBytes s = ObserverQueueBytes c
     \<and> su_bytes s = sum_list (map eventBytes (su_queue s)) \<and> su_bytes s \<le> su_maxBytes s"

definition obs_ok :: "ManagerConfig \<Rightarrow> Manager \<Rightarrow> bool" where
  "obs_ok c m \<longleftrightarrow>
     m_config m = c \<and> int (length (m_observers m)) \<le> MaxObservers c
     \<and> (\<forall>p \<in> set (m_observers m). snd p < length (m_subs m))
     \<and> (\<forall>s \<in> set (m_subs m). sub_queue_ok c s)"

definition quiet :: "ManagerConfig \<Rightarrow> Manager \<Rightarrow> Manager \<Rightarrow> bool" where
  "quiet c m m' \<longleftrightarrow> (obs_ok c m \<longrightarrow> obs_ok c m')"

lemma quiet_refl [simp]: "quiet c m m"
  by (simp add: quiet_def)

lemma quiet_trans: "quiet c a b \<Longrightarrow> quiet c b d \<Longrightarrow> quiet c a d"
  by (simp add: quiet_def)

lemma foldl_quiet:
  assumes "\<And>st x. quiet c (snd st) (snd (f st x))"
  shows "quiet c (snd st) (snd (foldl f st xs))"
  using assms quiet_refl quiet_trans by (rule foldl_rel)

lemma quiet_other:
  "m_config m' = m_config m \<Longrightarrow> m_subs m' = m_subs m \<Longrightarrow> m_observers m' = m_observers m \<Longrightarrow> quiet c m m'"
  by (simp add: quiet_def obs_ok_def)

lemma set_mdel: "set (mdel k xs) \<subseteq> set xs"
  by (induction xs) auto

lemma quiet_observers:
  "set xs \<subseteq> set (m_observers m) \<Longrightarrow> length xs \<le> length (m_observers m) \<Longrightarrow> quiet c m (m\<lparr>m_observers := xs\<rparr>)"
  by (auto simp: quiet_def obs_ok_def)

lemma quiet_upd_sub:
  assumes "\<And>s. k < length (m_subs m) \<Longrightarrow> s = m_subs m ! k \<Longrightarrow> sub_queue_ok c s \<Longrightarrow> sub_queue_ok c (f s)"
  shows "quiet c m (upd_sub k f m)"
  using assms set_update_subset_insert
  by (fastforce simp: quiet_def obs_ok_def upd_sub_def dest!: subsetD [OF set_update_subset_insert] split: if_splits)

lemma su_enqueue_ok: "su_enqueue ev s = (None, s') \<Longrightarrow> sub_queue_ok c s \<Longrightarrow> sub_queue_ok c s'"
  using sub_queue.load_push_bound [of "su_maxBytes s" ev s] sub_queue.accounted_push [of s ev]
  by (auto simp: su_enqueue_def sub_queue_ok_def su_push_def split: if_splits)

lemma quiet_emit: "quiet c m (snd (emitLocked ev m))"
proof -
  have step: "quiet c (snd st) (snd (emit_step ev st p))" for st p
  proof (cases "su_enqueue ev (m_subs (snd st) ! snd p)")
    case (Pair r s')
    show ?thesis
    proof (cases r)
      case None
      have "quiet c (snd st) (upd_sub (snd p) (\<lambda>_. s') (snd st))"
        by (rule quiet_upd_sub) (use su_enqueue_ok Pair None in blast)
      then show ?thesis by (simp add: emit_step_def Pair None)
    next
      case (Some e)
      have "quiet c (snd st) ((snd st)\<lparr>m_observers := mdel (fst p) (m_observers (snd st))\<rparr>)"
        by (rule quiet_observers) (use set_mdel in \<open>auto simp: mdel_filter\<close>)
      then show ?thesis by (simp add: emit_step_def Pair Some)
    qed
  qed
  show ?thesis unfolding emitLocked_def
    using foldl_quiet [where st = "([], m)", OF step] by simp
qed

lemma shrunk_obs: "shrunk m m' \<Longrightarrow> m_config m' = m_config m \<and> m_subs m' = m_subs m \<and> m_observers m' = m_observers m"
  by (auto simp: shrunk_def)

lemma appendHistory_obs:
  "m_config (appendHistoryLocked i ev m) = m_config m \<and> m_subs (appendHistoryLocked i ev m) = m_subs m
   \<and> m_observers (appendHistoryLocked i ev m) = m_observers m"
proof -
  have "m_config (history_push i ev m) = m_config m \<and> m_subs (history_push i ev m) = m_subs m
      \<and> m_observers (history_push i ev m) = m_observers m"
    by (simp add: history_push_def Let_def split: option.splits)
  then show ?thesis
    using shrunk_obs [OF evict_session_shrunk [of "history_push i ev m" i]]
      shrunk_obs [OF evict_total_shrunk [of "evict_session i (history_push i ev m)"]]
    by (simp add: appendHistoryLocked_def Let_def)
qed

lemma quiet_publish: "quiet c m (snd (publish i d m))"
proof (cases "sess m i")
  case None
  then show ?thesis by (simp add: publish_def bump_sequence_def Let_def) (rule quiet_other, simp_all)
next
  case (Some s)
  from publish_states [OF Some, of d] obtain m2 failed m3 ev e where
    p: "m2 = appendHistoryLocked i ev (bump_sequence i m)"
    "foldl (publish_step i ev) ([], m2) (se_attachments s) = (failed, m3)"
    "snd (publish i d m) = snd (emitLocked e m3)" by metis
  have "quiet c m m2" by (rule quiet_other) (simp_all add: p(1) appendHistory_obs bump_sequence_def)
  moreover have "quiet c (snd st) (snd (publish_step i ev st a))" for st a
    by (auto simp: publish_step_def upd_att_def split: prod.splits option.splits intro!: quiet_other)
  then have "quiet c m2 m3"
    using foldl_quiet [where st = "([], m2)" and xs = "se_attachments s" and f = "publish_step i ev"] p(2) by simp
  ultimately show ?thesis unfolding p(3) using quiet_trans quiet_emit by blast
qed

lemma quiet_exit: "quiet c m (snd (run_exit i status m))"
proof (cases "sess m i")
  case (Some s)
  from run_exit_states [OF Some, of status] obtain m1 failed m2 s1 where
    r: "m1 = m\<lparr>m_store := mput i s1 (m_store m), m_processesExited := m_processesExited m + 1,
            m_activeSessions := (if m_activeSessions m > 0 then m_activeSessions m - 1 else m_activeSessions m)\<rparr>"
    "foldl (exit_step status) ([], m1) (map snd (se_attachments s)) = (failed, m2)"
    "snd (run_exit i status m) = snd (emitLocked (session_event EventExited s1) m2)" by metis
  have "quiet c m m1" by (rule quiet_other) (simp_all add: r(1))
  moreover have "quiet c (snd st) (snd (exit_step status st k))" for st k
    by (auto simp: exit_step_def upd_att_def split: prod.splits option.splits intro!: quiet_other)
  then have "quiet c m1 m2"
    using foldl_quiet [where st = "([], m1)" and xs = "map snd (se_attachments s)" and f = "exit_step status"] r(2)
    by simp
  ultimately show ?thesis unfolding r(3) using quiet_trans quiet_emit by blast
qed (simp add: run_exit_def)

lemma quiet_removeSession: "quiet c m (removeSessionLocked i m)"
  by (rule quiet_other) (simp_all add: removeSessionLocked_def Let_def removeRetainedIDLocked_def
      removeHistoryLocked_def split: option.splits)

lemma quiet_finishRemoval: "quiet c m (snd (finishRetainedRemoval r m))"
proof (cases r m rule: finishRemoval_cases)
  case (removed s m2 s2)
  have "quiet c (removeSessionLocked (rr_session r) m) m2" by (rule quiet_other) (simp_all add: removed(4))
  then show ?thesis unfolding removed(6)
    using quiet_trans [OF quiet_trans [OF quiet_removeSession]] quiet_emit by blast
qed simp

lemma quiet_evicted: "evicted m m' \<Longrightarrow> quiet c m m'"
  by (rule quiet_other) (auto simp: evicted_def)

lemma quiet_run_retire:
  assumes "sessions_ok m" and s: "sess m i = Some s" "se_pc s = RunDraining ks"
    and "ManagerConfig_validate (m_config m) = None" and "run_retire i m = Some (failed, m')"
  shows "quiet c m m'"
  using assms(5)
proof (cases rule: run_retire_cases)
  case (retain m1 m2 m3 m4 s2 removals)
  have "quiet c m m2" by (rule quiet_other) (simp_all add: retain(1,4))
  moreover have "quiet c m2 m3" unfolding retain(6) by (rule quiet_emit)
  moreover have "quiet c m3 m4"
    by (rule quiet_evicted [OF run_retire_evicts(1) [OF assms(1-4) retain(1,4,5,6,7)]])
  moreover have "quiet c m4 m'" by (rule quiet_other) (simp_all add: retain(8))
  ultimately show ?thesis using quiet_trans by blast
next
  case (remove m1 m2 m3 s3)
  have "quiet c m m1" by (rule quiet_other) (simp_all add: remove(1))
  moreover have "quiet c m1 m2" unfolding remove(2) by (rule quiet_removeSession)
  moreover have "quiet c m2 m3" by (rule quiet_other) (simp_all add: remove(3))
  moreover have "quiet c (snd (emitLocked (session_event EventRemoved s3) m3)) m'"
    by (rule quiet_other) (simp_all add: remove(5))
  ultimately show ?thesis using quiet_trans quiet_emit by meson
qed

lemma quiet_attach: "quiet c m (snd (attach_locked i opts raced m))"
proof (cases "sess m i")
  case None
  then show ?thesis by (simp add: attach_locked_def)
next
  case (Some s)
  obtain r m' where a: "attach_locked i opts raced m = (r, m')" by fastforce
  show ?thesis
  proof (cases r)
    case (Inl e)
    then have "m' = m \<or> m' = m\<lparr>m_nextAttachment := m_nextAttachment m + 1\<rparr>" using attach_refused_state a by blast
    then show ?thesis using a by (auto intro!: quiet_other)
  next
    case (Inr x)
    then obtain k result failed where "attach_locked i opts raced m = (Inr (k, result, failed), m')" using a by (cases x) auto
    from attach_ok_state [OF this Some] obtain m2 ev where
      "m2 = m\<lparr>m_nextAttachment := m_nextAttachment m + 1,
         m_store := mput i (s\<lparr>se_attachments := mput (m_nextAttachment m + 1) k (se_attachments s)\<rparr>) (m_store m),
         m_atts := m_atts m @ [attached m i s opts]\<rparr>" "m' = snd (emitLocked ev m2)" by metis
    moreover then have "quiet c m m2" by (intro quiet_other) simp_all
    ultimately show ?thesis using a quiet_trans [OF _ quiet_emit] by simp
  qed
qed

lemma quiet_recordClose: "quiet c m (snd (recordAttachmentClose k reason m))"
proof (cases "k < length (m_atts m) \<and> at_registered (m_atts m ! k)")
  case True
  from recordClose_states [of k m reason] True obtain m3 where
    m3: "m3 = (upd_session (at_session (m_atts m ! k)) (\<lambda>s. s\<lparr>se_attachments := mdel (at_id (m_atts m ! k)) (se_attachments s)\<rparr>)
       (upd_att k (\<lambda>a. a\<lparr>at_registered := False\<rparr>) m))\<lparr>m_attachmentClosures := mput reason
         ((case mget (m_attachmentClosures m) reason of None \<Rightarrow> 0 | Some n \<Rightarrow> n) + 1) (m_attachmentClosures m)\<rparr>"
    and fin: "snd (recordAttachmentClose k reason m) = m3 \<or> (\<exists>ev. snd (recordAttachmentClose k reason m) = snd (emitLocked ev m3))"
    by metis
  have "quiet c m m3" by (rule quiet_other) (simp_all add: m3)
  then show ?thesis using fin quiet_trans [OF _ quiet_emit] by metis
qed (simp add: recordClose_noop)

lemma quiet_register:
  assumes "open_register sid spec now m = (r, m')"
  shows "quiet c m m'"
  using assms
proof (cases rule: open_register_cases)
  case (refused e)
  then show ?thesis by (intro quiet_other) simp_all
next
  case (ok m1 failed)
  have "quiet c m m1" by (rule quiet_other) (simp_all add: ok(4))
  then show ?thesis unfolding ok(5) by (rule quiet_trans [OF _ quiet_emit])
qed

lemma quiet_Subscribe:
  assumes "ManagerConfig_validate c = None"
  shows "quiet c m (snd (Subscribe m))"
proof -
  have "0 < ObserverQueueBytes c" using config_limits(6) [OF assms] .
  then show ?thesis using length_mput [of "m_nextObserver m + 1" "length (m_subs m)" "m_observers m"]
    by (auto simp: Subscribe_def Let_def quiet_def obs_ok_def sub_queue_ok_def newSubscription_def
        dest!: subsetD [OF mput_subset] split: option.splits if_splits)
qed

lemma quiet_su_finish:
  assumes "ManagerConfig_validate c = None"
  shows "quiet c m (su_finish_at k e reason m)"
proof -
  have "0 < ObserverQueueBytes c" using config_limits(6) [OF assms] .
  then have "quiet c m (upd_sub k (su_finish e reason) m)"
    by (intro quiet_upd_sub) (auto simp: sub_queue_ok_def su_finish_def)
  moreover have "quiet c a (recordObserverClose reason a)" for a
    by (rule quiet_other) (simp_all add: recordObserverClose_def)
  moreover have "quiet c a (upd_sub k (\<lambda>s. s\<lparr>su_done := True\<rparr>) a)" for a
    by (rule quiet_upd_sub) (simp add: sub_queue_ok_def)
  ultimately show ?thesis unfolding su_finish_at_def using quiet_trans by (simp split: if_split) blast
qed

lemma quiet_su_next: "quiet c m (upd_sub k (\<lambda>s. snd (su_next s)) m)"
proof (rule quiet_upd_sub)
  fix s assume s: "sub_queue_ok c s"
  show "sub_queue_ok c (snd (su_next s))"
  proof (cases "su_queue s")
    case Nil
    then show ?thesis using s by (simp add: su_next_def su_pop_def)
  next
    case (Cons ev rest)
    have "0 \<le> eventBytes ev" by (simp add: eventBytes_def split: option.splits)
    then show ?thesis using s Cons by (simp add: su_next_def su_pop_def sub_queue_ok_def)
  qed
qed

lemma quiet_simple:
  "quiet c m (open_started m)" "quiet c m (recordProcessExited m)" "quiet c m (kill_result i e m)"
  "quiet c m (resize_apply i sz m)" "quiet c m (manager_cancel m)" "quiet c m (close_joins ts ks m)"
  "quiet c m (snd (kill_begin i m))" "quiet c m (snd (open_reserve m))" "quiet c m (open_abort m)"
  "quiet c m (upd_session i g m)" "quiet c m (upd_att k f m)"
  by (rule quiet_other; simp add: open_started_def recordProcessExited_def kill_result_def resize_apply_def
      manager_cancel_def close_joins_def Let_def kill_begin_def open_reserve_def open_abort_def split: option.splits)+

lemma quiet_unlink: "quiet c m (Subscription_unlink k m)"
  unfolding Subscription_unlink_def
  by (auto intro!: quiet_observers simp: mdel_filter)

lemma fold_quiet:
  assumes "\<And>x a. quiet c a (f x a)"
  shows "quiet c m (fold f xs m)"
proof (induction xs arbitrary: m)
  case (Cons x xs)
  show ?case using quiet_trans [OF assms Cons.IH] by simp
qed simp

lemma quiet_close_begin: "quiet c m (snd (close_begin m))"
proof -
  have "quiet c a (fold (\<lambda>i. upd_session i stop_session) is a)" for a "is"
    by (rule fold_quiet) (rule quiet_simple)
  moreover have "quiet c m (m\<lparr>m_closing := True\<rparr>)" by (rule quiet_other) simp_all
  moreover have "quiet c b (b\<lparr>m_observers := []\<rparr>)" for b by (rule quiet_observers) simp_all
  ultimately show ?thesis unfolding close_begin_state using quiet_trans by blast
qed

lemma quiet_close_end: "quiet c m (close_end m)"
proof -
  have "quiet c a (clear_session i a)" for a i
    by (rule quiet_other) (simp_all add: clear_session_def removeHistoryLocked_def split: option.splits)
  then have "quiet c a (fold clear_session is a)" for a "is"
    by (rule fold_quiet)
  moreover have "quiet c (fold clear_session (m_sessions m) m) (close_end m)"
    by (rule quiet_other) (simp_all add: close_end_state)
  ultimately show ?thesis using quiet_trans by blast
qed

section \<open>All limits\<close>

lemma manager_step_obs_ok:
  assumes "life_ok y" and "manager_step y l y'" and "obs_ok c (y_m y)"
  shows "obs_ok c (y_m y')"
proof -
  have so: "sessions_ok (y_m y)" and cfg: "ManagerConfig_validate (m_config (y_m y)) = None"
    using assms(1) by (auto simp: life_ok_def)
  have c: "ManagerConfig_validate c = None" using cfg assms(3) by (simp add: obs_ok_def)
  have "quiet c (y_m y) (y_m y')" using assms(2)
  proof cases
    case (reserve ctx spec sid m')
    from quiet_simple(8) [of c "y_m y"] show ?thesis using reserve(4) by (simp add: reserve(2))
  next
    case (reserve_refused e m')
    from quiet_simple(8) [of c "y_m y"] show ?thesis using reserve_refused(3) by (simp add: reserve_refused(2))
  next
    case (register sid spec now failed m')
    from quiet_register [OF register(4)] show ?thesis by (simp add: register(2))
  next
    case (register_refused sid spec now e m')
    from quiet_register [OF register_refused(4)] show ?thesis by (simp add: register_refused(2))
  next
    case (pump i s r pub ret')
    have "quiet c (y_m y) (pump_effect i pub None (y_m y))"
      by (simp add: pump_effect_def quiet_publish split: option.splits)
    moreover have "quiet c (pump_effect i pub None (y_m y)) (pump_effect i pub ret' (y_m y))"
      by (auto simp: pump_effect_def Let_def quiet_simple split: option.splits)
    ultimately show ?thesis using quiet_trans by (simp add: pump(2))
  next
    case (attach ctx opts0 sink opts i s raced k result failed m')
    from quiet_attach [of c "y_m y" i opts raced] show ?thesis by (simp add: attach(2,5))
  next
    case (attach_refused ctx opts0 sink opts i raced e m')
    from quiet_attach [of c "y_m y" i opts raced] show ?thesis by (simp add: attach_refused(2,4))
  next
    case (retire i s ks failed m')
    from quiet_run_retire [OF so retire(3,4) cfg retire(6)] show ?thesis by (simp add: retire(2))
  next
    case (evict i s r rs)
    from quiet_trans [OF quiet_finishRemoval quiet_simple(10)] show ?thesis by (simp add: evict(2))
  next
    case (remove i r m')
    from Remove_begin_ok [OF so remove(3)] show ?thesis by (simp add: remove(2) quiet_evicted)
  next
    case (subscribe res m')
    from quiet_Subscribe [OF c, of "y_m y"] show ?thesis using subscribe(3) by (simp add: subscribe(2))
  qed (simp_all add: quiet_simple quiet_exit quiet_recordClose quiet_finishRemoval quiet_unlink
      quiet_su_finish [OF c] quiet_su_next quiet_close_begin quiet_close_end)
  then show ?thesis using assms(3) by (simp add: quiet_def)
qed

lemma hist_acc_bytes: "hist_acc s \<Longrightarrow> se_historyBytes s = (\<Sum>chunk \<leftarrow> se_history s. chunk_bytes chunk)"
  by (simp add: hist_acc_def)

definition limits_ok :: "ManagerConfig \<Rightarrow> msys \<Rightarrow> bool" where
  "limits_ok c y \<longleftrightarrow> deliver_ok y \<and> obs_ok c (y_m y)"

lemma deliver_life: "deliver_ok y \<Longrightarrow> life_ok y"
  by (simp add: deliver_ok_def)

interpretation manager_limits: step_invariant manager_step "limits_ok c" for c
  by unfold_locales
    (auto simp: limits_ok_def intro: manager_step_deliver_ok manager_step_obs_ok [OF deliver_life])

text \<open>
  (C6) Every limit of \<open>ManagerConfig\<close> holds in every reachable state, whatever the order in
  which callers, session goroutines, workers and shutdown take the lock: sessions that run or
  are starting, retained sessions, attachments of a session, the bytes queued for an
  attachment and for an observer, the number of observers, the history of a session and of all
  sessions. The counters the code compares with the limits are exact: the running and
  starting sessions, the bytes of the chunks a session's history holds and of all histories together, and the bytes
  queued for an attachment and for an observer.
\<close>

theorem manager_within_limits:
  assumes "NewManager parent factory c = Inr m" and "trace manager_step (new_msys m) ls y" and "M = y_m y"
  shows "m_activeSessions M + m_starting M \<le> MaxSessions c
    \<and> m_starting M = int (length (y_opens y))
    \<and> m_activeSessions M = int (length (filter (is_early M) (m_sessions M)))
    \<and> int (length (m_retainedExited M)) \<le> MaxRetainedSessions (SessionLifecycle c)
    \<and> list_all (\<lambda>s. int (length (se_attachments s)) \<le> MaxAttachmentsPerSession c
                   \<and> se_historyBytes s = (\<Sum>chunk \<leftarrow> se_history s. int (length (Data (hc_event chunk))))
                   \<and> se_historyBytes s \<le> HistoryBytes c) (map snd (m_store M))
    \<and> m_historyBytes M = (\<Sum>s \<leftarrow> map snd (m_store M). \<Sum>chunk \<leftarrow> se_history s. int (length (Data (hc_event chunk))))
    \<and> m_historyBytes M \<le> MaxTotalHistoryBytes c
    \<and> list_all (\<lambda>a. at_bytes a = sum_list (map attachmentEventBytes (at_queue a))
                   \<and> at_bytes a \<le> AttachmentQueueBytes c) (m_atts M)
    \<and> int (length (m_observers M)) \<le> MaxObservers c
    \<and> list_all (\<lambda>s. su_bytes s = sum_list (map eventBytes (su_queue s))
                   \<and> su_bytes s \<le> ObserverQueueBytes c) (m_subs M)"
proof -
  have n: "m_config m = c" "m_subs m = []" "m_observers m = []" "ManagerConfig_validate c = None"
    using assms(1) by (auto simp: NewManager_def split: option.splits if_splits)
  have "limits_ok c (new_msys m)"
    using NewManager_ok(1) [OF assms(1)] n config_limits(7) [OF n(4)]
    by (simp add: limits_ok_def obs_ok_def new_msys_def)
  then have l: "limits_ok c y" by (rule manager_limits.trace_keeps [OF assms(2)])
  then have c: "m_config M = c" and so: "sessions_ok M" by (auto simp: limits_ok_def obs_ok_def deliver_ok_def life_ok_def assms(3))
  have sums: "se_historyBytes s \<le> HistoryBytes c" "int (length (se_attachments s)) \<le> MaxAttachmentsPerSession c"
    "se_historyBytes s = (\<Sum>chunk \<leftarrow> se_history s. int (length (Data (hc_event chunk))))"
    if "(i, s) \<in> set (m_store M)" for i s
  proof -
    have "sess M i = Some s" using that sessions_okD(1) [OF so] by (simp add: is_map_def)
    then show "se_historyBytes s \<le> HistoryBytes c" "int (length (se_attachments s)) \<le> MaxAttachmentsPerSession c"
      "se_historyBytes s = (\<Sum>chunk \<leftarrow> se_history s. int (length (Data (hc_event chunk))))"
      using l c store_accD [of "m_store M" "m_sessions M" "m_historyBytes M" i s]
      by (auto simp: limits_ok_def deliver_ok_def hist_ok_def assms(3) intro: links_okD(2) dest: hist_acc_bytes)
  qed
  have "m_historyBytes M = msum se_historyBytes (m_store M)"
    using l by (simp add: limits_ok_def deliver_ok_def hist_ok_def store_acc_def assms(3))
  also have "\<dots> = (\<Sum>s \<leftarrow> map snd (m_store M). \<Sum>chunk \<leftarrow> se_history s. int (length (Data (hc_event chunk))))"
    unfolding msum_def using sums(3) by (intro arg_cong [where f = sum_list]) auto
  finally have total: "m_historyBytes M = \<dots>" .
  have "list_all (\<lambda>s. int (length (se_attachments s)) \<le> MaxAttachmentsPerSession c
      \<and> se_historyBytes s = (\<Sum>chunk \<leftarrow> se_history s. int (length (Data (hc_event chunk))))
      \<and> se_historyBytes s \<le> HistoryBytes c) (map snd (m_store M))"
    using sums by (auto simp: list_all_iff)
  moreover note total
  moreover have "m_historyBytes M \<le> MaxTotalHistoryBytes c"
    using l c by (simp add: limits_ok_def deliver_ok_def hist_ok_def assms(3))
  ultimately show ?thesis
    using l c so unfolding assms(3)
    by (auto simp: limits_ok_def deliver_ok_def life_ok_def ids_ok_def obs_ok_def
        att_queue_ok_def sub_queue_ok_def list_all_iff sessions_okD(7))
qed

theorem manager_within_limits_witness:
  "m_activeSessions demo_m5 + m_starting demo_m5 \<le> 256 \<and> m_historyBytes demo_m5 \<le> 512 * 2 ^ 20
   \<and> m_historyBytes demo_m5 = (\<Sum>s \<leftarrow> map snd (m_store demo_m5). \<Sum>chunk \<leftarrow> se_history s. int (length (Data (hc_event chunk))))
   \<and> int (length (m_observers demo_m5)) \<le> 32"
  using manager_within_limits [OF demo_new demo_trace refl]
  by (simp add: demo_y_def demo_config_def DefaultManagerConfig_def)

end
