(* ===== verification/Pty_Lifecycle.thy ===== *)
theory Pty_Lifecycle
  imports Pty_Reach
begin

text \<open>
  The lifecycle of sessions in \<open>pty/manager.go\<close> as the callers of the manager see it: states
  only move forward, an exit status is final, identifiers are not reused, and the end of a
  session never hangs in the eviction of older ones.
\<close>

text \<open>
  (C10) The lifecycle of a session is one-way. Whatever happens after a session is in the
  manager, it keeps its identifier, its state never goes back (running, stopping, exited), its
  exit status, once set, never changes, it has an exit status exactly when it is exited, and
  no other session is ever registered under its identifier.
\<close>

theorem session_lifecycle:
  assumes "NewManager parent factory c = Inr m" and "trace manager_step (new_msys m) ls y"
    and "trace manager_step y ls' z" and "sess (y_m y) i = Some s"
  shows "\<exists>s'. sess (y_m z) i = Some s' \<and> se_id s' = i
    \<and> state_rank (se_state s) \<le> state_rank (se_state s')
    \<and> (se_exit s = None \<or> se_exit s' = se_exit s)
    \<and> (se_exit s' \<noteq> None \<longleftrightarrow> se_state s' = SessionExited)
    \<and> LRegistered i \<notin> set ls' \<and> distinct (filter (\<lambda>l. \<exists>i. l = LRegistered i) (ls @ ls'))"
proof -
  have l: "life_ok (new_msys m)" using NewManager_ok(1) [OF assms(1)] by (simp add: deliver_ok_def)
  note y = trace_onward [OF assms(2) l]
  then have z: "life_ok z" "onward (y_m y) (y_m z)"
      "\<And>i. LRegistered i \<in> set ls' \<Longrightarrow> sess (y_m y) i = None"
      "distinct (filter (\<lambda>l. \<exists>i. l = LRegistered i) ls')"
    using trace_onward [OF assms(3)] by auto
  obtain s' where s': "sess (y_m z) i = Some s'" "sess_onward s s'"
    using z(2) assms(4) unfolding onward_def by blast
  have "session_ok (m_sessions (y_m z)) (m_retainedExited (y_m z)) i s'"
    using z(1) s'(1) by (auto simp: life_ok_def intro: sessions_okD(6))
  then have "se_id s' = i" "se_exit s' \<noteq> None \<longleftrightarrow> se_state s' = SessionExited"
    unfolding session_ok_def by (auto split: if_splits)
  moreover have "set (filter (\<lambda>l. \<exists>i. l = LRegistered i) ls) \<inter> set (filter (\<lambda>l. \<exists>i. l = LRegistered i) ls') = {}"
    using y z(3) by auto
  ultimately show ?thesis
    using s' z(3) [of i] z(4) y assms(4) unfolding sess_onward_def by auto
qed

theorem session_lifecycle_witness:
  "\<exists>s'. sess demo_m5 1 = Some s' \<and> se_id s' = 1 \<and> 1 \<le> state_rank (se_state s')"
proof -
  let ?y = "demo_y demo_m5 [[7, 8]] [AttachmentOutput \<lparr>Sequence = 1, Data = [7, 8]\<rparr>]"
  have "map_option se_state (sess demo_m5 1) = Some SessionRunning" by (simp add: demo_m5_val)
  then obtain s where s: "sess (y_m ?y) 1 = Some s" "se_state s = SessionRunning" by (auto simp: demo_y_def)
  from session_lifecycle [OF demo_new demo_trace trace_refl s(1)] s(2) show ?thesis by (auto simp: demo_y_def)
qed

section \<open>The end of a session returns\<close>

lemma run_retire_retains:
  assumes so: "sessions_ok m" and s: "sess m i = Some s" "se_pc s = RunDraining ks"
    and cfg: "ManagerConfig_validate (m_config m) = None"
    and pol: "\<not> m_closing m" "ExitPolicy (SessionLifecycle (m_config m)) = ExitedSessionRetain"
    and q: "q = m_retainedExited m @ [i]" and n: "n = length q - nat (MaxRetainedSessions (SessionLifecycle (m_config m)))"
  shows "\<exists>failed m' s' rs. run_retire i m = Some (failed, m') \<and> sess m' i = Some s'
    \<and> m_retainedExited m' = drop n q \<and> se_retained s' \<and> se_pc s' = RunEvicting rs \<and> map rr_session rs = take n q"
proof -
  let ?m1 = "upd_session i (\<lambda>s. s\<lparr>se_attachments := []\<rparr>) m"
  define m2 where "m2 = (upd_session i (\<lambda>s. s\<lparr>se_retained := True\<rparr>) ?m1)
    \<lparr>m_retainedExited := m_retainedExited ?m1 @ [i], m_generation := m_generation ?m1 + 1\<rparr>"
  note d = draining_session [OF so s]
  have l1: "life_same m ?m1" by (rule detach_life)
  have s1: "sess ?m1 i = Some (s\<lparr>se_attachments := []\<rparr>)" using s(1) by simp
  have ok2: "sessions_okX {i} m2"
    by (rule retain_okX [OF life_same_okX [OF l1 d(1)] s1 _ _ _ m2_def]) (use d in auto)
  obtain s2 where s2: "sess m2 i = Some s2" using s(1) by (simp add: m2_def)
  obtain f m3 where em: "emitLocked (session_event EventRetained s2) m2 = (f, m3)" by fastforce
  have l3: "life_same m2 m3" using life_same_emit [of m2 "session_event EventRetained s2"] em by simp
  have ok3: "sessions_okX {i} m3" by (rule life_same_okX [OF l3 ok2])
  have f3: "m_config m3 = m_config m" "m_retainedExited m3 = q"
    using life_same_fields [OF l3] by (simp_all add: m2_def q)
  have max: "0 < MaxRetainedSessions (SessionLifecycle (m_config m))" by (rule config_limits(10) [OF cfg pol(2)])
  from evict_retained_returns [OF ok3, of "[]"] max f3 n obtain rs m4 where
    ev: "evict_retained m3 [] = Some (rs, m4)" "sessions_okX {i} m4" "map rr_session rs = take n q"
      "m_retainedExited m4 = drop n q" "evicted m3 m4" by auto
  have "i \<in> set (drop n q)" using max by (simp add: q n)
  then obtain s4 where s4: "sess m4 i = Some s4" using sessions_okXD(5) [OF ev(2), of i] ev(4) by auto
  have "se_retained s4"
    using sessions_okXD(6) [OF ev(2) s4] \<open>i \<in> set (drop n q)\<close> ev(4) by (simp add: session_ok_def)
  moreover have "run_retire i m = Some (f, upd_session i (\<lambda>s. s\<lparr>se_pc := RunEvicting rs\<rparr>) m4)"
    using pol s2 em ev(1) unfolding run_retire_def Let_def m2_def [symmetric]
    by (simp add: beginRetentionEvictionsLocked_def)
  ultimately show ?thesis using ev(3,4) s4 by (intro exI) auto
qed

lemma run_retire_removes:
  assumes so: "sessions_ok m" and s: "sess m i = Some s" "se_pc s = RunDraining ks"
    and pol: "m_closing m \<or> ExitPolicy (SessionLifecycle (m_config m)) \<noteq> ExitedSessionRetain"
  shows "\<exists>failed m' s'. run_retire i m = Some (failed, m') \<and> sess m' i = Some s' \<and> i \<notin> set (m_sessions m')
    \<and> se_pc s' = RunEvicting [] \<and> m_retainedExited m' = m_retainedExited m"
proof -
  let ?m1 = "upd_session i (\<lambda>s. s\<lparr>se_attachments := []\<rparr>) m"
  define m2 where "m2 = removeSessionLocked i ?m1"
  define m3 where "m3 = m2\<lparr>m_sessionsRemoved := m_sessionsRemoved m2 + 1\<rparr>"
  have "i \<notin> set (m_retainedExited m)" using draining_session(5) [OF so s] .
  then have f2: "m_retainedExited m3 = m_retainedExited m" "i \<notin> set (m_sessions m3)"
    by (auto simp: m3_def m2_def removeSessionLocked_def Let_def removeRetainedIDLocked_def removeHistoryLocked_def
        remove1_idem split: option.splits)
  have "sess m3 i \<noteq> None" using removeSession_fields(7) [of i ?m1 i] s(1) by (simp add: m3_def m2_def)
  then obtain s3 where s3: "sess m3 i = Some s3" by blast
  obtain f m4 where em: "emitLocked (session_event EventRemoved s3) m3 = (f, m4)" by fastforce
  have l4: "life_same m3 m4" using life_same_emit [of m3 "session_event EventRemoved s3"] em by simp
  obtain s4 where s4: "sess m4 i = Some s4" using life_same_None [OF l4, of i] s3 by (cases "sess m4 i") auto
  have "run_retire i m = Some (f, upd_session i (\<lambda>s. s\<lparr>se_pc := RunEvicting []\<rparr>) m4)"
    using pol s3 em unfolding run_retire_def Let_def m2_def [symmetric] m3_def [symmetric] by auto
  then show ?thesis using s4 f2 life_same_fields(2,3) [OF l4] by auto
qed

text \<open>
  (C13) A session's goroutine never hangs in \<open>run\<close> on the eviction of older sessions: in every
  reachable state in which it has drained its attachments, the critical section that retires
  the session returns. Under the retain policy of a manager that is not closing, the session
  becomes the newest retained one, the evicted are exactly the oldest beyond the limit, oldest
  first, and what is left is within the limit; otherwise the session is off the registry.
\<close>

theorem run_retire_returns:
  assumes "NewManager parent factory c = Inr m" and "trace manager_step (new_msys m) ls y"
    and "sess (y_m y) i = Some s" and "se_pc s = RunDraining ks"
    and "q = m_retainedExited (y_m y) @ [i]" and "n = length q - nat (MaxRetainedSessions (SessionLifecycle c))"
  shows "\<exists>failed m' s'. run_retire i (y_m y) = Some (failed, m') \<and> sess m' i = Some s'
    \<and> (if \<not> m_closing (y_m y) \<and> ExitPolicy (SessionLifecycle c) = ExitedSessionRetain
       then m_retainedExited m' = drop n q \<and> se_retained s'
            \<and> (\<exists>rs. se_pc s' = RunEvicting rs \<and> map rr_session rs = take n q)
            \<and> int (length (m_retainedExited m')) \<le> MaxRetainedSessions (SessionLifecycle c)
       else i \<notin> set (m_sessions m') \<and> se_pc s' = RunEvicting [] \<and> m_retainedExited m' = m_retainedExited (y_m y))"
proof -
  have "deliver_ok y" by (rule reachable_deliver_ok [OF assms(1,2)])
  then have so: "sessions_ok (y_m y)" and cfg: "ManagerConfig_validate (m_config (y_m y)) = None"
    by (auto simp: deliver_ok_def life_ok_def)
  have c: "m_config (y_m y) = c" using trace_onward [OF assms(2)] NewManager_ok(1,2) [OF assms(1)] by (simp add: onward_def new_msys_def deliver_ok_def)
  show ?thesis
  proof (cases "\<not> m_closing (y_m y) \<and> ExitPolicy (SessionLifecycle c) = ExitedSessionRetain")
    case True
    have "0 \<le> MaxRetainedSessions (SessionLifecycle c)" using config_limits(9) [OF cfg] c by simp
    moreover from True have "\<not> m_closing (y_m y)" "ExitPolicy (SessionLifecycle (m_config (y_m y))) = ExitedSessionRetain"
      by (simp_all add: c)
    note run_retire_retains [OF so assms(3,4) cfg this assms(5), of n]
    ultimately show ?thesis using True assms(6) c by (auto simp: nat_le_iff)
  next
    case False
    then show ?thesis using run_retire_removes [OF so assms(3,4)] c by auto
  qed
qed

text \<open>The run of the other witnesses goes on: the process ends its output and exits.\<close>

definition demo_exit :: ExitStatus where
  "demo_exit = run_status (\<lambda>_. '''') \<lparr>Reason = ExitReasonExited, Code = 0, Signal = '''', ErrorText = ''''\<rparr> None None"

definition demo_m6 :: Manager where "demo_m6 = pump_effect 1 None (Some None) demo_m5"
definition demo_m7 :: Manager where "demo_m7 = snd (run_exit 1 demo_exit demo_m6)"

lemma demo_trace_exit:
  "\<exists>ls. trace manager_step (new_msys demo_m0) ls
     (demo_y demo_m7 [[7, 8]] [AttachmentOutput \<lparr>Sequence = 1, Data = [7, 8]\<rparr>])"
proof -
  let ?sent = "[AttachmentOutput \<lparr>Sequence = 1, Data = [7, 8]\<rparr>]"
  have "map_option se_pc (sess demo_m5 1) = Some RunPumping" by (simp add: demo_m5_val)
  then obtain s5 where s5: "sess demo_m5 1 = Some s5" "se_pc s5 = RunPumping" by auto
  have pt: "pump_turn (m_config demo_m5) (0, [0, 0], Some (Lib IoEOF)) = (None, Some None)"
    "int (length [0, 0 :: byte]) = ReadBufferBytes (m_config demo_m5)"
    by (simp_all add: demo_m5_val pump_turn_def)
  have "manager_step (demo_y demo_m5 [[7, 8]] ?sent) (LPump 1 None (Some None)) (demo_y demo_m6 [[7, 8]] ?sent)"
    using manager_step.pump [of "demo_y demo_m5 [[7, 8]] ?sent" 1 s5 "(0, [0, 0], Some (Lib IoEOF))" None "Some None"] s5 pt
    by (simp add: demo_y_def demo_m6_def)
  note t6 = manager_snoc [OF demo_trace this]
  have "sess demo_m6 1 = Some (s5\<lparr>se_pc := RunPumped None\<rparr>)" using s5(1) by (simp add: demo_m6_def pump_effect_def)
  then have "manager_step (demo_y demo_m6 [[7, 8]] ?sent) (LExit 1 demo_exit) (demo_y demo_m7 [[7, 8]] ?sent)"
    using manager_step.exit [of "demo_y demo_m6 [[7, 8]] ?sent" 1 _ None demo_exit] demo_exit_def
    by (simp add: demo_y_def demo_m7_def)
  note t7 = manager_snoc [OF t6 this]
  then show ?thesis by blast
qed

theorem run_retire_returns_witness:
  "\<exists>failed m' s'. run_retire 1 demo_m7 = Some (failed, m') \<and> sess m' 1 = Some s' \<and> 1 \<notin> set (m_sessions m')
     \<and> se_pc s' = RunEvicting [] \<and> m_retainedExited m' = []"
proof -
  let ?y = "demo_y demo_m7 [[7, 8]] [AttachmentOutput \<lparr>Sequence = 1, Data = [7, 8]\<rparr>]"
  obtain ls where t: "trace manager_step (new_msys demo_m0) ls ?y" using demo_trace_exit by blast
  have "map_option se_pc (sess demo_m7 1) = Some (RunDraining [0])" by code_simp
  then obtain s where s: "sess (y_m ?y) 1 = Some s" "se_pc s = RunDraining [0]" by (auto simp: demo_y_def)
  have p: "ExitPolicy (SessionLifecycle demo_config) \<noteq> ExitedSessionRetain" "m_retainedExited demo_m7 = []" by code_simp+
  from run_retire_returns [OF demo_new t s refl refl] p show ?thesis by (auto simp: demo_y_def)
qed

end
