(* ===== verification/Pty_Attach.thy ===== *)
theory Pty_Attach
  imports Pty_Reach
begin

text \<open>
  What \<open>Session.Attach\<close> of \<open>pty/manager.go\<close> reports about the replay, in every reachable state,
  and when an attachment's \<open>Done\<close> closes.
\<close>

section \<open>What Attach reports\<close>

lemma replay_fold_result:
  assumes "\<forall>c \<in> set h. Sequence (hc_event c) \<noteq> 0"
  shows "fst (foldl (replay_step w) st h) =
    (let evs = map hc_event (filter (\<lambda>c. w < Sequence (hc_event c)) h); res = fst st in
     if evs = [] then res
     else res\<lparr>ar_ReplayFirst := (if ar_ReplayFirst res = 0 then Sequence (hd evs) else ar_ReplayFirst res),
              ar_ReplayLast := Sequence (last evs)\<rparr>)"
  using assms
proof (induction h arbitrary: st)
  case (Cons c h)
  show ?case
  proof (cases "Sequence (hc_event c) \<le> w")
    case True
    then have "replay_step w st c = st" "\<not> w < Sequence (hc_event c)" by (simp_all add: replay_step_def Let_def)
    then show ?thesis using Cons by simp
  next
    case False
    let ?evs = "map hc_event (filter (\<lambda>c. w < Sequence (hc_event c)) h)"
    have "w < Sequence (hc_event c)" "Sequence (hc_event c) \<noteq> 0" using False Cons.prems by auto
    then show ?thesis using False Cons
      by (cases "?evs = []") (simp_all add: replay_step_def Let_def)
  qed
qed simp

lemma filter_is_drop:
  assumes "\<And>j. j < length xs \<Longrightarrow> P (xs ! j) \<longleftrightarrow> k \<le> j"
  shows "filter P xs = drop k xs"
proof -
  have "filter P (take k xs) = []" using assms by (auto simp: filter_empty_conv in_set_conv_nth)
  moreover have "filter P (drop k xs) = drop k xs"
    using assms by (auto simp: filter_id_conv in_set_conv_nth)
  ultimately show ?thesis by (metis append_Nil append_take_drop_id filter_append)
qed

text \<open>
  A session with \<open>n\<close> chunks published, the oldest \<open>h\<close> of them no longer kept, and a caller that
  resumes after chunk \<open>r\<close>.
\<close>

definition replay_case :: "Session \<Rightarrow> AttachOptions \<Rightarrow> nat \<Rightarrow> nat \<Rightarrow> nat \<Rightarrow> bool" where
  "replay_case s opts n h r \<longleftrightarrow> hist_seq s \<and> se_lastSequence s = of_nat n \<and> length (se_history s) \<le> n
     \<and> n + 1 < 2 ^ 64 \<and> h = n - length (se_history s) \<and> r = unat (ao_ResumeAfter opts) \<and> r \<le> n
     \<and> ao_Replay opts = ReplayHistory"

lemma replay_case_nth:
  assumes "replay_case s opts n h r" and "j < length (se_history s)"
  shows "Sequence (hc_event (se_history s ! j)) = of_nat (h + 1 + j)"
    and "unat (Sequence (hc_event (se_history s ! j))) = h + 1 + j"
proof -
  show w: "Sequence (hc_event (se_history s ! j)) = of_nat (h + 1 + j)"
    using hist_seq_nth [of s n j] assms by (simp only: replay_case_def)
  have "h + 1 + j < 2 ^ 64" using assms unfolding replay_case_def by linarith
  then show "unat (Sequence (hc_event (se_history s ! j))) = h + 1 + j" unfolding w by (rule unat_of_nat_small)
qed

lemma replay_case_events:
  assumes "replay_case s opts n h r" and "attach_replay s opts = (result, evs)"
  shows "filter (\<lambda>c. ao_ResumeAfter opts < Sequence (hc_event c)) (se_history s) = drop (r - h) (se_history s)"
    and "evs = map hc_event (drop (r - h) (se_history s))" and "length evs = n - max r h"
    and "j < length evs \<Longrightarrow> Sequence (evs ! j) = of_nat (max r h + 1 + j)"
proof -
  show flt: "filter (\<lambda>c. ao_ResumeAfter opts < Sequence (hc_event c)) (se_history s) = drop (r - h) (se_history s)"
    using assms(1) by (intro filter_is_drop) (auto simp: word_less_nat_alt replay_case_nth(2) [OF assms(1)] replay_case_def)
  show evs: "evs = map hc_event (drop (r - h) (se_history s))"
    using attach_replay_events [of s opts] assms flt by (simp add: replay_case_def)
  show "length evs = n - max r h" using assms(1) by (simp add: evs replay_case_def)
  assume "j < length evs"
  then have "r - h + j < length (se_history s)" "Sequence (evs ! j) = Sequence (hc_event (se_history s ! (r - h + j)))"
    by (simp_all add: evs)
  moreover have "h + 1 + (r - h + j) = max r h + 1 + j" by simp
  ultimately show "Sequence (evs ! j) = of_nat (max r h + 1 + j)" using replay_case_nth(1) [OF assms(1)] by metis
qed

lemma replay_case_gap:
  assumes "replay_case s opts n h r"
  shows "(case se_history s of [] \<Rightarrow> False | c # _ \<Rightarrow> ao_ResumeAfter opts + 1 < Sequence (hc_event c)) = (r < h \<and> h < n)"
proof (cases "se_history s")
  case Nil
  then show ?thesis using assms by (simp add: replay_case_def)
next
  case (Cons c cs)
  have "unat (Sequence (hc_event c)) = h + 1" using replay_case_nth(2) [OF assms, of 0] Cons by simp
  moreover have "unat (ao_ResumeAfter opts + 1) = r + 1"
    using assms by (simp add: replay_case_def unat_plus_if_size word_size)
  ultimately show ?thesis using Cons assms by (simp add: replay_case_def word_less_nat_alt)
qed

lemma replay_case_result:
  assumes "replay_case s opts n h r" and "attach_replay s opts = (result, evs)"
    and "r0 = \<lparr>ar_ReplayFirst = 0, ar_ReplayLast = 0, ar_NextLive = se_lastSequence s + 1, ar_Truncated = (r < h \<and> h < n)\<rparr>"
  shows "result = (if evs = [] then r0
      else r0\<lparr>ar_ReplayFirst := Sequence (hd evs), ar_ReplayLast := Sequence (last evs)\<rparr>)"
proof -
  let ?R = "\<lparr>ar_ReplayFirst = 0, ar_ReplayLast = 0, ar_NextLive = se_lastSequence s + 1, ar_Truncated = False\<rparr>"
  have "(case se_history s of [] \<Rightarrow> ?R
      | c # _ \<Rightarrow> if ao_ResumeAfter opts + 1 < Sequence (hc_event c) then ?R\<lparr>ar_Truncated := True\<rparr> else ?R) = r0"
    using replay_case_gap [OF assms(1)] by (auto simp: assms(3) split: list.splits)
  moreover have rep: "ao_Replay opts = ReplayHistory" using assms(1) by (simp add: replay_case_def)
  ultimately have f: "attach_replay s opts = foldl (replay_step (ao_ResumeAfter opts)) (r0, []) (se_history s)"
    unfolding attach_replay_def Let_def if_P [OF rep] by (intro arg_cong [where f = "\<lambda>x. foldl _ (x, []) _"])
  have "\<forall>c \<in> set (se_history s). Sequence (hc_event c) \<noteq> 0"
    using replay_case_nth(2) [OF assms(1)] by (fastforce simp: in_set_conv_nth)
  from replay_fold_result [OF this, of "ao_ResumeAfter opts" "(r0, [])"] arg_cong [OF f, of fst]
  show ?thesis using replay_case_events(1,2) [OF assms(1,2)] assms(2) by (simp add: Let_def assms(3))
qed

lemma replay_case_ends:
  assumes "replay_case s opts n h r" and "attach_replay s opts = (result, evs)" and "evs \<noteq> []"
  shows "unat (Sequence (hd evs)) = max r h + 1" and "unat (Sequence (last evs)) = n"
proof -
  note ev = replay_case_events(3,4) [OF assms(1,2)]
  have l: "0 < length evs" "length evs - 1 < length evs" using assms(3) by simp_all
  have n: "n < 2 ^ 64" using assms(1) by (simp add: replay_case_def)
  then have "max r h + 1 < 2 ^ 64" using ev(1) l by linarith
  then show "unat (Sequence (hd evs)) = max r h + 1"
    using ev(2) [OF l(1)] assms(3) unat_of_nat_small [of "max r h + 1"] by (simp add: hd_conv_nth)
  have "max r h + 1 + (length evs - 1) = n" using ev(1) l by linarith
  then show "unat (Sequence (last evs)) = n"
    using ev(2) [OF l(2)] unat_of_nat_small [OF n] by (simp only: last_conv_nth [OF assms(3)])
qed

text \<open>
  (C31) The replay interval that \<open>Attach\<close> reports. With \<open>n\<close> chunks published, the oldest \<open>h\<close> of
  them no longer kept and the caller resuming after chunk \<open>r\<close>: exactly the chunks after both
  \<open>r\<close> and \<open>h\<close> are replayed, \<open>ReplayFirst\<close> and \<open>ReplayLast\<close> delimit them (zero for none), live
  output goes on at \<open>n + 1\<close>. \<open>Truncated\<close> is set when chunks between \<open>r\<close> and \<open>h\<close> are missing, but
  only if some history is left: when all \<open>n\<close> chunks are gone the gap is not reported.
\<close>

theorem attach_replay_interval:
  assumes "NewManager parent factory c = Inr m" and "trace manager_step (new_msys m) ls y" and "small y"
    and "sess (y_m y) i = Some s" and "ao_Replay opts = ReplayHistory" and "ao_ResumeAfter opts \<le> se_lastSequence s"
    and "n = length (y_published y i)" and "r = unat (ao_ResumeAfter opts)" and "h = n - length (se_history s)"
    and "n + 1 < 2 ^ 64" and "attach_replay s opts = (result, evs)"
  shows "map Sequence evs = map of_nat [max r h + 1..<n + 1]
    \<and> unat (ar_ReplayFirst result) = (if max r h < n then max r h + 1 else 0)
    \<and> unat (ar_ReplayLast result) = (if max r h < n then n else 0)
    \<and> ar_NextLive result = of_nat (n + 1)
    \<and> ar_Truncated result = (r < h \<and> h < n)"
proof -
  have d: "deliver_ok y" by (rule reachable_deliver_ok [OF assms(1,2)])
  have last: "se_lastSequence s = of_nat n" and dat: "hist_data (m_config (y_m y)) (y_published y i) (se_history s)" and seq: "hist_seq s"
    using d assms(3,4,7) by (auto simp: deliver_ok_def feed_ok_def hist_ok_def store_acc_def hist_acc_def)
  have "n < 2 ^ 64" using assms(10) by simp
  then have "r \<le> n" using assms(6,8) last unat_of_nat_small [of n] by (simp add: word_le_nat_alt)
  then have rc: "replay_case s opts n h r" using seq last dat assms(5,7-10) by (simp add: replay_case_def hist_data_def)
  note ev = replay_case_events [OF rc assms(11)]
  have "map Sequence evs = map of_nat [max r h + 1..<n + 1]"
  proof (rule nth_equalityI)
    fix j assume "j < length (map Sequence evs)"
    then have j: "j < length evs" by simp
    then have "[max r h + 1..<n + 1] ! j = max r h + 1 + j" using ev(3) by (simp del: upt_Suc)
    then show "map Sequence evs ! j = map of_nat [max r h + 1..<n + 1] ! j"
      using ev(4) [OF j] j ev(3) by (simp del: upt_Suc of_nat_add of_nat_Suc)
  qed (use ev(3) in \<open>simp del: upt_Suc\<close>)
  moreover have "evs = [] \<longleftrightarrow> \<not> max r h < n" using ev(3) by (cases evs) auto
  ultimately show ?thesis
    using replay_case_result [OF rc assms(11) refl] replay_case_ends [OF rc assms(11)] last by auto
qed

definition demo_replay :: AttachOptions where
  "demo_replay = \<lparr>ao_Replay = ReplayHistory, ao_ResumeAfter = 0, ao_Paused = True\<rparr>"

theorem attach_replay_interval_witness:
  "\<exists>s result evs. sess demo_m5 1 = Some s \<and> attach_replay s demo_replay = (result, evs)
     \<and> map Sequence evs = [1] \<and> unat (ar_ReplayFirst result) = 1 \<and> unat (ar_ReplayLast result) = 1
     \<and> ar_NextLive result = 2 \<and> ar_Truncated result = False"
proof -
  let ?y = "demo_y demo_m5 [[7, 8]] [AttachmentOutput \<lparr>Sequence = 1, Data = [7, 8]\<rparr>]"
  have "map_option (\<lambda>s. length (se_history s)) (sess demo_m5 1) = Some 1" by (simp add: demo_m5_val)
  then obtain s where s: "sess (y_m ?y) 1 = Some s" "length (se_history s) = 1" by (auto simp: demo_y_def)
  obtain result evs where a: "attach_replay s demo_replay = (result, evs)" by fastforce
  have o: "ao_Replay demo_replay = ReplayHistory" "ao_ResumeAfter demo_replay \<le> se_lastSequence s"
    by (simp_all add: demo_replay_def)
  have n: "length (y_published ?y 1) + 1 < 2 ^ 64" by (simp add: demo_y_def)
  from attach_replay_interval [OF demo_new demo_trace demo_small s(1) o refl refl refl n a] s a show ?thesis
    by (simp add: demo_y_def demo_replay_def)
qed

section \<open>When Done closes\<close>

text \<open>
  \<open>Attachment.Done\<close> can close before the close is recorded, contrary to its comment: when
  another goroutine finishes an attachment, the sink worker may see \<open>closed\<close> and close \<open>done\<close>
  before that goroutine reaches \<open>recordAttachmentClose\<close>. In this reachable state the attachment
  is done, yet it is still registered with its session and no closure is counted.
\<close>

theorem done_before_recorded:
  "\<exists>ls y s. trace manager_step (new_msys demo_m0) ls y \<and> at_done (m_atts (y_m y) ! 0)
     \<and> at_registered (m_atts (y_m y) ! 0) \<and> m_attachmentClosures (y_m y) = []
     \<and> sess (y_m y) 1 = Some s \<and> se_attachments s = [(1, 0)]"
proof -
  let ?sent = "[AttachmentOutput \<lparr>Sequence = 1, Data = [7, 8]\<rparr>]"
  let ?m6 = "upd_att 0 (finish_locked None AttachmentClosedExplicitly) demo_m5"
  let ?m7 = "upd_att 0 closeDone ?m6"
  have "manager_step (demo_y demo_m5 [[7, 8]] ?sent) (LFinish 0 AttachmentClosedExplicitly) (demo_y ?m6 [[7, 8]] ?sent)"
    using manager_step.finish [of "demo_y demo_m5 [[7, 8]] ?sent" 0 AttachmentClosedExplicitly None] by (simp add: demo_y_def)
  note t6 = manager_snoc [OF demo_trace this]
  have "at_closed (m_atts ?m6 ! 0)" "0 < length (m_atts ?m6)"
    using demo_att(2) by (auto simp: upd_att_def finish_locked_def)
  then have "manager_step (demo_y ?m6 [[7, 8]] ?sent) (LWorkerDone 0) (demo_y ?m7 [[7, 8]] ?sent)"
    using manager_step.worker_done [of 0 "demo_y ?m6 [[7, 8]] ?sent"] by (simp add: demo_y_def)
  note t7 = manager_snoc [OF t6 this]
  have "map_option se_attachments (sess demo_m5 1) = Some [(1, 0)]" "m_attachmentClosures demo_m5 = []"
    "at_registered (m_atts demo_m5 ! 0)" by (simp_all add: demo_m5_val)
  then have "at_done (m_atts ?m7 ! 0)" "at_registered (m_atts ?m7 ! 0)" "m_attachmentClosures ?m7 = []"
    "\<exists>s. sess ?m7 1 = Some s \<and> se_attachments s = [(1, 0)]"
    using demo_att(2) by (auto simp: upd_att_def finish_locked_def closeDone_def)
  with t7 show ?thesis by (metis demo_y_def msys.select_convs(1))
qed

end
