(* ===== verification/Pty_Cursor.thy ===== *)
theory Pty_Cursor
  imports Pty_Base
begin

text \<open>
  The list cursor of \<open>pty/protocol.go\<close> (\<open>encodeCursor\<close>, \<open>decodeCursor\<close>) with the parts of the
  standard library it uses: \<open>strconv\<close> for decimal numbers, \<open>strings.Split\<close> and
  \<open>base64.RawURLEncoding\<close>. A cursor that comes from the code decodes to what went into it.
\<close>

section \<open>Decimal numbers (strconv)\<close>

definition digit_char :: "nat \<Rightarrow> char" where
  "digit_char d = char_of (48 + d)"

fun FormatUint :: "nat \<Rightarrow> string" where
  "FormatUint n = (if n < 10 then [digit_char n] else FormatUint (n div 10) @ [digit_char (n mod 10)])"

declare FormatUint.simps [simp del]

definition digit_value :: "char \<Rightarrow> nat option" where
  "digit_value c = (let k = of_char c in if 48 \<le> k \<and> k \<le> 57 then Some (k - 48) else None)"

fun digits_value :: "nat \<Rightarrow> string \<Rightarrow> nat option" where
  "digits_value acc [] = Some acc"
| "digits_value acc (c # s) =
     (case digit_value c of None \<Rightarrow> None | Some d \<Rightarrow> digits_value (10 * acc + d) s)"

definition ErrSyntax :: gerror where "ErrSyntax = ErrNew ''invalid syntax''"
definition ErrRange :: gerror where "ErrRange = ErrNew ''value out of range''"

definition ParseUint :: "string \<Rightarrow> 64 word result" where
  "ParseUint s =
     (if s = [] then Inl ErrSyntax
      else case digits_value 0 s of
        None \<Rightarrow> Inl ErrSyntax
      | Some n \<Rightarrow> if n < 2 ^ 64 then Inr (of_nat n) else Inl ErrRange)"

definition Itoa :: "int \<Rightarrow> string" where
  "Itoa i = (if i < 0 then CHR ''-'' # FormatUint (nat (- i)) else FormatUint (nat i))"

definition Atoi :: "string \<Rightarrow> int result" where
  "Atoi s =
     (let neg = (s \<noteq> [] \<and> hd s = CHR ''-'');
          ds = (if s \<noteq> [] \<and> (hd s = CHR ''-'' \<or> hd s = CHR ''+'') then tl s else s)
      in if ds = [] then Inl ErrSyntax
         else case digits_value 0 ds of
           None \<Rightarrow> Inl ErrSyntax
         | Some n \<Rightarrow>
             if neg then (if n \<le> 2 ^ 63 then Inr (- int n) else Inl ErrRange)
             else (if n < 2 ^ 63 then Inr (int n) else Inl ErrRange))"

lemma digit_value_char [simp]: "d < 10 \<Longrightarrow> digit_value (digit_char d) = Some d"
  by (simp add: digit_value_def digit_char_def Let_def)

lemma digits_value_append:
  "digits_value acc (s @ t) = (case digits_value acc s of None \<Rightarrow> None | Some n \<Rightarrow> digits_value n t)"
  by (induction s arbitrary: acc) (auto split: option.splits)

lemma digits_value_Format: "digits_value 0 (FormatUint n) = Some n"
proof (induction n rule: FormatUint.induct)
  case (1 n)
  show ?case
  proof (cases "n < 10")
    case True
    then show ?thesis by (subst FormatUint.simps) simp
  next
    case False
    then show ?thesis using 1 by (subst FormatUint.simps) (simp add: digits_value_append)
  qed
qed

lemma FormatUint_digits: "c \<in> set (FormatUint n) \<Longrightarrow> \<exists>d < 10. c = digit_char d"
proof (induction n rule: FormatUint.induct)
  case (1 n)
  show ?case
  proof (cases "n < 10")
    case True
    with 1 show ?thesis by (subst (asm) FormatUint.simps) auto
  next
    case False
    then have "c \<in> set (FormatUint (n div 10)) \<or> c = digit_char (n mod 10)"
      using "1.prems" by (subst (asm) FormatUint.simps) auto
    moreover have "n mod 10 < 10" by simp
    ultimately show ?thesis using 1(1) [OF False] by blast
  qed
qed

lemma FormatUint_nonempty [simp]: "FormatUint n \<noteq> []"
  by (subst FormatUint.simps) simp

lemma digit_not:
  assumes "d < 10"
  shows "digit_char d \<noteq> CHR '':''" "digit_char d \<noteq> CHR ''-''" "digit_char d \<noteq> CHR ''+''"
proof -
  have "of_char (digit_char d) = 48 + d" using assms by (simp add: digit_char_def)
  then show "digit_char d \<noteq> CHR '':''" "digit_char d \<noteq> CHR ''-''" "digit_char d \<noteq> CHR ''+''"
    using assms by (auto dest: arg_cong [of _ _ "of_char :: char \<Rightarrow> nat"])
qed

lemma FormatUint_not: "CHR '':'' \<notin> set (FormatUint n)" "hd (FormatUint n) \<noteq> CHR ''-''" "hd (FormatUint n) \<noteq> CHR ''+''"
  using FormatUint_digits digit_not by (metis FormatUint_nonempty list.set_sel(1))+

lemma ParseUint_Format: "ParseUint (FormatUint (unat g)) = Inr g"
proof -
  have "unat g < 2 ^ LENGTH(64)" by (rule unsigned_less)
  then show ?thesis by (simp add: ParseUint_def digits_value_Format)
qed

lemma Atoi_Itoa: "0 \<le> i \<Longrightarrow> i < 2 ^ 63 \<Longrightarrow> Atoi (Itoa i) = Inr i"
  using FormatUint_not(2,3) [of "nat i"]
  by (simp add: Atoi_def Itoa_def digits_value_Format nat_less_iff)

section \<open>strings.Split on one byte\<close>

fun split_on :: "char \<Rightarrow> string \<Rightarrow> string list" where
  "split_on sep [] = [[]]"
| "split_on sep (c # s) =
     (if c = sep then [] # split_on sep s
      else case split_on sep s of [] \<Rightarrow> [[c]] | part # parts \<Rightarrow> (c # part) # parts)"

lemma split_on_none: "sep \<notin> set s \<Longrightarrow> split_on sep s = [s]"
  by (induction s) auto

lemma split_on_two: "sep \<notin> set s \<Longrightarrow> split_on sep (s @ sep # t) = s # split_on sep t"
  by (induction s) auto

section \<open>base64.RawURLEncoding\<close>

definition b64_char :: "nat \<Rightarrow> char" where
  "b64_char n =
     (if n < 26 then char_of (65 + n) else if n < 52 then char_of (97 + (n - 26))
      else if n < 62 then char_of (48 + (n - 52)) else if n = 62 then CHR ''-'' else CHR ''_'')"

definition b64_value :: "char \<Rightarrow> nat option" where
  "b64_value c =
     (let k = of_char c in
      if 65 \<le> k \<and> k \<le> 90 then Some (k - 65) else if 97 \<le> k \<and> k \<le> 122 then Some (k - 97 + 26)
      else if 48 \<le> k \<and> k \<le> 57 then Some (k - 48 + 52)
      else if c = CHR ''-'' then Some 62 else if c = CHR ''_'' then Some 63 else None)"

fun b64_sextets :: "nat list \<Rightarrow> nat list" where
  "b64_sextets [] = []"
| "b64_sextets [a] = [a div 4, (a mod 4) * 16]"
| "b64_sextets [a, b] = [a div 4, (a mod 4) * 16 + b div 16, (b mod 16) * 4]"
| "b64_sextets (a # b # c # r) =
     [a div 4, (a mod 4) * 16 + b div 16, (b mod 16) * 4 + c div 64, c mod 64] @ b64_sextets r"

definition EncodeToString :: "string \<Rightarrow> string" where
  "EncodeToString s = map b64_char (b64_sextets (map of_char s))"

text \<open>
  Decoding skips line ends, has no padding, and does not look at the unused low bits of the
  last character; a single left-over character is an error.
\<close>

fun b64_bytes :: "nat list \<Rightarrow> nat list option" where
  "b64_bytes [] = Some []"
| "b64_bytes [a] = None"
| "b64_bytes [a, b] = Some [a * 4 + b div 16]"
| "b64_bytes [a, b, c] = Some [a * 4 + b div 16, (b mod 16) * 16 + c div 4]"
| "b64_bytes (a # b # c # d # r) =
     map_option (\<lambda>bs. [a * 4 + b div 16, (b mod 16) * 16 + c div 4, (c mod 4) * 64 + d] @ bs) (b64_bytes r)"

definition DecodeString :: "string \<Rightarrow> string result" where
  "DecodeString s =
     (case those (map b64_value (filter (\<lambda>c. c \<noteq> CHR 0x0A \<and> c \<noteq> CHR 0x0D) s)) of
        None \<Rightarrow> Inl (ErrNew ''illegal base64 data'')
      | Some vs \<Rightarrow>
          (case b64_bytes vs of
             None \<Rightarrow> Inl (ErrNew ''illegal base64 data'')
           | Some bs \<Rightarrow> Inr (map char_of bs)))"

lemma b64_value_char: "n < 64 \<Longrightarrow> b64_value (b64_char n) = Some n"
  by (auto simp: b64_value_def b64_char_def Let_def)

lemma b64_char_line: "n < 64 \<Longrightarrow> b64_char n \<noteq> CHR 0x0A \<and> b64_char n \<noteq> CHR 0x0D"
  by (auto simp: b64_char_def dest: arg_cong [of _ _ "of_char :: char \<Rightarrow> nat"])

lemma b64_sextets_bound: "\<forall>x \<in> set bs. x < 256 \<Longrightarrow> \<forall>x \<in> set (b64_sextets bs). x < 64"
  by (induction bs rule: b64_sextets.induct) auto

lemma b64_bytes_sextets: "\<forall>x \<in> set bs. x < 256 \<Longrightarrow> b64_bytes (b64_sextets bs) = Some bs"
proof (induction bs rule: b64_sextets.induct)
  case (4 a b c r)
  then have "b64_bytes (b64_sextets r) = Some r" by simp
  moreover have "a div 4 * 4 + (a mod 4 * 16 + b div 16) div 16 = a" "(a mod 4 * 16 + b div 16) mod 16 * 16 + (b mod 16 * 4 + c div 64) div 4 = b"
    "(b mod 16 * 4 + c div 64) mod 4 * 64 + c mod 64 = c" using "4.prems" by auto
  ultimately show ?case by simp
qed auto

lemma those_map_Some: "(\<And>x. x \<in> set xs \<Longrightarrow> f x = Some (g x)) \<Longrightarrow> those (map f xs) = Some (map g xs)"
  by (induction xs) auto

lemma b64_roundtrip: "DecodeString (EncodeToString s) = Inr s"
proof -
  let ?v = "b64_sextets (map of_char s)"
  have b: "\<forall>x \<in> set (map of_char s :: nat list). x < 256" by (auto intro: nat_of_char_less_256)
  have v: "\<forall>x \<in> set ?v. x < 64" by (rule b64_sextets_bound [OF b])
  have f: "filter (\<lambda>c. c \<noteq> CHR 0x0A \<and> c \<noteq> CHR 0x0D) (map b64_char ?v) = map b64_char ?v"
    using v b64_char_line by (auto simp: filter_id_conv)
  have "those (map (b64_value \<circ> b64_char) ?v) = Some (map (\<lambda>x. x) ?v)"
    by (rule those_map_Some) (use v b64_value_char in auto)
  then show ?thesis
    using b64_bytes_sextets [OF b] by (simp add: DecodeString_def EncodeToString_def f o_def)
qed

section \<open>The cursor\<close>

record listCursor =
  lc_generation :: "64 word"
  lc_position :: int

definition encodeCursor :: "64 word \<Rightarrow> int \<Rightarrow> string" where
  "encodeCursor generation position = EncodeToString (FormatUint (unat generation) @ '':'' @ Itoa position)"

definition decodeCursor :: "string \<Rightarrow> listCursor result" where
  "decodeCursor v =
     (case DecodeString v of
        Inl e \<Rightarrow> Inl e
      | Inr raw \<Rightarrow>
          let parts = split_on (CHR '':'') raw in
          if length parts \<noteq> 2 then Inl (ErrNew ''invalid cursor'')
          else case ParseUint (parts ! 0) of
            Inl e \<Rightarrow> Inl e
          | Inr generation \<Rightarrow>
              (case Atoi (parts ! 1) of
                 Inl e \<Rightarrow> Inl e
               | Inr position \<Rightarrow> Inr \<lparr>lc_generation = generation, lc_position = position\<rparr>))"

lemma cursor_decode:
  assumes "0 \<le> position" and "position < 2 ^ 63"
  shows "decodeCursor (encodeCursor generation position) = Inr \<lparr>lc_generation = generation, lc_position = position\<rparr>"
proof -
  have "CHR '':'' \<notin> set (Itoa position)" using FormatUint_not(1) assms(1) by (simp add: Itoa_def)
  then have "split_on (CHR '':'') (FormatUint (unat generation) @ '':'' @ Itoa position)
      = [FormatUint (unat generation), Itoa position]"
    using FormatUint_not(1) by (simp add: split_on_two split_on_none)
  then show ?thesis
    using assms by (simp add: decodeCursor_def encodeCursor_def b64_roundtrip ParseUint_Format Atoi_Itoa)
qed

lemma b64_sextets_nonempty: "xs \<noteq> [] \<Longrightarrow> b64_sextets xs \<noteq> []"
  by (induction xs rule: b64_sextets.induct) auto

lemma encodeCursor_nonempty: "encodeCursor generation position \<noteq> ''''"
  by (simp add: encodeCursor_def EncodeToString_def b64_sextets_nonempty)

text \<open>
  (C28) A cursor the server hands out decodes to the generation and position it was made of,
  for every generation and every position a list can have.
\<close>

theorem cursor_roundtrip:
  assumes "0 \<le> position" and "position < 2 ^ 63"
  shows "decodeCursor (encodeCursor generation position) = Inr \<lparr>lc_generation = generation, lc_position = position\<rparr>"
  by (rule cursor_decode [OF assms])

theorem cursor_roundtrip_witness:
  "decodeCursor (encodeCursor 7 128) = Inr \<lparr>lc_generation = 7, lc_position = 128\<rparr> \<and> encodeCursor 7 128 = ''NzoxMjg''"
proof
  show "decodeCursor (encodeCursor 7 128) = Inr \<lparr>lc_generation = 7, lc_position = 128\<rparr>"
    by (rule cursor_roundtrip) simp_all
  show "encodeCursor 7 128 = ''NzoxMjg''" by code_simp
qed

end
