(* ===== verification/Pty_Protocol.thy ===== *)
theory Pty_Protocol
  imports Pty_Life Pty_Cursor Mux_Peer
begin

text \<open>
  \<open>pty/protocol.go\<close>: the adapter that offers one session manager to one peer. A handler is a
  function on a world: the manager with its running goroutines, the adapter's own state, and
  logs of what this call did (backend calls, frames handed to the peer). Between any two
  critical sections of a handler the rest of the program runs; that interference is the
  argument \<open>e_rely\<close> of the environment. The environment also says what the code outside the
  repository answers: \<open>encoding/json\<close>, the backend, contexts, clocks and the peer's sends.
\<close>

section \<open>Configuration and messages\<close>

record MessageTypes =
  mt_Open :: MessageType
  mt_List :: MessageType
  mt_Inspect :: MessageType
  mt_Attach :: MessageType
  mt_Detach :: MessageType
  mt_Input :: MessageType
  mt_Output :: MessageType
  mt_Resize :: MessageType
  mt_Kill :: MessageType
  mt_Exit :: MessageType
  mt_ReplayBegin :: MessageType
  mt_ReplayEnd :: MessageType
  mt_Error :: MessageType

definition mt_values :: "MessageTypes \<Rightarrow> MessageType list" where
  "mt_values t = [mt_Open t, mt_List t, mt_Inspect t, mt_Attach t, mt_Detach t, mt_Input t, mt_Output t,
     mt_Resize t, mt_Kill t, mt_Exit t, mt_ReplayBegin t, mt_ReplayEnd t, mt_Error t]"

fun mt_scan :: "MessageType list \<Rightarrow> MessageType set \<Rightarrow> gerror option" where
  "mt_scan [] seen = None"
| "mt_scan (v # vs) seen =
     (if v = 0 then Some (Pty ErrInvalidMessageTypes)
      else if v \<in> seen then Some (Pty ErrInvalidMessageTypes)
      else mt_scan vs (insert v seen))"

definition MessageTypes_validate :: "MessageTypes \<Rightarrow> gerror option" where
  "MessageTypes_validate t = mt_scan (mt_values t) {}"

text \<open>\<open>Operation\<close> and \<open>ErrorCode\<close> are Go string types with these constants.\<close>

type_synonym Operation = string

definition OperationOpen :: Operation where "OperationOpen = ''open''"
definition OperationList :: Operation where "OperationList = ''list''"
definition OperationInspect :: Operation where "OperationInspect = ''inspect''"
definition OperationAttach :: Operation where "OperationAttach = ''attach''"
definition OperationDetach :: Operation where "OperationDetach = ''detach''"
definition OperationInput :: Operation where "OperationInput = ''input''"
definition OperationResize :: Operation where "OperationResize = ''resize''"
definition OperationKill :: Operation where "OperationKill = ''kill''"

type_synonym ErrorCode = string

definition CodeInvalidRequest :: ErrorCode where "CodeInvalidRequest = ''invalid_request''"
definition CodeSessionNotFound :: ErrorCode where "CodeSessionNotFound = ''session_not_found''"
definition CodeSessionExists :: ErrorCode where "CodeSessionExists = ''session_exists''"
definition CodeAlreadyAttached :: ErrorCode where "CodeAlreadyAttached = ''already_attached''"
definition CodeAttachmentLimit :: ErrorCode where "CodeAttachmentLimit = ''attachment_limit''"
definition CodeSessionExited :: ErrorCode where "CodeSessionExited = ''session_exited''"
definition CodeManagerClosed :: ErrorCode where "CodeManagerClosed = ''manager_closed''"
definition CodeUnsupportedVersion :: ErrorCode where "CodeUnsupportedVersion = ''unsupported_version''"
definition CodeQueueOverflow :: ErrorCode where "CodeQueueOverflow = ''queue_overflow''"
definition CodeBackendFailure :: ErrorCode where "CodeBackendFailure = ''backend_failure''"
definition CodePermissionDenied :: ErrorCode where "CodePermissionDenied = ''permission_denied''"

record AuthorizationRequest =
  au_Operation :: Operation
  au_SessionID :: StreamID
  au_ProcessSpec :: "ProcessSpec option"

text \<open>The callbacks are the application's; \<open>None\<close> is a nil function.\<close>

record ProtocolConfig =
  pc_Version :: "16 word"
  pc_Types :: MessageTypes
  pc_MaxListItems :: int
  pc_MaxCommandBytes :: int
  pc_MaxDirectoryBytes :: int
  pc_MaxArgumentBytes :: int
  pc_MaxArguments :: int
  pc_MaxEnvironment :: int
  pc_Authorize :: "(AuthorizationRequest \<Rightarrow> gerror option) option"
  pc_FilterSessions :: "(SessionInfo list \<Rightarrow> SessionInfo list result) option"

definition no_types :: MessageTypes where
  "no_types = \<lparr>mt_Open = 0, mt_List = 0, mt_Inspect = 0, mt_Attach = 0, mt_Detach = 0, mt_Input = 0,
     mt_Output = 0, mt_Resize = 0, mt_Kill = 0, mt_Exit = 0, mt_ReplayBegin = 0, mt_ReplayEnd = 0, mt_Error = 0\<rparr>"

definition DefaultProtocolConfig :: ProtocolConfig where
  "DefaultProtocolConfig =
     \<lparr>pc_Version = 1, pc_Types = no_types, pc_MaxListItems = 128, pc_MaxCommandBytes = 4096,
      pc_MaxDirectoryBytes = 16 * 2 ^ 10, pc_MaxArgumentBytes = 64 * 2 ^ 10, pc_MaxArguments = 256,
      pc_MaxEnvironment = 256, pc_Authorize = None, pc_FilterSessions = None\<rparr>"

record RemoteError =
  re_Code :: ErrorCode
  re_Message :: string
  re_Details :: "(string, string) gomap"

text \<open>A \<open>*RemoteError\<close> may be nil, and may be an error value beside all others.\<close>

definition RemoteError_Error :: "RemoteError option \<Rightarrow> string" where
  "RemoteError_Error e =
     (case e of None \<Rightarrow> '''' | Some r \<Rightarrow> ''pty remote '' @ re_Code r @ '': '' @ re_Message r)"

datatype protocol_error = Remote "RemoteError option" | Local gerror

definition RemoteError_Is :: "RemoteError option \<Rightarrow> protocol_error \<Rightarrow> bool outcome" where
  "RemoteError_Is e target =
     (case target of
        Local _ \<Rightarrow> Ret False
      | Remote other \<Rightarrow>
          (case (other, e) of
             (Some o', Some r) \<Rightarrow> Ret (re_Code o' = re_Code r)
           | _ \<Rightarrow> Panic))"

record ProtocolResponse =
  rs_Version :: "16 word"
  rs_Error :: "RemoteError option"
  rs_Session :: "SessionInfo option"
  rs_Sessions :: "SessionInfo list"
  rs_NextCursor :: string
  rs_Attach :: "AttachResult option"

definition response :: "16 word \<Rightarrow> ProtocolResponse" where
  "response v = \<lparr>rs_Version = v, rs_Error = None, rs_Session = None, rs_Sessions = [], rs_NextCursor = '''',
     rs_Attach = None\<rparr>"

record OpenRequest =
  oq_Version :: "16 word"
  oq_Command :: string
  oq_Args :: "string list"
  oq_Env :: "string list option"
  oq_Dir :: string
  oq_InitialSize :: Size

record AttachRequest =
  aq_Version :: "16 word"
  aq_Replay :: ReplayMode
  aq_ResumeAfter :: "64 word"

record ListRequest =
  lq_Version :: "16 word"
  lq_Cursor :: string
  lq_Limit :: int

record ReplayMetadata =
  rm_Version :: "16 word"
  rm_First :: "64 word"
  rm_Last :: "64 word"
  rm_NextLive :: "64 word"
  rm_Truncated :: bool

record ProtocolErrorEvent =
  pe_Version :: "16 word"
  pe_Code :: ErrorCode
  pe_Message :: string

text \<open>
  The values the code marshals, and the four types it unmarshals into; the version alone is
  the anonymous struct of \<open>decode\<close>.
\<close>

datatype control_value =
    JResponse ProtocolResponse | JReplay ReplayMetadata | JExit "16 word" ExitStatus | JError ProtocolErrorEvent

record json =
  Marshal :: "control_value \<Rightarrow> bytes result"
  UnmarshalOpen :: "bytes \<Rightarrow> OpenRequest result"
  UnmarshalAttach :: "bytes \<Rightarrow> AttachRequest result"
  UnmarshalList :: "bytes \<Rightarrow> ListRequest result"
  UnmarshalVersion :: "bytes \<Rightarrow> 16 word result"
  UnmarshalResponse :: "bytes \<Rightarrow> ProtocolResponse result"

definition EncodeControl :: "json \<Rightarrow> control_value \<Rightarrow> bytes result" where
  "EncodeControl j v = Marshal j v"

definition DecodeProtocolResponse :: "json \<Rightarrow> bytes \<Rightarrow> (protocol_error, ProtocolResponse) sum" where
  "DecodeProtocolResponse j payload =
     (if length payload = 0 then Inl (Local (Pty ErrInvalidPayload))
      else case UnmarshalResponse j payload of
        Inl _ \<Rightarrow> Inl (Local (Errorf (Pty ErrInvalidPayload) []))
      | Inr r \<Rightarrow> if rs_Error r \<noteq> None then Inl (Remote (rs_Error r)) else Inr r)"

section \<open>The adapter and its environment\<close>

text \<open>
  An attachment is its index in the manager. The sink of an attachment is found by that index:
  the attachment is created paused, so its sink is not called before its fields are set.
\<close>

record protocolOutputSink =
  sk_streamID :: StreamID
  sk_replayLast :: "64 word"
  sk_replayEnded :: bool

record Protocol =
  pr_config :: ProtocolConfig
  pr_ctx :: gctx
  pr_attachments :: "(StreamID, nat) gomap"
  pr_sinks :: "(nat, protocolOutputSink) gomap"
  pr_closed :: bool

datatype backend_call =
  CallStart ProcessSpec | CallAbandon StreamID | CallInput StreamID bytes | CallResize StreamID Size | CallKill StreamID

text \<open>
  \<open>w_own\<close> is the reservation of an \<open>Open\<close> in progress, which no other goroutine touches.
  \<open>w_clock\<close> counts the critical sections; the environment's answers may depend on it.
\<close>

record world =
  w_clock :: nat
  w_own :: "(StreamID \<times> ProcessSpec) option"
  w_sys :: msys
  w_proto :: Protocol
  w_calls :: "backend_call list"
  w_tty :: "StreamID \<Rightarrow> bytes list"
  w_sent :: "(frame \<times> TrafficClass) list"
  w_peerClosed :: bool

record env =
  e_json :: json
  e_errText :: "gerror \<Rightarrow> string"
  e_maxFrame :: int
  e_rely :: "nat \<Rightarrow> (StreamID \<times> ProcessSpec) option \<Rightarrow> msys \<times> Protocol \<Rightarrow> msys \<times> Protocol"
  e_ctx :: "nat \<Rightarrow> gctx"
  e_send :: "nat \<Rightarrow> frame \<times> TrafficClass \<Rightarrow> gerror option"
  e_start :: "nat \<Rightarrow> ProcessSpec \<Rightarrow> gerror option"
  e_now :: "nat \<Rightarrow> int"
  e_resize :: "nat \<Rightarrow> gerror option"
  e_kill :: "nat \<Rightarrow> gerror option"
  e_writer :: "StreamID \<Rightarrow> bytes list writer"
  e_raced :: "nat \<Rightarrow> bool"

text \<open>Other goroutines run up to the next critical section of the handler.\<close>

definition tick :: "env \<Rightarrow> world \<Rightarrow> world" where
  "tick e w =
     (case e_rely e (w_clock w) (w_own w) (w_sys w, w_proto w) of
        (y, p) \<Rightarrow> w\<lparr>w_clock := Suc (w_clock w), w_sys := y, w_proto := p\<rparr>)"

abbreviation mgr :: "world \<Rightarrow> Manager" where
  "mgr w \<equiv> y_m (w_sys w)"

definition set_mgr :: "Manager \<Rightarrow> world \<Rightarrow> world" where
  "set_mgr m w = w\<lparr>w_sys := (w_sys w)\<lparr>y_m := m\<rparr>\<rparr>"

abbreviation cfg :: "world \<Rightarrow> ProtocolConfig" where
  "cfg w \<equiv> pr_config (w_proto w)"

definition log_call :: "backend_call \<Rightarrow> world \<Rightarrow> world" where
  "log_call c w = w\<lparr>w_calls := w_calls w @ [c]\<rparr>"

definition set_attachments :: "(StreamID, nat) gomap \<Rightarrow> world \<Rightarrow> world" where
  "set_attachments as w = w\<lparr>w_proto := (w_proto w)\<lparr>pr_attachments := as\<rparr>\<rparr>"

definition set_sink :: "nat \<Rightarrow> protocolOutputSink \<Rightarrow> world \<Rightarrow> world" where
  "set_sink k s w = w\<lparr>w_proto := (w_proto w)\<lparr>pr_sinks := mput k s (pr_sinks (w_proto w))\<rparr>\<rparr>"

section \<open>Sending\<close>

text \<open>\<open>Peer.SendOwned\<close>: the frame goes to the peer, which answers in the end.\<close>

definition peer_SendOwned :: "env \<Rightarrow> frame \<Rightarrow> TrafficClass \<Rightarrow> world \<Rightarrow> gerror option \<times> world" where
  "peer_SendOwned e f class w =
     (let w1 = tick e w in (e_send e (w_clock w1) (f, class), w1\<lparr>w_sent := w_sent w1 @ [(f, class)]\<rparr>))"

definition peer_Respond :: "env \<Rightarrow> frame \<Rightarrow> frame \<Rightarrow> world \<Rightarrow> gerror option \<times> world" where
  "peer_Respond e request resp w =
     (case Respond_frame request resp of
        Inl err \<Rightarrow> (Some err, w)
      | Inr (f, class) \<Rightarrow> peer_SendOwned e f class w)"

definition respond :: "env \<Rightarrow> frame \<Rightarrow> ProtocolResponse \<Rightarrow> world \<Rightarrow> gerror option \<times> world" where
  "respond e request v w =
     (case Marshal (e_json e) (JResponse v) of
        Inl err \<Rightarrow> (Some err, w)
      | Inr payload \<Rightarrow>
          (case NewOwnedFrame \<lparr>PayloadLength = 0, Version = pc_Version (cfg w),
                  MessageType = MessageType (Header request), Flags = FlagResponse,
                  CorrelationID = CorrelationID (Header request), StreamID = StreamID (Header request)\<rparr> payload of
             Inl err \<Rightarrow> (Some err, w)
           | Inr f \<Rightarrow> peer_Respond e request f w))"

definition respondError :: "env \<Rightarrow> frame \<Rightarrow> ErrorCode \<Rightarrow> gerror \<Rightarrow> world \<Rightarrow> gerror option \<times> world" where
  "respondError e request code cause w =
     respond e request ((response (pc_Version (cfg w)))
       \<lparr>rs_Error := Some \<lparr>re_Code = code, re_Message = e_errText e cause, re_Details = []\<rparr>\<rparr>) w"

definition operationCode :: "gerror \<Rightarrow> ErrorCode" where
  "operationCode cause =
     (if errorsIs cause (Pty ErrSessionNotFound) then CodeSessionNotFound
      else if errorsIs cause (Pty ErrAttachmentLimit) then CodeAttachmentLimit
      else if errorsIs cause (Pty ErrSessionExited) \<or> errorsIs cause (Pty ErrSessionRunning) then CodeSessionExited
      else if errorsIs cause (Pty ErrManagerClosed) then CodeManagerClosed
      else if errorsIs cause (Pty ErrQueueOverflow) then CodeQueueOverflow
      else CodeBackendFailure)"

definition respondOperationError :: "env \<Rightarrow> frame \<Rightarrow> gerror \<Rightarrow> world \<Rightarrow> gerror option \<times> world" where
  "respondOperationError e request cause w = respondError e request (operationCode cause) cause w"

definition emitJSON ::
    "env \<Rightarrow> MessageType \<Rightarrow> StreamID \<Rightarrow> control_value \<Rightarrow> TrafficClass \<Rightarrow> world \<Rightarrow> gerror option \<times> world" where
  "emitJSON e messageType sid v class w =
     (case Marshal (e_json e) v of
        Inl err \<Rightarrow> (Some err, w)
      | Inr payload \<Rightarrow>
          (case NewOwnedFrame \<lparr>PayloadLength = 0, Version = pc_Version (cfg w), MessageType = messageType,
                  Flags = FlagEvent, CorrelationID = 0, StreamID = sid\<rparr> payload of
             Inl err \<Rightarrow> (Some err, w)
           | Inr f \<Rightarrow> peer_SendOwned e f class w))"

definition emitEmpty ::
    "env \<Rightarrow> MessageType \<Rightarrow> StreamID \<Rightarrow> TrafficClass \<Rightarrow> world \<Rightarrow> gerror option \<times> world" where
  "emitEmpty e messageType sid class w =
     (case NewFrame \<lparr>PayloadLength = 0, Version = pc_Version (cfg w), MessageType = messageType,
             Flags = FlagEvent, CorrelationID = 0, StreamID = sid\<rparr> [] of
        Inl err \<Rightarrow> (Some err, w)
      | Inr f \<Rightarrow> peer_SendOwned e f class w)"

section \<open>Decoding and authorization\<close>

definition decode :: "env \<Rightarrow> (bytes \<Rightarrow> 'a result) \<Rightarrow> frame \<Rightarrow> world \<Rightarrow> 'a result" where
  "decode e unmarshal f w =
     (if Flags (Header f) \<noteq> FlagRequest then Inl (Pty ErrUnexpectedFrame)
      else if length (Payload f) = 0 then Inl (Pty ErrInvalidPayload)
      else case unmarshal (Payload f) of
        Inl _ \<Rightarrow> Inl (Errorf (Pty ErrInvalidPayload) [])
      | Inr v \<Rightarrow>
          (case UnmarshalVersion (e_json e) (Payload f) of
             Inl _ \<Rightarrow> Inl (Pty ErrUnsupportedProtocolVersion)
           | Inr version \<Rightarrow>
               if version \<noteq> pc_Version (cfg w) then Inl (Pty ErrUnsupportedProtocolVersion) else Inr v))"

definition decodeErrorCode :: "gerror \<Rightarrow> ErrorCode" where
  "decodeErrorCode err =
     (if errorsIs err (Pty ErrUnsupportedProtocolVersion) then CodeUnsupportedVersion else CodeInvalidRequest)"

definition authorize :: "AuthorizationRequest \<Rightarrow> world \<Rightarrow> gerror option" where
  "authorize req w = (case pc_Authorize (cfg w) of None \<Rightarrow> None | Some f \<Rightarrow> f req)"

definition validateOpenRequest :: "ProtocolConfig \<Rightarrow> OpenRequest \<Rightarrow> gerror option" where
  "validateOpenRequest c r =
     (if int (length (oq_Command r)) > pc_MaxCommandBytes c \<or> int (length (oq_Dir r)) > pc_MaxDirectoryBytes c
      then Some (ErrNew ''process specification string limit exceeded'')
      else
        let env = (case oq_Env r of None \<Rightarrow> [] | Some xs \<Rightarrow> xs) in
        if int (length (oq_Args r)) > pc_MaxArguments c \<or> int (length env) > pc_MaxEnvironment c
        then Some (ErrNew ''process specification item limit exceeded'')
        else if \<exists>v \<in> set ([oq_Command r, oq_Dir r] @ oq_Args r @ env).
                  int (length v) > pc_MaxArgumentBytes c \<or> CHR 0x00 \<in> set v
        then Some (ErrNew ''invalid process specification string'')
        else None)"

section \<open>Calls into the manager\<close>

text \<open>\<open>subscription.finish\<close> for every observer that could not take an event.\<close>

definition finishObservers :: "env \<Rightarrow> nat list \<Rightarrow> gerror option \<Rightarrow> ObserverCloseReason \<Rightarrow> world \<Rightarrow> world" where
  "finishObservers e ks err reason w =
     fold (\<lambda>k w. let w1 = tick e w in set_mgr (su_finish_at k err reason (mgr w1)) w1) ks w"

abbreviation overflowed :: "env \<Rightarrow> nat list \<Rightarrow> world \<Rightarrow> world" where
  "overflowed e ks w \<equiv> finishObservers e ks (Some (Pty ErrQueueOverflow)) ObserverQueueOverflow w"

text \<open>The process of a refused \<open>Open\<close> is killed, waited for and closed, then counted as exited.\<close>

definition open_discard :: "env \<Rightarrow> StreamID \<Rightarrow> world \<Rightarrow> world" where
  "open_discard e sid w =
     (let w1 = tick e (log_call (CallAbandon sid) w) in set_mgr (recordProcessExited (mgr w1)) w1)"

definition own_done :: "(StreamID \<times> ProcessSpec) \<Rightarrow> Manager \<Rightarrow> world \<Rightarrow> world" where
  "own_done x m w =
     w\<lparr>w_own := None, w_sys := (w_sys w)\<lparr>y_m := m, y_opens := remove1 x (y_opens (w_sys w))\<rparr>\<rparr>"

definition copy_spec :: "ProcessSpec \<Rightarrow> ProcessSpec" where
  "copy_spec spec = spec\<lparr>Env := copy_slice (Env spec)\<rparr>"

definition Manager_Open :: "env \<Rightarrow> ProcessSpec \<Rightarrow> world \<Rightarrow> StreamID result \<times> world" where
  "Manager_Open e spec0 w =
     (case Open_check (Some (e_ctx e (w_clock w))) spec0 of
        Some err \<Rightarrow> (Inl err, w)
      | None \<Rightarrow>
     let spec = copy_spec spec0; w1 = tick e w in
     case open_reserve (mgr w1) of
       (Inl err, m1) \<Rightarrow> (Inl err, set_mgr m1 w1)
     | (Inr sid, m1) \<Rightarrow>
     let own = (sid, spec);
         w2 = w1\<lparr>w_own := Some own, w_sys := (w_sys w1)\<lparr>y_m := m1, y_opens := y_opens (w_sys w1) @ [own]\<rparr>\<rparr>;
         w3 = tick e (log_call (CallStart spec) w2)
     in case e_start e (w_clock w3) spec of
          Some err \<Rightarrow> (Inl err, own_done own (open_abort (mgr w3)) w3)
        | None \<Rightarrow>
     let w4 = set_mgr (open_started (mgr w3)) w3; w5 = tick e w4
     in case e_ctx e (w_clock w5) of
          Some err \<Rightarrow> (Inl err, open_discard e sid (own_done own (open_abort (mgr w5)) w5))
        | None \<Rightarrow>
     case open_register sid spec (e_now e (w_clock w5)) (mgr w5) of
       (Inl err, m5) \<Rightarrow> (Inl err, open_discard e sid (own_done own m5 w5))
     | (Inr failed, m5) \<Rightarrow> (Inr sid, overflowed e failed (own_done own m5 w5)))"

definition Session_Info :: "env \<Rightarrow> StreamID \<Rightarrow> world \<Rightarrow> SessionInfo option \<times> world" where
  "Session_Info e sid w = (let w1 = tick e w in (map_option infoLocked (sess (mgr w1) sid), w1))"

definition Manager_Get :: "env \<Rightarrow> StreamID \<Rightarrow> world \<Rightarrow> bool \<times> world" where
  "Manager_Get e sid w = (let w1 = tick e w in (Get sid (mgr w1) \<noteq> None, w1))"

definition Session_Attach :: "env \<Rightarrow> StreamID \<Rightarrow> AttachOptions \<Rightarrow> world \<Rightarrow> (nat \<times> AttachResult) result \<times> world" where
  "Session_Attach e sid opts0 w =
     (let w1 = tick e w in
      case attach_check (Some (pr_ctx (w_proto w1))) opts0 True of
        Inl err \<Rightarrow> (Inl err, w1)
      | Inr opts \<Rightarrow>
      let w2 = tick e w1; y = w_sys w2;
          raced = (if e_raced e (w_clock w2) then pr_ctx (w_proto w2) else None)
      in case attach_locked sid opts raced (mgr w2) of
           (Inl err, m2) \<Rightarrow> (Inl err, set_mgr m2 w2)
         | (Inr (k, result, failed), m2) \<Rightarrow>
             let n = length (y_published y sid);
                 base = (case sess (mgr w2) sid of None \<Rightarrow> n | Some s \<Rightarrow> first_seq s opts n)
             in (Inr (k, result),
                 overflowed e failed (w2\<lparr>w_sys := y\<lparr>y_m := m2, y_base := (y_base y)(k := (base, n))\<rparr>\<rparr>)))"

text \<open>\<open>finish\<close> of a started attachment; a second caller only waits for the first.\<close>

definition attachment_finish :: "env \<Rightarrow> nat \<Rightarrow> gerror option \<Rightarrow> AttachmentCloseReason \<Rightarrow> world \<Rightarrow> world" where
  "attachment_finish e k err reason w =
     (let w1 = tick e w in
      if k < length (m_atts (mgr w1)) \<and> \<not> at_closed (m_atts (mgr w1) ! k)
      then
        let w2 = tick e (set_mgr (upd_att k (finish_locked err reason) (mgr w1)) w1)
        in case recordAttachmentClose k reason (mgr w2) of
             (failed, m2) \<Rightarrow> overflowed e failed (set_mgr m2 w2)
      else w1)"

definition Attachment_Close :: "env \<Rightarrow> nat \<Rightarrow> world \<Rightarrow> world" where
  "Attachment_Close e k w = attachment_finish e k None AttachmentClosedExplicitly w"

definition Attachment_Activate :: "env \<Rightarrow> nat \<Rightarrow> world \<Rightarrow> gerror option \<times> world" where
  "Attachment_Activate e k w =
     (let w1 = tick e w in
      (if k < length (m_atts (mgr w1)) then fst (Activate (m_atts (mgr w1) ! k)) else None,
       set_mgr (upd_att k (\<lambda>a. snd (Activate a)) (mgr w1)) w1))"

definition Session_Resize :: "env \<Rightarrow> StreamID \<Rightarrow> Size \<Rightarrow> world \<Rightarrow> gerror option \<times> world" where
  "Session_Resize e sid sz w =
     (let w1 = tick e w in
      case sess (mgr w1) sid of
        None \<Rightarrow> (Some (Pty ErrSessionNotFound), w1)
      | Some s \<Rightarrow>
      case resize_check s (Some (e_ctx e (w_clock w1))) sz of
        Some err \<Rightarrow> (Some err, w1)
      | None \<Rightarrow>
      let w2 = tick e (log_call (CallResize sid sz) w1)
      in case e_resize e (w_clock w2) of
           Some err \<Rightarrow> (Some err, w2)
         | None \<Rightarrow> (None, set_mgr (resize_apply sid sz (mgr w2)) w2))"

definition Session_InputTo :: "env \<Rightarrow> StreamID \<Rightarrow> bytes \<Rightarrow> world \<Rightarrow> gerror option \<times> world" where
  "Session_InputTo e sid data w =
     (let w1 = tick e w in
      case sess (mgr w1) sid of
        None \<Rightarrow> (Some (Pty ErrSessionNotFound), w1)
      | Some s \<Rightarrow>
      case Session_Input s (Some (\<lambda>n. e_ctx e (w_clock w1 + n))) (e_writer e sid) (w_tty w1 sid) data of
        (err, tty) \<Rightarrow>
          (err, (if se_state s = SessionRunning then log_call (CallInput sid data) w1 else w1)
                  \<lparr>w_tty := (w_tty w1)(sid := tty)\<rparr>))"

text \<open>
  What a handler call comes to: it returns, it panics, or it is still waiting when the
  environment given is used up.
\<close>

datatype reply = Returns "gerror option" | Panics | Blocks

text \<open>
  \<open>select\<close> takes either branch when both are ready: \<open>e_raced\<close> is the coin.
\<close>

definition Session_Wait :: "env \<Rightarrow> StreamID \<Rightarrow> world \<Rightarrow> ExitStatus result option" where
  "Session_Wait e sid w =
     (case sess (mgr w) sid of
        None \<Rightarrow> None
      | Some s \<Rightarrow>
          let c = e_ctx e (w_clock w) in
          if se_pc s = RunDone \<and> (c = None \<or> \<not> e_raced e (w_clock w))
          then Some (case se_exit s of None \<Rightarrow> Inl (Pty ErrSessionNotFound) | Some x \<Rightarrow> Inr x)
          else case c of Some err \<Rightarrow> Some (Inl err) | None \<Rightarrow> None)"

definition Session_Kill :: "env \<Rightarrow> StreamID \<Rightarrow> world \<Rightarrow> gerror option option \<times> world" where
  "Session_Kill e sid w =
     (let w1 = tick e w in
      case kill_begin sid (mgr w1) of (shouldKill, m1) \<Rightarrow>
      let w2 = set_mgr m1 w1;
          w3 = (if shouldKill
                then let w' = tick e (log_call (CallKill sid) w2)
                     in set_mgr (kill_result sid (e_kill e (w_clock w')) (mgr w')) w'
                else w2);
          w4 = tick e w3
      in (case Session_Wait e sid w4 of
            None \<Rightarrow> None
          | Some r \<Rightarrow>
              Some (errors_Join [case sess (mgr w4) sid of None \<Rightarrow> None | Some s \<Rightarrow> se_killErr s,
                                 case r of Inl err \<Rightarrow> Some err | Inr _ \<Rightarrow> None]), w4))"

definition Manager_KillWait :: "env \<Rightarrow> StreamID \<Rightarrow> world \<Rightarrow> gerror option option \<times> world" where
  "Manager_KillWait e sid w =
     (let w1 = tick e w in
      case Manager_Kill sid (mgr w1) of
        Inl err \<Rightarrow> (Some (Some err), w1)
      | Inr i \<Rightarrow> Session_Kill e i w1)"

end
