(* ===== verification/Pty_Handlers.thy ===== *)
theory Pty_Handlers
  imports Pty_Protocol
begin

text \<open>
  The eight handlers of \<open>pty/protocol.go\<close>, the sink and the watcher of an attachment, and
  registration and shutdown of the adapter.
\<close>

section \<open>Handlers\<close>

abbreviation sid_of :: "frame \<Rightarrow> StreamID" where
  "sid_of f \<equiv> StreamID (Header f)"

definition open_spec :: "OpenRequest \<Rightarrow> ProcessSpec" where
  "open_spec r = \<lparr>Command = oq_Command r, Args = oq_Args r, Env = oq_Env r, Dir = oq_Dir r,
     InitialSize = oq_InitialSize r\<rparr>"

definition handleOpen :: "env \<Rightarrow> frame \<Rightarrow> world \<Rightarrow> gerror option \<times> world" where
  "handleOpen e request w =
     (if sid_of request \<noteq> 0 then respondError e request CodeInvalidRequest (Pty ErrInvalidStreamID) w
      else case decode e (UnmarshalOpen (e_json e)) request w of
        Inl err \<Rightarrow> respondError e request (decodeErrorCode err) err w
      | Inr payload \<Rightarrow>
      case validateOpenRequest (cfg w) payload of
        Some err \<Rightarrow> respondError e request CodeInvalidRequest err w
      | None \<Rightarrow>
      let spec = open_spec payload in
      case authorize \<lparr>au_Operation = OperationOpen, au_SessionID = 0, au_ProcessSpec = Some spec\<rparr> w of
        Some err \<Rightarrow> respondError e request CodePermissionDenied err w
      | None \<Rightarrow>
      case Manager_Open e spec w of
        (Inl err, w1) \<Rightarrow> respondOperationError e request err w1
      | (Inr sid, w1) \<Rightarrow>
          (case Session_Info e sid w1 of
             (info, w2) \<Rightarrow> respond e request ((response (pc_Version (cfg w2)))\<lparr>rs_Session := info\<rparr>) w2))"

text \<open>Go's \<open>int\<close> addition wraps.\<close>

definition go_add :: "int \<Rightarrow> int \<Rightarrow> int" where
  "go_add a b = sint (word_of_int (a + b) :: 64 word)"

definition go_slice :: "int \<Rightarrow> int \<Rightarrow> 'a list \<Rightarrow> 'a list" where
  "go_slice i j xs = take (nat (j - i)) (drop (nat i) xs)"

definition list_response :: "16 word \<Rightarrow> 64 word \<Rightarrow> SessionInfo list \<Rightarrow> int \<Rightarrow> int \<Rightarrow> ProtocolResponse" where
  "list_response version generation all position stop =
     (response version)\<lparr>rs_Sessions := go_slice position stop all,
       rs_NextCursor := (if stop < int (length all) then encodeCursor generation stop else '''')\<rparr>"

function list_fit :: "env \<Rightarrow> 16 word \<Rightarrow> 64 word \<Rightarrow> SessionInfo list \<Rightarrow> int \<Rightarrow> int \<Rightarrow> int result" where
  "list_fit e version generation all position stop =
     (if stop > position
      then case Marshal (e_json e) (JResponse (list_response version generation all position stop)) of
             Inl err \<Rightarrow> Inl err
           | Inr candidate \<Rightarrow>
               if int (length candidate) \<le> e_maxFrame e then Inr stop
               else list_fit e version generation all position (stop - 1)
      else Inr stop)"
  by pat_completeness auto
termination
  by (relation "measure (\<lambda>(e, v, g, all, position, stop). nat (stop - position))") auto

declare list_fit.simps [simp del]

definition returns :: "gerror option \<times> world \<Rightarrow> reply \<times> world" where
  "returns r = (Returns (fst r), snd r)"

text \<open>The part of \<open>handleList\<close> after the snapshot is taken, filtered and the cursor read.\<close>

definition list_page :: "env \<Rightarrow> frame \<Rightarrow> 64 word \<Rightarrow> SessionInfo list \<Rightarrow> int \<Rightarrow> int \<Rightarrow> world \<Rightarrow> reply \<times> world" where
  "list_page e request generation all position limit w =
     (if position < 0 \<or> position > int (length all)
      then returns (respondError e request CodeInvalidRequest (ErrNew ''invalid cursor position'') w)
      else
        let end0 = go_add position limit;
            end1 = (if end0 > int (length all) then int (length all) else end0)
        in case list_fit e (pc_Version (cfg w)) generation all position end1 of
             Inl err \<Rightarrow> (Returns (Some err), w)
           | Inr stop \<Rightarrow>
               if stop = position \<and> position < int (length all)
               then returns (respondError e request CodeInvalidRequest
                      (ErrNew ''one session entry exceeds frame payload limit'') w)
               else if stop < position then (Panics, w)
               else returns (respond e request (list_response (pc_Version (cfg w)) generation all position stop) w))"

definition handleList :: "env \<Rightarrow> frame \<Rightarrow> world \<Rightarrow> reply \<times> world" where
  "handleList e request w =
     (if sid_of request \<noteq> 0
      then returns (respondError e request CodeInvalidRequest (Pty ErrInvalidStreamID) w)
      else case decode e (UnmarshalList (e_json e)) request w of
        Inl err \<Rightarrow> returns (respondError e request (decodeErrorCode err) err w)
      | Inr payload \<Rightarrow>
      case authorize \<lparr>au_Operation = OperationList, au_SessionID = 0, au_ProcessSpec = None\<rparr> w of
        Some err \<Rightarrow> returns (respondError e request CodePermissionDenied err w)
      | None \<Rightarrow>
      let limit = (if lq_Limit payload = 0 then pc_MaxListItems (cfg w) else lq_Limit payload) in
      if limit < 1 \<or> limit > pc_MaxListItems (cfg w)
      then returns (respondError e request CodeInvalidRequest (ErrNew ''invalid list limit'') w)
      else
      let w1 = tick e w in
      case ListSnapshot (mgr w1) of (generation, all0) \<Rightarrow>
      case (case pc_FilterSessions (cfg w1) of None \<Rightarrow> Inr all0 | Some f \<Rightarrow> f all0) of
        Inl err \<Rightarrow> returns (respondError e request CodePermissionDenied err w1)
      | Inr all \<Rightarrow>
      if lq_Cursor payload \<noteq> ''''
      then case decodeCursor (lq_Cursor payload) of
             Inl _ \<Rightarrow> returns (respondError e request CodeInvalidRequest (ErrNew ''stale or invalid cursor'') w1)
           | Inr decoded \<Rightarrow>
               if lc_generation decoded \<noteq> generation
               then returns (respondError e request CodeInvalidRequest (ErrNew ''stale or invalid cursor'') w1)
               else list_page e request generation all (lc_position decoded) limit w1
      else list_page e request generation all 0 limit w1)"

definition handleInspect :: "env \<Rightarrow> frame \<Rightarrow> world \<Rightarrow> gerror option \<times> world" where
  "handleInspect e request w =
     (if length (Payload request) \<noteq> 0
      then respondError e request CodeInvalidRequest (Pty ErrInvalidPayload) w
      else case authorize \<lparr>au_Operation = OperationInspect, au_SessionID = sid_of request, au_ProcessSpec = None\<rparr> w of
        Some err \<Rightarrow> respondError e request CodePermissionDenied err w
      | None \<Rightarrow>
      case Manager_Get e (sid_of request) w of
        (False, w1) \<Rightarrow> respondError e request CodeSessionNotFound (Pty ErrSessionNotFound) w1
      | (True, w1) \<Rightarrow>
          (case Session_Info e (sid_of request) w1 of
             (info, w2) \<Rightarrow> respond e request ((response (pc_Version (cfg w2)))\<lparr>rs_Session := info\<rparr>) w2))"

text \<open>\<open>cleanup\<close> of \<open>handleAttach\<close>.\<close>

definition attach_cleanup :: "env \<Rightarrow> StreamID \<Rightarrow> nat \<Rightarrow> world \<Rightarrow> world" where
  "attach_cleanup e sid k w =
     (let w1 = tick e w;
          w2 = (if mget (pr_attachments (w_proto w1)) sid = Some k
                then set_attachments (mdel sid (pr_attachments (w_proto w1))) w1 else w1)
      in Attachment_Close e k w2)"

text \<open>\<open>handleAttach\<close> after the attachment is entered in the map.\<close>

definition attach_announce :: "env \<Rightarrow> frame \<Rightarrow> nat \<Rightarrow> AttachResult \<Rightarrow> world \<Rightarrow> gerror option \<times> world" where
  "attach_announce e request k result w =
     (let sid = sid_of request; t = pc_Types (cfg w); v = pc_Version (cfg w) in
      case respond e request ((response v)\<lparr>rs_Attach := Some result\<rparr>) w of
        (Some err, w1) \<Rightarrow> (Some err, attach_cleanup e sid k w1)
      | (None, w1) \<Rightarrow>
      case emitJSON e (mt_ReplayBegin t) sid
             (JReplay \<lparr>rm_Version = v, rm_First = ar_ReplayFirst result, rm_Last = ar_ReplayLast result,
                rm_NextLive = ar_NextLive result, rm_Truncated = ar_Truncated result\<rparr>) TrafficControl w1 of
        (Some err, w2) \<Rightarrow> (Some err, attach_cleanup e sid k w2)
      | (None, w2) \<Rightarrow>
      case (if ar_ReplayLast result = 0
            then (case emitEmpty e (mt_ReplayEnd t) sid TrafficControl w2 of
                    (Some err, w3) \<Rightarrow> (Some err, w3)
                  | (None, w3) \<Rightarrow>
                      (None, set_sink k \<lparr>sk_streamID = sid, sk_replayLast = 0, sk_replayEnded = True\<rparr> w3))
            else (None, w2)) of
        (Some err, w3) \<Rightarrow> (Some err, attach_cleanup e sid k w3)
      | (None, w3) \<Rightarrow>
      case Attachment_Activate e k w3 of
        (Some err, w4) \<Rightarrow> (Some err, attach_cleanup e sid k w4)
      | (None, w4) \<Rightarrow> (None, w4))"

definition handleAttach :: "env \<Rightarrow> frame \<Rightarrow> world \<Rightarrow> gerror option \<times> world" where
  "handleAttach e request w =
     (let sid = sid_of request in
      case decode e (UnmarshalAttach (e_json e)) request w of
        Inl err \<Rightarrow> respondError e request (decodeErrorCode err) err w
      | Inr payload \<Rightarrow>
      case authorize \<lparr>au_Operation = OperationAttach, au_SessionID = sid, au_ProcessSpec = None\<rparr> w of
        Some err \<Rightarrow> respondError e request CodePermissionDenied err w
      | None \<Rightarrow>
      case Manager_Get e sid w of
        (False, w1) \<Rightarrow> respondError e request CodeSessionNotFound (Pty ErrSessionNotFound) w1
      | (True, w1) \<Rightarrow>
      let w2 = tick e w1 in
      if mget (pr_attachments (w_proto w2)) sid \<noteq> None
      then respondError e request CodeAlreadyAttached (Pty ErrAlreadyAttached) w2
      else case Session_Attach e sid
                  \<lparr>ao_Replay = aq_Replay payload, ao_ResumeAfter = aq_ResumeAfter payload, ao_Paused = True\<rparr> w2 of
        (Inl err, w3) \<Rightarrow> respondOperationError e request err w3
      | (Inr (k, result), w3) \<Rightarrow>
          let w4 = tick e (set_sink k \<lparr>sk_streamID = sid, sk_replayLast = ar_ReplayLast result,
                             sk_replayEnded = False\<rparr> w3);
              w5 = set_attachments (mput sid k (pr_attachments (w_proto w4))) w4
          in attach_announce e request k result w5)"

definition handleDetach :: "env \<Rightarrow> frame \<Rightarrow> world \<Rightarrow> gerror option \<times> world" where
  "handleDetach e request w =
     (if length (Payload request) \<noteq> 0
      then respondError e request CodeInvalidRequest (Pty ErrInvalidPayload) w
      else case authorize \<lparr>au_Operation = OperationDetach, au_SessionID = sid_of request, au_ProcessSpec = None\<rparr> w of
        Some err \<Rightarrow> respondError e request CodePermissionDenied err w
      | None \<Rightarrow>
      let w1 = tick e w; a = mget (pr_attachments (w_proto w1)) (sid_of request);
          w2 = set_attachments (mdel (sid_of request) (pr_attachments (w_proto w1))) w1
      in case a of
           None \<Rightarrow> respondError e request CodeSessionNotFound (Pty ErrAttachmentClosed) w2
         | Some k \<Rightarrow>
             let w3 = Attachment_Close e k w2 in respond e request (response (pc_Version (cfg w3))) w3)"

definition handleInput :: "env \<Rightarrow> frame \<Rightarrow> world \<Rightarrow> gerror option \<times> world" where
  "handleInput e request w =
     (if Flags (Header request) \<noteq> FlagEvent then (Some (Pty ErrUnexpectedFrame), w)
      else case authorize \<lparr>au_Operation = OperationInput, au_SessionID = sid_of request, au_ProcessSpec = None\<rparr> w of
        Some err \<Rightarrow> (Some err, w)
      | None \<Rightarrow>
      case Manager_Get e (sid_of request) w of
        (False, w1) \<Rightarrow> (Some (Pty ErrSessionNotFound), w1)
      | (True, w1) \<Rightarrow> Session_InputTo e (sid_of request) (Payload request) w1)"

definition handleResize :: "env \<Rightarrow> frame \<Rightarrow> world \<Rightarrow> gerror option \<times> world" where
  "handleResize e request w =
     (case DecodeSize (Payload request) of
        Inl err \<Rightarrow> respondError e request CodeInvalidRequest err w
      | Inr sz \<Rightarrow>
      case authorize \<lparr>au_Operation = OperationResize, au_SessionID = sid_of request, au_ProcessSpec = None\<rparr> w of
        Some err \<Rightarrow> respondError e request CodePermissionDenied err w
      | None \<Rightarrow>
      case Manager_Get e (sid_of request) w of
        (False, w1) \<Rightarrow> respondError e request CodeSessionNotFound (Pty ErrSessionNotFound) w1
      | (True, w1) \<Rightarrow>
      case Session_Resize e (sid_of request) sz w1 of
        (Some err, w2) \<Rightarrow> respondOperationError e request err w2
      | (None, w2) \<Rightarrow> respond e request (response (pc_Version (cfg w2))) w2)"

definition handleKill :: "env \<Rightarrow> frame \<Rightarrow> world \<Rightarrow> reply \<times> world" where
  "handleKill e request w =
     (if length (Payload request) \<noteq> 0
      then returns (respondError e request CodeInvalidRequest (Pty ErrInvalidPayload) w)
      else case authorize \<lparr>au_Operation = OperationKill, au_SessionID = sid_of request, au_ProcessSpec = None\<rparr> w of
        Some err \<Rightarrow> returns (respondError e request CodePermissionDenied err w)
      | None \<Rightarrow>
      case Manager_KillWait e (sid_of request) w of
        (None, w1) \<Rightarrow> (Blocks, w1)
      | (Some (Some err), w1) \<Rightarrow> returns (respondOperationError e request err w1)
      | (Some None, w1) \<Rightarrow> returns (respond e request (response (pc_Version (cfg w1))) w1))"

datatype protocol_handler =
  HandleOpen | HandleList | HandleInspect | HandleAttach | HandleDetach | HandleInput | HandleResize | HandleKill

fun run_handler :: "env \<Rightarrow> protocol_handler \<Rightarrow> frame \<Rightarrow> world \<Rightarrow> reply \<times> world" where
  "run_handler e HandleOpen f w = returns (handleOpen e f w)"
| "run_handler e HandleList f w = handleList e f w"
| "run_handler e HandleInspect f w = returns (handleInspect e f w)"
| "run_handler e HandleAttach f w = returns (handleAttach e f w)"
| "run_handler e HandleDetach f w = returns (handleDetach e f w)"
| "run_handler e HandleInput f w = returns (handleInput e f w)"
| "run_handler e HandleResize f w = returns (handleResize e f w)"
| "run_handler e HandleKill f w = handleKill e f w"

section \<open>The sink and the watcher of an attachment\<close>

text \<open>
  Every event carries its payload (the event type is a tagged union), so the nil checks of
  \<open>Send\<close> have no counterpart; an index without a sink is not an attachment of this adapter.
\<close>

definition sink_Send :: "env \<Rightarrow> nat \<Rightarrow> AttachmentEvent \<Rightarrow> world \<Rightarrow> gerror option \<times> world" where
  "sink_Send e k event w =
     (case mget (pr_sinks (w_proto w)) k of
        None \<Rightarrow> (Some (Pty ErrInvalidPayload), w)
      | Some s0 \<Rightarrow>
      let sid = sk_streamID s0 in
      case event of
        AttachmentOutput output \<Rightarrow>
          (case NewFrame \<lparr>PayloadLength = 0, Version = pc_Version (cfg w), MessageType = mt_Output (pc_Types (cfg w)),
                  Flags = FlagEvent, CorrelationID = 0, StreamID = sid\<rparr> (Data output) of
             Inl err \<Rightarrow> (Some err, w)
           | Inr f \<Rightarrow>
          case peer_SendOwned e f TrafficBulk w of
            (Some err, w1) \<Rightarrow> (Some err, w1)
          | (None, w1) \<Rightarrow>
          case mget (pr_sinks (w_proto w1)) k of
            None \<Rightarrow> (None, w1)
          | Some s \<Rightarrow>
              if \<not> sk_replayEnded s \<and> sk_replayLast s \<noteq> 0 \<and> Sequence output = sk_replayLast s
              then emitEmpty e (mt_ReplayEnd (pc_Types (cfg w1))) sid TrafficControl
                     (set_sink k (s\<lparr>sk_replayEnded := True\<rparr>) w1)
              else (None, w1))
      | AttachmentExit status \<Rightarrow>
          emitJSON e (mt_Exit (pc_Types (cfg w))) sid (JExit (pc_Version (cfg w)) status) TrafficControl w)"

text \<open>
  \<open>watchAttachment\<close> once one of its two channels is closed. The error event is sent on a
  context of its own; its result is ignored and the peer is closed.
\<close>

definition watchAttachment :: "env \<Rightarrow> StreamID \<Rightarrow> nat \<Rightarrow> world \<Rightarrow> world" where
  "watchAttachment e sid k w =
     (let w1 = tick e w in
      if k < length (m_atts (mgr w1)) \<and> at_done (m_atts (mgr w1) ! k)
        \<and> (pr_ctx (w_proto w1) = None \<or> \<not> e_raced e (w_clock w1))
      then
        let w2 = (if mget (pr_attachments (w_proto w1)) sid = Some k
                  then set_attachments (mdel sid (pr_attachments (w_proto w1))) w1 else w1);
            w3 = tick e w2; a = m_atts (mgr w3) ! k
        in case at_err a of
             None \<Rightarrow> w3
           | Some err \<Rightarrow>
               if at_reason a \<in> {Some AttachmentQueueOverflow, Some AttachmentSinkFailure, Some AttachmentDrainTimedOut}
               then
                 let code = (if errorsIs err (Pty ErrQueueOverflow) then CodeQueueOverflow else CodeBackendFailure);
                     w4 = snd (emitJSON e (mt_Error (pc_Types (cfg w3))) sid
                            (JError \<lparr>pe_Version = pc_Version (cfg w3), pe_Code = code, pe_Message = e_errText e err\<rparr>)
                            TrafficControl w3)
                 in w4\<lparr>w_peerClosed := True\<rparr>
               else w3
      else w1)"

section \<open>Registering and closing\<close>

definition fill_config :: "ProtocolConfig \<Rightarrow> ProtocolConfig" where
  "fill_config c0 =
     (let d = DefaultProtocolConfig;
          c1 = (if pc_Version c0 = 0 then c0\<lparr>pc_Version := pc_Version d\<rparr> else c0);
          c2 = (if pc_MaxListItems c1 = 0 then c1\<lparr>pc_MaxListItems := pc_MaxListItems d\<rparr> else c1);
          c3 = (if pc_MaxCommandBytes c2 = 0 then c2\<lparr>pc_MaxCommandBytes := pc_MaxCommandBytes d\<rparr> else c2);
          c4 = (if pc_MaxDirectoryBytes c3 = 0 then c3\<lparr>pc_MaxDirectoryBytes := pc_MaxDirectoryBytes d\<rparr> else c3);
          c5 = (if pc_MaxArgumentBytes c4 = 0 then c4\<lparr>pc_MaxArgumentBytes := pc_MaxArgumentBytes d\<rparr> else c4);
          c6 = (if pc_MaxArguments c5 = 0 then c5\<lparr>pc_MaxArguments := pc_MaxArguments d\<rparr> else c5);
          c7 = (if pc_MaxEnvironment c6 = 0 then c6\<lparr>pc_MaxEnvironment := pc_MaxEnvironment d\<rparr> else c6)
      in c7)"

definition protocol_handlers :: "MessageTypes \<Rightarrow> (MessageType, protocol_handler option) gomap" where
  "protocol_handlers t =
     [(mt_Open t, Some HandleOpen), (mt_List t, Some HandleList), (mt_Inspect t, Some HandleInspect),
      (mt_Attach t, Some HandleAttach), (mt_Detach t, Some HandleDetach), (mt_Input t, Some HandleInput),
      (mt_Resize t, Some HandleResize), (mt_Kill t, Some HandleKill)]"

definition RegisterProtocol ::
    "protocol_handler peer option \<Rightarrow> Manager option \<Rightarrow> ProtocolConfig \<Rightarrow>
     (Protocol \<times> protocol_handler peer) result" where
  "RegisterProtocol peer manager config0 =
     (case (peer, manager) of
        (Some p, Some m) \<Rightarrow>
          (let c = fill_config config0 in
           if pc_MaxListItems c < 1 \<or> pc_MaxCommandBytes c < 1 \<or> pc_MaxDirectoryBytes c < 1
             \<or> pc_MaxArgumentBytes c < 1 \<or> pc_MaxArguments c < 1 \<or> pc_MaxEnvironment c < 1
           then Inl (ErrNew ''pty: invalid list limit'')
           else if ReadBufferBytes (m_config m) > p_maxFrameBytes p
           then Inl (ErrNew ''pty: ReadBufferBytes exceeds peer frame payload limit'')
           else case MessageTypes_validate (pc_Types c) of
             Some err \<Rightarrow> Inl err
           | None \<Rightarrow>
               (case RegisterHandlers (protocol_handlers (pc_Types c)) p of
                  (Some err, _) \<Rightarrow> Inl err
                | (None, p') \<Rightarrow>
                    Inr (\<lparr>pr_config = c, pr_ctx = None, pr_attachments = [], pr_sinks = [], pr_closed = False\<rparr>, p')))
      | _ \<Rightarrow> Inl (ErrNew ''pty: nil Protocol dependency''))"

text \<open>
  \<open>Close\<close>. A second caller waits for the first; waiting for \<open>Done\<close> of the attachments
  changes nothing.
\<close>

definition Protocol_Close :: "env \<Rightarrow> world \<Rightarrow> world" where
  "Protocol_Close e w =
     (let w1 = tick e w in
      if pr_closed (w_proto w1) then w1
      else
        let w2 = tick e (w1\<lparr>w_proto := (w_proto w1)\<lparr>pr_closed := True,
                     pr_ctx := (if pr_ctx (w_proto w1) = None then Some (Lib CtxCanceled) else pr_ctx (w_proto w1))\<rparr>\<rparr>);
            values = map snd (pr_attachments (w_proto w2))
        in fold (Attachment_Close e) values (set_attachments [] w2))"

end
