(* ===== verification/Pty_Closed.thy ===== *)
theory Pty_Closed
  imports Pty_Limits
begin

text \<open>
  The end of an attachment in \<open>pty/manager.go\<close>: whatever runs afterwards, an attachment that
  \<open>finish\<close> has closed stays closed, with the reason and the error \<open>finish\<close> gave it.
\<close>

section \<open>Operations that leave closed attachments alone\<close>

definition ended_same :: "Attachment \<Rightarrow> Attachment \<Rightarrow> bool" where
  "ended_same a a' \<longleftrightarrow>
     (at_closed a \<longrightarrow> at_closed a' \<and> at_reason a' = at_reason a \<and> at_err a' = at_err a)"

definition ended :: "Manager \<Rightarrow> Manager \<Rightarrow> bool" where
  "ended m m' \<longleftrightarrow>
     length (m_atts m) \<le> length (m_atts m')
     \<and> (\<forall>k < length (m_atts m). ended_same (m_atts m ! k) (m_atts m' ! k))"

lemma ended_refl [simp]: "ended m m"
  by (simp add: ended_def ended_same_def)

lemma ended_trans: "ended a b \<Longrightarrow> ended b c \<Longrightarrow> ended a c"
  unfolding ended_def ended_same_def by (auto dest: order_less_le_trans)

lemma ended_atts: "m_atts m' = m_atts m \<Longrightarrow> ended m m'"
  by (simp add: ended_def ended_same_def)

lemma ended_upd_att: "(\<And>a. ended_same a (f a)) \<Longrightarrow> ended m (upd_att k f m)"
  by (auto simp: ended_def upd_att_def nth_list_update ended_same_def)

lemma ended_upd_to: "(k < length (m_atts m) \<Longrightarrow> ended_same (m_atts m ! k) a') \<Longrightarrow> ended m (upd_att k (\<lambda>_. a') m)"
  by (auto simp: ended_def upd_att_def nth_list_update ended_same_def)

lemmas foldl_ended = foldl_rel [where R = ended, OF _ ended_refl ended_trans]

lemma ended_emit: "ended m (snd (emitLocked ev m))"
  by (rule ended_atts) (rule same_but_observers_fields(4) [OF emitLocked_same])

lemma ended_publish_step: "ended (snd st) (snd (publish_step i ev st a))"
proof (cases "enqueueLocked (AttachmentOutput ev) (m_atts (snd st) ! snd a)")
  case (Pair r a')
  show ?thesis
  proof (cases r)
    case None
    then have "ended_same (m_atts (snd st) ! snd a) a'"
      using Pair by (auto simp: enqueueLocked_def ended_same_def at_push_def split: if_splits)
    then show ?thesis by (simp add: publish_step_def Pair None ended_upd_to)
  qed (simp add: publish_step_def Pair ended_atts upd_session_def split: option.splits)
qed

lemma ended_exit_step: "ended (snd st) (snd (exit_step status st k))"
proof (cases "enqueueExitLocked status (m_atts (snd st) ! k)")
  case (Pair r a')
  show ?thesis
  proof (cases r)
    case None
    then have "ended_same (m_atts (snd st) ! k) a'"
      using Pair by (auto simp: enqueueExitLocked_def ended_same_def split: if_splits)
    then show ?thesis by (simp add: exit_step_def Pair None ended_upd_to)
  qed (simp add: exit_step_def Pair)
qed

lemma appendHistory_atts: "m_atts (appendHistoryLocked i ev m) = m_atts m"
proof -
  have "m_atts (history_push i ev m) = m_atts m"
    by (simp add: history_push_def Let_def split: option.splits)
  moreover have "m_atts m' = m_atts m" if "shrunk m m'" for m m' using that by (auto simp: shrunk_def)
  ultimately show ?thesis
    using evict_session_shrunk [of "history_push i ev m" i] evict_total_shrunk [of "evict_session i (history_push i ev m)"]
    by (simp add: appendHistoryLocked_def Let_def)
qed

lemma ended_publish: "ended m (snd (publish i d m))"
proof (cases "sess m i")
  case None
  then show ?thesis by (simp add: publish_def bump_sequence_def Let_def) (rule ended_atts, simp)
next
  case (Some s)
  from publish_states [OF Some, of d] obtain m2 failed m3 ev e where
    p: "m2 = appendHistoryLocked i ev (bump_sequence i m)"
    "foldl (publish_step i ev) ([], m2) (se_attachments s) = (failed, m3)"
    "snd (publish i d m) = snd (emitLocked e m3)" by metis
  have "ended m m2" by (rule ended_atts) (simp add: p(1) appendHistory_atts bump_sequence_def)
  moreover have "ended m2 m3"
    using foldl_ended [where st = "([], m2)" and xs = "se_attachments s" and f = "publish_step i ev",
        OF ended_publish_step] p(2) by simp
  ultimately show ?thesis unfolding p(3) using ended_trans ended_emit by blast
qed

lemma ended_exit: "ended m (snd (run_exit i status m))"
proof (cases "sess m i")
  case (Some s)
  from run_exit_states [OF Some, of status] obtain m1 failed m2 s1 where
    r: "m1 = m\<lparr>m_store := mput i s1 (m_store m), m_processesExited := m_processesExited m + 1,
            m_activeSessions := (if m_activeSessions m > 0 then m_activeSessions m - 1 else m_activeSessions m)\<rparr>"
    "foldl (exit_step status) ([], m1) (map snd (se_attachments s)) = (failed, m2)"
    "snd (run_exit i status m) = snd (emitLocked (session_event EventExited s1) m2)" by metis
  have "ended m m1" by (rule ended_atts) (simp add: r(1))
  moreover have "ended m1 m2"
    using foldl_ended [where st = "([], m1)" and xs = "map snd (se_attachments s)" and f = "exit_step status",
        OF ended_exit_step] r(2) by simp
  ultimately show ?thesis unfolding r(3) using ended_trans ended_emit by blast
qed (simp add: run_exit_def)

lemma ended_removeSession: "ended m (removeSessionLocked i m)"
  by (rule ended_atts) (simp add: removeSessionLocked_def Let_def removeRetainedIDLocked_def
      removeHistoryLocked_def split: option.splits)

lemma ended_finishRemoval: "ended m (snd (finishRetainedRemoval r m))"
proof (cases r m rule: finishRemoval_cases)
  case (removed s m2 s2)
  have "ended (removeSessionLocked (rr_session r) m) m2" by (rule ended_atts) (simp add: removed(4))
  then show ?thesis unfolding removed(6)
    using ended_trans [OF ended_trans [OF ended_removeSession]] ended_emit by blast
qed simp

lemma ended_run_retire:
  assumes "sessions_ok m" and s: "sess m i = Some s" "se_pc s = RunDraining ks"
    and "ManagerConfig_validate (m_config m) = None" and "run_retire i m = Some (failed, m')"
  shows "ended m m'"
  using assms(5)
proof (cases rule: run_retire_cases)
  case (retain m1 m2 m3 m4 s2 removals)
  have "ended m m2" by (rule ended_atts) (simp add: retain(1,4))
  moreover have "ended m2 m3" unfolding retain(6) by (rule ended_emit)
  moreover have "ended m3 m4"
    by (rule ended_atts) (rule evicted_fields(8) [OF run_retire_evicts(1) [OF assms(1-4) retain(1,4,5,6,7)]])
  moreover have "ended m4 m'" by (rule ended_atts) (simp add: retain(8))
  ultimately show ?thesis using ended_trans by blast
next
  case (remove m1 m2 m3 s3)
  have "ended m m1" by (rule ended_atts) (simp add: remove(1))
  moreover have "ended m1 m2" unfolding remove(2) by (rule ended_removeSession)
  moreover have "ended m2 m3" by (rule ended_atts) (simp add: remove(3))
  moreover have "ended (snd (emitLocked (session_event EventRemoved s3) m3)) m'"
    by (rule ended_atts) (simp add: remove(5))
  ultimately show ?thesis using ended_trans ended_emit by meson
qed

lemma ended_attach: "ended m (snd (attach_locked i opts raced m))"
proof (cases "attach_locked i opts raced m")
  case (Pair r m')
  show ?thesis
  proof (cases r)
    case (Inl e)
    then have "m_atts m' = m_atts m" using attach_refused_state Pair by fastforce
    then show ?thesis using Pair by (simp add: ended_atts)
  next
    case (Inr x)
    obtain s where s: "sess m i = Some s" using Pair Inr by (auto simp: attach_locked_def split: option.splits)
    obtain k result failed where "attach_locked i opts raced m = (Inr (k, result, failed), m')"
      using Pair Inr by (cases x) auto
    from attach_ok_state [OF this s] obtain m2 ev where
      "m2 = m\<lparr>m_nextAttachment := m_nextAttachment m + 1,
         m_store := mput i (s\<lparr>se_attachments := mput (m_nextAttachment m + 1) k (se_attachments s)\<rparr>) (m_store m),
         m_atts := m_atts m @ [attached m i s opts]\<rparr>" and m': "m' = snd (emitLocked ev m2)" by metis
    then have m2: "m_atts m2 = m_atts m @ [attached m i s opts]" "m' = snd (emitLocked ev m2)" by simp_all
    have "ended m m2" by (simp add: ended_def ended_same_def m2(1) nth_append)
    then show ?thesis using Pair m2(2) ended_trans [OF _ ended_emit] by simp
  qed
qed

lemma ended_recordClose: "ended m (snd (recordAttachmentClose k reason m))"
proof (cases "k < length (m_atts m) \<and> at_registered (m_atts m ! k)")
  case True
  from recordClose_states [of k m reason] True obtain m3 where
    m3: "m3 = (upd_session (at_session (m_atts m ! k)) (\<lambda>s. s\<lparr>se_attachments := mdel (at_id (m_atts m ! k)) (se_attachments s)\<rparr>)
       (upd_att k (\<lambda>a. a\<lparr>at_registered := False\<rparr>) m))\<lparr>m_attachmentClosures := mput reason
         ((case mget (m_attachmentClosures m) reason of None \<Rightarrow> 0 | Some n \<Rightarrow> n) + 1) (m_attachmentClosures m)\<rparr>"
    and fin: "snd (recordAttachmentClose k reason m) = m3 \<or> (\<exists>ev. snd (recordAttachmentClose k reason m) = snd (emitLocked ev m3))"
    by metis
  have "ended m (upd_att k (\<lambda>a. a\<lparr>at_registered := False\<rparr>) m)" by (rule ended_upd_att) (simp add: ended_same_def)
  moreover have "ended (upd_att k (\<lambda>a. a\<lparr>at_registered := False\<rparr>) m) m3" by (rule ended_atts) (simp add: m3)
  ultimately have "ended m m3" by (rule ended_trans)
  then show ?thesis using fin ended_trans [OF _ ended_emit] by metis
qed (simp add: recordClose_noop)

lemma ended_register:
  assumes "open_register sid spec now m = (r, m')"
  shows "ended m m'"
  using assms
proof (cases rule: open_register_cases)
  case (refused e)
  then show ?thesis by (intro ended_atts) simp
next
  case (ok m1 failed)
  have "ended m m1" by (rule ended_atts) (simp add: ok(4))
  then show ?thesis unfolding ok(5) by (rule ended_trans [OF _ ended_emit])
qed

lemma fold_atts: "(\<And>x a. m_atts (f x a) = m_atts a) \<Longrightarrow> m_atts (fold f xs m) = m_atts m"
  by (induction xs arbitrary: m) simp_all

lemma ended_simple:
  "ended m (open_started m)" "ended m (recordProcessExited m)" "ended m (kill_result i e m)"
  "ended m (resize_apply i sz m)" "ended m (manager_cancel m)" "ended m (close_joins ts ks m)"
  "ended m (snd (kill_begin i m))" "ended m (snd (open_reserve m))" "ended m (open_abort m)"
  "ended m (upd_session i g m)" "ended m (Subscription_unlink k m)" "ended m (upd_sub k h m)"
  "ended m (snd (Subscribe m))" "ended m (su_finish_at k er re m)"
  by (rule ended_atts; simp add: open_started_def recordProcessExited_def kill_result_def resize_apply_def
      manager_cancel_def close_joins_def Let_def kill_begin_def open_reserve_def open_abort_def
      Subscription_unlink_def Subscribe_def su_finish_at_def recordObserverClose_def upd_sub_def split: option.splits)+

lemma ended_close: "ended m (snd (close_begin m))" "ended m (close_end m)"
proof -
  have "m_atts (fold (\<lambda>i. upd_session i stop_session) is a) = m_atts a" for "is" a
    by (rule fold_atts) simp
  then show "ended m (snd (close_begin m))" by (intro ended_atts) (simp add: close_begin_state)
  have "m_atts (clear_session i a) = m_atts a" for i a
    by (simp add: clear_session_def removeHistoryLocked_def split: option.splits)
  then have "m_atts (fold clear_session is a) = m_atts a" for "is" a by (rule fold_atts)
  then show "ended m (close_end m)" by (intro ended_atts) (simp add: close_end_state)
qed

section \<open>Every step\<close>

lemma at_turn_open: "at_turn a = (TurnSend ev, a') \<Longrightarrow> ended_same a a'"
  by (auto simp: at_turn_def ended_same_def Let_def split: if_splits)

lemma manager_step_ended:
  assumes "life_ok y" and "manager_step y l y'"
  shows "ended (y_m y) (y_m y')"
proof -
  have so: "sessions_ok (y_m y)" and cfg: "ManagerConfig_validate (m_config (y_m y)) = None"
    using assms(1) by (auto simp: life_ok_def)
  show ?thesis using assms(2)
  proof cases
    case (reserve ctx spec sid m')
    from ended_simple(8) [of "y_m y"] show ?thesis using reserve(4) by (simp add: reserve(2))
  next
    case (reserve_refused e m')
    from ended_simple(8) [of "y_m y"] show ?thesis using reserve_refused(3) by (simp add: reserve_refused(2))
  next
    case (register sid spec now failed m')
    from ended_register [OF register(4)] show ?thesis by (simp add: register(2))
  next
    case (register_refused sid spec now e m')
    from ended_register [OF register_refused(4)] show ?thesis by (simp add: register_refused(2))
  next
    case (pump i s r pub ret')
    have "ended (y_m y) (pump_effect i pub None (y_m y))"
      by (simp add: pump_effect_def ended_publish split: option.splits)
    moreover have "ended (pump_effect i pub None (y_m y)) (pump_effect i pub ret' (y_m y))"
      by (auto simp: pump_effect_def Let_def ended_simple split: option.splits)
    ultimately show ?thesis using ended_trans by (simp add: pump(2))
  next
    case (finish k reason e)
    then show ?thesis by (simp, intro ended_upd_att) (simp add: finish_locked_def ended_same_def)
  next
    case (send k ev a')
    then show ?thesis by (simp, intro ended_upd_to) (simp add: at_turn_open)
  next
    case (worker_done k)
    then show ?thesis by (simp, intro ended_upd_att) (simp add: closeDone_def ended_same_def)
  next
    case (activate k)
    then show ?thesis by (simp, intro ended_upd_att) (simp add: Activate_def ended_same_def)
  next
    case (attach ctx opts0 sink opts i s raced k result failed m')
    from ended_attach [of "y_m y" i opts raced] show ?thesis by (simp add: attach(2,5))
  next
    case (attach_refused ctx opts0 sink opts i raced e m')
    from ended_attach [of "y_m y" i opts raced] show ?thesis by (simp add: attach_refused(2,4))
  next
    case (retire i s ks failed m')
    from ended_run_retire [OF so retire(3,4) cfg retire(6)] show ?thesis by (simp add: retire(2))
  next
    case (evict i s r rs)
    from ended_trans [OF ended_finishRemoval ended_simple(10)] show ?thesis by (simp add: evict(2))
  next
    case (remove i r m')
    from Remove_begin_ok [OF so remove(3)] show ?thesis by (simp add: remove(2) ended_atts evicted_fields(8))
  next
    case (subscribe res m')
    from ended_simple(13) [of "y_m y"] show ?thesis using subscribe(3) by (simp add: subscribe(2))
  qed (simp_all add: ended_simple ended_exit ended_recordClose ended_finishRemoval ended_close)
qed

lemma trace_ended:
  assumes "trace manager_step y ls y'" and "life_ok y"
  shows "ended (y_m y) (y_m y')"
  using assms
proof (induction rule: trace.induct)
  case (trace_snoc y ls t l u)
  have "life_ok t" using manager_life.trace_keeps trace_snoc by blast
  then show ?case using ended_trans [OF trace_snoc.IH [OF trace_snoc.prems]] manager_step_ended trace_snoc.hyps(2) by blast
qed simp

end
