(* ===== verification/Pty_Protocol_Runs.thy ===== *)
theory Pty_Protocol_Runs
  imports Pty_Handlers Pty_Closed
begin

text \<open>
  The adapter and the manager together: everything a handler, a sink, a watcher or \<open>Close\<close>
  does to the manager is a sequence of the manager's own steps, interleaved with whatever the
  rest of the program does. So all that holds of every trace of the manager holds with the
  adapter running.
\<close>

section \<open>What the rest of the program may do\<close>

text \<open>
  Between two critical sections of the adapter, the manager makes steps of its own, an \<open>Open\<close>
  in progress keeps its reservation, and nobody writes the configuration.
\<close>

definition runs :: "msys \<Rightarrow> msys \<Rightarrow> bool" where
  "runs y y' \<longleftrightarrow> (\<exists>ls. trace manager_step y ls y')"

definition rely_ok :: "env \<Rightarrow> bool" where
  "rely_ok e \<longleftrightarrow>
     (\<forall>k own y p. runs y (fst (e_rely e k own (y, p)))
        \<and> (\<forall>x. own = Some x \<and> x \<in> set (y_opens y) \<longrightarrow> x \<in> set (y_opens (fst (e_rely e k own (y, p)))))
        \<and> pr_config (snd (e_rely e k own (y, p))) = pr_config p)"

lemma runs_refl [simp]: "runs y y"
  unfolding runs_def by (rule exI, rule trace.trace_refl)

lemma runs_trans: "runs a b \<Longrightarrow> runs b c \<Longrightarrow> runs a c"
  unfolding runs_def using trace_append [where step = manager_step] by fast

lemma runs_step: "manager_step y l y' \<Longrightarrow> runs y y'"
  unfolding runs_def by (rule exI, rule trace_one)

lemma runs_life: "runs y y' \<Longrightarrow> life_ok y \<Longrightarrow> life_ok y'"
  unfolding runs_def using manager_life.trace_keeps by fast

section \<open>Worlds that follow each other\<close>

definition idle :: "world \<Rightarrow> bool" where
  "idle w \<longleftrightarrow> w_own w = None \<and> life_ok (w_sys w)"

text \<open>
  Besides the manager's steps, a call keeps the configuration, ends every reservation it made,
  and sends only frames that satisfy \<open>P\<close>.
\<close>

definition follows :: "(ProtocolConfig \<Rightarrow> frame \<times> TrafficClass \<Rightarrow> bool) \<Rightarrow> world \<Rightarrow> world \<Rightarrow> bool" where
  "follows P w w' \<longleftrightarrow>
     cfg w' = cfg w \<and> (\<exists>fs. w_sent w' = w_sent w @ fs \<and> (\<forall>x \<in> set fs. P (cfg w) x))
     \<and> (idle w \<longrightarrow> idle w' \<and> runs (w_sys w) (w_sys w'))"

lemma follows_refl [simp]: "follows P w w"
  by (simp add: follows_def)

lemma follows_trans:
  assumes "follows P a b" and "follows P b c"
  shows "follows P a c"
proof -
  obtain fs gs where "w_sent b = w_sent a @ fs" "w_sent c = w_sent b @ gs"
    "\<forall>x \<in> set fs. P (cfg a) x" "\<forall>x \<in> set gs. P (cfg b) x" "cfg b = cfg a"
    using assms unfolding follows_def by blast
  then have "w_sent c = w_sent a @ fs @ gs" "\<forall>x \<in> set (fs @ gs). P (cfg a) x" by auto
  then have "\<exists>hs. w_sent c = w_sent a @ hs \<and> (\<forall>x \<in> set hs. P (cfg a) x)" by blast
  then show ?thesis using assms runs_trans [of "w_sys a" "w_sys b" "w_sys c"] unfolding follows_def by simp
qed

lemma follows_other:
  "w_sys w' = w_sys w \<Longrightarrow> w_own w' = w_own w \<Longrightarrow> cfg w' = cfg w \<Longrightarrow> w_sent w' = w_sent w \<Longrightarrow> follows P w w'"
  by (simp add: follows_def idle_def)

lemma follows_sys:
  assumes "life_ok (w_sys w) \<Longrightarrow> runs (w_sys w) (w_sys w')" and "w_own w' = w_own w" and "cfg w' = cfg w"
    and "w_sent w' = w_sent w"
  shows "follows P w w'"
  using assms runs_life [of "w_sys w" "w_sys w'"] unfolding follows_def idle_def by simp

lemma set_mgr_fields [simp]:
  "w_sys (set_mgr m w) = (w_sys w)\<lparr>y_m := m\<rparr>" "w_own (set_mgr m w) = w_own w" "w_proto (set_mgr m w) = w_proto w"
  "w_clock (set_mgr m w) = w_clock w" "w_sent (set_mgr m w) = w_sent w" "w_calls (set_mgr m w) = w_calls w"
  "w_tty (set_mgr m w) = w_tty w"
  by (simp_all add: set_mgr_def)

lemma follows_mgr: "manager_step (w_sys w) l ((w_sys w)\<lparr>y_m := m\<rparr>) \<Longrightarrow> follows P w (set_mgr m w)"
  by (rule follows_sys) (simp_all add: runs_step)

lemma log_call_fields [simp]:
  "w_sys (log_call c w) = w_sys w" "w_own (log_call c w) = w_own w" "w_proto (log_call c w) = w_proto w"
  "w_clock (log_call c w) = w_clock w" "w_sent (log_call c w) = w_sent w"
  by (simp_all add: log_call_def)

lemma follows_log [simp]: "follows P w (log_call c w)"
  by (rule follows_other) simp_all

lemma follows_attachments [simp]: "follows P w (set_attachments as w)"
  by (rule follows_other) (simp_all add: set_attachments_def)

lemma follows_sink [simp]: "follows P w (set_sink k s w)"
  by (rule follows_other) (simp_all add: set_sink_def)

lemma tick_fields [simp]:
  "w_own (tick e w) = w_own w" "w_clock (tick e w) = Suc (w_clock w)" "w_sent (tick e w) = w_sent w"
  "w_calls (tick e w) = w_calls w" "w_tty (tick e w) = w_tty w" "w_peerClosed (tick e w) = w_peerClosed w"
  "w_sys (tick e w) = fst (e_rely e (w_clock w) (w_own w) (w_sys w, w_proto w))"
  "w_proto (tick e w) = snd (e_rely e (w_clock w) (w_own w) (w_sys w, w_proto w))"
  by (simp_all add: tick_def split: prod.splits)

declare tick_fields(7,8) [simp del]

lemma tick_runs:
  assumes "rely_ok e"
  shows "runs (w_sys w) (w_sys (tick e w))" and "cfg (tick e w) = cfg w"
  using assms unfolding rely_ok_def tick_fields(7,8) by simp_all

lemma tick_own:
  assumes "rely_ok e" and "w_own w = Some x" and "x \<in> set (y_opens (w_sys w))"
  shows "x \<in> set (y_opens (w_sys (tick e w)))"
  using assms unfolding rely_ok_def tick_fields(7) by (cases x) simp

lemma follows_tick: "rely_ok e \<Longrightarrow> follows P w (tick e w)"
  by (rule follows_sys) (simp_all add: tick_runs)

lemma follows_tick_then: "rely_ok e \<Longrightarrow> follows P (tick e w) w' \<Longrightarrow> follows P w w'"
  by (rule follows_trans [OF follows_tick])

lemma follows_at: 
  "rely_ok e \<Longrightarrow> manager_step (w_sys (tick e w)) l ((w_sys (tick e w))\<lparr>y_m := m\<rparr>) \<Longrightarrow> follows P w (set_mgr m (tick e w))"
  by (erule follows_tick_then) (rule follows_mgr)

section \<open>Every call follows\<close>

lemma follows_finishObservers:
  assumes "rely_ok e"
  shows "follows P w (finishObservers e ks err reason w)"
proof (induction ks arbitrary: w)
  case (Cons k ks)
  have "follows P w (set_mgr (su_finish_at k err reason (mgr (tick e w))) (tick e w))"
    by (rule follows_at [OF assms manager_step.sub_finish])
  then show ?case unfolding finishObservers_def Let_def fold_simps
    by (rule follows_trans) (use Cons.IH in \<open>simp add: finishObservers_def Let_def\<close>)
qed (simp add: finishObservers_def)

lemma follows_open_discard: "rely_ok e \<Longrightarrow> follows P w (open_discard e sid w)"
  unfolding open_discard_def Let_def
  by (rule follows_trans [OF follows_log]) (rule follows_at, assumption, rule manager_step.reaped)

text \<open>Inside \<open>Open\<close>: the reservation is held.\<close>

definition inside :: "StreamID \<times> ProcessSpec \<Rightarrow> world \<Rightarrow> world \<Rightarrow> bool" where
  "inside x w0 w \<longleftrightarrow> cfg w = cfg w0 \<and> w_sent w = w_sent w0 \<and> (idle w0 \<longrightarrow>
     w_own w = Some x \<and> x \<in> set (y_opens (w_sys w)) \<and> life_ok (w_sys w) \<and> runs (w_sys w0) (w_sys w))"

lemma inside_tick:
  assumes "rely_ok e" and "inside x w0 w"
  shows "inside x w0 (tick e w)"
  using assms(2) tick_runs [OF assms(1), of w] tick_own [OF assms(1), of w x]
    runs_life [of "w_sys w" "w_sys (tick e w)"] runs_trans [of "w_sys w0" "w_sys w" "w_sys (tick e w)"]
  unfolding inside_def by simp

lemma inside_mgr:
  assumes "manager_step (w_sys w) l ((w_sys w)\<lparr>y_m := m\<rparr>)" and "inside x w0 w"
  shows "inside x w0 (set_mgr m w)"
  using assms(2) runs_life [OF runs_step [OF assms(1)]] runs_trans [OF _ runs_step [OF assms(1)], of "w_sys w0"]
  unfolding inside_def by simp

lemma inside_log: "inside x w0 w \<Longrightarrow> inside x w0 (log_call c w)"
  by (simp add: inside_def)

lemma inside_done:
  assumes "\<And>y. y = w_sys w \<Longrightarrow> x \<in> set (y_opens y) \<Longrightarrow> \<exists>l. manager_step y l (y\<lparr>y_m := m, y_opens := remove1 x (y_opens y)\<rparr>)"
    and "inside x w0 w"
  shows "follows P w0 (own_done x m w)"
proof -
  have "idle (own_done x m w) \<and> runs (w_sys w0) (w_sys (own_done x m w))" if idle: "idle w0"
  proof -
    let ?y = "(w_sys w)\<lparr>y_m := m, y_opens := remove1 x (y_opens (w_sys w))\<rparr>"
    have i: "x \<in> set (y_opens (w_sys w))" "life_ok (w_sys w)" "runs (w_sys w0) (w_sys w)"
      using assms(2) idle by (simp_all add: inside_def)
    obtain l where "manager_step (w_sys w) l ?y" using assms(1) [OF refl i(1)] by blast
    then have r: "runs (w_sys w) ?y" by (rule runs_step)
    then show ?thesis using runs_life [OF r i(2)] runs_trans [OF i(3) r] by (simp add: own_done_def idle_def)
  qed
  then show ?thesis using assms(2) by (simp add: follows_def inside_def own_done_def)
qed

lemma inside_reserve:
  assumes "Open_check ctx spec = None" and "open_reserve (mgr w) = (Inr sid, m)"
  shows "inside (sid, spec) w (w\<lparr>w_own := Some (sid, spec),
    w_sys := (w_sys w)\<lparr>y_m := m, y_opens := y_opens (w_sys w) @ [(sid, spec)]\<rparr>\<rparr>)"
proof -
  have r: "runs (w_sys w) ((w_sys w)\<lparr>y_m := m, y_opens := y_opens (w_sys w) @ [(sid, spec)]\<rparr>)"
    by (rule runs_step) (rule manager_step.reserve [OF assms])
  then show ?thesis using runs_life [OF r] by (simp add: inside_def idle_def)
qed

lemma follows_Manager_Open:
  assumes "rely_ok e"
  shows "follows P w (snd (Manager_Open e spec0 w))"
proof (cases "Open_check (Some (e_ctx e (w_clock w))) spec0")
  case None
  define spec where "spec = copy_spec spec0"
  have check: "Open_check (Some (e_ctx e (w_clock w))) spec = None"
    using None by (auto simp: spec_def copy_spec_def Open_check_def ProcessSpec_Validate_def split: if_splits)
  define w1 where "w1 = tick e w"
  have f1: "follows P w w1" unfolding w1_def by (rule follows_tick [OF assms])
  note unfold_open = Manager_Open_def None option.case Let_def w1_def [symmetric] spec_def [symmetric]
  show ?thesis
  proof (cases "open_reserve (mgr w1)")
    case (Pair r m1)
    show ?thesis
    proof (cases r)
      case (Inl err)
      then have "follows P w1 (set_mgr m1 w1)"
        using Pair by (intro follows_mgr [where l = "LOpenRefused err"] manager_step.reserve_refused) simp
      then show ?thesis using f1 follows_trans Pair Inl by (simp add: unfold_open)
    next
      case (Inr sid)
      define w2 where "w2 = log_call (CallStart spec) (w1\<lparr>w_own := Some (sid, spec),
        w_sys := (w_sys w1)\<lparr>y_m := m1, y_opens := y_opens (w_sys w1) @ [(sid, spec)]\<rparr>\<rparr>)"
      have "inside (sid, spec) w1 w2" unfolding w2_def
        by (rule inside_log) (rule inside_reserve [OF check], use Pair Inr in simp)
      define w3 where "w3 = tick e w2"
      have i3: "inside (sid, spec) w1 w3" unfolding w3_def by (rule inside_tick [OF assms]) fact
      define w5 where "w5 = tick e (set_mgr (open_started (mgr w3)) w3)"
      have i5: "inside (sid, spec) w1 w5" unfolding w5_def
        by (rule inside_tick [OF assms], rule inside_mgr [OF _ i3], rule manager_step.started)
      have abort: "follows P w1 (own_done (sid, spec) (open_abort (mgr v)) v)" if "inside (sid, spec) w1 v" for v
        by (rule inside_done [OF _ that]) (blast intro: manager_step.start_failed)
      have reg: "follows P w1 (own_done (sid, spec) m5 w5)"
        if "open_register sid spec now (mgr w5) = (q, m5)" for now q m5
        by (rule inside_done [OF _ i5], cases q)
          (use that in \<open>auto intro: manager_step.register manager_step.register_refused\<close>)
      have "follows P w1 (snd (Manager_Open e spec0 w))"
        using Pair Inr follows_trans [OF abort [OF i5] follows_open_discard [OF assms]]
          abort [OF i3] follows_trans [OF reg follows_open_discard [OF assms]]
          follows_trans [OF reg follows_finishObservers [OF assms]]
        by (simp add: unfold_open w2_def [symmetric] w3_def [symmetric] w5_def [symmetric]
            split: option.split prod.split sum.split)
      then show ?thesis using f1 follows_trans by blast
    qed
  qed
qed (simp add: Manager_Open_def)

lemma follows_Session_Info: "rely_ok e \<Longrightarrow> follows P w (snd (Session_Info e sid w))"
  by (simp add: Session_Info_def Let_def follows_tick)

lemma follows_Manager_Get: "rely_ok e \<Longrightarrow> follows P w (snd (Manager_Get e sid w))"
  by (simp add: Manager_Get_def Let_def follows_tick)

lemma follows_Session_Attach:
  assumes "rely_ok e"
  shows "follows P w (snd (Session_Attach e sid opts0 w))"
proof -
  define w1 where "w1 = tick e w"
  define w2 where "w2 = tick e w1"
  have f1: "follows P w w1" unfolding w1_def by (rule follows_tick [OF assms])
  have f2: "follows P w w2" unfolding w2_def by (rule follows_trans [OF f1 follows_tick [OF assms]])
  define raced where "raced = (if e_raced e (w_clock w2) then pr_ctx (w_proto w2) else None)"
  show ?thesis
  proof (cases "attach_check (Some (pr_ctx (w_proto w1))) opts0 True")
    case (Inl err)
    then show ?thesis using f1 by (simp add: Session_Attach_def Let_def w1_def [symmetric])
  next
    case (Inr opts)
    obtain q m2 where a: "attach_locked sid opts raced (mgr w2) = (q, m2)" by fastforce
    show ?thesis
    proof (cases q)
      case q: (Inl err)
      have "follows P w2 (set_mgr m2 w2)"
        by (rule follows_mgr, rule manager_step.attach_refused [OF Inr]) (use a q in simp)
      then show ?thesis using f2 follows_trans a q Inr
        by (simp add: Session_Attach_def Let_def w1_def [symmetric] w2_def [symmetric] raced_def [symmetric])
    next
      case q: (Inr r)
      obtain k result failed where r: "r = (k, result, failed)" by (cases r) auto
      obtain s where s: "sess (mgr w2) sid = Some s" using a q by (auto simp: attach_locked_def split: option.splits)
      let ?n = "length (y_published (w_sys w2) sid)"
      let ?y = "(w_sys w2)\<lparr>y_m := m2, y_base := (y_base (w_sys w2))(k := (first_seq s opts ?n, ?n))\<rparr>"
      have "manager_step (w_sys w2) (LAttach sid opts k result) ?y"
        by (rule manager_step.attach [OF Inr s]) (use a q r in simp)
      then have "follows P w2 (w2\<lparr>w_sys := ?y\<rparr>)" by (intro follows_sys) (simp_all add: runs_step)
      from follows_trans [OF follows_trans [OF f2 this] follows_finishObservers [OF assms]]
      show ?thesis using a q r s Inr
        by (simp add: Session_Attach_def Let_def w1_def [symmetric] w2_def [symmetric] raced_def [symmetric])
    qed
  qed
qed

text \<open>Closing an attachment: it is still closed, for the reason given, when the manager records it.\<close>

lemma runs_closed:
  assumes "runs y y'" and "life_ok y" and "k < length (m_atts (y_m y))" and "at_closed (m_atts (y_m y) ! k)"
  shows "k < length (m_atts (y_m y'))" "at_closed (m_atts (y_m y') ! k)"
    "at_reason (m_atts (y_m y') ! k) = at_reason (m_atts (y_m y) ! k)"
proof -
  have "ended (y_m y) (y_m y')" using assms(1,2) trace_ended unfolding runs_def by fast
  then show "k < length (m_atts (y_m y'))" "at_closed (m_atts (y_m y') ! k)"
    "at_reason (m_atts (y_m y') ! k) = at_reason (m_atts (y_m y) ! k)"
    using assms(3,4) by (auto simp: ended_def ended_same_def)
qed

lemma follows_attachment_finish:
  assumes "rely_ok e"
  shows "follows P w (attachment_finish e k err reason w)"
proof -
  define w1 where "w1 = tick e w"
  have f1: "follows P w w1" unfolding w1_def by (rule follows_tick [OF assms])
  show ?thesis
  proof (cases "k < length (m_atts (mgr w1)) \<and> \<not> at_closed (m_atts (mgr w1) ! k)")
    case True
    define v where "v = set_mgr (upd_att k (finish_locked err reason) (mgr w1)) w1"
    define w2 where "w2 = tick e v"
    have "follows P w1 v" unfolding v_def by (rule follows_mgr, rule manager_step.finish)
    moreover have fv: "follows P v w2" unfolding w2_def by (rule follows_tick [OF assms])
    ultimately have f2: "follows P w w2" using f1 follows_trans by blast
    have c: "k < length (m_atts (mgr v))" "at_closed (m_atts (mgr v) ! k)" "at_reason (m_atts (mgr v) ! k) = Some reason"
      using True by (simp_all add: v_def upd_att_def finish_locked_def)
    have run: "runs (w_sys v) (w_sys w2)" unfolding w2_def by (rule tick_runs(1) [OF assms])
    have "follows P w (set_mgr (snd (recordAttachmentClose k reason (mgr w2))) w2)"
    proof -
      have "runs (w_sys w2) ((w_sys w2)\<lparr>y_m := snd (recordAttachmentClose k reason (mgr w2))\<rparr>)" if "life_ok (w_sys v)"
        using runs_closed [OF run that c(1,2)] c(3) by (intro runs_step [where l = "LRecord k"] manager_step.record_close) simp_all
      then have "follows P v (set_mgr (snd (recordAttachmentClose k reason (mgr w2))) w2)"
        using fv runs_trans [OF run] runs_life
        by (intro follows_sys) (auto simp: follows_def idle_def w2_def)
      then show ?thesis using \<open>follows P w1 v\<close> f1 follows_trans by blast
    qed
    from follows_trans [OF this follows_finishObservers [OF assms]] True show ?thesis
      by (cases "recordAttachmentClose k reason (mgr w2)")
        (simp add: attachment_finish_def Let_def w1_def [symmetric] v_def [symmetric] w2_def [symmetric])
  next
    case False
    then show ?thesis using f1 by (auto simp: attachment_finish_def Let_def w1_def [symmetric])
  qed
qed

lemma follows_Attachment_Close: "rely_ok e \<Longrightarrow> follows P w (Attachment_Close e k w)"
  unfolding Attachment_Close_def by (rule follows_attachment_finish)

lemma follows_Activate: "rely_ok e \<Longrightarrow> follows P w (snd (Attachment_Activate e k w))"
  unfolding Attachment_Activate_def Let_def snd_conv by (rule follows_at) (auto intro: manager_step.activate)

lemma follows_Session_Resize:
  assumes "rely_ok e"
  shows "follows P w (snd (Session_Resize e sid sz w))"
proof -
  define w1 where "w1 = tick e w"
  define w2 where "w2 = tick e (log_call (CallResize sid sz) w1)"
  have f1: "follows P w w1" unfolding w1_def by (rule follows_tick [OF assms])
  have f2: "follows P w w2" unfolding w2_def
    by (rule follows_trans [OF follows_trans [OF f1 follows_log] follows_tick [OF assms]])
  have "follows P w2 (set_mgr (resize_apply sid sz (mgr w2)) w2)" by (rule follows_mgr, rule manager_step.resize)
  then show ?thesis using f1 f2 follows_trans
    by (simp add: Session_Resize_def Let_def w1_def [symmetric] w2_def [symmetric] split: option.split)
qed

lemma follows_Session_InputTo:
  assumes "rely_ok e"
  shows "follows P w (snd (Session_InputTo e sid data w))"
proof -
  define w1 where "w1 = tick e w"
  have f1: "follows P w w1" unfolding w1_def by (rule follows_tick [OF assms])
  have "follows P w1 ((log_call c w1)\<lparr>w_tty := t\<rparr>)" "follows P w1 (w1\<lparr>w_tty := t\<rparr>)" for c t
    by (rule follows_other; simp)+
  from this [THEN follows_trans [OF f1]] f1 show ?thesis
    unfolding Session_InputTo_def Let_def w1_def [symmetric]
    by (simp split: option.split prod.split)
qed

lemma follows_Session_Kill:
  assumes "rely_ok e"
  shows "follows P w (snd (Session_Kill e sid w))"
proof -
  define w1 where "w1 = tick e w"
  obtain b m1 where k: "kill_begin sid (mgr w1) = (b, m1)" by fastforce
  have "manager_step (w_sys w1) (LKill sid) ((w_sys w1)\<lparr>y_m := m1\<rparr>)"
    using manager_step.kill [of "w_sys w1" sid] k by simp
  then have f1: "follows P w (set_mgr m1 w1)" unfolding w1_def by (rule follows_at [OF assms])
  have kill: "follows P v (set_mgr (kill_result sid err (mgr (tick e (log_call c v)))) (tick e (log_call c v)))" for v c err
    by (rule follows_trans [OF follows_log], rule follows_at [OF assms], rule manager_step.killed)
  have "follows P (set_mgr m1 w1) (snd (Session_Kill e sid w))"
    using follows_trans [OF kill follows_tick [OF assms]] follows_tick [OF assms] k
    by (simp add: Session_Kill_def Let_def w1_def [symmetric])
  then show ?thesis using f1 follows_trans by blast
qed

lemma follows_KillWait: "rely_ok e \<Longrightarrow> follows P w (snd (Manager_KillWait e sid w))"
  using follows_tick [of e P w] follows_trans [OF follows_tick follows_Session_Kill]
  by (simp add: Manager_KillWait_def Let_def split: sum.split)

section \<open>Sending follows\<close>

text \<open>The two shapes of frames the adapter makes: answers to a request, and events.\<close>

definition response_frame :: "frame \<Rightarrow> ProtocolConfig \<Rightarrow> frame \<Rightarrow> bool" where
  "response_frame request c f \<longleftrightarrow>
     Header f = \<lparr>PayloadLength = of_nat (length (Payload f)), Version = pc_Version c,
       MessageType = MessageType (Header request), Flags = FlagResponse,
       CorrelationID = CorrelationID (Header request), StreamID = StreamID (Header request)\<rparr>
     \<and> length (Payload f) < 2 ^ 32 \<and> pc_Version c \<noteq> 0 \<and> MessageType (Header request) \<noteq> 0
     \<and> CorrelationID (Header request) \<noteq> 0 \<and> Flags (Header request) = FlagRequest"

definition event_frame :: "MessageType \<Rightarrow> StreamID \<Rightarrow> ProtocolConfig \<Rightarrow> frame \<Rightarrow> bool" where
  "event_frame t sid c f \<longleftrightarrow>
     Header f = \<lparr>PayloadLength = of_nat (length (Payload f)), Version = pc_Version c, MessageType = t,
       Flags = FlagEvent, CorrelationID = 0, StreamID = sid\<rparr>
     \<and> length (Payload f) < 2 ^ 32 \<and> pc_Version c \<noteq> 0 \<and> t \<noteq> 0"

lemma follows_SendOwned:
  assumes "rely_ok e" and "P (cfg w) (f, class)"
  shows "follows P w (snd (peer_SendOwned e f class w))"
proof -
  have "follows P w (tick e w)" by (rule follows_tick [OF assms(1)])
  then show ?thesis using assms(2) by (simp add: peer_SendOwned_def Let_def follows_def idle_def)
qed

lemma respond_cases:
  obtains (fails) err where "respond e request v w = (Some err, w)"
  | (sends) f where "Marshal (e_json e) (JResponse v) = Inr (Payload f)" "response_frame request (cfg w) f"
      "respond e request v w = peer_SendOwned e f TrafficControl w"
proof (cases "Marshal (e_json e) (JResponse v)")
  case (Inr payload)
  let ?h = "\<lparr>PayloadLength = 0, Version = pc_Version (cfg w), MessageType = MessageType (Header request),
    Flags = FlagResponse, CorrelationID = CorrelationID (Header request), StreamID = StreamID (Header request)\<rparr>"
  show ?thesis
  proof (cases "newFrame ?h payload")
    case n: (Inr f)
    then have f: "f = \<lparr>Header = ?h\<lparr>PayloadLength := of_nat (length payload)\<rparr>, Payload = payload\<rparr>"
      "length payload < 2 ^ 32" "pc_Version (cfg w) \<noteq> 0" "MessageType (Header request) \<noteq> 0"
      "CorrelationID (Header request) \<noteq> 0" by (auto simp: newFrame_Inr_iff)
    show ?thesis
    proof (cases "Flags (Header request) = FlagRequest")
      case True
      have "Respond_frame request f = Inr (f, TrafficControl)"
        using True f(4) by (simp add: f(1) Respond_frame_def Clone_def Let_def)
      then have "respond e request v w = peer_SendOwned e f TrafficControl w"
        using Inr n by (simp add: respond_def NewOwnedFrame_def peer_Respond_def)
      moreover have "response_frame request (cfg w) f" using f True by (simp add: response_frame_def)
      moreover have "Marshal (e_json e) (JResponse v) = Inr (Payload f)" using Inr by (simp add: f(1))
      ultimately show ?thesis by (intro sends)
    next
      case False
      then show ?thesis using fails Inr n by (simp add: respond_def NewOwnedFrame_def peer_Respond_def Respond_frame_def)
    qed
  qed (use fails Inr in \<open>simp add: respond_def NewOwnedFrame_def\<close>)
qed (use fails in \<open>simp add: respond_def\<close>)

definition may_answer :: "(ProtocolConfig \<Rightarrow> frame \<times> TrafficClass \<Rightarrow> bool) \<Rightarrow> frame \<Rightarrow> bool" where
  "may_answer P request \<longleftrightarrow> (\<forall>c f. response_frame request c f \<longrightarrow> P c (f, TrafficControl))"

definition may_emit ::
    "(ProtocolConfig \<Rightarrow> frame \<times> TrafficClass \<Rightarrow> bool) \<Rightarrow> (MessageTypes \<Rightarrow> MessageType) \<Rightarrow> StreamID \<Rightarrow> TrafficClass \<Rightarrow> bool" where
  "may_emit P t sid class \<longleftrightarrow> (\<forall>c f. event_frame (t (pc_Types c)) sid c f \<longrightarrow> P c (f, class))"

lemma follows_respond:
  assumes "rely_ok e" and "may_answer P request"
  shows "follows P w (snd (respond e request v w))"
  using assms
  by (cases e request v w rule: respond_cases) (auto simp: may_answer_def intro: follows_SendOwned)

lemma follows_respondError:
  assumes "rely_ok e" and "may_answer P request"
  shows "follows P w (snd (respondError e request code cause w))"
  unfolding respondError_def by (rule follows_respond [OF assms])

lemma follows_respondOperationError:
  assumes "rely_ok e" and "may_answer P request"
  shows "follows P w (snd (respondOperationError e request cause w))"
  unfolding respondOperationError_def by (rule follows_respondError [OF assms])

lemma follows_emitJSON:
  assumes "rely_ok e" and "may_emit P t sid class"
  shows "follows P w (snd (emitJSON e (t (pc_Types (cfg w))) sid v class w))"
  using assms
  by (auto simp: emitJSON_def NewOwnedFrame_def newFrame_Inr_iff event_frame_def may_emit_def
      intro!: follows_SendOwned split: sum.split)

lemma follows_emitEmpty:
  assumes "rely_ok e" and "may_emit P t sid class"
  shows "follows P w (snd (emitEmpty e (t (pc_Types (cfg w))) sid class w))"
  using assms
  by (auto simp: emitEmpty_def NewFrame_def newFrame_Inr_iff event_frame_def may_emit_def
      intro!: follows_SendOwned split: sum.split)

lemmas follows_answers = follows_respond follows_respondError follows_respondOperationError

section \<open>Handlers follow\<close>

lemma follows_handleOpen:
  assumes "rely_ok e" and "may_answer P request"
  shows "follows P w (snd (handleOpen e request w))"
proof -
  note s = follows_answers [OF assms]
  have "follows P w1 (snd (case r of Inl err \<Rightarrow> respondOperationError e request err w1
      | Inr sid \<Rightarrow> (case Session_Info e sid w1 of (info, w2) \<Rightarrow>
          respond e request ((response (pc_Version (cfg w2)))\<lparr>rs_Session := info\<rparr>) w2)))" for r w1
    using s(3) follows_trans [OF follows_Session_Info [OF assms(1)] s(1)]
    by (cases r) (simp_all add: split_beta)
  from follows_trans [OF follows_Manager_Open [OF assms(1)] this] s show ?thesis
    by (simp add: handleOpen_def Let_def split_beta split: sum.split option.split)
qed

lemma follows_list_page:
  assumes "rely_ok e" and "may_answer P request"
  shows "follows P w (snd (list_page e request generation all position limit w))"
  using follows_answers [OF assms] by (simp add: list_page_def returns_def Let_def split: sum.split)

lemma follows_handleList:
  assumes "rely_ok e" and "may_answer P request"
  shows "follows P w (snd (handleList e request w))"
proof -
  define w1 where "w1 = tick e w"
  have f: "follows P w w1" unfolding w1_def by (rule follows_tick [OF assms(1)])
  note s = follows_answers [OF assms] follows_trans [OF f follows_answers(2) [OF assms]]
    follows_trans [OF f follows_list_page [OF assms]]
  show ?thesis unfolding handleList_def Let_def w1_def [symmetric] returns_def
    using s by (simp split: sum.split option.split prod.split)
qed

lemma Manager_Get_follows:
  assumes "rely_ok e"
  obtains b w1 where "Manager_Get e sid w = (b, w1)" "follows P w w1"
  using follows_Manager_Get [OF assms, of P w sid] by (cases "Manager_Get e sid w") auto

lemma follows_handleInspect:
  assumes "rely_ok e" and "may_answer P request"
  shows "follows P w (snd (handleInspect e request w))"
proof (rule Manager_Get_follows [OF assms(1)])
  fix b w1 assume get: "Manager_Get e (sid_of request) w = (b, w1)" and f: "follows P w w1"
  note s = follows_answers [OF assms] follows_trans [OF f follows_answers(2) [OF assms]]
  have "follows P w (snd (case Session_Info e (sid_of request) w1 of (info, w2) \<Rightarrow>
      respond e request ((response (pc_Version (cfg w2)))\<lparr>rs_Session := info\<rparr>) w2))"
    using follows_trans [OF f follows_trans [OF follows_Session_Info [OF assms(1)] s(1)]] by (simp add: split_beta)
  then show ?thesis using s by (cases b) (simp_all add: handleInspect_def get split: option.split)
qed

lemma follows_attach_cleanup:
  assumes "rely_ok e"
  shows "follows P w (attach_cleanup e sid k w)"
  unfolding attach_cleanup_def Let_def
  by (rule follows_tick_then [OF assms], rule follows_trans [OF _ follows_Attachment_Close [OF assms]]) simp

lemma follows_attach_announce:
  assumes "rely_ok e" and "may_answer P request"
    and "may_emit P mt_ReplayBegin (sid_of request) TrafficControl" "may_emit P mt_ReplayEnd (sid_of request) TrafficControl"
  shows "follows P w (snd (attach_announce e request k result w))"
proof -
  let ?sid = "sid_of request" and ?t = "pc_Types (cfg w)" and ?v = "pc_Version (cfg w)"
  note clean = follows_trans [OF _ follows_attach_cleanup [OF assms(1)]]
  obtain r1 w1 where 1: "respond e request ((response ?v)\<lparr>rs_Attach := Some result\<rparr>) w = (r1, w1)" by fastforce
  have f1: "follows P w w1" using follows_respond [OF assms(1,2), of w] 1 by (metis snd_conv)
  then have c1: "cfg w1 = cfg w" by (simp add: follows_def)
  obtain r2 w2 where 2: "emitJSON e (mt_ReplayBegin ?t) ?sid
      (JReplay \<lparr>rm_Version = ?v, rm_First = ar_ReplayFirst result, rm_Last = ar_ReplayLast result,
        rm_NextLive = ar_NextLive result, rm_Truncated = ar_Truncated result\<rparr>) TrafficControl w1 = (r2, w2)" by fastforce
  have f2: "follows P w w2"
    using follows_trans [OF f1 follows_emitJSON [OF assms(1,3)]] 2 c1 by (metis snd_conv)
  then have c2: "cfg w2 = cfg w" by (simp add: follows_def)
  obtain r3 v3 where 3: "emitEmpty e (mt_ReplayEnd ?t) ?sid TrafficControl w2 = (r3, v3)" by fastforce
  have f3: "follows P w v3"
    using follows_trans [OF f2 follows_emitEmpty [OF assms(1,4)]] 3 c2 by (metis snd_conv)
  define w3 where "w3 = (if ar_ReplayLast result = 0 then set_sink k \<lparr>sk_streamID = ?sid, sk_replayLast = 0,
    sk_replayEnded = True\<rparr> v3 else w2)"
  have f3': "follows P w w3" using f2 follows_trans [OF f3 follows_sink] by (simp add: w3_def)
  have f4: "follows P w (snd (Attachment_Activate e k w3))"
    by (rule follows_trans [OF f3' follows_Activate [OF assms(1)]])
  then show ?thesis
    using clean [OF f1] clean [OF f2] clean [OF f3] clean [OF f4] f4
    by (auto simp: attach_announce_def Let_def 1 2 3 w3_def split: option.split prod.split)
qed

lemma follows_handleAttach:
  assumes "rely_ok e" and "may_answer P request"
    and "may_emit P mt_ReplayBegin (sid_of request) TrafficControl" "may_emit P mt_ReplayEnd (sid_of request) TrafficControl"
  shows "follows P w (snd (handleAttach e request w))"
proof (rule Manager_Get_follows [OF assms(1)])
  fix b w1 assume get: "Manager_Get e (sid_of request) w = (b, w1)" and f1: "follows P w w1"
  define w2 where "w2 = tick e w1"
  have f2: "follows P w w2" unfolding w2_def by (rule follows_trans [OF f1 follows_tick [OF assms(1)]])
  have ok: "follows P w (snd (attach_announce e request k result
      (set_attachments (mput (sid_of request) k (pr_attachments (w_proto (tick e (set_sink k s w3))))) (tick e (set_sink k s w3)))))"
    if "follows P w w3" for k s w3 result
    by (rule follows_trans [OF that], rule follows_trans [OF follows_sink], rule follows_tick_then [OF assms(1)],
      rule follows_trans [OF follows_attachments follows_attach_announce [OF assms]])
  have f3: "follows P w w3" if "Session_Attach e (sid_of request) opts w2 = (r, w3)" for opts r w3
    using follows_trans [OF f2 follows_Session_Attach [OF assms(1)]] that by (metis snd_conv)
  note s = follows_answers(2) [OF assms(1,2)] follows_trans [OF f1 follows_answers(2) [OF assms(1,2)]]
    follows_trans [OF f2 follows_answers(2) [OF assms(1,2)]] follows_trans [OF f3 follows_answers(3) [OF assms(1,2)]]
  show ?thesis using s ok [OF f3]
    by (cases b) (simp_all add: handleAttach_def Let_def get w2_def [symmetric] split: sum.split option.split prod.split)
qed

lemma follows_handleDetach:
  assumes "rely_ok e" and "may_answer P request"
  shows "follows P w (snd (handleDetach e request w))"
proof -
  have "follows P w (set_attachments as (tick e w))" for as
    by (rule follows_tick_then [OF assms(1)]) simp
  note s = follows_answers [OF assms] follows_trans [OF this follows_answers(2) [OF assms]]
    follows_trans [OF follows_trans [OF this follows_Attachment_Close [OF assms(1)]] follows_answers(1) [OF assms]]
  show ?thesis using s by (simp add: handleDetach_def Let_def split: option.split)
qed

lemma follows_handleInput:
  assumes "rely_ok e"
  shows "follows P w (snd (handleInput e request w))"
proof (rule Manager_Get_follows [OF assms])
  fix b w1 assume "Manager_Get e (sid_of request) w = (b, w1)" and "follows P w w1"
  then show ?thesis using follows_trans [OF _ follows_Session_InputTo [OF assms]]
    by (cases b) (simp_all add: handleInput_def split: option.split)
qed

lemma follows_handleResize:
  assumes "rely_ok e" and "may_answer P request"
  shows "follows P w (snd (handleResize e request w))"
proof (rule Manager_Get_follows [OF assms(1)])
  fix b w1 assume get: "Manager_Get e (sid_of request) w = (b, w1)" and f1: "follows P w w1"
  have f2: "follows P w w2" if "Session_Resize e (sid_of request) sz w1 = (r, w2)" for sz r w2
    using follows_trans [OF f1 follows_Session_Resize [OF assms(1)]] that by (metis snd_conv)
  note s = follows_answers [OF assms] follows_trans [OF f1 follows_answers(2) [OF assms]]
    follows_trans [OF f2 follows_answers(3) [OF assms]] follows_trans [OF f2 follows_answers(1) [OF assms]]
  show ?thesis using s
    by (cases b) (simp_all add: handleResize_def get split: sum.split option.split prod.split)
qed

lemma follows_handleKill:
  assumes "rely_ok e" and "may_answer P request"
  shows "follows P w (snd (handleKill e request w))"
proof -
  have f: "follows P w w1" if "Manager_KillWait e (sid_of request) w = (r, w1)" for r w1
    using follows_KillWait [OF assms(1), of P w] that by (metis snd_conv)
  note s = follows_answers [OF assms] follows_trans [OF f follows_answers(3) [OF assms]]
    follows_trans [OF f follows_answers(1) [OF assms]]
  show ?thesis using s f by (simp add: handleKill_def returns_def split: sum.split option.split prod.split)
qed

section \<open>Everything the adapter does\<close>

datatype protocol_action =
    ActHandle protocol_handler frame | ActSink nat AttachmentEvent | ActWatch StreamID nat | ActClose

fun run_action :: "env \<Rightarrow> protocol_action \<Rightarrow> world \<Rightarrow> world" where
  "run_action e (ActHandle h f) w = snd (run_handler e h f w)"
| "run_action e (ActSink k ev) w = snd (sink_Send e k ev w)"
| "run_action e (ActWatch sid k) w = watchAttachment e sid k w"
| "run_action e ActClose w = Protocol_Close e w"

text \<open>The frames each action may hand to the peer, with their traffic class.\<close>

fun action_frame :: "world \<Rightarrow> protocol_action \<Rightarrow> ProtocolConfig \<Rightarrow> frame \<times> TrafficClass \<Rightarrow> bool" where
  "action_frame w (ActHandle h request) c (f, class) \<longleftrightarrow>
     class = TrafficControl
     \<and> (response_frame request c f
        \<or> h = HandleAttach \<and> (event_frame (mt_ReplayBegin (pc_Types c)) (sid_of request) c f
                                \<or> event_frame (mt_ReplayEnd (pc_Types c)) (sid_of request) c f))"
| "action_frame w (ActSink k ev) c (f, class) \<longleftrightarrow>
     (case mget (pr_sinks (w_proto w)) k of
        None \<Rightarrow> False
      | Some s \<Rightarrow>
          (case ev of
             AttachmentOutput output \<Rightarrow>
               class = TrafficBulk \<and> event_frame (mt_Output (pc_Types c)) (sk_streamID s) c f \<and> Payload f = Data output
               \<or> class = TrafficControl \<and> event_frame (mt_ReplayEnd (pc_Types c)) (sk_streamID s) c f
           | AttachmentExit _ \<Rightarrow>
               class = TrafficControl \<and> event_frame (mt_Exit (pc_Types c)) (sk_streamID s) c f))"
| "action_frame w (ActWatch sid k) c (f, class) \<longleftrightarrow>
     class = TrafficControl \<and> event_frame (mt_Error (pc_Types c)) sid c f"
| "action_frame w ActClose c (f, class) \<longleftrightarrow> False"

lemma follows_handler:
  assumes "rely_ok e"
  shows "follows (action_frame w0 (ActHandle h f)) w (snd (run_handler e h f w))"
proof -
  have a: "may_answer (action_frame w0 (ActHandle h f)) f"
    by (simp add: may_answer_def)
  have b: "h = HandleAttach \<Longrightarrow> may_emit (action_frame w0 (ActHandle h f)) mt_ReplayBegin (sid_of f) TrafficControl"
    "h = HandleAttach \<Longrightarrow> may_emit (action_frame w0 (ActHandle h f)) mt_ReplayEnd (sid_of f) TrafficControl"
    by (simp_all add: may_emit_def)
  show ?thesis
    using follows_handleOpen [OF assms a] follows_handleList [OF assms a] follows_handleInspect [OF assms a]
      follows_handleAttach [OF assms a b] follows_handleDetach [OF assms a] follows_handleInput [OF assms]
      follows_handleResize [OF assms a] follows_handleKill [OF assms a]
    by (cases h) (simp_all add: returns_def)
qed

lemma follows_sink_Send:
  assumes "rely_ok e"
  shows "follows (action_frame w (ActSink k ev)) w (snd (sink_Send e k ev w))"
proof (cases "mget (pr_sinks (w_proto w)) k")
  case (Some s)
  let ?P = "action_frame w (ActSink k ev)" and ?sid = "sk_streamID s"
  show ?thesis
  proof (cases ev)
    case (AttachmentOutput ev0)
    let ?h = "\<lparr>PayloadLength = 0, Version = pc_Version (cfg w), MessageType = mt_Output (pc_Types (cfg w)),
      Flags = FlagEvent, CorrelationID = 0, StreamID = ?sid\<rparr>"
    have emit: "may_emit ?P mt_ReplayEnd ?sid TrafficControl" using Some AttachmentOutput by (simp add: may_emit_def)
    have send: "follows ?P w w1" if "NewFrame ?h (Data ev0) = Inr f" "peer_SendOwned e f TrafficBulk w = (r, w1)" for f r w1
    proof -
      have "?P (cfg w) (f, TrafficBulk)"
        using that(1) Some AttachmentOutput by (auto simp: NewFrame_def newFrame_Inr_iff event_frame_def)
      from follows_SendOwned [of e ?P, OF assms this] that(2) show ?thesis by (metis snd_conv)
    qed
    have ended: "follows ?P w (snd (emitEmpty e (mt_ReplayEnd (pc_Types (cfg w1))) ?sid TrafficControl (set_sink k s1 w1)))"
      if "follows ?P w w1" for w1 s1
    proof -
      have "cfg (set_sink k s1 w1) = cfg w1" by (simp add: set_sink_def)
      then show ?thesis
        using follows_trans [OF that follows_trans [OF follows_sink follows_emitEmpty [OF assms emit]]] by metis
    qed
    show ?thesis using Some AttachmentOutput send ended [OF send]
      by (simp add: sink_Send_def Let_def split: sum.split prod.split option.split del: action_frame.simps)
  next
    case (AttachmentExit status)
    have "may_emit ?P mt_Exit ?sid TrafficControl" using Some AttachmentExit by (simp add: may_emit_def)
    from follows_emitJSON [OF assms this] show ?thesis using Some AttachmentExit by (simp add: sink_Send_def Let_def)
  qed
qed (simp add: sink_Send_def)

lemma follows_watch:
  assumes "rely_ok e"
  shows "follows (action_frame w0 (ActWatch sid k)) w (watchAttachment e sid k w)"
proof -
  let ?P = "action_frame w0 (ActWatch sid k)"
  define w1 where "w1 = tick e w"
  define w2 where "w2 = (if mget (pr_attachments (w_proto w1)) sid = Some k
    then set_attachments (mdel sid (pr_attachments (w_proto w1))) w1 else w1)"
  define w3 where "w3 = tick e w2"
  have f1: "follows ?P w w1" unfolding w1_def by (rule follows_tick [OF assms])
  have "follows ?P w1 w2" by (simp add: w2_def)
  moreover have "follows ?P w2 w3" unfolding w3_def by (rule follows_tick [OF assms])
  ultimately have f3: "follows ?P w w3" using f1 follows_trans by blast
  have "may_emit ?P mt_Error sid TrafficControl" by (simp add: may_emit_def)
  note f3' = follows_trans [OF f3 follows_emitJSON [OF assms this]]
  have f4: "follows ?P w ((snd (emitJSON e (mt_Error (pc_Types (cfg w3))) sid v TrafficControl w3))\<lparr>w_peerClosed := True\<rparr>)" for v
    by (rule follows_trans [OF f3'], rule follows_other) simp_all
  show ?thesis using f1 f3 f4
    by (simp add: watchAttachment_def Let_def w1_def [symmetric] w2_def [symmetric] w3_def [symmetric]
        split: option.split del: action_frame.simps)
qed

lemma follows_Protocol_Close:
  assumes "rely_ok e"
  shows "follows P w (Protocol_Close e w)"
proof -
  define w1 where "w1 = tick e w"
  define v where "v = w1\<lparr>w_proto := (w_proto w1)\<lparr>pr_closed := True,
    pr_ctx := (if pr_ctx (w_proto w1) = None then Some (Lib CtxCanceled) else pr_ctx (w_proto w1))\<rparr>\<rparr>"
  have f1: "follows P w w1" unfolding w1_def by (rule follows_tick [OF assms])
  have "follows P w1 v" by (rule follows_other) (simp_all add: v_def)
  then have fv: "follows P w v" using f1 follows_trans by blast
  have "follows P u (fold (Attachment_Close e) ks u)" for ks u
  proof (induction ks arbitrary: u)
    case (Cons k ks)
    show ?case using follows_trans [OF follows_Attachment_Close [OF assms] Cons.IH] by simp
  qed simp
  then have "follows P w (fold (Attachment_Close e) ks (set_attachments [] (tick e v)))" for ks
    using follows_trans [OF fv follows_tick_then [OF assms follows_trans [OF follows_attachments]]] by blast
  then show ?thesis using f1 by (simp add: Protocol_Close_def Let_def w1_def [symmetric] v_def [symmetric])
qed

lemma follows_action: "rely_ok e \<Longrightarrow> follows (action_frame w act) w (run_action e act w)"
  using follows_handler follows_sink_Send follows_watch follows_Protocol_Close by (cases act) simp_all

end
