(* ===== verification/Pty_Protocol_Props.thy ===== *)
theory Pty_Protocol_Props
  imports Pty_Protocol_Runs Pty_Reach Mux_Peer_In
begin

text \<open>
  What the protocol adapter of \<open>pty/protocol.go\<close> guarantees: it refines the manager, sends only
  well-formed frames of its own types, does nothing that was not authorized, and registers
  exactly its eight handlers.
\<close>

section \<open>A small instance\<close>

definition demo_types :: MessageTypes where
  "demo_types = \<lparr>mt_Open = 1, mt_List = 2, mt_Inspect = 3, mt_Attach = 4, mt_Detach = 5, mt_Input = 6,
     mt_Output = 7, mt_Resize = 8, mt_Kill = 9, mt_Exit = 10, mt_ReplayBegin = 11, mt_ReplayEnd = 12, mt_Error = 13\<rparr>"

definition demo_json :: json where
  "demo_json = \<lparr>Marshal = (\<lambda>_. Inr [0x7B, 0x7D]),
     UnmarshalOpen = (\<lambda>_. Inr \<lparr>oq_Version = 1, oq_Command = ''sh'', oq_Args = [], oq_Env = None, oq_Dir = '''',
       oq_InitialSize = \<lparr>Cols = 80, Rows = 24\<rparr>\<rparr>),
     UnmarshalAttach = (\<lambda>_. Inr \<lparr>aq_Version = 1, aq_Replay = ReplayHistory, aq_ResumeAfter = 0\<rparr>),
     UnmarshalList = (\<lambda>_. Inr \<lparr>lq_Version = 1, lq_Cursor = '''', lq_Limit = 0\<rparr>),
     UnmarshalVersion = (\<lambda>_. Inr 1), UnmarshalResponse = (\<lambda>_. Inr (response 1))\<rparr>"

definition demo_env :: env where
  "demo_env = \<lparr>e_json = demo_json, e_errText = (\<lambda>_. ''error''), e_maxFrame = 65536, e_rely = (\<lambda>_ _ s. s),
     e_ctx = (\<lambda>_. None), e_send = (\<lambda>_ _. None), e_start = (\<lambda>_ _. None), e_now = (\<lambda>_. 0),
     e_resize = (\<lambda>_. None), e_kill = (\<lambda>_. None),
     e_writer = (\<lambda>_ h d. (int (length d), None, h @ [d])), e_raced = (\<lambda>_. False)\<rparr>"

definition demo_protocol :: "(AuthorizationRequest \<Rightarrow> gerror option) option \<Rightarrow> Protocol" where
  "demo_protocol auth = \<lparr>pr_config = DefaultProtocolConfig\<lparr>pc_Types := demo_types, pc_Authorize := auth\<rparr>,
     pr_ctx = None, pr_attachments = [], pr_sinks = [], pr_closed = False\<rparr>"

definition demo_world :: "Manager \<Rightarrow> (AuthorizationRequest \<Rightarrow> gerror option) option \<Rightarrow> world" where
  "demo_world m auth = \<lparr>w_clock = 0, w_own = None, w_sys = new_msys m, w_proto = demo_protocol auth,
     w_calls = [], w_tty = (\<lambda>_. []), w_sent = [], w_peerClosed = False\<rparr>"

definition demo_call :: "MessageType \<Rightarrow> StreamID \<Rightarrow> bytes \<Rightarrow> frame" where
  "demo_call t sid payload = \<lparr>Header = \<lparr>PayloadLength = of_nat (length payload), Version = 1, MessageType = t,
     Flags = FlagRequest, CorrelationID = 5, StreamID = sid\<rparr>, Payload = payload\<rparr>"

lemma demo_rely: "rely_ok demo_env"
  by (simp add: rely_ok_def demo_env_def)

section \<open>Refinement of the manager\<close>

lemma actions_follow:
  assumes "rely_ok e" and "idle w"
  shows "idle (fold (run_action e) acts w) \<and> runs (w_sys w) (w_sys (fold (run_action e) acts w))"
  using assms(2)
proof (induction acts arbitrary: w)
  case (Cons act acts)
  have "idle (run_action e act w) \<and> runs (w_sys w) (w_sys (run_action e act w))"
    using follows_action [OF assms(1), of w act] Cons.prems by (simp add: follows_def)
  then show ?case using Cons.IH [of "run_action e act w"] runs_trans by simp blast
qed simp

text \<open>
  (C11) The protocol adapter refines the session manager: whatever handlers, sinks, watchers and
  \<open>Close\<close> run, in any order and with any interference of the rest of the program, the manager
  only makes its own steps, so every reachable state of the combined system is a reachable
  state of the manager, with all its limits and delivery guarantees; and no call leaves a
  reservation behind.
\<close>

theorem protocol_refines_manager:
  assumes "NewManager parent factory c = Inr m" and "trace manager_step (new_msys m) ls (w_sys w)"
    and "w_own w = None" and "rely_ok e"
  shows "(\<exists>ls'. trace manager_step (new_msys m) (ls @ ls') (w_sys (fold (run_action e) acts w)))
    \<and> w_own (fold (run_action e) acts w) = None"
proof -
  have "life_ok (new_msys m)" using NewManager_ok(1) [OF assms(1)] by (simp add: deliver_ok_def)
  then have "life_ok (w_sys w)" using manager_life.trace_keeps [OF assms(2)] by blast
  then have "idle w" using assms(3) by (simp add: idle_def)
  from actions_follow [OF assms(4) this, of acts] obtain ls' where
    "trace manager_step (w_sys w) ls' (w_sys (fold (run_action e) acts w))"
    "w_own (fold (run_action e) acts w) = None"
    unfolding runs_def idle_def by blast
  then show ?thesis using trace_append [where step = manager_step] assms(2) by fast
qed

theorem protocol_refines_manager_witness:
  "\<exists>ls'. trace manager_step (new_msys demo_m0) ls'
     (w_sys (fold (run_action demo_env) [ActHandle HandleOpen (demo_call 1 0 [1]), ActClose] (demo_world demo_m0 None)))"
proof -
  have "w_own (demo_world demo_m0 None) = None" "trace manager_step (new_msys demo_m0) [] (w_sys (demo_world demo_m0 None))"
    by (simp_all add: demo_world_def trace.trace_refl)
  from protocol_refines_manager [OF demo_new this(2,1) demo_rely,
      where acts = "[ActHandle HandleOpen (demo_call 1 0 [1]), ActClose]"]
  show ?thesis unfolding append_Nil by (rule conjunct1)
qed

section \<open>Frames\<close>

lemma event_frame_valid:
  assumes "event_frame t sid c f" and "go_int (MaxFrameBytes vc)" and "Validator vc = None"
    and "MinVersion (withDefaults vc) \<le> pc_Version c" and "pc_Version c \<le> MaxVersion (withDefaults vc)"
    and "int (length (Payload f)) \<le> MaxFrameBytes (withDefaults vc)"
  shows "Validate vc f = None"
  using assms by (auto simp: event_frame_def Validate_iff well_formed_def uint_stamp)

lemma response_frame_valid:
  assumes "response_frame request c f" and "go_int (MaxFrameBytes vc)" and "Validator vc = None"
    and "MinVersion (withDefaults vc) \<le> pc_Version c" and "pc_Version c \<le> MaxVersion (withDefaults vc)"
    and "int (length (Payload f)) \<le> MaxFrameBytes (withDefaults vc)"
  shows "Validate vc f = None"
  using assms by (auto simp: response_frame_def Validate_iff well_formed_def uint_stamp)

lemma action_frame_valid:
  assumes "action_frame w act c (f, class)" and "go_int (MaxFrameBytes vc)" and "Validator vc = None"
    and "MinVersion (withDefaults vc) \<le> pc_Version c" and "pc_Version c \<le> MaxVersion (withDefaults vc)"
    and "int (length (Payload f)) \<le> MaxFrameBytes (withDefaults vc)"
  shows "Validate vc f = None"
  using assms(1) event_frame_valid [OF _ assms(2-6)] response_frame_valid [OF _ assms(2-6)]
  by (cases act) (auto split: option.splits AttachmentEvent.splits)

text \<open>
  (C18) Every frame the adapter hands to the peer has the type its origin calls for: a handler
  sends responses that carry the request's message type, correlation and stream, and
  \<open>handleAttach\<close> also replay events on that stream; a sink sends output (bulk traffic, the
  chunk's bytes unchanged), replay-end or exit events on its own stream; a watcher sends error
  events. All else goes out as control traffic, and each of these frames passes
  \<open>Frame.Validate\<close> under every configuration whose versions and size limit admit it.
\<close>

theorem protocol_frames_typed:
  assumes "rely_ok e"
  shows "\<exists>fs. w_sent (run_action e act w) = w_sent w @ fs
    \<and> (\<forall>f class. (f, class) \<in> set fs \<longrightarrow> action_frame w act (cfg w) (f, class)
        \<and> (\<forall>vc. go_int (MaxFrameBytes vc) \<and> Validator vc = None
             \<and> MinVersion (withDefaults vc) \<le> pc_Version (cfg w) \<and> pc_Version (cfg w) \<le> MaxVersion (withDefaults vc)
             \<and> int (length (Payload f)) \<le> MaxFrameBytes (withDefaults vc)
             \<longrightarrow> Validate vc f = None))"
proof -
  from follows_action [OF assms, of w act] obtain fs where
    fs: "w_sent (run_action e act w) = w_sent w @ fs" "\<forall>x \<in> set fs. action_frame w act (cfg w) x"
    unfolding follows_def by blast
  then show ?thesis using action_frame_valid by (intro exI [of _ fs]) blast
qed

theorem protocol_frames_typed_witness:
  "\<exists>f class. w_sent (run_action demo_env (ActHandle HandleInspect (demo_call 3 1 [])) (demo_world demo_m0 None)) = [(f, class)]
     \<and> class = TrafficControl \<and> Flags (Header f) = FlagResponse \<and> MessageType (Header f) = 3
     \<and> CorrelationID (Header f) = 5"
proof -
  let ?w = "demo_world demo_m0 None" and ?a = "ActHandle HandleInspect (demo_call 3 1 [])"
  have len: "length (w_sent (run_action demo_env ?a ?w)) = 1"
    by (simp add: demo_world_def demo_env_def demo_call_def handleInspect_def authorize_def demo_protocol_def
        DefaultProtocolConfig_def Manager_Get_def tick_def Let_def Get_def registered_def new_msys_def demo_m0_val
        respondError_def respond_def demo_json_def NewOwnedFrame_def newFrame_def Validate_def lenLimit_def
        withDefaults_def header_validate_def classCount_def peer_Respond_def Respond_frame_def peer_SendOwned_def returns_def)
  have e: "w_sent ?w = []" by (simp add: demo_world_def)
  obtain f cl where fs: "w_sent (run_action demo_env ?a ?w) = [(f, cl)]"
    using len by (cases "w_sent (run_action demo_env ?a ?w)") auto
  from protocol_frames_typed [OF demo_rely, of ?a ?w] have "action_frame ?w ?a (cfg ?w) (f, cl)"
    unfolding fs e by auto
  then show ?thesis using fs by (auto simp: response_frame_def demo_call_def)
qed

section \<open>Authorization\<close>

text \<open>The question a handler puts to \<open>Authorize\<close> for a request.\<close>

fun auth_request :: "env \<Rightarrow> protocol_handler \<Rightarrow> frame \<Rightarrow> AuthorizationRequest" where
  "auth_request e HandleOpen f = \<lparr>au_Operation = OperationOpen, au_SessionID = 0,
     au_ProcessSpec = (case UnmarshalOpen (e_json e) (Payload f) of Inl _ \<Rightarrow> None | Inr r \<Rightarrow> Some (open_spec r))\<rparr>"
| "auth_request e HandleList f = \<lparr>au_Operation = OperationList, au_SessionID = 0, au_ProcessSpec = None\<rparr>"
| "auth_request e HandleInspect f = \<lparr>au_Operation = OperationInspect, au_SessionID = sid_of f, au_ProcessSpec = None\<rparr>"
| "auth_request e HandleAttach f = \<lparr>au_Operation = OperationAttach, au_SessionID = sid_of f, au_ProcessSpec = None\<rparr>"
| "auth_request e HandleDetach f = \<lparr>au_Operation = OperationDetach, au_SessionID = sid_of f, au_ProcessSpec = None\<rparr>"
| "auth_request e HandleInput f = \<lparr>au_Operation = OperationInput, au_SessionID = sid_of f, au_ProcessSpec = None\<rparr>"
| "auth_request e HandleResize f = \<lparr>au_Operation = OperationResize, au_SessionID = sid_of f, au_ProcessSpec = None\<rparr>"
| "auth_request e HandleKill f = \<lparr>au_Operation = OperationKill, au_SessionID = sid_of f, au_ProcessSpec = None\<rparr>"

text \<open>At most one frame, an answer to the request, and nothing else.\<close>

definition only_answers :: "env \<Rightarrow> frame \<Rightarrow> world \<Rightarrow> world \<Rightarrow> bool" where
  "only_answers e request w w' \<longleftrightarrow>
     w' = w \<or> (\<exists>f. response_frame request (cfg w) f \<and> w' = (tick e w)\<lparr>w_sent := w_sent w @ [(f, TrafficControl)]\<rparr>)"

lemma respond_only: "only_answers e request w (snd (respond e request v w))"
  by (cases e request v w rule: respond_cases) (auto simp: only_answers_def peer_SendOwned_def Let_def)

lemma respondError_only: "only_answers e request w (snd (respondError e request code cause w))"
  by (simp add: respondError_def respond_only)

lemma only_answers_refl [simp]: "only_answers e request w w"
  by (simp add: only_answers_def)

lemma decode_Inr: "decode e u f w = Inr v \<Longrightarrow> u (Payload f) = Inr v"
  by (auto simp: decode_def split: if_splits sum.splits)

text \<open>
  (C7) Nothing happens without authorization: when the configured \<open>Authorize\<close> callback refuses
  the request a handler asks it about (the operation, the session and, for \<open>Open\<close>, the very
  process that would be started), the handler makes no backend call, does not touch the
  manager or the adapter's attachments, and sends at most one frame, the response to that
  request. An unauthorized input event, which has no response, is returned as the callback's
  error.
\<close>

theorem protocol_authorization:
  assumes "pc_Authorize (cfg w) = Some auth" and "auth (auth_request e h f) = Some err"
  shows "(run_action e (ActHandle h f) w = w
      \<or> (\<exists>r. response_frame f (cfg w) r
            \<and> run_action e (ActHandle h f) w = (tick e w)\<lparr>w_sent := w_sent w @ [(r, TrafficControl)]\<rparr>))
    \<and> (h = HandleInput \<and> Flags (Header f) = FlagEvent \<longrightarrow> run_handler e h f w = (Returns (Some err), w))"
proof -
  have denied: "authorize (auth_request e h f) w = Some err" using assms by (simp add: authorize_def)
  have "only_answers e f w (run_action e (ActHandle h f) w)"
  proof (cases h)
    case HandleOpen
    show ?thesis
    proof (cases "decode e (UnmarshalOpen (e_json e)) f w")
      case (Inr r)
      then have "authorize \<lparr>au_Operation = OperationOpen, au_SessionID = 0, au_ProcessSpec = Some (open_spec r)\<rparr> w = Some err"
        using denied decode_Inr [OF Inr] by (simp add: HandleOpen)
      then show ?thesis using respondError_only Inr
        by (simp add: HandleOpen handleOpen_def returns_def Let_def split: option.split)
    qed (simp add: HandleOpen handleOpen_def returns_def respondError_only)
  qed (use denied respondError_only in \<open>simp_all add: handleList_def handleInspect_def handleAttach_def handleDetach_def
      handleInput_def handleResize_def handleKill_def returns_def Let_def split: sum.split\<close>)
  moreover have "run_handler e h f w = (Returns (Some err), w)" if "h = HandleInput" "Flags (Header f) = FlagEvent"
    using denied that by (simp add: handleInput_def returns_def)
  ultimately show ?thesis unfolding only_answers_def by blast
qed

theorem protocol_authorization_witness:
  "w_calls (run_action demo_env (ActHandle HandleKill (demo_call 9 1 []))
     (demo_world demo_m2 (Some (\<lambda>_. Some (ErrNew ''denied''))))) = []"
proof -
  let ?w = "demo_world demo_m2 (Some (\<lambda>_. Some (ErrNew ''denied'')))"
  have "pc_Authorize (cfg ?w) = Some (\<lambda>_. Some (ErrNew ''denied''))"
    by (simp add: demo_world_def demo_protocol_def)
  from protocol_authorization [OF this refl, of demo_env HandleKill "demo_call 9 1 []"]
  show ?thesis by (auto simp: demo_world_def)
qed

section \<open>Registration\<close>

lemma mt_scan_None: "mt_scan vs seen = None \<longleftrightarrow> 0 \<notin> set vs \<and> distinct vs \<and> set vs \<inter> seen = {}"
  by (induction vs arbitrary: seen) auto

text \<open>
  What the rules for a registration are, without reference to the code: a limit of 0 stands
  for its default, and eight of the thirteen message types are requests.
\<close>

definition or_default :: "int \<Rightarrow> int \<Rightarrow> int" where
  "or_default d x = (if x = 0 then d else x)"

definition all_types :: "MessageTypes \<Rightarrow> MessageType list" where
  "all_types t = [mt_Error t, mt_ReplayEnd t, mt_ReplayBegin t, mt_Exit t, mt_Kill t, mt_Resize t, mt_Output t,
     mt_Input t, mt_Detach t, mt_Attach t, mt_Inspect t, mt_List t, mt_Open t]"

definition request_types :: "MessageTypes \<Rightarrow> MessageType set" where
  "request_types t = {mt_Open t, mt_List t, mt_Inspect t, mt_Attach t, mt_Detach t, mt_Input t, mt_Resize t, mt_Kill t}"

lemma fill_config_eq:
  "fill_config c = c\<lparr>pc_Version := (if pc_Version c = 0 then 1 else pc_Version c),
     pc_MaxListItems := or_default 128 (pc_MaxListItems c), pc_MaxCommandBytes := or_default 4096 (pc_MaxCommandBytes c),
     pc_MaxDirectoryBytes := or_default 16384 (pc_MaxDirectoryBytes c),
     pc_MaxArgumentBytes := or_default 65536 (pc_MaxArgumentBytes c),
     pc_MaxArguments := or_default 256 (pc_MaxArguments c), pc_MaxEnvironment := or_default 256 (pc_MaxEnvironment c)\<rparr>"
proof -
  have step: "(if pc_Version c = 0 then c\<lparr>pc_Version := d\<rparr> else c) = c\<lparr>pc_Version := (if pc_Version c = 0 then d else pc_Version c)\<rparr>"
    "(if pc_MaxListItems c = 0 then c\<lparr>pc_MaxListItems := k\<rparr> else c) = c\<lparr>pc_MaxListItems := or_default k (pc_MaxListItems c)\<rparr>"
    "(if pc_MaxCommandBytes c = 0 then c\<lparr>pc_MaxCommandBytes := k\<rparr> else c) = c\<lparr>pc_MaxCommandBytes := or_default k (pc_MaxCommandBytes c)\<rparr>"
    "(if pc_MaxDirectoryBytes c = 0 then c\<lparr>pc_MaxDirectoryBytes := k\<rparr> else c) = c\<lparr>pc_MaxDirectoryBytes := or_default k (pc_MaxDirectoryBytes c)\<rparr>"
    "(if pc_MaxArgumentBytes c = 0 then c\<lparr>pc_MaxArgumentBytes := k\<rparr> else c) = c\<lparr>pc_MaxArgumentBytes := or_default k (pc_MaxArgumentBytes c)\<rparr>"
    "(if pc_MaxArguments c = 0 then c\<lparr>pc_MaxArguments := k\<rparr> else c) = c\<lparr>pc_MaxArguments := or_default k (pc_MaxArguments c)\<rparr>"
    "(if pc_MaxEnvironment c = 0 then c\<lparr>pc_MaxEnvironment := k\<rparr> else c) = c\<lparr>pc_MaxEnvironment := or_default k (pc_MaxEnvironment c)\<rparr>"
    for c :: ProtocolConfig and d k by (simp_all add: or_default_def)
  show ?thesis unfolding fill_config_def Let_def step by (simp add: DefaultProtocolConfig_def)
qed

lemma all_types_values: "all_types t = rev (mt_values t)"
  by (simp add: all_types_def mt_values_def)

lemma request_keys: "set (map fst (protocol_handlers t)) = request_types t"
  by (auto simp: protocol_handlers_def request_types_def)

lemma protocol_handlers_some: "snd ` set (protocol_handlers t) \<subseteq> range Some"
  by (simp add: protocol_handlers_def)

lemma protocol_handlers_distinct: "distinct (mt_values t) \<Longrightarrow> distinct (map fst (protocol_handlers t))"
  by (simp add: protocol_handlers_def mt_values_def)

lemma RegisterHandlers_protocol:
  assumes "MessageTypes_validate t = None"
  shows "fst (RegisterHandlers (protocol_handlers t) p) = None \<longleftrightarrow>
    \<not> p_closed p \<and> (\<forall>ty \<in> request_types t. mget (p_handlers p) ty = None)"
proof -
  have "0 \<notin> set (mt_values t)" using assms by (simp add: MessageTypes_validate_def mt_scan_None)
  then have "0 \<notin> fst ` set (protocol_handlers t)" by (auto simp: mt_values_def protocol_handlers_def)
  then have "register_check (p_handlers p) (protocol_handlers t) = None \<longleftrightarrow>
      (\<forall>ty \<in> request_types t. mget (p_handlers p) ty = None)"
    unfolding register_check_None request_keys [symmetric] using protocol_handlers_some [of t] by (force simp: image_iff)
  moreover have "protocol_handlers t \<noteq> []" by (simp add: protocol_handlers_def)
  ultimately show ?thesis by (cases "register_check (p_handlers p) (protocol_handlers t)") (auto simp: RegisterHandlers_def)
qed

lemma put_handlers:
  "distinct (map fst hs) \<Longrightarrow> snd ` set hs \<subseteq> range Some \<Longrightarrow>
   mget (fold (\<lambda>(t, h) m. case h of Some x \<Rightarrow> mput t x m | None \<Rightarrow> m) hs m0) t =
     (case mget hs t of Some h \<Rightarrow> h | None \<Rightarrow> mget m0 t)"
  by (induction hs arbitrary: m0) (auto simp: image_iff split: option.split)

lemma RegisterHandlers_result:
  assumes "RegisterHandlers (protocol_handlers t) p = (None, p')" and "distinct (mt_values t)"
  shows "mget (p_handlers p') ty = (case mget (protocol_handlers t) ty of Some h \<Rightarrow> h | None \<Rightarrow> mget (p_handlers p) ty)"
proof -
  have "protocol_handlers t \<noteq> []" by (simp add: protocol_handlers_def)
  with assms(1) have "p_handlers p' =
      fold (\<lambda>(t, h) m. case h of Some x \<Rightarrow> mput t x m | None \<Rightarrow> m) (protocol_handlers t) (p_handlers p)"
    by (auto simp: RegisterHandlers_def split: if_splits option.splits)
  then show ?thesis using put_handlers [OF protocol_handlers_distinct [OF assms(2)] protocol_handlers_some] by simp
qed

lemma RegisterProtocol_Inr:
  "RegisterProtocol (Some p) (Some m) c0 = Inr (pr, p') \<longleftrightarrow>
     0 \<le> pc_MaxListItems c0 \<and> 0 \<le> pc_MaxCommandBytes c0 \<and> 0 \<le> pc_MaxDirectoryBytes c0 \<and> 0 \<le> pc_MaxArgumentBytes c0
     \<and> 0 \<le> pc_MaxArguments c0 \<and> 0 \<le> pc_MaxEnvironment c0 \<and> ReadBufferBytes (m_config m) \<le> p_maxFrameBytes p
     \<and> MessageTypes_validate (pc_Types c0) = None \<and> RegisterHandlers (protocol_handlers (pc_Types c0)) p = (None, p')
     \<and> pr = \<lparr>pr_config = fill_config c0, pr_ctx = None, pr_attachments = [], pr_sinks = [], pr_closed = False\<rparr>"
proof -
  have pos: "or_default d x < 1 \<longleftrightarrow> x < 0" if "0 < d" for d x using that by (auto simp: or_default_def)
  have types: "pc_Types (fill_config c0) = pc_Types c0" by (simp add: fill_config_eq)
  have limits: "(pc_MaxListItems (fill_config c0) < 1 \<or> pc_MaxCommandBytes (fill_config c0) < 1
      \<or> pc_MaxDirectoryBytes (fill_config c0) < 1 \<or> pc_MaxArgumentBytes (fill_config c0) < 1
      \<or> pc_MaxArguments (fill_config c0) < 1 \<or> pc_MaxEnvironment (fill_config c0) < 1) \<longleftrightarrow>
     \<not> (0 \<le> pc_MaxListItems c0 \<and> 0 \<le> pc_MaxCommandBytes c0 \<and> 0 \<le> pc_MaxDirectoryBytes c0 \<and> 0 \<le> pc_MaxArgumentBytes c0
     \<and> 0 \<le> pc_MaxArguments c0 \<and> 0 \<le> pc_MaxEnvironment c0)"
    unfolding fill_config_eq by (simp add: pos) linarith
  show ?thesis
    by (simp add: RegisterProtocol_def Let_def limits types split: option.split prod.split) (auto simp: not_less)
qed

text \<open>
  (C29) \<open>RegisterProtocol\<close> succeeds exactly when both dependencies are there, no limit is
  negative (0 stands for the default), a read of the backend fits a frame, the thirteen message types are
  distinct and non-zero, the peer is open and none of the eight request types is taken. The
  adapter then has the limits given or their defaults, version 1 unless another is given, and no
  attachments; each request type is routed to its own handler, and every other handler of the
  peer is as it was.
\<close>

theorem RegisterProtocol_exact:
  "((\<exists>x. RegisterProtocol peer manager c0 = Inr x) \<longleftrightarrow>
     (\<exists>p m. peer = Some p \<and> manager = Some m
      \<and> 0 \<le> pc_MaxListItems c0 \<and> 0 \<le> pc_MaxCommandBytes c0 \<and> 0 \<le> pc_MaxDirectoryBytes c0 \<and> 0 \<le> pc_MaxArgumentBytes c0
      \<and> 0 \<le> pc_MaxArguments c0 \<and> 0 \<le> pc_MaxEnvironment c0 \<and> ReadBufferBytes (m_config m) \<le> p_maxFrameBytes p
      \<and> 0 \<notin> set (all_types (pc_Types c0)) \<and> distinct (all_types (pc_Types c0)) \<and> \<not> p_closed p
      \<and> (\<forall>ty \<in> request_types (pc_Types c0). mget (p_handlers p) ty = None)))
   \<and> (\<forall>p pr p'. peer = Some p \<and> RegisterProtocol peer manager c0 = Inr (pr, p') \<longrightarrow>
        (let t = pc_Types c0; c = pr_config pr in
         c = c0\<lparr>pc_Version := (if pc_Version c0 = 0 then 1 else pc_Version c0),
             pc_MaxListItems := or_default 128 (pc_MaxListItems c0), pc_MaxCommandBytes := or_default 4096 (pc_MaxCommandBytes c0),
             pc_MaxDirectoryBytes := or_default 16384 (pc_MaxDirectoryBytes c0),
             pc_MaxArgumentBytes := or_default 65536 (pc_MaxArgumentBytes c0),
             pc_MaxArguments := or_default 256 (pc_MaxArguments c0), pc_MaxEnvironment := or_default 256 (pc_MaxEnvironment c0)\<rparr>
         \<and> pr_attachments pr = [] \<and> \<not> pr_closed pr \<and> pr_ctx pr = None
         \<and> mget (p_handlers p') (mt_Open t) = Some HandleOpen \<and> mget (p_handlers p') (mt_List t) = Some HandleList
         \<and> mget (p_handlers p') (mt_Inspect t) = Some HandleInspect \<and> mget (p_handlers p') (mt_Attach t) = Some HandleAttach
         \<and> mget (p_handlers p') (mt_Detach t) = Some HandleDetach \<and> mget (p_handlers p') (mt_Input t) = Some HandleInput
         \<and> mget (p_handlers p') (mt_Resize t) = Some HandleResize \<and> mget (p_handlers p') (mt_Kill t) = Some HandleKill
         \<and> (\<forall>ty. ty \<notin> request_types t \<longrightarrow> mget (p_handlers p') ty = mget (p_handlers p) ty)))"
proof (intro conjI allI impI, goal_cases)
  case 1
  have valid: "MessageTypes_validate t = None \<longleftrightarrow> 0 \<notin> set (all_types t) \<and> distinct (all_types t)" for t
    unfolding all_types_values by (simp add: MessageTypes_validate_def mt_scan_None)
  have two: "peer = Some p \<and> manager = Some m" if "RegisterProtocol peer manager c0 = Inr x" "p = the peer" "m = the manager" for x p m
    using that by (auto simp: RegisterProtocol_def split: option.splits)
  have accepted: "(\<exists>q. RegisterHandlers hs p = (None, q)) \<longleftrightarrow> fst (RegisterHandlers hs p) = None" for hs p
    by (cases "RegisterHandlers hs p") auto
  show ?case
  proof (cases "\<exists>p m. peer = Some p \<and> manager = Some m")
    case True
    then obtain p m where pm: "peer = Some p" "manager = Some m" by blast
    have "(\<exists>x. RegisterProtocol (Some p) (Some m) c0 = Inr x) \<longleftrightarrow> (\<exists>pr p'. RegisterProtocol (Some p) (Some m) c0 = Inr (pr, p'))" by auto
    then show ?thesis
      unfolding pm RegisterProtocol_Inr using accepted RegisterHandlers_protocol [of "pc_Types c0" p] valid [of "pc_Types c0"] by auto
  next
    case False
    then show ?thesis using two by blast
  qed
next
  case (2 p pr p')
  then obtain m where m: "manager = Some m" by (auto simp: RegisterProtocol_def split: option.splits)
  from 2 have r: "MessageTypes_validate (pc_Types c0) = None" "RegisterHandlers (protocol_handlers (pc_Types c0)) p = (None, p')"
    "pr = \<lparr>pr_config = fill_config c0, pr_ctx = None, pr_attachments = [], pr_sinks = [], pr_closed = False\<rparr>"
    unfolding m by (auto simp: RegisterProtocol_Inr)
  have d: "distinct (mt_values (pc_Types c0))" using r(1) by (simp add: MessageTypes_validate_def mt_scan_None)
  note get = RegisterHandlers_result [OF r(2) d]
  show ?case
    using d unfolding r(3) Let_def fill_config_eq get
    by (auto simp: protocol_handlers_def request_types_def mt_values_def)
qed

theorem RegisterProtocol_exact_witness:
  "\<exists>pr p'. RegisterProtocol (Some (fresh_peer 65536 std_config)) (Some demo_m0)
       (DefaultProtocolConfig\<lparr>pc_Types := demo_types, pc_MaxEnvironment := 0\<rparr>) = Inr (pr, p')
     \<and> mget (p_handlers p') 9 = Some HandleKill \<and> mget (p_handlers p') 7 = None \<and> pc_MaxEnvironment (pr_config pr) = 256"
proof -
  let ?p = "fresh_peer 65536 std_config :: protocol_handler peer"
    and ?c = "DefaultProtocolConfig\<lparr>pc_Types := demo_types, pc_MaxEnvironment := 0\<rparr>"
  note ex = RegisterProtocol_exact [of "Some ?p" "Some demo_m0" ?c]
  have "\<exists>x. RegisterProtocol (Some ?p) (Some demo_m0) ?c = Inr x"
    unfolding conjunct1 [OF ex]
    by (simp add: DefaultProtocolConfig_def demo_types_def all_types_def request_types_def fresh_peer_def
        demo_m0_val demo_config_def DefaultManagerConfig_def DefaultReadBufferSize_def)
  then obtain pr p' where r: "RegisterProtocol (Some ?p) (Some demo_m0) ?c = Inr (pr, p')" by auto
  from conjunct2 [OF ex, rule_format, of ?p pr p'] r
  have "mget (p_handlers p') 9 = Some HandleKill" "mget (p_handlers p') 7 = mget (p_handlers ?p) 7" "pc_MaxEnvironment (pr_config pr) = 256"
    by (auto simp: Let_def demo_types_def request_types_def or_default_def)
  then show ?thesis using r by (auto simp: fresh_peer_def)
qed

section \<open>Requests without a request flag\<close>

lemma not_a_request: "Flags (Header f) \<noteq> FlagRequest \<Longrightarrow> snd (respond e f v w) = w \<and> fst (respond e f v w) \<noteq> None"
  by (cases e f v w rule: respond_cases) (auto simp: response_frame_def)

text \<open>
  (C38) \<open>handleKill\<close> never looks at the class flag of its frame, so an event frame performs the
  operation although it cannot be answered. Under any interference, with the caller authorized
  and the session of that stream running when the call reaches it, the process is killed once, no frame
  is sent, and as soon as the session has ended the handler returns an error instead of the
  answer a request would get; it never returns nil. (\<open>handleInspect\<close>, \<open>handleDetach\<close> and \<open>handleResize\<close> share the gap;
  \<open>handleOpen\<close>, \<open>handleList\<close>, \<open>handleAttach\<close> and \<open>handleInput\<close> check the flag.)
\<close>

theorem kill_by_event:
  assumes "Flags (Header f) = FlagEvent" and "Payload f = []"
    and "authorize \<lparr>au_Operation = OperationKill, au_SessionID = sid_of f, au_ProcessSpec = None\<rparr> w = None"
    and "Manager_Kill (sid_of f) (mgr (tick e w)) = Inr (sid_of f)"
    and "sess (mgr (tick e (tick e w))) (sid_of f) = Some s" and "se_state s = SessionRunning" and "\<not> se_killOnce s"
    and "run_handler e HandleKill f w = (reply, w')"
  shows "w_calls w' = w_calls w @ [CallKill (sid_of f)] \<and> w_sent w' = w_sent w
    \<and> (\<forall>x. sess (mgr w') (sid_of f) = Some x \<and> se_pc x = RunDone \<longrightarrow> (\<exists>err. reply = Returns (Some err)))
    \<and> reply \<noteq> Returns None"
proof -
  have fails: "snd (respond e f v w) = w" "\<exists>err. fst (respond e f v w) = Some err" for v w
    using not_a_request [of f e v w] assms(1) by auto
  obtain r w4 where k: "Manager_KillWait e (sid_of f) w = (r, w4)" by fastforce
  have w4: "w_calls w4 = w_calls w @ [CallKill (sid_of f)]" "w_sent w4 = w_sent w"
    "\<exists>v. Session_Wait e (sid_of f) w4 = v \<and> (r = None \<longleftrightarrow> v = None)"
    using k assms(4-7)
    by (auto simp: Manager_KillWait_def Session_Kill_def kill_begin_def Let_def log_call_def split: option.splits)
  have ended: "r \<noteq> None" if "sess (mgr w4) (sid_of f) = Some x" "se_pc x = RunDone" for x
    using that w4(3) by (auto simp: Session_Wait_def Let_def split: option.splits if_splits)
  have reply: "w' = w4 \<and> (if r = None then reply = Blocks else \<exists>err. reply = Returns (Some err))"
  proof (cases r)
    case None
    then show ?thesis using k assms(2,3,8) by (simp add: handleKill_def)
  next
    case (Some o')
    then show ?thesis using k assms(2,3,8) fails
      by (cases o') (fastforce simp: handleKill_def returns_def respondOperationError_def respondError_def split: prod.splits)+
  qed
  then show ?thesis using w4 ended by (auto split: if_splits)
qed

text \<open>The session ends while the handler waits for it.\<close>

definition demo_ends :: "Manager \<Rightarrow> Manager" where
  "demo_ends m =
     (case run_retire 1 (snd (run_exit 1 \<lparr>Reason = ExitReasonKilled, Code = 137, Signal = '''', ErrorText = ''''\<rparr>
             (pump_effect 1 None (Some None) m))) of
        Some (_, m') \<Rightarrow> upd_session 1 (\<lambda>s. s\<lparr>se_pc := RunDone\<rparr>) m'
      | None \<Rightarrow> m)"

definition ending_env :: env where
  "ending_env = demo_env\<lparr>e_rely := (\<lambda>k own s. if k = 3 then ((fst s)\<lparr>y_m := demo_ends (y_m (fst s))\<rparr>, snd s) else s)\<rparr>"

definition event_kill :: frame where
  "event_kill = (demo_call 9 1 [])\<lparr>Header := (Header (demo_call 9 1 []))\<lparr>Flags := FlagEvent, CorrelationID := 0\<rparr>\<rparr>"

theorem kill_by_event_witness:
  "(\<exists>err. fst (run_handler ending_env HandleKill event_kill (demo_world demo_m2 None)) = Returns (Some err))
   \<and> w_calls (snd (run_handler ending_env HandleKill event_kill (demo_world demo_m2 None))) = [CallKill 1]"
proof -
  let ?w = "demo_world demo_m2 None"
  let ?s = "new_session 1 (InitialSize demo_spec) 0"
  obtain reply w' where run: "run_handler ending_env HandleKill event_kill ?w = (reply, w')" by fastforce
  have f: "Flags (Header event_kill) = FlagEvent" "Payload event_kill = []" "sid_of event_kill = 1"
    by (simp_all add: event_kill_def demo_call_def)
  have t: "mgr (tick ending_env ?w) = demo_m2" "mgr (tick ending_env (tick ending_env ?w)) = demo_m2"
    by (simp_all add: tick_def ending_env_def demo_env_def demo_world_def new_msys_def)
  have a: "authorize q ?w = None" for q
    by (simp add: authorize_def demo_world_def demo_protocol_def DefaultProtocolConfig_def)
  have m: "Manager_Kill 1 demo_m2 = Inr 1" "sess demo_m2 1 = Some ?s"
    by (simp_all add: Manager_Kill_def Get_def registered_def demo_m2_val new_session_def demo_spec_def)
  have calls: "w_calls ?w = []" by (simp add: demo_world_def)
  have s: "se_state ?s = SessionRunning" "\<not> se_killOnce ?s" by (simp_all add: new_session_def)
  have "map_option se_pc (sess (mgr (snd (run_handler ending_env HandleKill event_kill ?w))) 1) = Some RunDone"
    by code_simp
  then have "\<exists>x. sess (mgr w') 1 = Some x \<and> se_pc x = RunDone" unfolding run by auto
  then show ?thesis
    unfolding run using kill_by_event [OF f(1,2) a _ _ s run] m f(3) t calls by simp
qed

end
