(* ===== verification/Pty_Protocol_List.thy ===== *)
theory Pty_Protocol_List
  imports Pty_Protocol_Props
begin

text \<open>
  Listing sessions through \<open>handleList\<close> of \<open>pty/protocol.go\<close>: pages, cursors and the frame
  limit, seen from a client that follows the cursors.
\<close>

section \<open>One page\<close>

lemma list_fit_progress:
  assumes "position < stop0"
    and "\<And>s. position < s \<Longrightarrow> s \<le> stop0 \<Longrightarrow> \<exists>p. Marshal (e_json e) (JResponse (list_response v g all position s)) = Inr p"
    and "\<And>p. Marshal (e_json e) (JResponse (list_response v g all position (position + 1))) = Inr p \<Longrightarrow> int (length p) \<le> e_maxFrame e"
  shows "\<exists>stop. list_fit e v g all position stop0 = Inr stop \<and> position < stop \<and> stop \<le> stop0
    \<and> (\<forall>p. Marshal (e_json e) (JResponse (list_response v g all position stop)) = Inr p \<longrightarrow> int (length p) \<le> e_maxFrame e)"
  using assms
proof (induction "nat (stop0 - position)" arbitrary: stop0)
  case (Suc n)
  from Suc.prems(2) [of stop0] Suc.prems(1) obtain p where
    p: "Marshal (e_json e) (JResponse (list_response v g all position stop0)) = Inr p" by auto
  show ?case
  proof (cases "int (length p) \<le> e_maxFrame e")
    case True
    then show ?thesis using Suc.prems(1) p by (subst list_fit.simps) auto
  next
    case False
    then have "position < stop0 - 1"
      using Suc.prems(1,3) p by (metis diff_add_cancel less_iff_diff_less_0 linorder_not_less not_less_iff_gr_or_eq zle_diff1_eq)
    then have "\<exists>stop. list_fit e v g all position (stop0 - 1) = Inr stop \<and> position < stop \<and> stop \<le> stop0 - 1
      \<and> (\<forall>p. Marshal (e_json e) (JResponse (list_response v g all position stop)) = Inr p \<longrightarrow> int (length p) \<le> e_maxFrame e)"
      by (intro Suc.hyps(1) Suc.prems(2,3)) (use Suc.hyps(2) in auto)
    then show ?thesis using Suc.prems(1) p False by (subst list_fit.simps) auto
  qed
qed simp

lemma go_add_small: "0 \<le> a \<Longrightarrow> 0 \<le> b \<Longrightarrow> a + b < 2 ^ 63 \<Longrightarrow> go_add a b = a + b"
  unfolding go_add_def sint_sbintrunc' by (simp add: signed_take_bit_int_eq_self)

lemma go_slice_split: "0 \<le> i \<Longrightarrow> i \<le> j \<Longrightarrow> drop (nat i) xs = go_slice i j xs @ drop (nat j) xs"
  by (simp add: go_slice_def flip: nat_diff_distrib') (metis append_take_drop_id drop_drop add.commute le_add_diff_inverse2 nat_mono nat_diff_distrib)

section \<open>A client that follows the cursors\<close>

text \<open>
  The client sends one list request after the other, \<open>rq c\<close> for the cursor \<open>c\<close>, decodes the
  frame the server sent, and stops at an empty cursor. The first argument bounds its requests.
\<close>

fun client_list :: "nat \<Rightarrow> env \<Rightarrow> (string \<Rightarrow> frame) \<Rightarrow> world \<Rightarrow> string \<Rightarrow> SessionInfo list option" where
  "client_list 0 e rq w cursor = None"
| "client_list (Suc n) e rq w cursor =
     (let w' = run_action e (ActHandle HandleList (rq cursor)) w in
      if w_sent w' = w_sent w then None
      else case DecodeProtocolResponse (e_json e) (Payload (fst (last (w_sent w')))) of
        Inl _ \<Rightarrow> None
      | Inr r \<Rightarrow>
          if rs_NextCursor r = '''' then Some (rs_Sessions r)
          else map_option (append (rs_Sessions r)) (client_list n e rq w' (rs_NextCursor r)))"

text \<open>What a list request must look like to be answered with a page.\<close>

definition list_requests :: "env \<Rightarrow> world \<Rightarrow> (string \<Rightarrow> frame) \<Rightarrow> int \<Rightarrow> bool" where
  "list_requests e w rq limit \<longleftrightarrow>
     (\<forall>c. sid_of (rq c) = 0 \<and> CorrelationID (Header (rq c)) \<noteq> 0 \<and> MessageType (Header (rq c)) \<noteq> 0
        \<and> (\<exists>v. decode e (UnmarshalList (e_json e)) (rq c) w = Inr \<lparr>lq_Version = v, lq_Cursor = c, lq_Limit = limit\<rparr>))
     \<and> authorize \<lparr>au_Operation = OperationList, au_SessionID = 0, au_ProcessSpec = None\<rparr> w = None
     \<and> 1 \<le> limit \<and> limit \<le> pc_MaxListItems (cfg w) \<and> pc_Version (cfg w) \<noteq> 0"

text \<open>The sessions a list request sees, after the application's filter.\<close>

definition visible :: "world \<Rightarrow> SessionInfo list result" where
  "visible w = (case pc_FilterSessions (cfg w) of
     None \<Rightarrow> Inr (snd (ListSnapshot (mgr w))) | Some f \<Rightarrow> f (snd (ListSnapshot (mgr w))))"

text \<open>\<open>encoding/json\<close> reads back the pages it wrote, and a page of one session fits a frame.\<close>

definition pages_decode :: "env \<Rightarrow> world \<Rightarrow> SessionInfo list \<Rightarrow> bool" where
  "pages_decode e w all \<longleftrightarrow>
     (\<forall>i j. 0 \<le> i \<and> i \<le> j \<and> j \<le> int (length all) \<longrightarrow>
        (\<exists>p. Marshal (e_json e) (JResponse (list_response (pc_Version (cfg w)) (m_generation (mgr w)) all i j)) = Inr p
           \<and> p \<noteq> [] \<and> length p < 2 ^ 32
           \<and> UnmarshalResponse (e_json e) p = Inr (list_response (pc_Version (cfg w)) (m_generation (mgr w)) all i j)
           \<and> (j = i + 1 \<longrightarrow> int (length p) \<le> e_maxFrame e)))"

lemma pages_decodeD:
  assumes "pages_decode e w all" and "0 \<le> i" and "i \<le> j" and "j \<le> int (length all)"
  obtains p where "Marshal (e_json e) (JResponse (list_response (pc_Version (cfg w)) (m_generation (mgr w)) all i j)) = Inr p"
    "p \<noteq> []" "length p < 2 ^ 32"
    "UnmarshalResponse (e_json e) p = Inr (list_response (pc_Version (cfg w)) (m_generation (mgr w)) all i j)"
    "j = i + 1 \<longrightarrow> int (length p) \<le> e_maxFrame e"
  using assms unfolding pages_decode_def by blast

lemma respond_sends:
  assumes "Marshal (e_json e) (JResponse v) = Inr p" and "length p < 2 ^ 32" and "pc_Version (cfg w) \<noteq> 0"
    and "MessageType (Header request) \<noteq> 0" and "CorrelationID (Header request) \<noteq> 0" and "Flags (Header request) = FlagRequest"
  shows "\<exists>f. Payload f = p \<and> respond e request v w = peer_SendOwned e f TrafficControl w"
proof -
  let ?h = "\<lparr>PayloadLength = 0, Version = pc_Version (cfg w), MessageType = MessageType (Header request),
    Flags = FlagResponse, CorrelationID = CorrelationID (Header request), StreamID = StreamID (Header request)\<rparr>"
  have "newFrame ?h p = Inr \<lparr>Header = ?h\<lparr>PayloadLength := of_nat (length p)\<rparr>, Payload = p\<rparr>"
    using assms(2-5) by (simp add: newFrame_Inr_iff)
  then show ?thesis using assms(1,4,6)
    by (intro exI [of _ "\<lparr>Header = ?h\<lparr>PayloadLength := of_nat (length p)\<rparr>, Payload = p\<rparr>"])
      (simp add: respond_def NewOwnedFrame_def peer_Respond_def Respond_frame_def Clone_def Let_def)
qed

lemma list_page_sends:
  assumes "pages_decode e w all" and "0 \<le> position" and "position \<le> int (length all)" and "1 \<le> limit"
    and "int (length all) + limit < 2 ^ 63" and "pc_Version (cfg w) \<noteq> 0"
    and "CorrelationID (Header f) \<noteq> 0" and "MessageType (Header f) \<noteq> 0" and "Flags (Header f) = FlagRequest"
  shows "\<exists>stop r. position \<le> stop \<and> stop \<le> int (length all) \<and> (position < int (length all) \<longrightarrow> position < stop)
    \<and> DecodeProtocolResponse (e_json e) (Payload r) = Inr (list_response (pc_Version (cfg w)) (m_generation (mgr w)) all position stop)
    \<and> snd (list_page e f (m_generation (mgr w)) all position limit w) = (tick e w)\<lparr>w_sent := w_sent w @ [(r, TrafficControl)]\<rparr>"
proof -
  let ?v = "pc_Version (cfg w)" and ?g = "m_generation (mgr w)" and ?n = "int (length all)"
  let ?upto = "if go_add position limit > ?n then ?n else go_add position limit"
  have add: "go_add position limit = position + limit" using assms by (intro go_add_small) auto
  have "\<exists>stop. list_fit e ?v ?g all position ?upto = Inr stop \<and> position \<le> stop \<and> stop \<le> ?n \<and> (position < ?n \<longrightarrow> position < stop)"
  proof (cases "position < ?n")
    case True
    have b: "position < ?upto" "?upto \<le> ?n" using True assms(4) by (auto simp: add)
    have "\<exists>p. Marshal (e_json e) (JResponse (list_response ?v ?g all position s)) = Inr p" if "position < s" "s \<le> ?upto" for s
      using pages_decodeD [OF assms(1,2), of s] that b(2) by fastforce
    moreover have "int (length p) \<le> e_maxFrame e"
      if "Marshal (e_json e) (JResponse (list_response ?v ?g all position (position + 1))) = Inr p" for p
      using pages_decodeD [OF assms(1,2), of "position + 1"] that True by fastforce
    ultimately have "\<exists>stop. list_fit e ?v ?g all position ?upto = Inr stop \<and> position < stop \<and> stop \<le> ?upto"
      using list_fit_progress [OF b(1), of e ?v ?g all] by blast
    then show ?thesis using b(2) by force
  next
    case False
    then have "?upto = position" unfolding add using assms(3,4) by simp
    then show ?thesis using False assms(3) by (subst list_fit.simps) auto
  qed
  then obtain stop where stop: "list_fit e ?v ?g all position ?upto = Inr stop" "position \<le> stop" "stop \<le> ?n"
    "position < ?n \<longrightarrow> position < stop" by blast
  let ?r = "list_response ?v ?g all position stop"
  obtain p where p: "Marshal (e_json e) (JResponse ?r) = Inr p" "p \<noteq> []" "length p < 2 ^ 32"
    "UnmarshalResponse (e_json e) p = Inr ?r"
    using pages_decodeD [OF assms(1,2) stop(2,3)] by blast
  have "rs_Error ?r = None" by (simp add: list_response_def response_def)
  then have d: "DecodeProtocolResponse (e_json e) p = Inr ?r" using p by (simp add: DecodeProtocolResponse_def)
  have s: "list_page e f ?g all position limit w = returns (respond e f ?r w)"
    using stop assms(2,3) by (auto simp: list_page_def Let_def)
  obtain r where "Payload r = p" "respond e f ?r w = peer_SendOwned e r TrafficControl w"
    using respond_sends [OF p(1,3) assms(6,8,7,9)] by blast
  then show ?thesis using stop d s by (auto simp: returns_def peer_SendOwned_def Let_def)
qed

lemma handleList_page:
  assumes "e_rely e = (\<lambda>_ _ s. s)" and "list_requests e w rq limit" and "visible w = Inr all"
    and "c = '''' \<and> position = 0 \<or> decodeCursor c = Inr \<lparr>lc_generation = m_generation (mgr w), lc_position = position\<rparr> \<and> c \<noteq> ''''"
  shows "handleList e (rq c) w = list_page e (rq c) (m_generation (mgr w)) all position limit (tick e w)"
proof -
  have t: "tick e w = w\<lparr>w_clock := Suc (w_clock w)\<rparr>" by (simp add: tick_def assms(1))
  obtain v where r: "sid_of (rq c) = 0" "decode e (UnmarshalList (e_json e)) (rq c) w = Inr \<lparr>lq_Version = v, lq_Cursor = c, lq_Limit = limit\<rparr>"
    and a: "authorize \<lparr>au_Operation = OperationList, au_SessionID = 0, au_ProcessSpec = None\<rparr> w = None"
    "1 \<le> limit" "limit \<le> pc_MaxListItems (cfg w)"
    using assms(2) unfolding list_requests_def by blast
  obtain all0 where s: "ListSnapshot (mgr w) = (m_generation (mgr w), all0)" by (simp add: ListSnapshot_def)
  have f: "(case pc_FilterSessions (cfg w) of None \<Rightarrow> Inr all0 | Some f \<Rightarrow> f all0) = Inr all"
    using assms(3) unfolding visible_def s snd_conv .
  show ?thesis using r a f assms(4) by (auto simp: handleList_def Let_def t s)
qed

lemma client_list_step:
  assumes "e_rely e = (\<lambda>_ _ s. s)" and "list_requests e w rq limit" and "visible w = Inr all"
    and "pages_decode e w all" and "int (length all) + limit < 2 ^ 63"
    and c: "c = '''' \<and> position = 0 \<or> decodeCursor c = Inr \<lparr>lc_generation = m_generation (mgr w), lc_position = position\<rparr> \<and> c \<noteq> ''''"
    and pos: "0 \<le> position" "position \<le> int (length all)"
  obtains stop w' where "position \<le> stop" "stop \<le> int (length all)" "position < int (length all) \<longrightarrow> position < stop"
    "mgr w' = mgr w" "w_proto w' = w_proto w"
    "client_list (Suc n) e rq w c =
       (if stop < int (length all)
        then map_option (append (go_slice position stop all)) (client_list n e rq w' (encodeCursor (m_generation (mgr w)) stop))
        else Some (go_slice position stop all))"
proof -
  let ?w = "tick e w" and ?g = "m_generation (mgr w)" and ?v = "pc_Version (cfg w)"
  have t: "mgr (tick e u) = mgr u" "w_proto (tick e u) = w_proto u" for u by (simp_all add: tick_def assms(1))
  have r: "CorrelationID (Header (rq c)) \<noteq> 0" "MessageType (Header (rq c)) \<noteq> 0" "Flags (Header (rq c)) = FlagRequest"
    "?v \<noteq> 0" "1 \<le> limit"
    using assms(2) unfolding list_requests_def by (auto simp: decode_def split: if_splits)
  have "pages_decode e ?w all" using assms(4) by (simp add: pages_decode_def t)
  from list_page_sends [OF this pos r(5) assms(5) _ r(1-3)] r(4) obtain stop f where
    stop: "position \<le> stop" "stop \<le> int (length all)" "position < int (length all) \<longrightarrow> position < stop" and
    d: "DecodeProtocolResponse (e_json e) (Payload f) = Inr (list_response ?v ?g all position stop)" and
    p: "snd (list_page e (rq c) ?g all position limit ?w) = (tick e ?w)\<lparr>w_sent := w_sent ?w @ [(f, TrafficControl)]\<rparr>"
    by (auto simp: t)
  define w' where "w' = (tick e ?w)\<lparr>w_sent := w_sent ?w @ [(f, TrafficControl)]\<rparr>"
  have run: "run_action e (ActHandle HandleList (rq c)) w = w'"
    using handleList_page [OF assms(1-3) c] p by (simp add: w'_def)
  have sent: "w_sent w' = w_sent w @ [(f, TrafficControl)]" by (simp add: w'_def)
  have same: "mgr w' = mgr w" "w_proto w' = w_proto w" by (simp_all add: w'_def t)
  have cl: "client_list (Suc n) e rq w c =
       (if stop < int (length all)
        then map_option (append (go_slice position stop all)) (client_list n e rq w' (encodeCursor ?g stop))
        else Some (go_slice position stop all))"
    unfolding client_list.simps run Let_def
    using d encodeCursor_nonempty by (simp add: sent list_response_def response_def)
  show ?thesis by (rule that [OF stop same cl])
qed

lemma client_list_from:
  assumes "e_rely e = (\<lambda>_ _ s. s)" and "int (length all) + limit < 2 ^ 63"
    and "list_requests e w rq limit" and "visible w = Inr all" and "pages_decode e w all"
    and "c = '''' \<and> position = 0 \<or> decodeCursor c = Inr \<lparr>lc_generation = m_generation (mgr w), lc_position = position\<rparr> \<and> c \<noteq> ''''"
    and "0 \<le> position" "position \<le> int (length all)" and "length all - nat position \<le> n"
  shows "client_list (Suc n) e rq w c = Some (drop (nat position) all)"
  using assms(3-9)
proof (induction n arbitrary: w c position)
  case 0
  from client_list_step [OF assms(1) "0.prems"(1-3) assms(2) "0.prems"(4-6), of 0] obtain stop w' where
    stop: "position \<le> stop" "stop \<le> int (length all)" and
    cl: "client_list (Suc 0) e rq w c =
      (if stop < int (length all)
       then map_option (append (go_slice position stop all)) (client_list 0 e rq w' (encodeCursor (m_generation (mgr w)) stop))
       else Some (go_slice position stop all))" by metis
  have "length all \<le> nat position" using "0.prems"(7) by simp
  then have "stop = int (length all)" using "0.prems"(5) stop by (simp add: le_nat_iff)
  then show ?case using cl go_slice_split [OF "0.prems"(5) stop(1), of all] by simp
next
  case (Suc n)
  from client_list_step [OF assms(1) Suc.prems(1-3) assms(2) Suc.prems(4-6), of "Suc n"] obtain stop w' where
    stop: "position \<le> stop" "stop \<le> int (length all)" "position < int (length all) \<longrightarrow> position < stop" and
    same: "mgr w' = mgr w" "w_proto w' = w_proto w" and
    cl: "client_list (Suc (Suc n)) e rq w c =
      (if stop < int (length all)
       then map_option (append (go_slice position stop all)) (client_list (Suc n) e rq w' (encodeCursor (m_generation (mgr w)) stop))
       else Some (go_slice position stop all))" by metis
  note split = go_slice_split [OF Suc.prems(5) stop(1), of all]
  show ?case
  proof (cases "stop < int (length all)")
    case True
    have "client_list (Suc n) e rq w' (encodeCursor (m_generation (mgr w)) stop) = Some (drop (nat stop) all)"
    proof (rule Suc.IH)
      have "decode e u f w' = decode e u f w" "authorize a w' = authorize a w" for u :: "bytes \<Rightarrow> ListRequest result" and f a
        by (simp_all add: decode_def authorize_def same cong: if_cong sum.case_cong option.case_cong)
      then show "list_requests e w' rq limit" using Suc.prems(1) by (simp add: list_requests_def same)
      show "visible w' = Inr all" using Suc.prems(2) unfolding visible_def same .
      show "pages_decode e w' all" using Suc.prems(3) by (simp add: pages_decode_def same)
      have "decodeCursor (encodeCursor (m_generation (mgr w)) stop) = Inr \<lparr>lc_generation = m_generation (mgr w), lc_position = stop\<rparr>"
        by (rule cursor_decode) (use stop Suc.prems(1,5) assms(2) in \<open>auto simp: list_requests_def\<close>)
      then show "encodeCursor (m_generation (mgr w)) stop = '''' \<and> stop = 0
          \<or> decodeCursor (encodeCursor (m_generation (mgr w)) stop) = Inr \<lparr>lc_generation = m_generation (mgr w'), lc_position = stop\<rparr>
            \<and> encodeCursor (m_generation (mgr w)) stop \<noteq> ''''"
        using encodeCursor_nonempty by (simp add: same)
      show "0 \<le> stop" "stop \<le> int (length all)" using stop Suc.prems(5) by auto
      show "length all - nat stop \<le> n" using stop True Suc.prems(5,7) by linarith
    qed
    then show ?thesis using cl True split by simp
  next
    case False
    then show ?thesis using cl stop(2) split by simp
  qed
qed

text \<open>
  (C17) Listing is complete: while the set of sessions does not change, a client that starts
  without a cursor and follows the cursors it gets receives, page by page, exactly the list of
  sessions the application's filter lets it see, each once and in order, after at most one
  request more than there are sessions; however small the frame limit is, provided one session
  fits a frame. (JSON is assumed to read back what it wrote, and the list and page sizes to
  stay within the machine's integers.)
\<close>

theorem list_complete:
  assumes "e_rely e = (\<lambda>_ _ s. s)" and "list_requests e w rq limit" and "visible w = Inr all"
    and "pages_decode e w all" and "int (length all) + limit < 2 ^ 63"
  shows "client_list (Suc (length all)) e rq w '''' = Some all"
  using client_list_from [OF assms(1,5,2,3,4), of "''''" 0 "length all"] by simp

text \<open>A JSON library that can tell the three pages of a one-session list apart.\<close>

definition one_json :: "SessionInfo \<Rightarrow> json" where
  "one_json s = demo_json\<lparr>
     Marshal := (\<lambda>v. case v of
       JResponse r \<Rightarrow> Inr [if rs_Sessions r = [] then 0 else 1, if rs_NextCursor r = '''' then 0 else 1] | _ \<Rightarrow> Inr [2]),
     UnmarshalResponse := (\<lambda>p. Inr ((response 1)\<lparr>rs_Sessions := (if hd p = 0 then [] else [s]),
       rs_NextCursor := (if last p = 0 then '''' else encodeCursor 1 0)\<rparr>))\<rparr>"

definition one_session :: SessionInfo where
  "one_session = infoLocked (new_session 1 (InitialSize demo_spec) 0)"

definition one_env :: "int \<Rightarrow> env" where
  "one_env limit = demo_env\<lparr>e_json := (one_json one_session)\<lparr>UnmarshalList := (\<lambda>p. Inr \<lparr>lq_Version = 1,
     lq_Cursor = map (\<lambda>b. char_of (uint b)) (tl p), lq_Limit = limit\<rparr>)\<rparr>\<rparr>"

definition one_request :: "string \<Rightarrow> frame" where
  "one_request c = demo_call 2 0 (0 # map (\<lambda>x. of_nat (of_char x)) c)"

theorem list_complete_witness:
  "client_list 2 (one_env 1) one_request (demo_world demo_m2 None) '''' = Some [one_session]"
proof -
  let ?w = "demo_world demo_m2 None"
  have g: "m_generation (mgr ?w) = 1" by (simp add: demo_world_def new_msys_def demo_m2_val)
  have v: "visible ?w = Inr [one_session]"
    by (simp add: visible_def demo_world_def demo_protocol_def DefaultProtocolConfig_def ListSnapshot_def new_msys_def
        demo_m2_val registered_def List.map_filter_def one_session_def new_session_def demo_spec_def)
  have c: "char_of (uint (of_nat (of_char x) :: byte)) = x" for x
    using nat_of_char_less_256 [of x] by (simp add: unsigned_of_nat take_bit_nat_eq_self)
  have l: "list_requests (one_env 1) ?w one_request 1"
    by (simp add: list_requests_def one_request_def demo_call_def decode_def one_env_def demo_env_def one_json_def
        demo_json_def demo_world_def demo_protocol_def DefaultProtocolConfig_def authorize_def c o_def)
  have z: "encodeCursor 1 0 = encodeCursor 1 j" if "0 \<le> i" "i \<le> j" "j < 1" for i j
  proof -
    have "j = 0" using that by linarith
    then show ?thesis by simp
  qed
  have p: "pages_decode (one_env 1) ?w [one_session]"
    unfolding pages_decode_def g
    by (auto simp: one_env_def demo_env_def one_json_def demo_json_def list_response_def response_def go_slice_def
        encodeCursor_nonempty demo_world_def demo_protocol_def DefaultProtocolConfig_def intro: z)
  from list_complete [OF _ l v p] show ?thesis by (simp add: one_env_def demo_env_def numeral_2_eq_2 del: client_list.simps)
qed

section \<open>A page size at the end of the integers\<close>

text \<open>
  With \<open>MaxListItems\<close> at the largest integer a client can crash the handler: a limit that
  takes the position past the range of \<open>int\<close> makes the end of the page negative, no check
  stops it, and the slice expression panics (which the peer turns into a failure of the whole
  connection).
\<close>

theorem list_limit_overflow:
  assumes "e_rely e = (\<lambda>_ _ s. s)" and "list_requests e w rq limit" and "visible w = Inr all"
    and "decodeCursor c = Inr \<lparr>lc_generation = m_generation (mgr w), lc_position = position\<rparr>" and "c \<noteq> ''''"
    and "0 \<le> position" and "position \<le> int (length all)" and "2 ^ 63 \<le> position + limit" and "limit < 2 ^ 63"
    and "int (length all) < 2 ^ 63"
  shows "fst (run_handler e HandleList (rq c) w) = Panics"
proof -
  have "(word_of_int (2 ^ 64) :: 64 word) = 0" by simp
  then have "(word_of_int (position + limit) :: 64 word) = word_of_int (position + limit - 2 ^ 64)"
    by (simp only: of_int_diff) simp
  moreover have "signed_take_bit 63 (position + limit - 2 ^ 64) = position + limit - 2 ^ 64"
    by (rule signed_take_bit_int_eq_self) (use assms(6-10) in simp_all)
  ultimately have add: "go_add position limit = position + limit - 2 ^ 64"
    unfolding go_add_def by (simp only: sint_sbintrunc') simp
  then have neg: "go_add position limit < position" using assms(9) by simp
  have "handleList e (rq c) w = list_page e (rq c) (m_generation (mgr w)) all position limit (tick e w)"
    by (rule handleList_page [OF assms(1-3)]) (use assms(4,5) in simp)
  moreover have "list_fit e v g all position (go_add position limit) = Inr (go_add position limit)" for v g
    using neg by (subst list_fit.simps) simp
  ultimately show ?thesis using neg assms(6,7) by (simp add: list_page_def Let_def)
qed

theorem list_limit_overflow_witness:
  "fst (run_handler (one_env (2 ^ 63 - 1)) HandleList (one_request (encodeCursor 1 1))
     ((demo_world demo_m2 None)\<lparr>w_proto := (demo_protocol None)\<lparr>pr_config :=
        (pr_config (demo_protocol None))\<lparr>pc_MaxListItems := 2 ^ 63 - 1\<rparr>\<rparr>\<rparr>)) = Panics"
proof -
  let ?w = "(demo_world demo_m2 None)\<lparr>w_proto := (demo_protocol None)\<lparr>pr_config :=
        (pr_config (demo_protocol None))\<lparr>pc_MaxListItems := 2 ^ 63 - 1\<rparr>\<rparr>\<rparr>"
  have c: "char_of (uint (of_nat (of_char x) :: byte)) = x" for x
    using nat_of_char_less_256 [of x] by (simp add: unsigned_of_nat take_bit_nat_eq_self)
  have l: "list_requests (one_env (2 ^ 63 - 1)) ?w one_request (2 ^ 63 - 1)"
    by (simp add: list_requests_def one_request_def demo_call_def decode_def one_env_def demo_env_def one_json_def
        demo_json_def demo_world_def demo_protocol_def DefaultProtocolConfig_def authorize_def c o_def)
  have g: "m_generation (mgr ?w) = 1" by (simp add: demo_world_def new_msys_def demo_m2_val)
  have v: "visible ?w = Inr [one_session]"
    by (simp add: visible_def demo_world_def demo_protocol_def DefaultProtocolConfig_def ListSnapshot_def new_msys_def
        demo_m2_val registered_def List.map_filter_def one_session_def new_session_def demo_spec_def)
  show ?thesis
    by (rule list_limit_overflow [where position = 1, OF _ l v])
      (use cursor_decode [of 1 1] encodeCursor_nonempty in \<open>simp_all add: g [simplified] one_env_def demo_env_def\<close>)
qed

end
