(* ===== verification/Pty_Protocol_Attach.thy ===== *)
theory Pty_Protocol_Attach
  imports Pty_Protocol_Props
begin

text \<open>
  What a remote client sees when it attaches: \<open>handleAttach\<close> and the sink of \<open>pty/protocol.go\<close>
  together put the frames of one attachment in a fixed order.
\<close>

section \<open>Frames in a calm environment\<close>

text \<open>No interference and no failing send: what the adapter itself does.\<close>

definition calm :: "env \<Rightarrow> bool" where
  "calm e \<longleftrightarrow> e_rely e = (\<lambda>_ _ s. s) \<and> (\<forall>k x. e_send e k x = None)"

definition reply_frame :: "ProtocolConfig \<Rightarrow> frame \<Rightarrow> bytes \<Rightarrow> frame" where
  "reply_frame c request p =
     \<lparr>Header = \<lparr>PayloadLength = of_nat (length p), Version = pc_Version c, MessageType = MessageType (Header request),
        Flags = FlagResponse, CorrelationID = CorrelationID (Header request), StreamID = StreamID (Header request)\<rparr>,
      Payload = p\<rparr>"

definition signal_frame :: "ProtocolConfig \<Rightarrow> MessageType \<Rightarrow> StreamID \<Rightarrow> bytes \<Rightarrow> frame" where
  "signal_frame c t sid p =
     \<lparr>Header = \<lparr>PayloadLength = of_nat (length p), Version = pc_Version c, MessageType = t, Flags = FlagEvent,
        CorrelationID = 0, StreamID = sid\<rparr>, Payload = p\<rparr>"

text \<open>The world after one frame was handed over.\<close>

definition after_send :: "(frame \<times> TrafficClass) \<Rightarrow> world \<Rightarrow> world" where
  "after_send x w = w\<lparr>w_clock := Suc (w_clock w), w_sent := w_sent w @ [x]\<rparr>"

lemma after_send_fields [simp]:
  "w_sys (after_send x w) = w_sys w" "w_proto (after_send x w) = w_proto w" "w_sent (after_send x w) = w_sent w @ [x]"
  by (simp_all add: after_send_def)

lemma calm_tick: "calm e \<Longrightarrow> tick e w = w\<lparr>w_clock := Suc (w_clock w)\<rparr>"
  by (simp add: calm_def tick_def)

lemma calm_send: "calm e \<Longrightarrow> peer_SendOwned e f class w = (None, after_send (f, class) w)"
  by (simp add: calm_tick peer_SendOwned_def Let_def after_send_def) (simp add: calm_def)

lemma calm_respond:
  assumes "calm e" and "Marshal (e_json e) (JResponse v) = Inr p" and "length p < 2 ^ 32" and "pc_Version (cfg w) \<noteq> 0"
    and "MessageType (Header request) \<noteq> 0" and "CorrelationID (Header request) \<noteq> 0" and "Flags (Header request) = FlagRequest"
  shows "respond e request v w = (None, after_send (reply_frame (cfg w) request p, TrafficControl) w)"
proof -
  have "newFrame \<lparr>PayloadLength = 0, Version = pc_Version (cfg w), MessageType = MessageType (Header request),
      Flags = FlagResponse, CorrelationID = CorrelationID (Header request), StreamID = StreamID (Header request)\<rparr> p
    = Inr (reply_frame (cfg w) request p)"
    using assms(3-6) by (simp add: newFrame_Inr_iff reply_frame_def)
  moreover have "Respond_frame request (reply_frame (cfg w) request p) = Inr (reply_frame (cfg w) request p, TrafficControl)"
    using assms(5,7) by (simp add: Respond_frame_def reply_frame_def Clone_def Let_def)
  ultimately show ?thesis
    using assms(2) by (simp add: respond_def NewOwnedFrame_def peer_Respond_def calm_send [OF assms(1)])
qed

lemma signal_newFrame:
  "length p < 2 ^ 32 \<Longrightarrow> pc_Version c \<noteq> 0 \<Longrightarrow> t \<noteq> 0 \<Longrightarrow>
   newFrame \<lparr>PayloadLength = 0, Version = pc_Version c, MessageType = t, Flags = FlagEvent, CorrelationID = 0, StreamID = sid\<rparr> p
     = Inr (signal_frame c t sid p)"
  by (simp add: newFrame_Inr_iff signal_frame_def)

lemma calm_emitJSON:
  assumes "calm e" and "Marshal (e_json e) v = Inr p" and "length p < 2 ^ 32" and "pc_Version (cfg w) \<noteq> 0" and "t \<noteq> 0"
  shows "emitJSON e t sid v class w = (None, after_send (signal_frame (cfg w) t sid p, class) w)"
  using assms(2) signal_newFrame [OF assms(3-5)] by (simp add: emitJSON_def NewOwnedFrame_def calm_send [OF assms(1)])

lemma calm_emitEmpty:
  assumes "calm e" and "pc_Version (cfg w) \<noteq> 0" and "t \<noteq> 0"
  shows "emitEmpty e t sid class w = (None, after_send (signal_frame (cfg w) t sid [], class) w)"
  using signal_newFrame [of "[]", OF _ assms(2,3)] by (simp add: emitEmpty_def NewFrame_def calm_send [OF assms(1)])

section \<open>The sink\<close>

fun sink_all :: "env \<Rightarrow> nat \<Rightarrow> AttachmentEvent list \<Rightarrow> world \<Rightarrow> world" where
  "sink_all e k [] w = w"
| "sink_all e k (ev # evs) w = sink_all e k evs (snd (sink_Send e k ev w))"

abbreviation out_frame :: "ProtocolConfig \<Rightarrow> StreamID \<Rightarrow> OutputEvent \<Rightarrow> frame \<times> TrafficClass" where
  "out_frame c sid ev \<equiv> (signal_frame c (mt_Output (pc_Types c)) sid (Data ev), TrafficBulk)"

abbreviation end_frame :: "ProtocolConfig \<Rightarrow> StreamID \<Rightarrow> frame \<times> TrafficClass" where
  "end_frame c sid \<equiv> (signal_frame c (mt_ReplayEnd (pc_Types c)) sid [], TrafficControl)"

lemma sink_output:
  assumes "calm e" and "mget (pr_sinks (w_proto w)) k = Some s" and "length (Data ev) < 2 ^ 32"
    and "pc_Version (cfg w) \<noteq> 0" and "mt_Output (pc_Types (cfg w)) \<noteq> 0" and "mt_ReplayEnd (pc_Types (cfg w)) \<noteq> 0"
  shows "snd (sink_Send e k (AttachmentOutput ev) w) =
    (if \<not> sk_replayEnded s \<and> sk_replayLast s \<noteq> 0 \<and> Sequence ev = sk_replayLast s
     then after_send (end_frame (cfg w) (sk_streamID s))
            (set_sink k (s\<lparr>sk_replayEnded := True\<rparr>) (after_send (out_frame (cfg w) (sk_streamID s) ev) w))
     else after_send (out_frame (cfg w) (sk_streamID s) ev) w)"
proof -
  have c: "cfg (set_sink k x v) = cfg v" for x v by (simp add: set_sink_def)
  show ?thesis
    using assms(2) signal_newFrame [OF assms(3,4,5), of "sk_streamID s"] calm_send [OF assms(1)]
      calm_emitEmpty [OF assms(1) _ assms(6)] assms(4)
    by (simp add: sink_Send_def NewFrame_def c Let_def)
qed

lemma sink_all_plain:
  assumes "calm e" and "\<forall>ev \<in> set evs. length (Data ev) < 2 ^ 32"
    and "pc_Version c \<noteq> 0" and "mt_Output (pc_Types c) \<noteq> 0" and "mt_ReplayEnd (pc_Types c) \<noteq> 0"
    and "cfg w = c" and "mget (pr_sinks (w_proto w)) k = Some s"
    and "sk_replayEnded s \<or> sk_replayLast s \<notin> Sequence ` set evs"
  shows "sink_all e k (map AttachmentOutput evs @ rest) w =
      sink_all e k rest (fold (\<lambda>ev. after_send (out_frame c (sk_streamID s) ev)) evs w)"
  using assms(2,6-8)
proof (induction evs arbitrary: w)
  case (Cons ev evs)
  let ?w = "after_send (out_frame c (sk_streamID s) ev) w"
  have "snd (sink_Send e k (AttachmentOutput ev) w) = ?w"
    using sink_output [OF assms(1) Cons.prems(3), of ev] Cons.prems assms(3-5) by auto
  moreover have "sink_all e k (map AttachmentOutput evs @ rest) ?w =
      sink_all e k rest (fold (\<lambda>ev. after_send (out_frame c (sk_streamID s) ev)) evs ?w)"
    by (rule Cons.IH) (use Cons.prems in auto)
  ultimately show ?case by simp
qed simp

lemma fold_after_send:
  "w_sent (fold (\<lambda>ev. after_send (g ev)) evs w) = w_sent w @ map g evs"
  "w_proto (fold (\<lambda>ev. after_send (g ev)) evs w) = w_proto w"
  by (induction evs arbitrary: w) simp_all

text \<open>Replayed chunks, one replay-end event right after the last of them, live chunks.\<close>

lemma sink_replay:
  assumes "calm e" and "\<forall>ev \<in> set (replay @ live). length (Data ev) < 2 ^ 32"
    and "pc_Version c \<noteq> 0" and "mt_Output (pc_Types c) \<noteq> 0" and "mt_ReplayEnd (pc_Types c) \<noteq> 0"
    and "cfg w = c" and s: "mget (pr_sinks (w_proto w)) k = Some s"
    and "distinct (map Sequence (replay @ live))" and "replay \<noteq> []"
    and "sk_replayLast s = Sequence (last replay)" and "sk_replayLast s \<noteq> 0" and "\<not> sk_replayEnded s"
  shows "w_sent (sink_all e k (map AttachmentOutput (replay @ live)) w) =
    w_sent w @ map (out_frame c (sk_streamID s)) replay @ [end_frame c (sk_streamID s)]
      @ map (out_frame c (sk_streamID s)) live"
proof -
  obtain pre l where r: "replay = pre @ [l]" using assms(9) by (metis append_butlast_last_id)
  let ?f = "out_frame c (sk_streamID s)"
  define w1 where "w1 = fold (\<lambda>ev. after_send (?f ev)) pre w"
  define w2 where "w2 = after_send (end_frame c (sk_streamID s)) (set_sink k (s\<lparr>sk_replayEnded := True\<rparr>) (after_send (?f l) w1))"
  have l: "Sequence l = sk_replayLast s" using assms(10) r by simp
  have p1: "w_proto w1 = w_proto w" by (simp add: w1_def fold_after_send)
  have "sink_all e k (map AttachmentOutput pre @ map AttachmentOutput (l # live)) w = sink_all e k (map AttachmentOutput (l # live)) w1"
    unfolding w1_def by (rule sink_all_plain [OF assms(1) _ assms(3-6) s]) (use assms(2,8) r l in auto)
  moreover have "snd (sink_Send e k (AttachmentOutput l) w1) = w2"
    using sink_output [OF assms(1), of w1 k s l] s assms(2-6,11,12) l r by (simp add: w2_def p1)
  moreover have "sink_all e k (map AttachmentOutput live @ []) w2 = sink_all e k [] (fold (\<lambda>ev. after_send (?f ev)) live w2)"
    using sink_all_plain [OF assms(1) _ assms(3-5), of live w2 k "s\<lparr>sk_replayEnded := True\<rparr>" "[]"] assms(2,6)
    by (simp add: w2_def set_sink_def p1)
  ultimately show ?thesis
    by (simp add: r fold_after_send w1_def w2_def set_sink_def)
qed

section \<open>Attaching\<close>

lemma replay_last:
  "ar_ReplayLast (fst (foldl (replay_step w) st h)) =
     (case rev (filter (\<lambda>c. w < Sequence (hc_event c)) h) of [] \<Rightarrow> ar_ReplayLast (fst st) | c # _ \<Rightarrow> Sequence (hc_event c))"
proof (induction h rule: rev_induct)
  case (snoc c h)
  show ?case
  proof (cases "w < Sequence (hc_event c)")
    case True
    then have "\<not> Sequence (hc_event c) \<le> w" by simp
    then show ?thesis using True by (simp add: replay_step_def Let_def)
  next
    case False
    then have "Sequence (hc_event c) \<le> w" by simp
    then have "replay_step w st' c = st'" for st' by (simp add: replay_step_def split: prod.split)
    then show ?thesis using snoc.IH False by simp
  qed
qed simp

lemma attach_replay_last:
  "ar_ReplayLast (fst (attach_replay s opts)) =
     (if snd (attach_replay s opts) = [] then 0 else Sequence (last (snd (attach_replay s opts))))"
  "\<forall>ev \<in> set (snd (attach_replay s opts)). Sequence ev \<noteq> 0"
proof -
  let ?h = "filter (\<lambda>c. ao_ResumeAfter opts < Sequence (hc_event c)) (se_history s)"
  have "rev ?h = [] \<or> (\<exists>c cs. rev ?h = c # cs)" by (cases "rev ?h") auto
  then show "ar_ReplayLast (fst (attach_replay s opts)) =
     (if snd (attach_replay s opts) = [] then 0 else Sequence (last (snd (attach_replay s opts))))"
    unfolding attach_replay_events
    by (auto simp: attach_replay_def Let_def replay_last last_map last_rev [symmetric] split: list.splits)
  show "\<forall>ev \<in> set (snd (attach_replay s opts)). Sequence ev \<noteq> 0"
    unfolding attach_replay_events by auto
qed

text \<open>
  Every value the adapter marshals fits a frame; \<open>marshalled\<close> is its encoding.
\<close>

definition encodes :: "env \<Rightarrow> bool" where
  "encodes e \<longleftrightarrow> (\<forall>v. \<exists>p. Marshal (e_json e) v = Inr p \<and> length p < 2 ^ 32)"

definition marshalled :: "env \<Rightarrow> control_value \<Rightarrow> bytes" where
  "marshalled e v = (case Marshal (e_json e) v of Inl _ \<Rightarrow> [] | Inr p \<Rightarrow> p)"

lemma encodesD: "encodes e \<Longrightarrow> Marshal (e_json e) v = Inr (marshalled e v) \<and> length (marshalled e v) < 2 ^ 32"
  unfolding encodes_def marshalled_def by (metis sum.simps(6))

text \<open>The two frames that open an attachment.\<close>

definition opening_frames :: "env \<Rightarrow> ProtocolConfig \<Rightarrow> frame \<Rightarrow> AttachResult \<Rightarrow> (frame \<times> TrafficClass) list" where
  "opening_frames e c request result =
     [(reply_frame c request (marshalled e (JResponse ((response (pc_Version c))\<lparr>rs_Attach := Some result\<rparr>))), TrafficControl),
      (signal_frame c (mt_ReplayBegin (pc_Types c)) (sid_of request)
         (marshalled e (JReplay \<lparr>rm_Version = pc_Version c, rm_First = ar_ReplayFirst result, rm_Last = ar_ReplayLast result,
            rm_NextLive = ar_NextLive result, rm_Truncated = ar_Truncated result\<rparr>)), TrafficControl)]"

definition sound_types :: "ProtocolConfig \<Rightarrow> bool" where
  "sound_types c \<longleftrightarrow> pc_Version c \<noteq> 0 \<and> mt_Output (pc_Types c) \<noteq> 0 \<and> mt_ReplayBegin (pc_Types c) \<noteq> 0
     \<and> mt_ReplayEnd (pc_Types c) \<noteq> 0"

lemma calm_activate:
  assumes "calm e" and "k < length (m_atts (mgr w))" and "\<not> at_closed (m_atts (mgr w) ! k)"
  shows "Attachment_Activate e k w =
    (None, set_mgr (upd_att k (\<lambda>a. a\<lparr>at_active := True\<rparr>) (mgr w)) (w\<lparr>w_clock := Suc (w_clock w)\<rparr>))"
proof -
  have "snd (Activate (m_atts (mgr w) ! k)) = (m_atts (mgr w) ! k)\<lparr>at_active := True\<rparr>"
    using assms(3) by (simp add: Activate_def)
  then have "upd_att k (\<lambda>a. snd (Activate a)) (mgr w) = upd_att k (\<lambda>a. a\<lparr>at_active := True\<rparr>) (mgr w)"
    by (simp add: upd_att_def)
  then show ?thesis
    using assms by (simp add: Attachment_Activate_def calm_tick Let_def Activate_def)
qed

lemma calm_announce:
  assumes "calm e" and "encodes e" and "sound_types (cfg w)" and "k < length (m_atts (mgr w))"
    and "\<not> at_closed (m_atts (mgr w) ! k)" and "MessageType (Header request) \<noteq> 0" and "CorrelationID (Header request) \<noteq> 0"
    and "Flags (Header request) = FlagRequest"
  obtains w' where "attach_announce e request k result w = (None, w')"
    "mgr w' = upd_att k (\<lambda>a. a\<lparr>at_active := True\<rparr>) (mgr w)"
    "w_sent w' = w_sent w @ opening_frames e (cfg w) request result
       @ (if ar_ReplayLast result = 0 then [end_frame (cfg w) (sid_of request)] else [])"
    "pr_attachments (w_proto w') = pr_attachments (w_proto w)" "cfg w' = cfg w"
    "ar_ReplayLast result = 0 \<Longrightarrow>
       mget (pr_sinks (w_proto w')) k = Some \<lparr>sk_streamID = sid_of request, sk_replayLast = 0, sk_replayEnded = True\<rparr>"
    "ar_ReplayLast result \<noteq> 0 \<Longrightarrow> pr_sinks (w_proto w') = pr_sinks (w_proto w)"
proof -
  define w1 where "w1 = after_send (opening_frames e (cfg w) request result ! 1)
    (after_send (opening_frames e (cfg w) request result ! 0) w)"
  define w3 where "w3 = (if ar_ReplayLast result = 0
    then set_sink k \<lparr>sk_streamID = sid_of request, sk_replayLast = 0, sk_replayEnded = True\<rparr>
           (after_send (end_frame (cfg w) (sid_of request)) w1) else w1)"
  note t = assms(3) [unfolded sound_types_def]
  have m: "mgr w3 = mgr w" by (simp add: w3_def w1_def set_sink_def)
  have "respond e request ((response (pc_Version (cfg w)))\<lparr>rs_Attach := Some result\<rparr>) w
      = (None, after_send (opening_frames e (cfg w) request result ! 0) w)"
    using calm_respond [OF assms(1) conjunct1 [OF encodesD [OF assms(2)]] conjunct2 [OF encodesD [OF assms(2)]] _ assms(6-8)] t
    by (simp add: opening_frames_def)
  moreover have "emitJSON e (mt_ReplayBegin (pc_Types (cfg w))) (sid_of request)
      (JReplay \<lparr>rm_Version = pc_Version (cfg w), rm_First = ar_ReplayFirst result, rm_Last = ar_ReplayLast result,
          rm_NextLive = ar_NextLive result, rm_Truncated = ar_Truncated result\<rparr>) TrafficControl
      (after_send (opening_frames e (cfg w) request result ! 0) w) = (None, w1)"
    using calm_emitJSON [OF assms(1) conjunct1 [OF encodesD [OF assms(2)]] conjunct2 [OF encodesD [OF assms(2)]]] t
    by (simp add: opening_frames_def w1_def)
  moreover have "emitEmpty e (mt_ReplayEnd (pc_Types (cfg w))) (sid_of request) TrafficControl w1
      = (None, after_send (end_frame (cfg w) (sid_of request)) w1)"
    using calm_emitEmpty [OF assms(1), of w1] t by (simp add: w1_def)
  ultimately have "attach_announce e request k result w = Attachment_Activate e k w3"
    using calm_activate [OF assms(1), of k w3] assms(4,5) m by (cases "ar_ReplayLast result = 0") (simp_all add: attach_announce_def Let_def w3_def)
  then show thesis
    using that calm_activate [OF assms(1), of k w3] assms(4,5) m
    by (simp add: set_mgr_def w3_def w1_def set_sink_def opening_frames_def)
qed

lemma overflowed_calm:
  assumes "calm e"
  shows "m_atts (mgr (finishObservers e ks err reason w)) = m_atts (mgr w)"
    "w_proto (finishObservers e ks err reason w) = w_proto w" "w_sent (finishObservers e ks err reason w) = w_sent w"
  unfolding finishObservers_def
  by (induction ks arbitrary: w)
    (simp_all add: calm_tick [OF assms] Let_def set_mgr_def su_finish_at_def upd_sub_def recordObserverClose_def)

text \<open>A session's attachment, accepted and entered in the manager.\<close>

lemma calm_attach:
  assumes "calm e" and "pr_ctx (w_proto w) = None" and "sess (mgr w) sid = Some s"
    and "attach_check (Some None) opts True = Inr opts'"
    and "attach_locked sid opts' None (mgr w) = (Inr (k, result, failed), m2)"
  obtains w' where "Session_Attach e sid opts w = (Inr (k, result), w')" "m_atts (mgr w') = m_atts m2"
    "w_proto w' = w_proto w" "w_sent w' = w_sent w"
  using assms overflowed_calm [OF assms(1)]
  by (simp add: Session_Attach_def calm_tick Let_def)

lemma attach_locked_atts:
  assumes "attach_locked sid opts raced m = (Inr (k, result, failed), m2)" and "sess m sid = Some s"
  shows "m_atts m2 = m_atts m @ [attached m sid s opts]" "k = length (m_atts m)" "result = fst (attach_replay s opts)"
proof -
  from attach_ok_state [OF assms] obtain m1 ev where a: "result = fst (attach_replay s opts)" "k = length (m_atts m)"
    and m1: "m1 = m\<lparr>m_nextAttachment := m_nextAttachment m + 1,
            m_store := mput sid (s\<lparr>se_attachments := mput (m_nextAttachment m + 1) k (se_attachments s)\<rparr>) (m_store m),
            m_atts := m_atts m @ [attached m sid s opts]\<rparr>" and m2: "m2 = snd (emitLocked ev m1)" by blast
  have "m_atts m2 = m_atts m1"
    using emitLocked_same [of m1 ev] core_fields(4) unfolding same_but_observers_def m2 by metis
  then show "m_atts m2 = m_atts m @ [attached m sid s opts]" "k = length (m_atts m)" "result = fst (attach_replay s opts)"
    using a by (simp_all add: m1)
qed

text \<open>An accepted request, up to the end of \<open>handleAttach\<close>.\<close>

definition attach_options :: "AttachRequest \<Rightarrow> AttachOptions" where
  "attach_options payload = \<lparr>ao_Replay = aq_Replay payload, ao_ResumeAfter = aq_ResumeAfter payload, ao_Paused = True\<rparr>"

lemma accepted_attach:
  assumes "calm e" and "encodes e" and "sound_types (cfg w)"
    and "MessageType (Header request) \<noteq> 0" and "CorrelationID (Header request) \<noteq> 0"
    and "decode e (UnmarshalAttach (e_json e)) request w = Inr payload"
    and "authorize \<lparr>au_Operation = OperationAttach, au_SessionID = sid_of request, au_ProcessSpec = None\<rparr> w = None"
    and "Get (sid_of request) (mgr w) = Some s" and "mget (pr_attachments (w_proto w)) (sid_of request) = None"
    and "pr_ctx (w_proto w) = None" and "attach_check (Some None) (attach_options payload) True = Inr opts"
    and "attach_locked (sid_of request) opts None (mgr w) = (Inr (k, result, failed), m2)"
  obtains x where "handleAttach e request w = (None, x)" "k < length (m_atts (mgr x))"
    "m_atts (mgr x) ! k = (attached (mgr w) (sid_of request) s opts)\<lparr>at_active := True\<rparr>"
    "w_sent x = w_sent w @ opening_frames e (cfg w) request result
       @ (if ar_ReplayLast result = 0 then [end_frame (cfg w) (sid_of request)] else [])"
    "mget (pr_attachments (w_proto x)) (sid_of request) = Some k" "cfg x = cfg w"
    "mget (pr_sinks (w_proto x)) k = Some \<lparr>sk_streamID = sid_of request, sk_replayLast = ar_ReplayLast result,
       sk_replayEnded = (ar_ReplayLast result = 0)\<rparr>" "result = fst (attach_replay s opts)"
proof -
  have s: "sess (mgr w) (sid_of request) = Some s" using assms(8) by (simp add: Get_def registered_def split: if_splits)
  note atts = attach_locked_atts [OF assms(12) s]
  define u where "u = w\<lparr>w_clock := Suc (Suc (w_clock w))\<rparr>"
  have "sess (mgr u) (sid_of request) = Some s" "attach_locked (sid_of request) opts None (mgr u) = (Inr (k, result, failed), m2)"
    "pr_ctx (w_proto u) = None" using s assms(10,12) by (simp_all add: u_def)
  from calm_attach [OF assms(1) this(3,1) assms(11) this(2)] obtain v where
    v: "Session_Attach e (sid_of request) (attach_options payload) u = (Inr (k, result), v)"
      "m_atts (mgr v) = m_atts m2" "w_proto v = w_proto w" "w_sent v = w_sent w"
    by (auto simp: u_def)
  let ?sink = "\<lparr>sk_streamID = sid_of request, sk_replayLast = ar_ReplayLast result, sk_replayEnded = False\<rparr>"
  define v5 where "v5 = set_attachments (mput (sid_of request) k (pr_attachments (w_proto w)))
    ((set_sink k ?sink v)\<lparr>w_clock := Suc (w_clock v)\<rparr>)"
  have h: "handleAttach e request w = attach_announce e request k result v5"
    using assms(6-9) v unfolding attach_options_def
    by (simp add: handleAttach_def Let_def Manager_Get_def calm_tick [OF assms(1)] v5_def set_sink_def u_def)
  have v5: "m_atts (mgr v5) = m_atts m2" "cfg v5 = cfg w" "w_sent v5 = w_sent w"
    "mget (pr_attachments (w_proto v5)) (sid_of request) = Some k" "mget (pr_sinks (w_proto v5)) k = Some ?sink"
    using v by (simp_all add: v5_def set_attachments_def set_sink_def)
  have req: "Flags (Header request) = FlagRequest" using assms(6) by (simp add: decode_def split: if_splits)
  have k: "k < length (m_atts (mgr v5))" "m_atts (mgr v5) ! k = attached (mgr w) (sid_of request) s opts"
    by (simp_all add: v5 atts)
  have open_k: "\<not> at_closed (m_atts (mgr v5) ! k)" by (simp add: k attached_fields)
  have types: "sound_types (cfg v5)" using assms(3) v5(2) by simp
  show thesis
  proof (rule calm_announce [OF assms(1,2) types k(1) open_k assms(4,5) req])
    fix x
    assume "attach_announce e request k result v5 = (None, x)"
      "mgr x = upd_att k (\<lambda>a. a\<lparr>at_active := True\<rparr>) (mgr v5)"
      "w_sent x = w_sent v5 @ opening_frames e (cfg v5) request result
         @ (if ar_ReplayLast result = 0 then [end_frame (cfg v5) (sid_of request)] else [])"
      "pr_attachments (w_proto x) = pr_attachments (w_proto v5)" "cfg x = cfg v5"
      "ar_ReplayLast result = 0 \<Longrightarrow>
         mget (pr_sinks (w_proto x)) k = Some \<lparr>sk_streamID = sid_of request, sk_replayLast = 0, sk_replayEnded = True\<rparr>"
      "ar_ReplayLast result \<noteq> 0 \<Longrightarrow> pr_sinks (w_proto x) = pr_sinks (w_proto v5)"
    then show thesis
      using that [of x] k h v5 atts(3) by (cases "ar_ReplayLast result = 0") (simp_all add: upd_att_def)
  qed
qed

text \<open>
  (C12) What a client that attaches receives. Once \<open>handleAttach\<close> has accepted a request it has
  entered the attachment in its map, activated it and sent the response followed by the
  replay-begin event; and when the sink then gets the replayed chunks and after them any live
  chunks, the client sees on its stream exactly: response, replay-begin, the replayed chunks in
  order, one replay-end event, the live chunks in order. The replay-end event stands right after
  the last replayed chunk, or right after replay-begin when there is nothing to replay. The queue
  of the new attachment starts with exactly those replayed chunks.
\<close>

theorem attach_stream:
  assumes "calm e" and "encodes e" and "sound_types (cfg w)"
    and "MessageType (Header request) \<noteq> 0" and "CorrelationID (Header request) \<noteq> 0"
    and "decode e (UnmarshalAttach (e_json e)) request w = Inr payload"
    and "authorize \<lparr>au_Operation = OperationAttach, au_SessionID = sid_of request, au_ProcessSpec = None\<rparr> w = None"
    and "Get (sid_of request) (mgr w) = Some s" and "mget (pr_attachments (w_proto w)) (sid_of request) = None"
    and "pr_ctx (w_proto w) = None"
    and "attach_check (Some None) (attach_options payload) True = Inr opts"
    and "attach_locked (sid_of request) opts None (mgr w) = (Inr (k, result, failed), m2)"
    and "replay = snd (attach_replay s opts)" and "distinct (map Sequence (replay @ live))"
    and "\<forall>ev \<in> set (replay @ live). length (Data ev) < 2 ^ 32"
    and "handleAttach e request w = (r, w')"
  shows "r = None \<and> mget (pr_attachments (w_proto w')) (sid_of request) = Some k \<and> at_active (m_atts (mgr w') ! k)
    \<and> take (length replay) (at_pending (m_atts (mgr w') ! k)) = map AttachmentOutput replay
    \<and> w_sent (sink_all e k (map AttachmentOutput (replay @ live)) w') =
        w_sent w @ opening_frames e (cfg w) request result @ map (out_frame (cfg w) (sid_of request)) replay
          @ [end_frame (cfg w) (sid_of request)] @ map (out_frame (cfg w) (sid_of request)) live"
proof -
  note t = assms(3) [unfolded sound_types_def]
  let ?frames = "map (out_frame (cfg w) (sid_of request))"
  obtain x where x: "handleAttach e request w = (None, x)" "k < length (m_atts (mgr x))"
    "m_atts (mgr x) ! k = (attached (mgr w) (sid_of request) s opts)\<lparr>at_active := True\<rparr>"
    "w_sent x = w_sent w @ opening_frames e (cfg w) request result
       @ (if ar_ReplayLast result = 0 then [end_frame (cfg w) (sid_of request)] else [])"
    "mget (pr_attachments (w_proto x)) (sid_of request) = Some k" "cfg x = cfg w"
    "mget (pr_sinks (w_proto x)) k = Some \<lparr>sk_streamID = sid_of request, sk_replayLast = ar_ReplayLast result,
       sk_replayEnded = (ar_ReplayLast result = 0)\<rparr>" "result = fst (attach_replay s opts)"
    using accepted_attach [OF assms(1-12)] by blast
  have w': "w' = x" "r = None" using x(1) assms(16) by simp_all
  have pending: "at_pending (m_atts (mgr x) ! k) = at_pending (attached (mgr w) (sid_of request) s opts)"
    by (simp add: x(3) at_pending_def)
  have last: "ar_ReplayLast result = (if replay = [] then 0 else Sequence (last replay))"
    "replay \<noteq> [] \<Longrightarrow> Sequence (last replay) \<noteq> 0"
    using attach_replay_last [of s opts] x(8) assms(13) by simp_all
  have "w_sent (sink_all e k (map AttachmentOutput (replay @ live)) x) = w_sent w @ opening_frames e (cfg w) request result
      @ ?frames replay @ [end_frame (cfg w) (sid_of request)] @ ?frames live"
  proof (cases "replay = []")
    case True
    have "sink_all e k (map AttachmentOutput live @ []) x = sink_all e k []
        (fold (\<lambda>ev. after_send (out_frame (cfg w) (sid_of request) ev)) live x)"
      using sink_all_plain [OF assms(1) _ _ _ _ x(6,7), of live "[]"] t assms(15) last True by simp
    then show ?thesis using True x(4) last by (simp add: fold_after_send)
  next
    case False
    then show ?thesis
      using sink_replay [OF assms(1,15) _ _ _ x(6,7) assms(14)] t last x(4) by simp
  qed
  then show ?thesis using w' x pending attached_fields(4) [of "mgr w" "sid_of request" s opts] assms(13) by simp
qed

definition demo_written :: Manager where "demo_written = pump_effect 1 (Some [7, 8]) None demo_m2"

definition demo_session :: Session where "demo_session = the (sess demo_written 1)"

definition demo_history :: AttachOptions where
  "demo_history = \<lparr>ao_Replay = ReplayHistory, ao_ResumeAfter = 0, ao_Paused = True\<rparr>"

lemma demo_attach_facts:
  "Get 1 demo_written = Some demo_session"
  "snd (attach_replay demo_session demo_history) = [\<lparr>Sequence = 1, Data = [7, 8]\<rparr>]"
  "attach_locked 1 demo_history None demo_written = (Inr (0, fst (attach_replay demo_session demo_history), []),
     snd (attach_locked 1 demo_history None demo_written))"
  "attach_check (Some None) demo_history True = Inr demo_history"
  by code_simp+

lemma demo_calm: "calm demo_env" "encodes demo_env"
  by (simp_all add: calm_def encodes_def demo_env_def demo_json_def)

theorem attach_stream_witness:
  "w_sent (sink_all demo_env 0 (map AttachmentOutput ([\<lparr>Sequence = 1, Data = [7, 8]\<rparr>] @ [\<lparr>Sequence = 2, Data = [9]\<rparr>]))
       (snd (handleAttach demo_env (demo_call 4 1 [1]) (demo_world demo_written None)))) =
     opening_frames demo_env (cfg (demo_world demo_written None)) (demo_call 4 1 [1]) (fst (attach_replay demo_session demo_history))
     @ [out_frame (cfg (demo_world demo_written None)) 1 \<lparr>Sequence = 1, Data = [7, 8]\<rparr>,
        end_frame (cfg (demo_world demo_written None)) 1,
        out_frame (cfg (demo_world demo_written None)) 1 \<lparr>Sequence = 2, Data = [9]\<rparr>]"
proof -
  let ?w = "demo_world demo_written None" and ?f = "demo_call 4 1 [1]"
  let ?p = "\<lparr>aq_Version = 1, aq_Replay = ReplayHistory, aq_ResumeAfter = 0\<rparr>"
  note defs = demo_world_def demo_protocol_def demo_types_def demo_call_def DefaultProtocolConfig_def
  have 1: "sound_types (cfg ?w)" "MessageType (Header ?f) \<noteq> 0" "CorrelationID (Header ?f) \<noteq> 0"
    by (simp_all add: sound_types_def defs)
  have 2: "decode demo_env (UnmarshalAttach (e_json demo_env)) ?f ?w = Inr ?p"
    by (simp add: decode_def demo_env_def demo_json_def defs)
  have 3: "authorize \<lparr>au_Operation = OperationAttach, au_SessionID = sid_of ?f, au_ProcessSpec = None\<rparr> ?w = None"
    "Get (sid_of ?f) (mgr ?w) = Some demo_session" "mget (pr_attachments (w_proto ?w)) (sid_of ?f) = None"
    "pr_ctx (w_proto ?w) = None" 
    using demo_attach_facts(1) by (simp_all add: authorize_def defs new_msys_def)
  have 4: "attach_check (Some None) (attach_options ?p) True = Inr demo_history"
    using demo_attach_facts(4) by (simp add: attach_options_def demo_history_def)
  have 5: "attach_locked (sid_of ?f) demo_history None (mgr ?w) = (Inr (0, fst (attach_replay demo_session demo_history), []),
     snd (attach_locked 1 demo_history None demo_written))"
    using demo_attach_facts(3) by (simp add: defs new_msys_def)
  have 6: "distinct (map Sequence ([\<lparr>Sequence = 1, Data = [7, 8]\<rparr>] @ [\<lparr>Sequence = 2, Data = [9]\<rparr>]))"
    "\<forall>ev \<in> set ([\<lparr>Sequence = 1, Data = [7, 8]\<rparr>] @ [\<lparr>Sequence = 2, Data = [9]\<rparr>]). length (Data ev) < 2 ^ 32"
    by simp_all
  have "w_sent ?w = []" "sid_of ?f = 1" by (simp_all add: defs)
  then show ?thesis
    using attach_stream [OF demo_calm 1 2 3 4 5 demo_attach_facts(2) [symmetric] 6 prod.collapse [symmetric]] by simp
qed

end
