(* ===== verification/Pty_Client.thy ===== *)
theory Pty_Client
  imports Pty_Protocol_Attach
begin

text \<open>
  The client's side of an attachment: the terminal output it collects from the frames it gets,
  and what of it the sink of \<open>pty/protocol.go\<close> has sent.
\<close>

definition client_output :: "ProtocolConfig \<Rightarrow> StreamID \<Rightarrow> frame list \<Rightarrow> bytes list" where
  "client_output c sid fs =
     map Payload (filter (\<lambda>f. StreamID (Header f) = sid \<and> MessageType (Header f) = mt_Output (pc_Types c)) fs)"

lemma client_output_append [simp]:
  "client_output c sid (xs @ ys) = client_output c sid xs @ client_output c sid ys"
  by (simp add: client_output_def)

lemma client_output_Nil [simp]: "client_output c sid [] = []"
  by (simp add: client_output_def)

lemma client_output_stamped: "client_output c sid (map stamped fs) = client_output c sid fs"
  by (induction fs) (auto simp: client_output_def stamped_def)

lemma client_output_stream: "client_output c sid (filter (\<lambda>f. StreamID (Header f) = sid) fs) = client_output c sid fs"
  by (induction fs) (auto simp: client_output_def)

lemma client_output_signal:
  "client_output c sid (signal_frame c t sid p # fs) =
     (if t = mt_Output (pc_Types c) then p # client_output c sid fs else client_output c sid fs)"
  by (simp add: client_output_def signal_frame_def)

lemma valid_types:
  assumes "MessageTypes_validate t = None"
  shows "mt_Output t \<noteq> 0" "mt_ReplayEnd t \<noteq> 0" "mt_Exit t \<noteq> 0" "mt_ReplayEnd t \<noteq> mt_Output t" "mt_Exit t \<noteq> mt_Output t"
  using assms unfolding MessageTypes_validate_def mt_scan_None mt_values_def by auto

lemma sink_output_client:
  assumes "calm e" and "pc_Version c \<noteq> 0" and t: "MessageTypes_validate (pc_Types c) = None" and "length (Data ev) < 2 ^ 32"
    and "cfg w = c" and "mget (pr_sinks (w_proto w)) k = Some s" and "w' = snd (sink_Send e k (AttachmentOutput ev) w)"
  shows "cfg w' = c" and "\<exists>s'. mget (pr_sinks (w_proto w')) k = Some s' \<and> sk_streamID s' = sk_streamID s"
    and "client_output c (sk_streamID s) (map fst (w_sent w')) = client_output c (sk_streamID s) (map fst (w_sent w)) @ [Data ev]"
proof -
  note o = sink_output [OF assms(1,6,4), unfolded assms(5), OF assms(2) valid_types(1,2) [OF t], folded assms(7)]
  show "cfg w' = c" using assms(5) by (simp add: o set_sink_def)
  show "\<exists>s'. mget (pr_sinks (w_proto w')) k = Some s' \<and> sk_streamID s' = sk_streamID s"
    using assms(6) by (simp add: o set_sink_def)
  show "client_output c (sk_streamID s) (map fst (w_sent w')) = client_output c (sk_streamID s) (map fst (w_sent w)) @ [Data ev]"
    by (simp add: o set_sink_def client_output_signal valid_types [OF t])
qed

lemma sink_exit_client:
  assumes "calm e" and "encodes e" and "pc_Version c \<noteq> 0" and t: "MessageTypes_validate (pc_Types c) = None"
    and "cfg w = c" and "mget (pr_sinks (w_proto w)) k = Some s"
  shows "client_output c (sk_streamID s) (map fst (w_sent (snd (sink_Send e k (AttachmentExit st) w))))
    = client_output c (sk_streamID s) (map fst (w_sent w))"
proof -
  let ?v = "JExit (pc_Version c) st"
  from encodesD [OF assms(2), of ?v] have m: "Marshal (e_json e) ?v = Inr (marshalled e ?v)" "length (marshalled e ?v) < 2 ^ 32"
    by simp_all
  have "emitJSON e (mt_Exit (pc_Types c)) (sk_streamID s) ?v TrafficControl w =
      (None, after_send (signal_frame c (mt_Exit (pc_Types c)) (sk_streamID s) (marshalled e ?v), TrafficControl) w)"
    using calm_emitJSON [OF assms(1) m, of w "mt_Exit (pc_Types c)"] assms(3,5) valid_types(3) [OF t] by simp
  then show ?thesis
    using assms(5,6) by (simp add: sink_Send_def Let_def client_output_signal valid_types [OF t])
qed

text \<open>The output a client is sent is the output the sink was given, chunk by chunk.\<close>

lemma sink_client:
  assumes "calm e" and "encodes e" and "pc_Version c \<noteq> 0" and "MessageTypes_validate (pc_Types c) = None"
    and "\<forall>ev \<in> set evs. length (Data ev) < 2 ^ 32" and "ex = [] \<or> (\<exists>st. ex = [AttachmentExit st])"
    and "cfg w = c" and "mget (pr_sinks (w_proto w)) k = Some s"
  shows "client_output c (sk_streamID s) (map fst (w_sent (sink_all e k (map AttachmentOutput evs @ ex) w)))
    = client_output c (sk_streamID s) (map fst (w_sent w)) @ map Data evs"
  using assms(5,7,8)
proof (induction evs arbitrary: w s)
  case Nil
  then show ?case using assms(6) sink_exit_client [OF assms(1-4)] by auto
next
  case (Cons ev evs)
  have "length (Data ev) < 2 ^ 32" using Cons.prems(1) by simp
  note o = sink_output_client [OF assms(1,3,4) this Cons.prems(2,3) refl]
  then obtain s' where s': "mget (pr_sinks (w_proto (snd (sink_Send e k (AttachmentOutput ev) w)))) k = Some s'"
    "sk_streamID s' = sk_streamID s" by blast
  show ?case using Cons.IH [OF _ o(1) s'(1)] Cons.prems(1) s'(2) o(3) by simp
qed

end
