(* ===== verification/Pty_Backend.thy ===== *)
theory Pty_Backend
  imports Pty_Base
begin

text \<open>
  What the two process backends share: the checks of a process description, and the contract
  of \<open>pty.ManagedProcess\<close> (\<open>pty/pty.go\<close>) as a locale over a step relation. The Unix and the
  Windows process are interpretations of it.
\<close>

section \<open>Checking a process description\<close>

text \<open>The strings that become execution parameters; a nil environment adds none.\<close>

definition spec_values :: "ProcessSpec \<Rightarrow> string list" where
  "spec_values spec = [Command spec, Dir spec] @ Args spec @ (case Env spec of None \<Rightarrow> [] | Some xs \<Rightarrow> xs)"

definition has_nul :: "string \<Rightarrow> bool" where
  "has_nul s = (CHR 0x00 \<in> set s)"

text \<open>A Go \<open>int\<close> kept by a conversion to a narrower type.\<close>

lemma ucast_16_exact: "0 < sint (x :: 64 word) \<Longrightarrow> sint x < 2 ^ 16 \<Longrightarrow> uint (ucast x :: 16 word) = sint x"
proof -
  assume p: "0 < sint x" and b: "sint x < 2 ^ 16"
  have "uint x = take_bit 64 (sint x)" by (simp add: uint_sint)
  then have "uint x = sint x" using p b by (simp add: take_bit_int_eq_self)
  then show ?thesis using p b by (simp add: unsigned_ucast_eq take_bit_int_eq_self)
qed

section \<open>The contract of a managed process\<close>

text \<open>
  \<open>outcome\<close> is what \<open>WaitStatus\<close> returns once it can, \<open>released\<close> what \<open>Close\<close> returns once it
  has run, \<open>killed\<close> the mark a kill leaves, and \<open>forced\<close> the steps at which the system
  accepted a forced kill.
\<close>

locale managed_process = step_invariant step inv
  for step :: "'s \<Rightarrow> 'l \<Rightarrow> 's \<Rightarrow> bool" and inv :: "'s \<Rightarrow> bool" +
  fixes outcome :: "'s \<Rightarrow> (ExitStatus \<times> gerror option) option"
    and released :: "'s \<Rightarrow> gerror option option"
    and killed :: "'s \<Rightarrow> bool"
    and forced :: "'l \<Rightarrow> bool"
  assumes outcome_stable: "inv s \<Longrightarrow> step s l t \<Longrightarrow> outcome s = Some r \<Longrightarrow> outcome t = Some r"
    and released_stable: "inv s \<Longrightarrow> step s l t \<Longrightarrow> released s = Some e \<Longrightarrow> released t = Some e"
    and killed_forced: "inv s \<Longrightarrow> step s l t \<Longrightarrow> killed t \<Longrightarrow> killed s \<or> forced l"
    and killed_reported: "inv s \<Longrightarrow> outcome s = Some (status, err) \<Longrightarrow> Reason status = ExitReasonKilled \<Longrightarrow> killed s"
begin

lemma outcome_once: "trace step s ls t \<Longrightarrow> inv s \<Longrightarrow> outcome s = Some r \<Longrightarrow> outcome t = Some r"
  by (induction rule: trace.induct) (auto intro: outcome_stable trace_keeps)

lemma released_once: "trace step s ls t \<Longrightarrow> inv s \<Longrightarrow> released s = Some e \<Longrightarrow> released t = Some e"
  by (induction rule: trace.induct) (auto intro: released_stable trace_keeps)

lemma killed_traced: "trace step s ls t \<Longrightarrow> inv s \<Longrightarrow> killed t \<Longrightarrow> killed s \<or> (\<exists>l \<in> set ls. forced l)"
proof (induction rule: trace.induct)
  case (trace_snoc s ls t l u)
  then have "inv t" by (blast intro: trace_keeps)
  then show ?case using trace_snoc killed_forced by fastforce
qed simp

text \<open>A process is reported as killed only if the system accepted a forced kill.\<close>

lemma kill_honest:
  assumes "trace step s ls t" and "inv s" and "\<not> killed s"
    and "outcome t = Some (status, err)" and "Reason status = ExitReasonKilled"
  shows "\<exists>l \<in> set ls. forced l"
proof -
  have "inv t" using assms(1,2) by (rule trace_keeps)
  then have "killed t" using assms(4,5) by (rule killed_reported)
  with killed_traced [OF assms(1,2)] assms(3) show ?thesis by blast
qed

end

end
