(* ===== verification/Unix_Pty.thy ===== *)
theory Unix_Pty
  imports Pty_Backend
begin

text \<open>
  \<open>pty/unixpty/factory_unix.go\<close>: starting a process on a Unix terminal, the legacy process and
  the managed process of the session manager. The system is the environment: what
  \<open>creack/pty\<close>, \<open>kill(2)\<close>, \<open>exec.Cmd.Wait\<close> and closing a file answer is an argument. The
  critical sections of the managed process are steps, so the theorems cover every interleaving
  of \<open>Terminate\<close>, \<open>Kill\<close>, \<open>WaitStatus\<close> and \<open>Close\<close> with the end of the child.
\<close>

definition unix_ErrSizeOverflow :: gerror where
  "unix_ErrSizeOverflow = ErrNew ''unixpty: terminal size exceeds uint16''"

definition unix_ErrInvalidProcessSpec :: gerror where
  "unix_ErrInvalidProcessSpec = ErrNew ''unixpty: process specification contains NUL''"

definition MaxUint16 :: int where "MaxUint16 = 65535"

text \<open>What is handed to \<open>os/exec\<close>, and the window size handed to the terminal driver.\<close>

record exec_Cmd =
  ec_Name :: string
  ec_Args :: "string list"
  ec_Env :: "string list option"
  ec_Dir :: string

type_synonym winsize = "16 word \<times> 16 word"

definition Winsize :: "Size \<Rightarrow> winsize" where
  "Winsize sz = (ucast (Cols sz), ucast (Rows sz))"

section \<open>Resizing and reading\<close>

text \<open>\<open>Resize\<close> of the managed process; the legacy process has a copy of its own.\<close>

definition unix_Resize :: "(winsize \<Rightarrow> gerror option) \<Rightarrow> Size \<Rightarrow> gerror option" where
  "unix_Resize Setsize sz =
     (case Size_Validate sz of
        Some err \<Rightarrow> Some err
      | None \<Rightarrow>
          if sint (Cols sz) > MaxUint16 \<or> sint (Rows sz) > MaxUint16 then Some unix_ErrSizeOverflow
          else Setsize (Winsize sz))"

definition unix_output_Read :: "bytes \<times> gerror option \<Rightarrow> bytes \<times> gerror option" where
  "unix_output_Read r =
     (case snd r of
        Some err \<Rightarrow> if errorsIs err (Lib UnixEIO) then (fst r, Some (Lib IoEOF)) else r
      | None \<Rightarrow> r)"

section \<open>The legacy process\<close>

text \<open>
  \<open>lp_log\<close> is a ghost: the calls made on the system. \<open>lp_state\<close> is the exit code of
  \<open>command.ProcessState\<close>, which \<open>command.Wait\<close> sets.
\<close>

datatype unix_call = CmdWait | ProcessKill | FileClose

record unix_process =
  lp_state :: "int option"
  lp_waited :: bool
  lp_waitErr :: "gerror option"
  lp_closed :: bool
  lp_closeErr :: "gerror option"
  lp_log :: "unix_call list"

definition unix_Start ::
    "(exec_Cmd \<Rightarrow> gerror option) \<Rightarrow> gctx option \<Rightarrow> ProcessSpec \<Rightarrow> unix_process result" where
  "unix_Start start ctx spec =
     (case ctx of
        None \<Rightarrow> Inl (ErrNew ''unixpty: nil context'')
      | Some _ \<Rightarrow>
      case ProcessSpec_Validate spec of
        Some err \<Rightarrow> Inl err
      | None \<Rightarrow>
      case start \<lparr>ec_Name = Command spec, ec_Args = Args spec, ec_Env = Env spec, ec_Dir = Dir spec\<rparr> of
        Some err \<Rightarrow> Inl (Errorf err [])
      | None \<Rightarrow> Inr \<lparr>lp_state = None, lp_waited = False, lp_waitErr = None, lp_closed = False,
          lp_closeErr = None, lp_log = []\<rparr>)"

text \<open>\<open>waited\<close>: what \<open>command.Wait\<close> returns, and the exit code it records if it records one.\<close>

definition process_Wait :: "gerror option \<times> int option \<Rightarrow> unix_process \<Rightarrow> gerror option \<times> unix_process" where
  "process_Wait waited p =
     (let p1 = (if lp_waited p then p
                else p\<lparr>lp_waited := True, lp_waitErr := fst waited, lp_state := snd waited,
                       lp_log := lp_log p @ [CmdWait]\<rparr>)
      in (lp_waitErr p1, p1))"

definition process_ExitCode :: "gerror option \<times> int option \<Rightarrow> unix_process \<Rightarrow> int \<times> unix_process" where
  "process_ExitCode waited p =
     (let p1 = snd (process_Wait waited p) in (case lp_state p1 of None \<Rightarrow> - 1 | Some c \<Rightarrow> c, p1))"

definition process_Resize :: "(winsize \<Rightarrow> gerror option) \<Rightarrow> Size \<Rightarrow> gerror option" where
  "process_Resize Setsize sz =
     (case Size_Validate sz of
        Some err \<Rightarrow> Some err
      | None \<Rightarrow>
          if sint (Cols sz) > MaxUint16 \<or> sint (Rows sz) > MaxUint16 then Some unix_ErrSizeOverflow
          else Setsize (Winsize sz))"

definition process_Kill :: "gerror option \<Rightarrow> unix_process \<Rightarrow> gerror option \<times> unix_process" where
  "process_Kill answer p =
     (case answer of
        Some err \<Rightarrow> if errorsIs err (Lib OsErrProcessDone) then None else Some err
      | None \<Rightarrow> None, p\<lparr>lp_log := lp_log p @ [ProcessKill]\<rparr>)"

definition process_Close ::
    "gerror option \<Rightarrow> gerror option \<Rightarrow> gerror option \<times> int option \<Rightarrow> unix_process \<Rightarrow> gerror option \<times> unix_process" where
  "process_Close fileClose answer waited p =
     (let p1 =
        (if lp_closed p then p
         else
           let fileErr = (case fileClose of
                            Some err \<Rightarrow> if errorsIs err (Lib OsErrClosed) then None else Some err
                          | None \<Rightarrow> None)
           in case process_Kill answer (p\<lparr>lp_closed := True, lp_log := lp_log p @ [FileClose]\<rparr>) of
                (killErr, p') \<Rightarrow>
                  snd (process_Wait waited (p'\<lparr>lp_closeErr := errors_Join [fileErr, killErr]\<rparr>)))
      in (lp_closeErr p1, p1))"

section \<open>The managed process\<close>

datatype unix_signal = SIGTERM | SIGKILL

text \<open>
  What \<open>command.Wait\<close> comes to: success, an \<open>exec.ExitError\<close> with its code and, if its wait
  status says so, the name of the signal, or another error.
\<close>

datatype wait_result = WaitOK | WaitExit int "string option" | WaitFailed gerror

record unix_managed =
  um_pid :: "int option"
  um_done :: bool
  um_waitStatus :: ExitStatus
  um_waitErr :: "gerror option"
  um_closed :: bool
  um_closeErr :: "gerror option"
  um_killed :: bool
  um_pgid :: int
  um_running :: bool

definition zeroStatus :: ExitStatus where
  "zeroStatus = \<lparr>Reason = '''', Code = 0, Signal = '''', ErrorText = ''''\<rparr>"

definition new_managed :: "int \<Rightarrow> unix_managed" where
  "new_managed pid = \<lparr>um_pid = Some pid, um_done = False, um_waitStatus = zeroStatus, um_waitErr = None,
     um_closed = False, um_closeErr = None, um_killed = False, um_pgid = pid, um_running = True\<rparr>"


text \<open>
  \<open>unix.Kill\<close> is a call on the system \<open>'w\<close>: it takes the target and the signal, answers and
  may change the system.
\<close>

type_synonym 'w kill_call = "int \<Rightarrow> unix_signal \<Rightarrow> 'w \<Rightarrow> gerror option \<times> 'w"

definition signalGroup ::
    "'w kill_call \<Rightarrow> unix_signal \<Rightarrow> bool \<Rightarrow> unix_managed \<Rightarrow> 'w \<Rightarrow> gerror option \<times> unix_managed \<times> 'w" where
  "signalGroup kill signal killed p w =
     (if \<not> um_running p then (None, p, w)
      else
        case kill (- um_pgid p) signal w of (err, w') \<Rightarrow>
          if (case err of Some e \<Rightarrow> errorsIs e (Lib UnixESRCH) | None \<Rightarrow> False) then (None, p, w')
          else (err, if err = None \<and> killed then p\<lparr>um_killed := True\<rparr> else p, w'))"

definition unix_Terminate :: "'w kill_call \<Rightarrow> unix_managed \<Rightarrow> 'w \<Rightarrow> gerror option \<times> unix_managed \<times> 'w" where
  "unix_Terminate kill p w = signalGroup kill SIGTERM False p w"

definition unix_Kill :: "'w kill_call \<Rightarrow> unix_managed \<Rightarrow> 'w \<Rightarrow> gerror option \<times> unix_managed \<times> 'w" where
  "unix_Kill kill p w = signalGroup kill SIGKILL True p w"

text \<open>A system that answers as \<open>answer\<close> says and notes the calls it is asked for.\<close>

type_synonym kill_log = "(int \<times> unix_signal \<times> gerror option) list"

definition noting :: "(int \<Rightarrow> unix_signal \<Rightarrow> gerror option) \<Rightarrow> kill_log kill_call" where
  "noting answer target signal calls = (answer target signal, calls @ [(target, signal, answer target signal)])"

text \<open>The critical section of \<open>WaitStatus\<close>; the text of an error is the environment's.\<close>

definition wait_status :: "(gerror \<Rightarrow> string) \<Rightarrow> bool \<Rightarrow> wait_result \<Rightarrow> ExitStatus \<times> gerror option" where
  "wait_status errText killed r =
     (let status = zeroStatus\<lparr>Reason := ExitReasonExited\<rparr> in
      case r of
        WaitOK \<Rightarrow> (status, None)
      | WaitExit code signaled \<Rightarrow>
          (let s1 = status\<lparr>Code := code\<rparr>;
               s2 = (case signaled of
                       Some name \<Rightarrow> s1\<lparr>Reason := ExitReasonSignaled, Signal := name\<rparr>
                     | None \<Rightarrow> s1);
               s3 = (if killed then s2\<lparr>Reason := ExitReasonKilled\<rparr> else s2)
           in (s3, None))
      | WaitFailed err \<Rightarrow>
          (status\<lparr>Code := - 1, Reason := ExitReasonIOFailure, ErrorText := errText err\<rparr>, Some err))"

definition wait_publish :: "(gerror \<Rightarrow> string) \<Rightarrow> wait_result \<Rightarrow> unix_managed \<Rightarrow> unix_managed" where
  "wait_publish errText r p =
     (case wait_status errText (um_killed p) r of
        (status, err) \<Rightarrow> p\<lparr>um_running := False, um_waitStatus := status, um_waitErr := err, um_done := True\<rparr>)"

definition unix_Close :: "gerror option \<Rightarrow> unix_managed \<Rightarrow> gerror option \<times> unix_managed" where
  "unix_Close answer p =
     (let p1 = (if um_closed p then p
                else p\<lparr>um_closed := True,
                       um_closeErr := (case answer of
                                         Some err \<Rightarrow> if errorsIs err (Lib OsErrClosed) then None else Some err
                                       | None \<Rightarrow> None)\<rparr>)
      in (um_closeErr p1, p1))"

section \<open>Starting a managed process\<close>

definition unix_check :: "ProcessSpec \<Rightarrow> gerror option" where
  "unix_check spec =
     (case ProcessSpec_Validate spec of
        Some err \<Rightarrow> Some err
      | None \<Rightarrow>
      case Size_Validate (InitialSize spec) of
        Some err \<Rightarrow> Some err
      | None \<Rightarrow>
          if sint (Cols (InitialSize spec)) > MaxUint16 \<or> sint (Rows (InitialSize spec)) > MaxUint16
          then Some unix_ErrSizeOverflow
          else if \<exists>v \<in> set (spec_values spec). has_nul v then Some unix_ErrInvalidProcessSpec
          else None)"

text \<open>
  \<open>ctx 0\<close> and \<open>ctx 1\<close> are what the two \<open>select\<close>s see of the context. With an error comes the
  process that was started and discarded, if there was one, and the signals it was sent.
\<close>

record unix_os =
  uo_start :: "exec_Cmd \<Rightarrow> winsize \<Rightarrow> int result"
  uo_kill :: "int \<Rightarrow> unix_signal \<Rightarrow> gerror option"
  uo_wait :: wait_result
  uo_close :: "gerror option"
  uo_errText :: "gerror \<Rightarrow> string"

definition unix_command :: "ProcessSpec \<Rightarrow> exec_Cmd" where
  "unix_command spec = \<lparr>ec_Name = Command spec, ec_Args = Args spec, ec_Env = copy_slice (Env spec), ec_Dir = Dir spec\<rparr>"

definition unix_StartManaged ::
    "unix_os \<Rightarrow> (nat \<Rightarrow> gctx) option \<Rightarrow> ProcessSpec \<Rightarrow> unix_managed result \<times> (unix_managed \<times> kill_log) option" where
  "unix_StartManaged os ctx0 spec =
     (case ctx0 of
        None \<Rightarrow> (Inl (ErrNew ''unixpty: nil context''), None)
      | Some ctx \<Rightarrow>
      case unix_check spec of
        Some err \<Rightarrow> (Inl err, None)
      | None \<Rightarrow>
      case ctx 0 of
        Some err \<Rightarrow> (Inl err, None)
      | None \<Rightarrow>
      case uo_start os (unix_command spec) (Winsize (InitialSize spec)) of
        Inl err \<Rightarrow> (Inl (Errorf err []), None)
      | Inr pid \<Rightarrow>
          let p0 = new_managed pid in
          case ctx 1 of
            Some err \<Rightarrow>
              (case unix_Kill (noting (uo_kill os)) p0 [] of
                 (_, p1, calls) \<Rightarrow>
                   let p2 = wait_publish (uo_errText os) (uo_wait os) p1;
                       p3 = snd (unix_Close (uo_close os) p2)
                   in (Inl err, Some (p3, calls)))
          | None \<Rightarrow> (Inr p0, None))"

section \<open>Interleavings\<close>

text \<open>
  The child, the goroutine inside \<open>waitOnce\<close> and the managed process. \<open>xs_signals\<close> is what the
  system noted: the calls of \<open>kill\<close> it was asked for, with their targets, signals and answers. \<open>WaitStatus\<close> of any
  other caller waits for \<open>done\<close> and changes nothing. A child that exits with code 0 makes
  \<open>command.Wait\<close> return nil; any other end makes an \<open>exec.ExitError\<close> whose code is the
  exit code, or \<open>-1\<close> when a signal ended the child.
\<close>

fun child_result :: "wait_result \<Rightarrow> bool" where
  "child_result WaitOK = True"
| "child_result (WaitExit code None) = (0 < code \<and> code < 256)"
| "child_result (WaitExit code (Some name)) = (code = - 1)"
| "child_result (WaitFailed err) = False"

datatype unix_child = Alive | Ended wait_result

datatype wait_pc = WaitIdle | WaitBlocked | WaitReturned wait_result | WaitPublished

record unix_sys =
  xs_p :: unix_managed
  xs_child :: unix_child
  xs_wait :: wait_pc
  xs_signals :: kill_log

datatype unix_label =
    UChildEnds wait_result | UWaitCall | UWaitReap | UWaitFail gerror | UWaitPublish
  | UTerminate kill_log "gerror option" | UKill kill_log "gerror option" | UClose "gerror option" "gerror option"

inductive unix_step :: "(gerror \<Rightarrow> string) \<Rightarrow> unix_sys \<Rightarrow> unix_label \<Rightarrow> unix_sys \<Rightarrow> bool" for errText where
  child_ends: "xs_child y = Alive \<Longrightarrow> child_result r \<Longrightarrow>
     unix_step errText y (UChildEnds r) (y\<lparr>xs_child := Ended r\<rparr>)"
| wait_call: "xs_wait y = WaitIdle \<Longrightarrow> unix_step errText y UWaitCall (y\<lparr>xs_wait := WaitBlocked\<rparr>)"
| wait_reap: "xs_wait y = WaitBlocked \<Longrightarrow> xs_child y = Ended r \<Longrightarrow>
     unix_step errText y UWaitReap (y\<lparr>xs_wait := WaitReturned r\<rparr>)"
| wait_fail: "xs_wait y = WaitBlocked \<Longrightarrow>
     unix_step errText y (UWaitFail err) (y\<lparr>xs_wait := WaitReturned (WaitFailed err)\<rparr>)"
| wait_publish: "xs_wait y = WaitReturned r \<Longrightarrow>
     unix_step errText y UWaitPublish (y\<lparr>xs_wait := WaitPublished, xs_p := wait_publish errText r (xs_p y)\<rparr>)"
| terminate: "unix_Terminate (noting answer) (xs_p y) [] = (err, p', calls) \<Longrightarrow>
     unix_step errText y (UTerminate calls err) (y\<lparr>xs_p := p', xs_signals := xs_signals y @ calls\<rparr>)"
| kill: "unix_Kill (noting answer) (xs_p y) [] = (err, p', calls) \<Longrightarrow>
     unix_step errText y (UKill calls err) (y\<lparr>xs_p := p', xs_signals := xs_signals y @ calls\<rparr>)"
| close: "unix_Close answer (xs_p y) = (err, p') \<Longrightarrow>
     unix_step errText y (UClose answer err) (y\<lparr>xs_p := p'\<rparr>)"

inductive_cases unix_stepE: "unix_step errText y l y'"

definition unix_begin :: "int \<Rightarrow> unix_sys" where
  "unix_begin pid = \<lparr>xs_p = new_managed pid, xs_child = Alive, xs_wait = WaitIdle, xs_signals = []\<rparr>"

text \<open>
  While the result is not published the process counts as running; afterwards the result is
  the classification of what \<open>command.Wait\<close> returned, which is the end of the child unless
  waiting itself failed.
\<close>

definition waited_ok :: "unix_sys \<Rightarrow> wait_result \<Rightarrow> bool" where
  "waited_ok y r \<longleftrightarrow> xs_child y = Ended r \<or> (\<exists>err. r = WaitFailed err)"

definition unix_ok :: "(gerror \<Rightarrow> string) \<Rightarrow> int \<Rightarrow> unix_sys \<Rightarrow> bool" where
  "unix_ok errText pid y \<longleftrightarrow>
     um_pid (xs_p y) = Some pid \<and> um_pgid (xs_p y) = pid
     \<and> um_running (xs_p y) = (xs_wait y \<noteq> WaitPublished) \<and> um_done (xs_p y) = (xs_wait y = WaitPublished)
     \<and> (\<forall>r. xs_wait y = WaitReturned r \<longrightarrow> waited_ok y r)
     \<and> (xs_wait y = WaitPublished \<longrightarrow>
          (\<exists>r. waited_ok y r \<and> (um_waitStatus (xs_p y), um_waitErr (xs_p y)) = wait_status errText (um_killed (xs_p y)) r))
     \<and> (um_killed (xs_p y) \<longrightarrow> (- pid, SIGKILL, None) \<in> set (xs_signals y))
     \<and> fst ` set (xs_signals y) \<subseteq> {- pid}"

definition unix_outcome :: "unix_sys \<Rightarrow> (ExitStatus \<times> gerror option) option" where
  "unix_outcome y = (if um_done (xs_p y) then Some (um_waitStatus (xs_p y), um_waitErr (xs_p y)) else None)"

definition unix_released :: "unix_sys \<Rightarrow> gerror option option" where
  "unix_released y = (if um_closed (xs_p y) then Some (um_closeErr (xs_p y)) else None)"

fun unix_forced :: "unix_label \<Rightarrow> bool" where
  "unix_forced (UKill calls err) = (\<exists>target. calls = [(target, SIGKILL, None)])"
| "unix_forced _ = False"

text \<open>
  What a call of \<open>Terminate\<close> or \<open>Kill\<close> comes to: one \<open>kill\<close> of the group with the signal,
  whose answer is returned except that a group that is gone is no error; nothing at all once
  the process is not running.
\<close>

definition group_answer :: "gerror option \<Rightarrow> gerror option" where
  "group_answer a = (case a of Some e \<Rightarrow> if errorsIs e (Lib UnixESRCH) then None else Some e | None \<Rightarrow> None)"

definition group_call :: "int \<Rightarrow> unix_signal \<Rightarrow> kill_log \<Rightarrow> gerror option \<Rightarrow> bool" where
  "group_call pid sig calls err \<longleftrightarrow> (\<exists>a. calls = [(- pid, sig, a)] \<and> err = group_answer a)"

lemma unix_Terminate_effect:
  assumes "unix_Terminate (noting answer) p [] = (err, p', calls)"
  shows "p' = p \<and> (if um_running p then group_call (um_pgid p) SIGTERM calls err else calls = [] \<and> err = None)"
  using assms by (auto simp: unix_Terminate_def signalGroup_def noting_def group_call_def group_answer_def
      split: if_splits option.splits)

lemma unix_Kill_effect:
  assumes "unix_Kill (noting answer) p [] = (err, p', calls)"
  shows "p' = (if calls = [(- um_pgid p, SIGKILL, None)] then p\<lparr>um_killed := True\<rparr> else p)
    \<and> (if um_running p then group_call (um_pgid p) SIGKILL calls err else calls = [] \<and> err = None)"
  using assms by (auto simp: unix_Kill_def signalGroup_def noting_def group_call_def group_answer_def
      split: if_splits option.splits)

lemma unix_ok_terminate:
  assumes "unix_ok errText pid y" and "unix_Terminate (noting answer) (xs_p y) [] = (err, p', calls)"
  shows "unix_ok errText pid (y\<lparr>xs_p := p', xs_signals := xs_signals y @ calls\<rparr>)"
  using unix_Terminate_effect [OF assms(2)] assms(1)
  by (auto simp: unix_ok_def waited_ok_def group_call_def split: if_splits)

lemma unix_ok_kill:
  assumes "unix_ok errText pid y" and "unix_Kill (noting answer) (xs_p y) [] = (err, p', calls)"
  shows "unix_ok errText pid (y\<lparr>xs_p := p', xs_signals := xs_signals y @ calls\<rparr>)"
  using unix_Kill_effect [OF assms(2)] assms(1)
  by (auto simp: unix_ok_def waited_ok_def group_call_def split: if_splits)

lemma unix_ok_step:
  assumes "unix_ok errText pid y" and "unix_step errText y l y'"
  shows "unix_ok errText pid y'"
  using assms(2)
proof (cases rule: unix_step.cases)
  case (terminate answer err p' calls)
  then show ?thesis using unix_ok_terminate [OF assms(1)] by simp
next
  case (kill answer err p' calls)
  then show ?thesis using unix_ok_kill [OF assms(1)] by simp
next
  case (wait_publish r)
  then have r: "waited_ok y r" using assms(1) by (simp add: unix_ok_def)
  obtain status err where st: "wait_status errText (um_killed (xs_p y)) r = (status, err)" by fastforce
  have "waited_ok y' r" using r by (simp add: waited_ok_def wait_publish)
  then show ?thesis using assms(1) st unfolding unix_ok_def wait_publish
    by (auto simp: wait_publish_def)
qed (use assms(1) in \<open>auto simp: unix_ok_def waited_ok_def wait_publish_def unix_Close_def Let_def split: prod.splits if_splits\<close>)

lemmas exit_reasons = ExitReasonExited_def ExitReasonKilled_def ExitReasonSignaled_def ExitReasonIOFailure_def

lemma wait_status_killed: "Reason (fst (wait_status errText killed r)) = ExitReasonKilled \<Longrightarrow> killed"
  by (cases r) (auto simp: wait_status_def Let_def exit_reasons split: option.splits if_splits)

interpretation unix_managed: managed_process "unix_step errText" "unix_ok errText pid" unix_outcome unix_released
  "\<lambda>y. um_killed (xs_p y)" unix_forced for errText pid
proof unfold_locales
  fix y l y' r e status err
  assume ok: "unix_ok errText pid y"
  show "unix_ok errText pid y'" if "unix_step errText y l y'" using ok that by (rule unix_ok_step)
  show "unix_outcome y' = Some r" if "unix_step errText y l y'" "unix_outcome y = Some r"
    using that(1)
  proof (cases rule: unix_step.cases)
    case (terminate answer err p' calls)
    then show ?thesis using unix_Terminate_effect [OF terminate(3)] that(2) by (auto simp: unix_outcome_def split: if_splits)
  next
    case (kill answer err p' calls)
    then show ?thesis using unix_Kill_effect [OF kill(3)] that(2) by (auto simp: unix_outcome_def split: if_splits)
  qed (use ok that(2) in \<open>auto simp: unix_outcome_def unix_ok_def unix_Close_def Let_def split: if_splits\<close>)
  show "unix_released y' = Some e" if "unix_step errText y l y'" "unix_released y = Some e"
    using that(1)
  proof (cases rule: unix_step.cases)
    case (terminate answer err p' calls)
    then show ?thesis using unix_Terminate_effect [OF terminate(3)] that(2) by (auto simp: unix_released_def split: if_splits)
  next
    case (kill answer err p' calls)
    then show ?thesis using unix_Kill_effect [OF kill(3)] that(2) by (auto simp: unix_released_def split: if_splits)
  qed (use that(2) in \<open>auto simp: unix_released_def unix_Close_def wait_publish_def Let_def split: if_splits prod.splits\<close>)
  show "um_killed (xs_p y) \<or> unix_forced l" if "unix_step errText y l y'" "um_killed (xs_p y')"
    using that(1)
  proof (cases rule: unix_step.cases)
    case (terminate answer err p' calls)
    then show ?thesis using unix_Terminate_effect [OF terminate(3)] that(2) by simp
  next
    case (kill answer err p' calls)
    then show ?thesis using unix_Kill_effect [OF kill(3)] that(2) by (auto split: if_splits)
  qed (use that(2) in \<open>auto simp: unix_Close_def wait_publish_def Let_def split: if_splits prod.splits\<close>)
  show "um_killed (xs_p y)" if "unix_outcome y = Some (status, err)" "Reason status = ExitReasonKilled"
  proof -
    have "um_done (xs_p y)" "status = um_waitStatus (xs_p y)" using that by (simp_all add: unix_outcome_def split: if_splits)
    moreover from this ok obtain r where "(um_waitStatus (xs_p y), um_waitErr (xs_p y)) = wait_status errText (um_killed (xs_p y)) r"
      by (auto simp: unix_ok_def)
    ultimately show ?thesis using wait_status_killed [of errText "um_killed (xs_p y)" r] that(2) by (metis fst_conv)
  qed
qed

lemma unix_begin_ok: "unix_ok errText pid (unix_begin pid)" "\<not> um_killed (xs_p (unix_begin pid))"
  by (simp_all add: unix_ok_def unix_begin_def new_managed_def)









text \<open>
  A child that has ended stays ended, so what \<open>WaitStatus\<close> publishes later is about that end;
  and an accepted kill stays marked.
\<close>

lemma unix_step_ended: "unix_step errText y l z \<Longrightarrow> xs_child y = Ended r \<Longrightarrow> xs_child z = Ended r"
  by (cases rule: unix_step.cases) auto

lemma unix_trace_ended:
  "trace (unix_step errText) y ls z \<Longrightarrow> xs_child y = Ended r \<Longrightarrow> xs_child z = Ended r"
  by (induction rule: trace.induct) (auto intro: unix_step_ended)

lemma unix_step_child:
  "unix_step errText y l z \<Longrightarrow> (\<forall>r. xs_child y = Ended r \<longrightarrow> child_result r) \<Longrightarrow> xs_child z = Ended r \<Longrightarrow> child_result r"
  by (cases rule: unix_step.cases) auto

lemma unix_trace_child: "trace (unix_step errText) (unix_begin pid) ls z \<Longrightarrow> \<forall>r. xs_child z = Ended r \<longrightarrow> child_result r"
proof (induction "unix_begin pid" ls z rule: trace.induct)
  case trace_refl
  then show ?case by (simp add: unix_begin_def)
next
  case (trace_snoc ls t l u)
  then show ?case using unix_step_child by blast
qed

lemma unix_step_killed:
  assumes "unix_step errText y l z" and "um_killed (xs_p y)"
  shows "um_killed (xs_p z)"
  using assms(1)
proof (cases rule: unix_step.cases)
  case (terminate answer err p' calls)
  then show ?thesis using unix_Terminate_effect [OF terminate(3)] assms(2) by simp
next
  case (kill answer err p' calls)
  then show ?thesis using unix_Kill_effect [OF kill(3)] assms(2) by simp
qed (use assms(2) in \<open>auto simp: wait_publish_def unix_Close_def Let_def split: prod.splits\<close>)

lemma unix_trace_killed: "trace (unix_step errText) y ls z \<Longrightarrow> um_killed (xs_p y) \<Longrightarrow> um_killed (xs_p z)"
  by (induction rule: trace.induct) (auto intro: unix_step_killed)

section \<open>Properties\<close>





text \<open>
  (C40) A process that has exited by itself with a non-zero code, and for which a \<open>Kill\<close> is
  accepted before its status is published, is reported as killed: in every run, whatever else is
  called before and after, the status that a successful wait publishes later has the reason killed beside
  the code of the voluntary exit. With code 0 it is reported as exited, in the same situation.
\<close>

theorem unix_kill_after_exit:
  assumes "trace (unix_step errText) (unix_begin pid) ls x" and "xs_child x = Ended r" and "unix_outcome x = None"
    and "unix_step errText x (UKill [(target, SIGKILL, None)] err) y" and "trace (unix_step errText) y ls' z"
    and "unix_outcome z = Some (status, None)"
  shows "(\<forall>c. r = WaitExit c None \<longrightarrow> 0 < c \<and> status = \<lparr>Reason = ExitReasonKilled, Code = c, Signal = '''', ErrorText = ''''\<rparr>)
    \<and> (r = WaitOK \<longrightarrow> status = \<lparr>Reason = ExitReasonExited, Code = 0, Signal = '''', ErrorText = ''''\<rparr>)"
proof -
  have x: "unix_ok errText pid x" using unix_managed.trace_keeps [OF assms(1) unix_begin_ok(1)] .
  have y: "unix_ok errText pid y" using unix_ok_step [OF x assms(4)] .
  have z: "unix_ok errText pid z" using unix_managed.trace_keeps [OF assms(5) y] .
  have ended: "xs_child z = Ended r"
    using unix_trace_ended [OF assms(5)] unix_step_ended [OF assms(4,2)] by simp
  have "um_killed (xs_p y)"
    using assms(4)
  proof (cases rule: unix_step.cases)
    case (kill answer p')
    then show ?thesis using unix_Kill_effect [OF kill(2)] x by (auto simp: unix_ok_def group_call_def split: if_splits)
  qed
  then have "um_killed (xs_p z)" by (rule unix_trace_killed [OF assms(5)])
  moreover have "xs_wait z = WaitPublished" and st: "(um_waitStatus (xs_p z), um_waitErr (xs_p z)) = (status, None)"
    using assms(6) z by (auto simp: unix_outcome_def unix_ok_def split: if_splits)
  ultimately obtain w where w: "waited_ok z w" "(status, None) = wait_status errText True w"
    using z by (auto simp: unix_ok_def)
  then have "w = r" using ended by (auto simp: waited_ok_def wait_status_def)
  moreover have "child_result r" using unix_trace_child [OF assms(1)] assms(2) by simp
  ultimately show ?thesis using w(2) by (auto simp: wait_status_def zeroStatus_def)
qed

definition unix_demo_exited :: unix_sys where
  "unix_demo_exited = (unix_begin 40)\<lparr>xs_child := Ended (WaitExit 3 None)\<rparr>"

definition unix_demo_killed :: unix_sys where
  "unix_demo_killed = unix_demo_exited\<lparr>xs_p := (new_managed 40)\<lparr>um_killed := True\<rparr>, xs_signals := [(- 40, SIGKILL, None)]\<rparr>"

definition unix_demo_reported :: unix_sys where
  "unix_demo_reported = unix_demo_killed\<lparr>xs_wait := WaitPublished,
     xs_p := wait_publish (\<lambda>_. []) (WaitExit 3 None) (xs_p unix_demo_killed)\<rparr>"

lemma unix_demo_kill:
  "trace (unix_step errText) (unix_begin 40) [UChildEnds (WaitExit 3 None)] unix_demo_exited"
  "unix_step errText unix_demo_exited (UKill [(- 40, SIGKILL, None)] None) unix_demo_killed"
  "trace (unix_step (\<lambda>_. [])) unix_demo_killed [UWaitCall, UWaitReap, UWaitPublish] unix_demo_reported"
proof -
  have "unix_step errText (unix_begin 40) (UChildEnds (WaitExit 3 None)) unix_demo_exited"
    unfolding unix_demo_exited_def by (rule unix_step.child_ends) (simp_all add: unix_begin_def)
  then show "trace (unix_step errText) (unix_begin 40) [UChildEnds (WaitExit 3 None)] unix_demo_exited"
    by (rule trace_one)
  have "unix_Kill (noting (\<lambda>_ _. None)) (xs_p unix_demo_exited) []
      = (None, (new_managed 40)\<lparr>um_killed := True\<rparr>, [(- 40, SIGKILL, None)])"
    by (simp add: unix_Kill_def signalGroup_def noting_def unix_demo_exited_def unix_begin_def new_managed_def)
  from unix_step.kill [OF this, of errText]
  show "unix_step errText unix_demo_exited (UKill [(- 40, SIGKILL, None)] None) unix_demo_killed"
    by (simp add: unix_demo_killed_def unix_demo_exited_def unix_begin_def)
  let ?step = "unix_step (\<lambda>_. [])"
  let ?a = "unix_demo_killed\<lparr>xs_wait := WaitBlocked\<rparr>"
  let ?b = "?a\<lparr>xs_wait := WaitReturned (WaitExit 3 None)\<rparr>"
  have "?step unix_demo_killed UWaitCall ?a"
    by (rule unix_step.wait_call) (simp add: unix_demo_killed_def unix_demo_exited_def unix_begin_def)
  note 1 = trace_one [where step = ?step, OF this]
  have "?step ?a UWaitReap ?b"
    by (rule unix_step.wait_reap) (simp_all add: unix_demo_killed_def unix_demo_exited_def)
  note 2 = trace_snoc [where step = ?step, OF 1 this]
  have "?step ?b UWaitPublish (?b\<lparr>xs_wait := WaitPublished, xs_p := wait_publish (\<lambda>_. []) (WaitExit 3 None) (xs_p ?b)\<rparr>)"
    by (rule unix_step.wait_publish) simp
  from trace_snoc [where step = ?step, OF 2 this]
  show "trace ?step unix_demo_killed [UWaitCall, UWaitReap, UWaitPublish] unix_demo_reported"
    by (simp add: unix_demo_reported_def)
qed

theorem unix_kill_after_exit_witness:
  "um_waitStatus (xs_p unix_demo_reported) = \<lparr>Reason = ExitReasonKilled, Code = 3, Signal = '''', ErrorText = ''''\<rparr>"
proof -
  have x: "xs_child unix_demo_exited = Ended (WaitExit 3 None)" "unix_outcome unix_demo_exited = None"
    by (simp_all add: unix_demo_exited_def unix_outcome_def unix_begin_def new_managed_def)
  have z: "unix_outcome unix_demo_reported = Some (um_waitStatus (xs_p unix_demo_reported), None)"
    by (simp add: unix_demo_reported_def unix_outcome_def wait_publish_def wait_status_def unix_demo_killed_def new_managed_def Let_def)
  show ?thesis using unix_kill_after_exit [OF unix_demo_kill(1) x unix_demo_kill(2,3) z] by simp
qed

definition unix_size_ok :: "Size \<Rightarrow> bool" where
  "unix_size_ok sz \<longleftrightarrow> 0 < sint (Cols sz) \<and> sint (Cols sz) < 2 ^ 16 \<and> 0 < sint (Rows sz) \<and> sint (Rows sz) < 2 ^ 16"

lemma unix_size_cases:
  "(Size_Validate sz = None \<and> \<not> (sint (Cols sz) > MaxUint16 \<or> sint (Rows sz) > MaxUint16)) = unix_size_ok sz"
  by (auto simp: Size_Validate_def unix_size_ok_def MaxUint16_def)

lemma Winsize_exact:
  "unix_size_ok sz \<Longrightarrow> uint (fst (Winsize sz)) = sint (Cols sz) \<and> uint (snd (Winsize sz)) = sint (Rows sz)"
  using ucast_16_exact by (simp add: unix_size_ok_def Winsize_def)

text \<open>
  \<open>Resize\<close> never truncates: the terminal driver is called exactly when both dimensions are
  between 1 and 65535, and what it reads in its 16-bit fields is exactly those numbers; a non-positive dimension is refused
  as ErrInvalidSize and a larger one as ErrSizeOverflow without any call.
\<close>

theorem unix_Resize_exact:
  "unix_Resize (\<lambda>(cols, rows). f (uint cols) (uint rows)) sz =
     (if unix_size_ok sz then f (sint (Cols sz)) (sint (Rows sz))
      else Some (if sint (Cols sz) \<le> 0 \<or> sint (Rows sz) \<le> 0 then Pty ErrInvalidSize else unix_ErrSizeOverflow))"
proof (cases "unix_size_ok sz")
  case True
  then show ?thesis using Winsize_exact [OF True] unix_size_cases [of sz] by (simp add: unix_Resize_def split_beta)
next
  case False
  then show ?thesis by (auto simp: unix_Resize_def Size_Validate_def unix_size_ok_def MaxUint16_def)
qed

lemma unix_check_iff:
  "unix_check spec = None \<longleftrightarrow>
     Command spec \<noteq> '''' \<and> unix_size_ok (InitialSize spec) \<and> (\<forall>v \<in> set (spec_values spec). \<not> has_nul v)"
  using unix_size_cases [of "InitialSize spec"]
  by (auto simp: unix_check_def ProcessSpec_Validate_def split: option.splits)

lemma discarded_fields:
  "um_done (snd (unix_Close answer (wait_publish errText r p)))" "\<not> um_running (snd (unix_Close answer (wait_publish errText r p)))"
  "um_closed (snd (unix_Close answer (wait_publish errText r p)))"
  by (simp_all add: unix_Close_def wait_publish_def Let_def split: prod.split)

lemma discarded_calls:
  "unix_Kill (noting answer) (new_managed pid) [] = (err, p, calls) \<Longrightarrow>
   calls = [(- pid, SIGKILL, answer (- pid) SIGKILL)] \<and> um_pid (snd (unix_Close a (wait_publish errText r p))) = Some pid"
  by (auto simp: unix_Kill_def signalGroup_def noting_def new_managed_def unix_Close_def wait_publish_def Let_def
      split: if_splits option.splits prod.splits)

lemma copied_env: "copy_slice env = (if env = Some [] then None else env)"
  by (simp add: copy_slice_def split: option.splits)

text \<open>
  (C30) \<open>StartManaged\<close> hands a process over only for a context that is live at both looks, a
  description with a command, no NUL and a size that fits, and a system that started exactly
  the command, directory and arguments described with exactly that window size; a described
  environment with an entry is the environment of the process, while a description with no
  environment and one with an empty environment, which \<open>ProcessSpec\<close> says remains empty, both
  start it with no environment of its own, that is, with the program's; the process is then running, leads its own group and nothing has been discarded. Otherwise it returns the
  error of the check, the context or the system, and a process that had been started is not left behind: its group, and nothing
  else, is sent SIGKILL, it is waited for and its terminal is closed.
\<close>

theorem unix_start_sound:
  "case unix_StartManaged os ctx0 spec of
     (Inr p, discarded) \<Rightarrow>
       discarded = None \<and> Command spec \<noteq> '''' \<and> unix_size_ok (InitialSize spec)
       \<and> \<not> (\<exists>v \<in> set (spec_values spec). has_nul v)
       \<and> (\<exists>ctx pid cols rows. ctx0 = Some ctx \<and> ctx 0 = None \<and> ctx 1 = None \<and> p = new_managed pid
            \<and> uo_start os \<lparr>ec_Name = Command spec, ec_Args = Args spec, 
                  ec_Env = (if Env spec = Some [] then None else Env spec), ec_Dir = Dir spec\<rparr>
                (cols, rows) = Inr pid
            \<and> uint cols = sint (Cols (InitialSize spec)) \<and> uint rows = sint (Rows (InitialSize spec)))
   | (Inl err, Some (p, calls)) \<Rightarrow> um_done p \<and> \<not> um_running p \<and> um_closed p
       \<and> (\<exists>ctx pid. ctx0 = Some ctx \<and> ctx 1 = Some err \<and> um_pid p = Some pid
            \<and> calls = [(- pid, SIGKILL, uo_kill os (- pid) SIGKILL)])
   | (Inl err, None) \<Rightarrow>
       ctx0 = None \<and> err = ErrNew ''unixpty: nil context'' \<or> unix_check spec = Some err
       \<or> (\<exists>ctx. ctx0 = Some ctx \<and> ctx 0 = Some err)
       \<or> (\<exists>cause. uo_start os (unix_command spec) (Winsize (InitialSize spec)) = Inl cause \<and> err = Errorf cause [])"
proof (cases "unix_StartManaged os ctx0 spec")
  case (Pair r d)
  show ?thesis
  proof (cases r)
    case (Inr p)
    then obtain ctx pid where *: "ctx0 = Some ctx" "ctx 0 = None" "ctx 1 = None" "unix_check spec = None" "d = None"
      "p = new_managed pid" "uo_start os (unix_command spec) (Winsize (InitialSize spec)) = Inr pid"
      using Pair by (auto simp: unix_StartManaged_def Let_def split: option.splits sum.splits prod.splits)
    have "unix_size_ok (InitialSize spec)" using *(4) by (simp add: unix_check_iff)
    note size = Winsize_exact [OF this]
    have start: "uo_start os \<lparr>ec_Name = Command spec, ec_Args = Args spec,
        ec_Env = (if Env spec = Some [] then None else Env spec), ec_Dir = Dir spec\<rparr>
        (fst (Winsize (InitialSize spec)), snd (Winsize (InitialSize spec))) = Inr pid"
      using *(7) by (simp only: unix_command_def copied_env prod.collapse)
    have "\<exists>ctx pid cols rows. ctx0 = Some ctx \<and> ctx 0 = None \<and> ctx 1 = None \<and> p = new_managed pid
        \<and> uo_start os \<lparr>ec_Name = Command spec, ec_Args = Args spec,
            ec_Env = (if Env spec = Some [] then None else Env spec), ec_Dir = Dir spec\<rparr> (cols, rows) = Inr pid
        \<and> uint cols = sint (Cols (InitialSize spec)) \<and> uint rows = sint (Rows (InitialSize spec))"
      using *(1,2,3,6) start size by blast
    moreover have "Command spec \<noteq> []" "\<not> (\<exists>v \<in> set (spec_values spec). has_nul v)" using *(4) by (auto simp: unix_check_iff)
    ultimately show ?thesis using Pair Inr *(5) \<open>unix_size_ok (InitialSize spec)\<close> by simp
  next
    case (Inl err)
    then show ?thesis
      using Pair
      by (auto simp: unix_StartManaged_def Let_def discarded_fields discarded_calls split: option.splits sum.splits prod.splits)
  qed
qed

text \<open>
  A description with an empty environment starts the same process as one that inherits the
  environment of the program: copying the slice turns an empty one into a nil one, which
  \<open>exec.Cmd\<close> takes for the program's own.
\<close>

theorem unix_empty_env:
  "unix_StartManaged os ctx0 (spec\<lparr>Env := Some []\<rparr>) = unix_StartManaged os ctx0 (spec\<lparr>Env := None\<rparr>)"
proof -
  have vals: "spec_values (spec\<lparr>Env := Some []\<rparr>) = spec_values (spec\<lparr>Env := None\<rparr>)" by (simp add: spec_values_def)
  have check: "unix_check (spec\<lparr>Env := Some []\<rparr>) = unix_check (spec\<lparr>Env := None\<rparr>)"
    unfolding unix_check_def vals by (simp add: ProcessSpec_Validate_def)
  have command: "unix_command (spec\<lparr>Env := Some []\<rparr>) = unix_command (spec\<lparr>Env := None\<rparr>)"
    by (simp add: unix_command_def copy_slice_def)
  have size: "InitialSize (spec\<lparr>Env := e\<rparr>) = InitialSize spec" for e by simp
  show ?thesis unfolding unix_StartManaged_def check command size by (rule refl)
qed

section \<open>The legacy process\<close>

lemma process_Resize_eq: "process_Resize = unix_Resize"
  by (simp add: process_Resize_def unix_Resize_def fun_eq_iff)

text \<open>Calls on a legacy process, each with the answers the system gives.\<close>

datatype legacy_call =
    LWait "gerror option \<times> int option" | LExitCode "gerror option \<times> int option" | LKill "gerror option"
  | LClose "gerror option" "gerror option" "gerror option \<times> int option"

fun run_legacy :: "legacy_call \<Rightarrow> unix_process \<Rightarrow> unix_process" where
  "run_legacy (LWait waited) p = snd (process_Wait waited p)"
| "run_legacy (LExitCode waited) p = snd (process_ExitCode waited p)"
| "run_legacy (LKill answer) p = snd (process_Kill answer p)"
| "run_legacy (LClose fileClose answer waited) p = snd (process_Close fileClose answer waited p)"

definition legacy_ok :: "unix_process \<Rightarrow> bool" where
  "legacy_ok p \<longleftrightarrow> count_list (lp_log p) CmdWait = (if lp_waited p then 1 else 0)
     \<and> count_list (lp_log p) FileClose = (if lp_closed p then 1 else 0) \<and> (lp_closed p \<longrightarrow> lp_waited p)"

text \<open>What a call leaves alone: a result that was given is given again.\<close>

definition legacy_kept :: "unix_process \<Rightarrow> unix_process \<Rightarrow> bool" where
  "legacy_kept p q \<longleftrightarrow>
     (lp_waited p \<longrightarrow> lp_waited q \<and> lp_waitErr q = lp_waitErr p \<and> lp_state q = lp_state p)
     \<and> (lp_closed p \<longrightarrow> lp_closed q \<and> lp_closeErr q = lp_closeErr p)"

lemma run_legacy_step: "legacy_ok p \<Longrightarrow> legacy_ok (run_legacy c p) \<and> legacy_kept p (run_legacy c p)"
  by (cases c) (auto simp: process_Wait_def process_ExitCode_def process_Kill_def process_Close_def Let_def
      legacy_ok_def legacy_kept_def)

lemma run_legacy_all: "legacy_ok p \<Longrightarrow> legacy_ok (fold run_legacy cs p) \<and> legacy_kept p (fold run_legacy cs p)"
proof (induction cs arbitrary: p)
  case (Cons c cs)
  then show ?case using run_legacy_step [of p c] Cons.IH [of "run_legacy c p"] by (auto simp: legacy_kept_def)
qed (simp add: legacy_kept_def)

text \<open>
  A legacy process that \<open>Start\<close> returned: whatever calls are made, the child is waited for at
  most once and the terminal closed at most once, \<open>Close\<close> also waits, and \<open>Wait\<close>,
  \<open>ExitCode\<close> and \<open>Close\<close> keep returning what they returned first.
\<close>

theorem unix_legacy_once:
  assumes "unix_Start start ctx spec = Inr p"
  shows "legacy_ok (fold run_legacy cs p) \<and> legacy_kept (fold run_legacy cs p) (fold run_legacy (cs @ ds) p)"
proof -
  have "legacy_ok p"
    using assms by (auto simp: unix_Start_def legacy_ok_def split: option.splits)
  then show ?thesis using run_legacy_all by simp
qed

end
