(* ===== verification/Windows_Pty.thy ===== *)
theory Windows_Pty
  imports Pty_Backend "HOL-Library.Multiset"
begin

text \<open>
  The managed process of \<open>pty/windowspty/factory_windows.go\<close>. Every critical section and every
  Win32 call is an atomic section; a call of a method is a thread that runs its sections in the
  order of the code, and threads interleave in any order. What Win32 answers is an argument.
  The objects of the system are named, not numbered: each is created once, and the model
  records which are open and whether a call was ever made on one that was not.
\<close>

definition win_ErrSizeOverflow :: gerror where
  "win_ErrSizeOverflow = ErrNew ''windowspty: terminal size exceeds int16''"

definition MaxInt16 :: int where "MaxInt16 = 32767"

section \<open>Objects of the system\<close>

datatype (plugins only: code size) win_object =
  InputRead | InputWrite | OutputRead | OutputWrite | Console | Job | Attributes | Process | Thread

record win_os =
  wo_open :: "win_object list"
  wo_bad :: bool

definition win_create :: "win_object \<Rightarrow> win_os \<Rightarrow> win_os" where
  "win_create x os = os\<lparr>wo_open := wo_open os @ [x]\<rparr>"

definition win_use :: "win_object \<Rightarrow> win_os \<Rightarrow> win_os" where
  "win_use x os = (if x \<in> set (wo_open os) then os else os\<lparr>wo_bad := True\<rparr>)"

definition win_close :: "win_object \<Rightarrow> win_os \<Rightarrow> win_os" where
  "win_close x os = (win_use x os)\<lparr>wo_open := remove1 x (wo_open os)\<rparr>"

section \<open>The process\<close>

text \<open>
  A \<open>sync.Once\<close> is two flags: its body was entered, and its body has returned. (For
  \<open>waitOnce\<close> the second is \<open>done\<close>, which the body closes last.)
\<close>

record win_managed =
  wm_processID :: "64 word"
  wm_done :: bool
  wm_released :: bool
  wm_waitOnce :: bool
  wm_waitStatus :: ExitStatus
  wm_waitErr :: "gerror option"
  wm_closeOnce :: bool
  wm_closeDone :: bool
  wm_closeErr :: "gerror option"
  wm_consoleOnce :: bool
  wm_consoleDone :: bool
  wm_running :: bool
  wm_killed :: bool
  wm_terminateSent :: bool
  wm_consoleClosing :: bool
  wm_resourcesClosed :: bool

definition win_new :: "64 word \<Rightarrow> bool \<Rightarrow> win_managed" where
  "win_new pid released =
     \<lparr>wm_processID = pid, wm_done = False, wm_released = released, wm_waitOnce = False,
      wm_waitStatus = \<lparr>Reason = '''', Code = 0, Signal = '''', ErrorText = ''''\<rparr>, wm_waitErr = None,
      wm_closeOnce = False, wm_closeDone = False, wm_closeErr = None, wm_consoleOnce = False, wm_consoleDone = False,
      wm_running = True, wm_killed = False,
      wm_terminateSent = False, wm_consoleClosing = False, wm_resourcesClosed = False\<rparr>"

text \<open>
  The answers of Win32 to the calls of one section: whether the process and the job are
  signalled, what terminating the job and resizing return, the event of the wait, the exit
  code, and what closing the two pipe files returns.
\<close>

record win_answers =
  wr_exited :: bool
  wr_jobExited :: bool
  wr_terminate :: "gerror option"
  wr_resize :: "gerror option"
  wr_event :: "32 word result"
  wr_code :: "32 word result"
  wr_closeInput :: "gerror option"
  wr_closeOutput :: "gerror option"
  wr_errText :: "gerror \<Rightarrow> string"

definition WAIT_OBJECT_0 :: "32 word" where "WAIT_OBJECT_0 = 0"

text \<open>\<open>output.Read\<close>; the second component says whether \<open>observed\<close> is closed by this call.\<close>

definition win_output_Read :: "bytes \<times> gerror option \<Rightarrow> (bytes \<times> gerror option) \<times> bool" where
  "win_output_Read r =
     (case snd r of
        Some err \<Rightarrow> if errorsIs err (Lib WindowsErrorBrokenPipe) then (fst r, Some (Lib IoEOF)) else r
      | None \<Rightarrow> r, fst r \<noteq> [])"

definition win_ProcessID :: "win_answers \<Rightarrow> win_managed \<Rightarrow> win_os \<Rightarrow> 64 word result \<times> win_os" where
  "win_ProcessID a p os =
     (if \<not> wm_running p \<or> wm_resourcesClosed p \<or> wm_processID p = 0 then (Inl (Pty ErrProcessIDUnavailable), os)
      else (if wr_exited a then Inl (Pty ErrProcessIDUnavailable) else Inr (wm_processID p), win_use Process os))"

definition win_Resize ::
    "(16 word \<times> 16 word \<Rightarrow> gerror option) \<Rightarrow> Size \<Rightarrow> win_managed \<Rightarrow> win_os \<Rightarrow> gerror option \<times> win_os" where
  "win_Resize ResizePseudoConsole sz p os =
     (case Size_Validate sz of
        Some err \<Rightarrow> (Some err, os)
      | None \<Rightarrow>
          if sint (Cols sz) > MaxInt16 \<or> sint (Rows sz) > MaxInt16 then (Some win_ErrSizeOverflow, os)
          else if \<not> wm_running p \<or> wm_consoleClosing p then (None, os)
          else (case ResizePseudoConsole (ucast (Cols sz), ucast (Rows sz)) of
                  Some err \<Rightarrow> Some (Errorf err [])
                | None \<Rightarrow> None, win_use Console os))"

text \<open>
  The locked part of \<open>Terminate\<close>; the first component says whether \<open>closeConsole\<close> follows.
\<close>

definition win_Terminate :: "win_answers \<Rightarrow> win_managed \<Rightarrow> win_os \<Rightarrow> bool \<times> win_managed \<times> win_os" where
  "win_Terminate a p os =
     (if wm_resourcesClosed p \<or> wm_consoleClosing p then (False, p, os)
      else
        let os1 = win_use Job os in
        if wr_jobExited a then (False, p, os1)
        else if wm_running p
        then (True, if wr_exited a then p else p\<lparr>wm_terminateSent := True\<rparr>, win_use Process os1)
        else (True, p, os1))"

definition win_Kill :: "win_answers \<Rightarrow> win_managed \<Rightarrow> win_os \<Rightarrow> gerror option \<times> win_managed \<times> win_os" where
  "win_Kill a p os =
     (if wm_resourcesClosed p then (None, p, os)
      else
        let os1 = win_use Job os in
        if wr_jobExited a then (None, p, os1)
        else
          let os2 = win_use Job (win_use Process os1) in
          case wr_terminate a of
            Some err \<Rightarrow> (Some (Errorf err []), p, os2)
          | None \<Rightarrow> (None, if wm_running p \<and> \<not> wr_exited a then p\<lparr>wm_killed := True\<rparr> else p, os2))"

text \<open>The blocking wait, the exit code, and the locked part of \<open>WaitStatus\<close>.\<close>

definition failed_status :: "win_answers \<Rightarrow> gerror \<Rightarrow> ExitStatus" where
  "failed_status a err = \<lparr>Reason = ExitReasonIOFailure, Code = - 1, Signal = '''', ErrorText = wr_errText a err\<rparr>"

definition win_wait_event :: "win_answers \<Rightarrow> gerror option" where
  "win_wait_event a =
     (case wr_event a of
        Inl err \<Rightarrow> Some (Errorf err [])
      | Inr event \<Rightarrow>
          if event \<noteq> WAIT_OBJECT_0 then Some (Errorf (Errorf (ErrNew ''unexpected wait result'') [uint event]) [])
          else None)"

definition win_exit_code :: "win_answers \<Rightarrow> ExitStatus \<times> gerror option" where
  "win_exit_code a =
     (case wr_code a of
        Inl err \<Rightarrow> (failed_status a (Errorf err []), Some (Errorf err []))
      | Inr code \<Rightarrow> (\<lparr>Reason = ExitReasonExited, Code = uint code, Signal = '''', ErrorText = ''''\<rparr>, None))"

definition win_classify :: "win_managed \<Rightarrow> ExitStatus \<Rightarrow> ExitStatus" where
  "win_classify p status =
     (if wm_killed p then status\<lparr>Reason := ExitReasonKilled\<rparr>
      else if wm_terminateSent p \<and> Code status \<noteq> 0 \<and> Reason status = ExitReasonExited
      then status\<lparr>Reason := ExitReasonSignaled, Signal := ''CTRL_CLOSE_EVENT''\<rparr>
      else status)"

definition win_publish :: "ExitStatus \<Rightarrow> gerror option \<Rightarrow> win_managed \<Rightarrow> win_managed" where
  "win_publish status err p =
     p\<lparr>wm_waitErr := err, wm_running := False, wm_waitStatus := win_classify p status\<rparr>"

text \<open>
  \<open>closeConsole\<close>: the locked section; the entry of \<open>consoleOnce.Do\<close>, where the first caller
  enters \<open>ClosePseudoConsole\<close>, from when on the console may not be used, and any other has to
  wait; and the return of \<open>ClosePseudoConsole\<close>, which may block for as long as it likes.
\<close>

definition console_flag :: "win_managed \<Rightarrow> win_managed" where
  "console_flag p = p\<lparr>wm_consoleClosing := True\<rparr>"

definition console_once :: "win_managed \<Rightarrow> win_os \<Rightarrow> bool \<times> win_managed \<times> win_os" where
  "console_once p os =
     (if wm_consoleOnce p then (False, p, os) else (True, p\<lparr>wm_consoleOnce := True\<rparr>, win_close Console os))"

definition console_returned :: "win_managed \<Rightarrow> win_managed" where
  "console_returned p = p\<lparr>wm_consoleDone := True\<rparr>"

definition normalizeClose :: "gerror option \<Rightarrow> gerror option" where
  "normalizeClose e = (case e of Some err \<Rightarrow> if errorsIs err (Lib OsErrClosed) then None else Some err | None \<Rightarrow> None)"

definition close_files :: "win_answers \<Rightarrow> win_managed \<Rightarrow> win_os \<Rightarrow> win_managed \<times> win_os" where
  "close_files a p os =
     (p\<lparr>wm_closeOnce := True, wm_closeErr := errors_Join [normalizeClose (wr_closeInput a), normalizeClose (wr_closeOutput a)]\<rparr>,
      win_close OutputRead (win_close InputWrite os))"

section \<open>Threads\<close>

text \<open>
  A program counter names the next section of a call. \<open>closeConsole\<close> is called from three
  places; \<open>win_next\<close> says where it returns to. The call that runs the body of \<open>waitOnce\<close>,
  \<open>closeOnce\<close> or \<open>consoleOnce\<close> goes on; any other waits for the body to return. \<open>PcWatch\<close> is the
  goroutine that \<open>Factory.Start\<close> leaves with a legacy process.
\<close>

datatype (plugins only: code size) win_next = NextReturn | NextWaitDone | NextResources

datatype (plugins only: code size) win_pc =
    PcProcessID | PcResize Size | PcTerminate | PcKill | PcWatch
  | PcWait | PcWaitBlocked | PcWaitCode | PcWaitPublish ExitStatus "gerror option" | PcWaitSettle | PcWaitDone | PcWaitJoin
  | PcClose | PcCloseLook | PcCloseAwait | PcCloseJoin
  | PcConsoleFlag win_next | PcConsoleOnce win_next | PcConsoleCall win_next | PcConsoleJoin win_next
  | PcResources | PcCloseProcess | PcCloseJob
  | PcReturned "gerror option"

fun win_goto :: "win_next \<Rightarrow> win_pc" where
  "win_goto NextReturn = PcReturned None"
| "win_goto NextWaitDone = PcWaitDone"
| "win_goto NextResources = PcResources"

text \<open>A thread whose next section cannot run yet.\<close>

fun win_enabled :: "win_pc \<Rightarrow> win_managed \<Rightarrow> bool" where
  "win_enabled PcWaitJoin p = wm_done p"
| "win_enabled PcCloseAwait p = wm_done p"
| "win_enabled PcWatch p = wm_done p"
| "win_enabled PcCloseJoin p = wm_closeDone p"
| "win_enabled (PcConsoleJoin k) p = wm_consoleDone p"
| "win_enabled (PcReturned r) p = False"
| "win_enabled _ p = True"

text \<open>
  One section. The threads that continue the call come first; \<open>Close\<close> of a running process
  returns and leaves the goroutine that releases the handles.
\<close>

fun win_advance :: "win_answers \<Rightarrow> win_pc \<Rightarrow> win_managed \<Rightarrow> win_os \<Rightarrow> win_pc list \<times> win_managed \<times> win_os" where
  "win_advance a PcProcessID p os =
     (case win_ProcessID a p os of (r, os') \<Rightarrow> ([PcReturned (case r of Inl e \<Rightarrow> Some e | Inr _ \<Rightarrow> None)], p, os'))"
| "win_advance a (PcResize sz) p os =
     (case win_Resize (\<lambda>_. wr_resize a) sz p os of (r, os') \<Rightarrow> ([PcReturned r], p, os'))"
| "win_advance a PcTerminate p os =
     (case win_Terminate a p os of (go, p', os') \<Rightarrow>
        ([if go then PcConsoleFlag NextReturn else PcReturned None], p', os'))"
| "win_advance a PcKill p os = (case win_Kill a p os of (r, p', os') \<Rightarrow> ([PcReturned r], p', os'))"
| "win_advance a PcWatch p os = ([PcReturned None], p, os)"
| "win_advance a PcWait p os =
     (if wm_waitOnce p then ([PcWaitJoin], p, os) else ([PcWaitBlocked], p\<lparr>wm_waitOnce := True\<rparr>, win_use Process os))"
| "win_advance a PcWaitBlocked p os =
     (case win_wait_event a of
        Some err \<Rightarrow> ([PcWaitPublish (failed_status a err) (Some err)], p, win_use Process os)
      | None \<Rightarrow> ([PcWaitCode], p, win_use Process os))"
| "win_advance a PcWaitCode p os =
     (case win_exit_code a of (status, err) \<Rightarrow> ([PcWaitPublish status err], p, win_use Process os))"
| "win_advance a (PcWaitPublish status err) p os = ([PcWaitSettle], win_publish status err p, os)"
| "win_advance a PcWaitSettle p os =
     ([if wm_released p then PcWaitDone else PcConsoleFlag NextWaitDone], p, os)"
| "win_advance a PcWaitDone p os = ([PcReturned (wm_waitErr p)], p\<lparr>wm_done := True\<rparr>, os)"
| "win_advance a PcWaitJoin p os = ([PcReturned (wm_waitErr p)], p, os)"
| "win_advance a PcClose p os =
     (if wm_closeOnce p then ([PcCloseJoin], p, os)
      else case close_files a p os of (p', os') \<Rightarrow> ([PcCloseLook], p', os'))"
| "win_advance a PcCloseLook p os =
     (if \<not> wm_running p then ([PcConsoleFlag NextResources], p, os)
      else ([PcReturned (wm_closeErr p), PcCloseAwait], p\<lparr>wm_closeDone := True\<rparr>, os))"
| "win_advance a PcCloseAwait p os = ([PcConsoleFlag NextResources], p, os)"
| "win_advance a PcCloseJoin p os = ([PcReturned (wm_closeErr p)], p, os)"
| "win_advance a (PcConsoleFlag k) p os = ([PcConsoleOnce k], console_flag p, os)"
| "win_advance a (PcConsoleOnce k) p os =
     (case console_once p os of (first, p', os') \<Rightarrow> ([if first then PcConsoleCall k else PcConsoleJoin k], p', os'))"
| "win_advance a (PcConsoleCall k) p os = ([win_goto k], console_returned p, os)"
| "win_advance a (PcConsoleJoin k) p os = ([win_goto k], p, os)"
| "win_advance a PcResources p os =
     (if wm_resourcesClosed p then ([PcReturned (wm_closeErr p)], p\<lparr>wm_closeDone := True\<rparr>, os)
      else ([PcCloseProcess], p\<lparr>wm_resourcesClosed := True\<rparr>, os))"
| "win_advance a PcCloseProcess p os = ([PcCloseJob], p, win_close Process os)"
| "win_advance a PcCloseJob p os = ([PcReturned (wm_closeErr p)], p\<lparr>wm_closeDone := True\<rparr>, win_close Job os)"
| "win_advance a (PcReturned r) p os = ([], p, os)"

record win_sys =
  ws_p :: win_managed
  ws_os :: win_os
  ws_threads :: "win_pc multiset"

datatype win_label = WCall win_pc | WRun win_pc win_answers | WCancel

definition win_entries :: "win_pc set" where
  "win_entries = {PcProcessID, PcTerminate, PcKill, PcWait, PcClose, PcWatch} \<union> range PcResize"

text \<open>The context of a legacy process may end at any time, and its goroutine then calls \<open>Kill\<close>.\<close>

inductive win_step :: "win_sys \<Rightarrow> win_label \<Rightarrow> win_sys \<Rightarrow> bool" where
  call: "pc \<in> win_entries \<Longrightarrow> win_step y (WCall pc) (y\<lparr>ws_threads := add_mset pc (ws_threads y)\<rparr>)"
| run: "ws_threads y = add_mset pc ts \<Longrightarrow> win_enabled pc (ws_p y) \<Longrightarrow>
     win_advance a pc (ws_p y) (ws_os y) = (next', p', os') \<Longrightarrow>
     win_step y (WRun pc a) (y\<lparr>ws_p := p', ws_os := os', ws_threads := ts + mset next'\<rparr>)"
| cancel: "ws_threads y = add_mset PcWatch ts \<Longrightarrow>
     win_step y WCancel (y\<lparr>ws_threads := add_mset PcKill ts\<rparr>)"

definition win_begin :: "64 word \<Rightarrow> bool \<Rightarrow> win_sys" where
  "win_begin pid released =
     \<lparr>ws_p = win_new pid released, ws_os = \<lparr>wo_open = [InputWrite, OutputRead, Console, Job, Process], wo_bad = False\<rparr>,
      ws_threads = {#}\<rparr>"

section \<open>The invariant\<close>

fun wait_early :: "win_pc \<Rightarrow> bool" where
  "wait_early PcWaitBlocked = True"
| "wait_early PcWaitCode = True"
| "wait_early (PcWaitPublish _ _) = True"
| "wait_early _ = False"

fun wait_late :: "win_pc \<Rightarrow> bool" where
  "wait_late PcWaitSettle = True"
| "wait_late PcWaitDone = True"
| "wait_late (PcConsoleFlag k) = (k = NextWaitDone)"
| "wait_late (PcConsoleOnce k) = (k = NextWaitDone)"
| "wait_late (PcConsoleCall k) = (k = NextWaitDone)"
| "wait_late (PcConsoleJoin k) = (k = NextWaitDone)"
| "wait_late _ = False"

fun close_early :: "win_pc \<Rightarrow> bool" where
  "close_early PcCloseLook = True"
| "close_early PcCloseAwait = True"
| "close_early _ = False"

fun close_console :: "win_pc \<Rightarrow> bool" where
  "close_console (PcConsoleFlag k) = (k = NextResources)"
| "close_console (PcConsoleOnce k) = (k = NextResources)"
| "close_console (PcConsoleCall k) = (k = NextResources)"
| "close_console (PcConsoleJoin k) = (k = NextResources)"
| "close_console _ = False"

fun at_once :: "win_pc \<Rightarrow> bool" where
  "at_once (PcConsoleOnce k) = True"
| "at_once _ = False"

fun in_console :: "win_pc \<Rightarrow> bool" where
  "in_console (PcConsoleCall k) = True"
| "in_console _ = False"

fun joins_console :: "win_pc \<Rightarrow> bool" where
  "joins_console (PcConsoleJoin k) = True"
| "joins_console _ = False"

fun says_killed :: "win_pc \<Rightarrow> bool" where
  "says_killed (PcWaitPublish status err) = (Reason status = ExitReasonKilled)"
| "says_killed _ = False"

definition num :: "(win_pc \<Rightarrow> bool) \<Rightarrow> win_pc multiset \<Rightarrow> nat" where
  "num P ts = size (filter_mset P ts)"

lemma num_simps [simp]:
  "num P {#} = 0" "num P (add_mset x ts) = (if P x then 1 else 0) + num P ts" "num P (ts + us) = num P ts + num P us"
  by (simp_all add: num_def)

text \<open>
  The bodies of \<open>waitOnce\<close> and \<open>closeOnce\<close> are run by at most one thread each, which is in
  one phase; the flags and the open objects follow from the phase.
\<close>

definition wait_inv :: "win_managed \<Rightarrow> win_pc multiset \<Rightarrow> bool" where
  "wait_inv p ts \<longleftrightarrow>
     num wait_early ts + num wait_late ts = (if wm_waitOnce p \<and> \<not> wm_done p then 1 else 0)
     \<and> (wm_done p \<longrightarrow> wm_waitOnce p)
     \<and> wm_running p = (\<not> wm_waitOnce p \<or> num wait_early ts = 1)
     \<and> (\<not> wm_running p \<and> Reason (wm_waitStatus p) = ExitReasonKilled \<longrightarrow> wm_killed p)
     \<and> num says_killed ts = 0"

text \<open>The phases of \<open>Close\<close>: where its body is, how many threads are in it, what is open.\<close>

datatype close_phase = NotClosed | FilesClosed | ConsoleNext | HandlesNext | ProcessNext | JobNext | AllClosed

fun phase_threads :: "close_phase \<Rightarrow> nat list" where
  "phase_threads FilesClosed = [1, 0, 0, 0, 0]"
| "phase_threads ConsoleNext = [0, 1, 0, 0, 0]"
| "phase_threads HandlesNext = [0, 0, 1, 0, 0]"
| "phase_threads ProcessNext = [0, 0, 0, 1, 0]"
| "phase_threads JobNext = [0, 0, 0, 0, 1]"
| "phase_threads _ = [0, 0, 0, 0, 0]"

definition phase_inv :: "close_phase \<Rightarrow> win_managed \<Rightarrow> win_os \<Rightarrow> win_pc multiset \<Rightarrow> bool" where
  "phase_inv ph p os ts \<longleftrightarrow>
     [num close_early ts, num close_console ts, num ((=) PcResources) ts, num ((=) PcCloseProcess) ts,
      num ((=) PcCloseJob) ts] = phase_threads ph
     \<and> wm_closeOnce p = (ph \<noteq> NotClosed) \<and> (ph \<notin> {NotClosed, FilesClosed} \<longrightarrow> \<not> wm_running p)
     \<and> (ph \<notin> {NotClosed, FilesClosed, ConsoleNext} \<longrightarrow> wm_consoleOnce p)
     \<and> wm_resourcesClosed p = (ph \<in> {ProcessNext, JobNext, AllClosed})
     \<and> (num ((=) PcCloseAwait) ts \<noteq> 0 \<or> ph = AllClosed \<longrightarrow> wm_closeDone p) \<and> (num ((=) PcCloseJoin) ts \<noteq> 0 \<longrightarrow> wm_closeOnce p)
     \<and> (Process \<in> set (wo_open os)) = (ph \<notin> {JobNext, AllClosed}) \<and> (Job \<in> set (wo_open os)) = (ph \<noteq> AllClosed)"

definition close_inv :: "win_managed \<Rightarrow> win_os \<Rightarrow> win_pc multiset \<Rightarrow> bool" where
  "close_inv p os ts \<longleftrightarrow> (\<exists>ph. phase_inv ph p os ts)"

definition console_inv :: "win_managed \<Rightarrow> win_os \<Rightarrow> win_pc multiset \<Rightarrow> bool" where
  "console_inv p os ts \<longleftrightarrow>
     (Console \<in> set (wo_open os)) = (\<not> wm_consoleOnce p) \<and> (wm_consoleOnce p \<longrightarrow> wm_consoleClosing p)
     \<and> (num at_once ts \<noteq> 0 \<longrightarrow> wm_consoleClosing p)
     \<and> num in_console ts = (if wm_consoleOnce p \<and> \<not> wm_consoleDone p then 1 else 0)
     \<and> (wm_consoleDone p \<longrightarrow> wm_consoleOnce p) \<and> (num joins_console ts \<noteq> 0 \<longrightarrow> wm_consoleOnce p)"

definition object_inv :: "win_managed \<Rightarrow> win_os \<Rightarrow> bool" where
  "object_inv p os \<longleftrightarrow>
     \<not> wo_bad os \<and> distinct (wo_open os) \<and> (InputWrite \<in> set (wo_open os)) = (\<not> wm_closeOnce p) \<and> (OutputRead \<in> set (wo_open os)) = (\<not> wm_closeOnce p)"

definition win_inv :: "win_managed \<Rightarrow> win_os \<Rightarrow> win_pc multiset \<Rightarrow> bool" where
  "win_inv p os ts \<longleftrightarrow> wait_inv p ts \<and> close_inv p os ts \<and> console_inv p os ts \<and> object_inv p os"

lemma win_use_simps [simp]: "wo_open (win_use x os) = wo_open os" "wo_open (win_close x os) = remove1 x (wo_open os)"
  by (simp_all add: win_use_def win_close_def)

lemma win_use_open: "x \<in> set (wo_open os) \<Longrightarrow> win_use x os = os"
  by (simp add: win_use_def)

lemma win_close_open: "x \<in> set (wo_open os) \<Longrightarrow> win_close x os = os\<lparr>wo_open := remove1 x (wo_open os)\<rparr>"
  by (simp add: win_use_def win_close_def)

lemmas win_sections = win_ProcessID_def win_Resize_def win_Terminate_def win_Kill_def win_publish_def console_flag_def
  console_once_def console_returned_def close_files_def win_exit_code_def win_wait_event_def failed_status_def Let_def

lemmas win_splits = if_splits option.splits sum.splits prod.splits

lemmas win_exit_reasons = ExitReasonExited_def ExitReasonKilled_def ExitReasonSignaled_def ExitReasonIOFailure_def

text \<open>What one section does to the process and to the open objects.\<close>

lemma win_ProcessID_open: "win_ProcessID a p os = (r, os') \<Longrightarrow> wo_open os' = wo_open os"
  by (auto simp: win_ProcessID_def split: if_splits)

lemma win_Resize_open: "win_Resize f sz p os = (r, os') \<Longrightarrow> wo_open os' = wo_open os"
  by (auto simp: win_Resize_def split: if_splits option.splits)

lemma win_Terminate_effect:
  "win_Terminate a p os = (go, p', os') \<Longrightarrow> wo_open os' = wo_open os \<and> p' \<in> {p, p\<lparr>wm_terminateSent := True\<rparr>}"
  by (auto simp: win_Terminate_def Let_def split: if_splits)

lemma win_Kill_effect:
  "win_Kill a p os = (r, p', os') \<Longrightarrow> wo_open os' = wo_open os
     \<and> (p' = p \<or> wm_running p \<and> wr_terminate a = None \<and> p' = p\<lparr>wm_killed := True\<rparr>)"
  by (auto simp: win_Kill_def Let_def split: if_splits option.splits)

lemma win_exit_code_reason: "win_exit_code a = (status, err) \<Longrightarrow> Reason status \<noteq> ExitReasonKilled"
  by (auto simp: win_exit_code_def failed_status_def win_exit_reasons split: sum.splits)

lemma win_classify_reason: "Reason (win_classify p status) = ExitReasonKilled \<Longrightarrow> wm_killed p \<or> Reason status = ExitReasonKilled"
  by (auto simp: win_classify_def win_exit_reasons split: if_splits)

lemmas win_effects = win_ProcessID_open win_Resize_open win_Terminate_effect win_Kill_effect

lemmas win_plain = win_publish_def console_flag_def console_once_def console_returned_def close_files_def failed_status_def

lemma wait_inv_flags:
  "wait_inv (p\<lparr>wm_terminateSent := b\<rparr>) ts = wait_inv p ts" "wait_inv p ts \<Longrightarrow> wait_inv (p\<lparr>wm_killed := True\<rparr>) ts"
  "wait_inv (p\<lparr>wm_consoleOnce := b\<rparr>) ts = wait_inv p ts" "wait_inv (p\<lparr>wm_consoleClosing := b\<rparr>) ts = wait_inv p ts"
  "wait_inv (p\<lparr>wm_resourcesClosed := b\<rparr>) ts = wait_inv p ts" "wait_inv (p\<lparr>wm_closeOnce := b\<rparr>) ts = wait_inv p ts"
  "wait_inv (p\<lparr>wm_closeErr := e\<rparr>) ts = wait_inv p ts" "wait_inv (p\<lparr>wm_consoleDone := b\<rparr>) ts = wait_inv p ts"
  "wait_inv (p\<lparr>wm_closeDone := b\<rparr>) ts = wait_inv p ts"
  by (simp_all add: wait_inv_def)

lemma wait_inv_same:
  "num wait_early us = num wait_early ts \<Longrightarrow> num wait_late us = num wait_late ts \<Longrightarrow> num says_killed us = num says_killed ts
   \<Longrightarrow> wait_inv p us = wait_inv p ts"
  by (simp add: wait_inv_def)

lemma num_none: "\<forall>x \<in> set xs. \<not> P x \<Longrightarrow> num P (mset xs) = 0"
  by (induction xs) simp_all

abbreviation outside_wait :: "win_pc \<Rightarrow> bool" where
  "outside_wait pc \<equiv> \<not> wait_early pc \<and> \<not> wait_late pc \<and> \<not> says_killed pc"

lemma wait_inv_outside:
  "wait_inv p (add_mset pc ts) \<Longrightarrow> outside_wait pc \<Longrightarrow> \<forall>x \<in> set ns. outside_wait x \<Longrightarrow> wait_inv p (ts + mset ns)"
  by (subst wait_inv_same [of _ "add_mset pc ts"]) (simp_all add: num_none)

lemma advance_wait:
  assumes "wait_inv p (add_mset pc ts)" and "win_enabled pc p" and "win_advance a pc p os = (ns, p', os')"
  shows "wait_inv p' (ts + mset ns)"
proof (cases pc)
  case PcTerminate
  then show ?thesis using assms by (auto dest!: win_Terminate_effect simp: wait_inv_flags split: prod.splits) (auto simp: wait_inv_def)
next
  case PcKill
  then show ?thesis using assms by (auto dest!: win_Kill_effect split: prod.splits) (auto simp: wait_inv_def)
next
  case (PcWaitPublish status err)
  then show ?thesis using assms by (auto simp: win_publish_def wait_inv_def dest: win_classify_reason split: if_splits)
next
  case PcWaitCode
  then show ?thesis using assms by (auto simp: wait_inv_def dest: win_exit_code_reason split: prod.splits)
next
  case PcWaitBlocked
  then show ?thesis using assms by (auto simp: wait_inv_def failed_status_def win_exit_reasons split: option.splits)
next
  case (PcConsoleOnce k)
  obtain first where e: "console_once p os = (first, p', os')"
    and "ns = [if first then PcConsoleCall k else PcConsoleJoin k]" using assms(3) PcConsoleOnce by (auto split: prod.splits)
  moreover have "wait_inv p' us = wait_inv p us" for us using e by (auto simp: console_once_def wait_inv_flags split: if_splits)
  then have "wait_inv p' = wait_inv p" by blast
  ultimately obtain q where q: "q \<in> {PcConsoleCall k, PcConsoleJoin k}" "ns = [q]" "wait_inv p' = wait_inv p" by (cases first) auto
  have "wait_inv p (ts + mset [q]) = wait_inv p (add_mset (PcConsoleOnce k) ts)"
    by (rule wait_inv_same; use q(1) in auto)
  then show ?thesis using assms(1) PcConsoleOnce q by simp
next
  case (PcConsoleCall k)
  then have "ns = [win_goto k]" "wait_inv p' = wait_inv p"
    using assms(3) by (auto simp: console_returned_def wait_inv_flags)
  moreover have "wait_inv p (ts + mset [win_goto k]) = wait_inv p (add_mset (PcConsoleCall k) ts)"
    by (rule wait_inv_same; cases k; simp)
  ultimately show ?thesis using assms(1) PcConsoleCall by simp
next
  case (PcConsoleJoin k)
  then have "ns = [win_goto k]" "p' = p" using assms(3) by auto
  moreover have "wait_inv p (ts + mset [win_goto k]) = wait_inv p (add_mset (PcConsoleJoin k) ts)"
    by (rule wait_inv_same; cases k; simp)
  ultimately show ?thesis using assms(1) PcConsoleJoin by simp
next
  case (PcConsoleFlag k)
  then have "ns = [PcConsoleOnce k]" "wait_inv p' = wait_inv p"
    using assms(3) by (auto simp: console_flag_def wait_inv_flags)
  moreover have "wait_inv p (ts + mset [PcConsoleOnce k]) = wait_inv p (add_mset (PcConsoleFlag k) ts)"
    by (rule wait_inv_same; cases k; simp)
  ultimately show ?thesis using assms(1) PcConsoleFlag by simp
next
  case PcWait
  then show ?thesis using assms by (auto simp: wait_inv_def split: if_splits)
next
  case PcWaitSettle
  then show ?thesis using assms by (auto simp: wait_inv_def split: if_splits)
next
  case PcWaitDone
  then show ?thesis using assms by (auto simp: wait_inv_def split: if_splits)
qed (use assms wait_inv_outside [OF assms(1), of ns] in \<open>auto simp: close_files_def wait_inv_flags split: prod.splits if_splits\<close>)

abbreviation outside_console :: "win_pc \<Rightarrow> bool" where
  "outside_console pc \<equiv> \<not> at_once pc \<and> \<not> in_console pc \<and> \<not> joins_console pc"

lemma console_inv_outside:
  assumes "console_inv p os (add_mset pc ts)" and "outside_console pc" and "\<forall>x \<in> set ns. outside_console x"
    and "(Console \<in> set (wo_open os')) = (Console \<in> set (wo_open os))" and "wm_consoleOnce p' = wm_consoleOnce p"
    and "wm_consoleDone p' = wm_consoleDone p" and "wm_consoleClosing p \<Longrightarrow> wm_consoleClosing p'"
  shows "console_inv p' os' (ts + mset ns)"
proof -
  have "num at_once (mset ns) = 0" "num in_console (mset ns) = 0" "num joins_console (mset ns) = 0"
    using assms(3) by (auto intro: num_none)
  then show ?thesis using assms(1,2,7) by (simp add: console_inv_def assms(4-6))
qed

lemma advance_outside_console:
  assumes "win_advance a pc p os = (ns, p', os')" and "outside_console pc" and "\<And>k. pc \<noteq> PcConsoleFlag k" and "distinct (wo_open os)"
  shows "(Console \<in> set (wo_open os')) = (Console \<in> set (wo_open os)) \<and> wm_consoleOnce p' = wm_consoleOnce p
    \<and> wm_consoleDone p' = wm_consoleDone p \<and> wm_consoleClosing p' = wm_consoleClosing p
    \<and> (\<forall>x \<in> set ns. outside_console x)"
  using assms by (cases pc) (auto simp: win_plain dest!: win_effects split: prod.splits if_splits option.splits)

lemma advance_console:
  assumes "console_inv p os (add_mset pc ts)" and "distinct (wo_open os)" and "win_advance a pc p os = (ns, p', os')"
  shows "console_inv p' os' (ts + mset ns)"
proof -
  consider k where "pc = PcConsoleFlag k" | k where "pc = PcConsoleOnce k" | k where "pc = PcConsoleCall k"
    | k where "pc = PcConsoleJoin k" | "outside_console pc" "\<And>k. pc \<noteq> PcConsoleFlag k" by (cases pc) auto
  then show ?thesis
  proof cases
    case 1
    then show ?thesis using assms by (auto simp: console_inv_def console_flag_def)
  next
    case 2
    then show ?thesis using assms by (auto simp: console_inv_def console_once_def split: prod.splits if_splits)
  next
    case (3 k)
    then show ?thesis using assms by (cases k) (auto simp: console_inv_def console_returned_def split: if_splits)
  next
    case (4 k)
    then show ?thesis using assms by (cases k) (auto simp: console_inv_def)
  next
    case 5
    note o = advance_outside_console [OF assms(3) 5 assms(2)]
    show ?thesis by (rule console_inv_outside [OF assms(1) 5(1)]) (use o in blast)+
  qed
qed

lemma phase_inv_same:
  assumes "phase_inv ph p os (add_mset pc ts)" and "wo_open os' = wo_open os"
    and "wm_closeOnce p' = wm_closeOnce p" and "wm_running p' \<Longrightarrow> wm_running p" and "wm_consoleOnce p \<Longrightarrow> wm_consoleOnce p'"
    and "wm_resourcesClosed p' = wm_resourcesClosed p" and "wm_closeDone p \<Longrightarrow> wm_closeDone p'"
    and "\<And>P. P \<in> {close_early, close_console, (=) PcResources, (=) PcCloseProcess, (=) PcCloseJob, (=) PcCloseAwait} \<Longrightarrow>
           num P us = num P (add_mset pc ts)"
    and "num ((=) PcCloseJoin) us \<noteq> 0 \<Longrightarrow> num ((=) PcCloseJoin) (add_mset pc ts) \<noteq> 0"
  shows "phase_inv ph p' os' us"
proof -
  have n: "num close_early us = num close_early (add_mset pc ts)" "num close_console us = num close_console (add_mset pc ts)"
    "num ((=) PcResources) us = num ((=) PcResources) (add_mset pc ts)"
    "num ((=) PcCloseProcess) us = num ((=) PcCloseProcess) (add_mset pc ts)"
    "num ((=) PcCloseJob) us = num ((=) PcCloseJob) (add_mset pc ts)"
    "num ((=) PcCloseAwait) us = num ((=) PcCloseAwait) (add_mset pc ts)"
    by (rule assms(8); simp)+
  show ?thesis using assms(1,4,5,7,9) unfolding phase_inv_def n assms(2,3,6) by blast
qed

abbreviation outside_close :: "win_pc \<Rightarrow> bool" where
  "outside_close pc \<equiv> \<not> close_early pc \<and> \<not> close_console pc \<and> pc \<notin> {PcResources, PcCloseProcess, PcCloseJob}"

lemma outside_num:
  assumes "outside_close pc" and "\<forall>x \<in> set ns. outside_close x"
    and "P \<in> {close_early, close_console, (=) PcResources, (=) PcCloseProcess, (=) PcCloseJob, (=) PcCloseAwait}"
  shows "num P (ts + mset ns) = num P (add_mset pc ts)"
proof -
  have *: "\<not> P x" if "outside_close x" for x using that assms(3) by auto
  then have "num P (mset ns) = 0" using assms(2) by (intro num_none) blast
  then show ?thesis using * [OF assms(1)] by simp
qed

text \<open>A step that is not part of \<open>Close\<close> leaves the phase as it is.\<close>

lemma advance_outside:
  assumes "win_advance a pc p os = (ns, p', os')" and "outside_close pc" and "pc \<noteq> PcClose" and "\<And>k. pc \<noteq> PcConsoleOnce k"
  shows "wo_open os' = wo_open os \<and> wm_closeOnce p' = wm_closeOnce p \<and> (wm_running p' \<longrightarrow> wm_running p)
    \<and> wm_consoleOnce p' = wm_consoleOnce p \<and> wm_resourcesClosed p' = wm_resourcesClosed p \<and> wm_closeDone p' = wm_closeDone p
    \<and> (\<forall>x \<in> set ns. outside_close x \<and> x \<noteq> PcCloseJoin)"
proof (cases pc)
  case (PcConsoleCall k)
  then show ?thesis using assms by (cases k) (auto simp: console_returned_def)
next
  case (PcConsoleJoin k)
  then show ?thesis using assms by (cases k) auto
qed (use assms in \<open>auto simp: win_plain dest!: win_effects split: prod.splits if_splits option.splits\<close>)

lemma phase_of:
  assumes "phase_inv ph p os (add_mset pc ts)"
  shows "close_early pc \<Longrightarrow> ph = FilesClosed" "close_console pc \<Longrightarrow> ph = ConsoleNext"
    "pc = PcResources \<Longrightarrow> ph = HandlesNext" "pc = PcCloseProcess \<Longrightarrow> ph = ProcessNext" "pc = PcCloseJob \<Longrightarrow> ph = JobNext"
  using assms by (cases ph; simp add: phase_inv_def)+

lemma console_once_effect:
  "console_once p os = (first, p', os') \<Longrightarrow> distinct (wo_open os) \<Longrightarrow>
   wm_consoleOnce p' \<and> wm_closeOnce p' = wm_closeOnce p \<and> wm_running p' = wm_running p
   \<and> wm_resourcesClosed p' = wm_resourcesClosed p \<and> wm_closeDone p' = wm_closeDone p
   \<and> (Process \<in> set (wo_open os')) = (Process \<in> set (wo_open os)) \<and> (Job \<in> set (wo_open os')) = (Job \<in> set (wo_open os))"
  by (auto simp: console_once_def split: if_splits)

lemma advance_phase_console:
  assumes i: "phase_inv ph p os (add_mset (PcConsoleOnce k) ts)" and "distinct (wo_open os)"
    and "win_advance a (PcConsoleOnce k) p os = (ns, p', os')"
  shows "phase_inv ph p' os' (ts + mset ns)"
proof -
  obtain first where e: "console_once p os = (first, p', os')"
    and n: "ns = [if first then PcConsoleCall k else PcConsoleJoin k]" using assms(3) by (auto split: prod.splits)
  show ?thesis using i console_once_effect [OF e assms(2)] n by (auto simp: phase_inv_def)
qed

lemma advance_phase:
  assumes i: "phase_inv ph p os (add_mset pc ts)" and "wait_inv p (add_mset pc ts)" and "distinct (wo_open os)"
    and "win_enabled pc p" and a: "win_advance a pc p os = (ns, p', os')" and "\<not> outside_close pc"
    and "console_inv p os (add_mset pc ts)"
  shows "\<exists>ph. phase_inv ph p' os' (ts + mset ns)"
proof -
  consider "pc = PcCloseLook" | "pc = PcCloseAwait" | "pc = PcConsoleFlag NextResources" | "pc = PcConsoleOnce NextResources"
    | "pc = PcResources" | "pc = PcCloseProcess" | "pc = PcCloseJob"
    | "pc = PcConsoleCall NextResources \<or> pc = PcConsoleJoin NextResources"
    using assms(6) by (cases pc) auto
  then show ?thesis
  proof cases
    case 1
    then have "ph = FilesClosed" using phase_of(1) [OF i] by simp
    then have "phase_inv (if wm_running p then FilesClosed else ConsoleNext) p' os' (ts + mset ns)"
      using i a 1 by (auto simp: phase_inv_def)
    then show ?thesis ..
  next
    case 2
    then have "ph = FilesClosed" using phase_of(1) [OF i] by simp
    moreover have "\<not> wm_running p" using assms(2,4) 2 by (auto simp: wait_inv_def split: if_splits)
    ultimately have "phase_inv ConsoleNext p' os' (ts + mset ns)" using i a 2 by (auto simp: phase_inv_def)
    then show ?thesis ..
  next
    case 3
    then have "ph = ConsoleNext" using phase_of(2) [OF i] by simp
    then have "phase_inv ConsoleNext p' os' (ts + mset ns)" using i a 3 by (auto simp: phase_inv_def console_flag_def)
    then show ?thesis ..
  next
    case 4
    then show ?thesis using advance_phase_console i a assms(3) by blast
  next
    case 5
    then have "ph = HandlesNext" using phase_of(3) [OF i] by simp
    then have "phase_inv ProcessNext p' os' (ts + mset ns)" using i a 5 by (auto simp: phase_inv_def)
    then show ?thesis ..
  next
    case 6
    then have "ph = ProcessNext" using phase_of(4) [OF i] by simp
    then have "phase_inv JobNext p' os' (ts + mset ns)" using i a assms(3) 6 by (auto simp: phase_inv_def)
    then show ?thesis ..
  next
    case 7
    then have "ph = JobNext" using phase_of(5) [OF i] by simp
    then have "phase_inv AllClosed p' os' (ts + mset ns)" using i a assms(3) 7 by (auto simp: phase_inv_def)
    then show ?thesis ..
  next
    case 8
    then have "ph = ConsoleNext" using phase_of(2) [OF i] by auto
    moreover have "wm_consoleOnce p" using 8 assms(7) by (auto simp: console_inv_def split: if_splits)
    moreover have "ns = [PcResources]" "os' = os" "p' \<in> {p, console_returned p}" using a 8 by auto
    ultimately have "phase_inv HandlesNext p' os' (ts + mset ns)"
      using i 8 by (elim disjE) (auto simp: phase_inv_def console_returned_def)
    then show ?thesis ..
  qed
qed

lemma advance_phase_Close:
  assumes i: "phase_inv ph p os (add_mset PcClose ts)" and "distinct (wo_open os)"
    and a: "win_advance a PcClose p os = (ns, p', os')"
  shows "\<exists>ph. phase_inv ph p' os' (ts + mset ns)"
proof (cases "wm_closeOnce p")
  case True
  then have "phase_inv ph p' os' (ts + mset ns)" using i a by (auto simp: phase_inv_def)
  then show ?thesis ..
next
  case False
  then have "ph = NotClosed" using i by (simp add: phase_inv_def)
  then have "phase_inv FilesClosed p' os' (ts + mset ns)"
    using i a False assms(2) by (auto simp: phase_inv_def close_files_def)
  then show ?thesis ..
qed

lemma advance_close:
  assumes "close_inv p os (add_mset pc ts)" and "wait_inv p (add_mset pc ts)" and "distinct (wo_open os)"
    and "win_enabled pc p" and a: "win_advance a pc p os = (ns, p', os')" and "console_inv p os (add_mset pc ts)"
  shows "close_inv p' os' (ts + mset ns)"
proof -
  obtain ph where i: "phase_inv ph p os (add_mset pc ts)" using assms(1) by (auto simp: close_inv_def)
  consider "\<not> outside_close pc" | "pc = PcClose" | k where "pc = PcConsoleOnce k"
    | "outside_close pc" "pc \<noteq> PcClose" "\<And>k. pc \<noteq> PcConsoleOnce k" by blast
  then have "\<exists>ph. phase_inv ph p' os' (ts + mset ns)"
  proof cases
    case 4
    note o = advance_outside [OF a 4]
    then have "num ((=) PcCloseJoin) (mset ns) = 0" by (intro num_none) auto
    then have "phase_inv ph p' os' (ts + mset ns)"
      by (intro phase_inv_same [OF i]) (use o outside_num [OF 4(1)] in auto)
    then show ?thesis ..
  qed (use advance_phase [OF i assms(2-5) _ assms(6)] advance_phase_Close advance_phase_console i a assms(3) in blast)+
  then show ?thesis by (simp add: close_inv_def)
qed

lemma win_facts:
  assumes "win_inv p os ts"
  shows "\<not> wm_resourcesClosed p \<Longrightarrow> Process \<in> set (wo_open os)" "\<not> wm_resourcesClosed p \<Longrightarrow> Job \<in> set (wo_open os)"
    "wm_running p \<Longrightarrow> \<not> wm_resourcesClosed p" "\<not> wm_consoleClosing p \<Longrightarrow> Console \<in> set (wo_open os)"
    "\<not> wm_consoleOnce p \<Longrightarrow> Console \<in> set (wo_open os)"
    "\<not> wm_closeOnce p \<Longrightarrow> InputWrite \<in> set (wo_open os)" "\<not> wm_closeOnce p \<Longrightarrow> OutputRead \<in> set (wo_open os)"
    "\<not> wm_waitOnce p \<Longrightarrow> wm_running p"
proof -
  obtain ph where ph: "phase_inv ph p os ts" using assms by (auto simp: win_inv_def close_inv_def)
  show "\<not> wm_resourcesClosed p \<Longrightarrow> Process \<in> set (wo_open os)" "\<not> wm_resourcesClosed p \<Longrightarrow> Job \<in> set (wo_open os)"
    "wm_running p \<Longrightarrow> \<not> wm_resourcesClosed p"
    using ph by (auto simp: phase_inv_def)
  show "\<not> wm_consoleClosing p \<Longrightarrow> Console \<in> set (wo_open os)" "\<not> wm_consoleOnce p \<Longrightarrow> Console \<in> set (wo_open os)"
    "\<not> wm_closeOnce p \<Longrightarrow> InputWrite \<in> set (wo_open os)" "\<not> wm_closeOnce p \<Longrightarrow> OutputRead \<in> set (wo_open os)"
    "\<not> wm_waitOnce p \<Longrightarrow> wm_running p"
    using assms by (auto simp: win_inv_def wait_inv_def console_inv_def object_inv_def)
qed

text \<open>With what is open known, no section makes a call on a closed object.\<close>

lemma calls_open:
  assumes "win_inv p os ts"
  shows "snd (win_ProcessID a p os) = os" "snd (win_Resize f sz p os) = os" "snd (snd (win_Terminate a p os)) = os"
    "snd (snd (win_Kill a p os)) = os"
  using win_facts(1-4) [OF assms]
  by (auto simp: win_ProcessID_def win_Resize_def win_Terminate_def win_Kill_def win_use_open Let_def split: option.split)

lemma wait_early_open:
  assumes "win_inv p os (add_mset pc ts)" and "wait_early pc"
  shows "Process \<in> set (wo_open os)"
proof -
  have "wm_running p" using assms by (auto simp: win_inv_def wait_inv_def split: if_splits)
  then show ?thesis using win_facts(1,3) [OF assms(1)] by blast
qed

lemma object_inv_flags:
  "wm_closeOnce p' = wm_closeOnce p \<Longrightarrow> object_inv p' os = object_inv p os"
  by (simp add: object_inv_def)

lemma object_inv_close:
  assumes "object_inv p os" and "x \<in> set (wo_open os)" and "x \<in> {Console, Process, Job}"
  shows "object_inv p (win_close x os)"
  using assms by (auto simp: object_inv_def win_close_open)

lemma object_inv_files:
  assumes "object_inv p os" and "\<not> wm_closeOnce p" and "close_files a p os = (p', os')"
  shows "object_inv p' os'"
  using assms by (auto simp: object_inv_def close_files_def win_close_open)

lemma advance_object:
  assumes i: "win_inv p os (add_mset pc ts)" and a: "win_advance a pc p os = (ns, p', os')"
  shows "object_inv p' os'"
proof -
  have o: "object_inv p os" using i by (simp add: win_inv_def)
  obtain ph where ph: "phase_inv ph p os (add_mset pc ts)" using i by (auto simp: win_inv_def close_inv_def)
  show ?thesis
  proof (cases pc)
    case PcProcessID
    then show ?thesis using a o calls_open(1) [OF i, of a] by (auto split: prod.splits)
  next
    case (PcResize sz)
    then show ?thesis using a o calls_open(2) [OF i, of "\<lambda>_. wr_resize a" sz] by (auto split: prod.splits)
  next
    case PcTerminate
    obtain go q os1 where t: "win_Terminate a p os = (go, q, os1)" using prod_cases3 by blast
    then have "os' = os" "wm_closeOnce p' = wm_closeOnce p"
      using a PcTerminate calls_open(3) [OF i, of a] win_Terminate_effect [OF t] by auto
    then show ?thesis using o object_inv_flags [of p' p os] by simp
  next
    case PcKill
    obtain r q os1 where t: "win_Kill a p os = (r, q, os1)" using prod_cases3 by blast
    then have "os' = os" "wm_closeOnce p' = wm_closeOnce p"
      using a PcKill calls_open(4) [OF i, of a] win_Kill_effect [OF t] by auto
    then show ?thesis using o object_inv_flags [of p' p os] by simp
  next
    case PcWait
    then have "os' = os" "wm_closeOnce p' = wm_closeOnce p"
      using a win_facts(1,3,8) [OF i] by (auto simp: win_use_open split: if_splits)
    then show ?thesis using o object_inv_flags [of p' p os] by simp
  next
    case PcWaitBlocked
    then show ?thesis using a o wait_early_open [OF i] by (auto simp: win_use_open split: option.splits)
  next
    case PcWaitCode
    then show ?thesis using a o wait_early_open [OF i] by (auto simp: win_use_open split: prod.splits)
  next
    case PcClose
    then show ?thesis using a o object_inv_files by (auto split: if_splits prod.splits)
  next
    case (PcConsoleOnce k)
    have "wm_closeOnce p' = wm_closeOnce p" "os' = (if wm_consoleOnce p then os else win_close Console os)"
      using a PcConsoleOnce by (auto simp: console_once_def split: if_splits)
    then show ?thesis using o object_inv_flags [of p' p os'] object_inv_close [OF o, of Console] win_facts(5) [OF i] by auto
  next
    case PcCloseProcess
    have "Process \<in> set (wo_open os)" using ph phase_of(4) [OF ph PcCloseProcess] by (simp add: phase_inv_def)
    then show ?thesis using a PcCloseProcess object_inv_close [OF o] by auto
  next
    case PcCloseJob
    have "Job \<in> set (wo_open os)" using ph phase_of(5) [OF ph PcCloseJob] by (simp add: phase_inv_def)
    then have "object_inv p os'" using a PcCloseJob object_inv_close [OF o] by auto
    then show ?thesis using a PcCloseJob object_inv_flags [of p' p os'] by auto
  qed (use a o in \<open>auto simp: object_inv_def win_publish_def console_flag_def console_returned_def split: if_splits\<close>)
qed

definition win_ok :: "win_sys \<Rightarrow> bool" where
  "win_ok y \<longleftrightarrow> win_inv (ws_p y) (ws_os y) (ws_threads y)"

lemma win_inv_same:
  assumes "win_inv p os ts"
    and "\<And>P. P \<in> {wait_early, wait_late, says_killed, close_early, close_console, (=) PcResources, (=) PcCloseProcess,
           (=) PcCloseJob, (=) PcCloseAwait, (=) PcCloseJoin, at_once, in_console, joins_console} \<Longrightarrow> num P us = num P ts"
  shows "win_inv p os us"
proof -
  have n: "num wait_early us = num wait_early ts" "num wait_late us = num wait_late ts" "num says_killed us = num says_killed ts"
    "num close_early us = num close_early ts" "num close_console us = num close_console ts"
    "num ((=) PcResources) us = num ((=) PcResources) ts" "num ((=) PcCloseProcess) us = num ((=) PcCloseProcess) ts"
    "num ((=) PcCloseJob) us = num ((=) PcCloseJob) ts" "num ((=) PcCloseAwait) us = num ((=) PcCloseAwait) ts"
    "num ((=) PcCloseJoin) us = num ((=) PcCloseJoin) ts" "num at_once us = num at_once ts"
    "num in_console us = num in_console ts" "num joins_console us = num joins_console ts"
    by (rule assms(2); simp)+
  show ?thesis using assms(1) unfolding win_inv_def wait_inv_def close_inv_def phase_inv_def console_inv_def n .
qed

lemma win_inv_call:
  assumes "win_inv p os ts" and "pc \<in> win_entries"
  shows "win_inv p os (add_mset pc ts)"
  using assms(1) by (rule win_inv_same) (use assms(2) in \<open>auto simp: win_entries_def\<close>)

lemma win_inv_cancel: "win_inv p os (add_mset PcWatch ts) \<Longrightarrow> win_inv p os (add_mset PcKill ts)"
  by (erule win_inv_same) auto

lemma win_ok_step: "win_ok y \<Longrightarrow> win_step y l y' \<Longrightarrow> win_ok y'"
proof (erule win_step.cases)
  fix z pc ts a ns p' os'
  assume ok: "win_ok y" and y: "y = z" "y' = z\<lparr>ws_p := p', ws_os := os', ws_threads := ts + mset ns\<rparr>"
    and t: "ws_threads z = add_mset pc ts" and e: "win_enabled pc (ws_p z)"
    and a: "win_advance a pc (ws_p z) (ws_os z) = (ns, p', os')"
  have i: "win_inv (ws_p z) (ws_os z) (add_mset pc ts)" using ok y(1) t by (simp add: win_ok_def)
  then have d: "distinct (wo_open (ws_os z))" by (simp add: win_inv_def object_inv_def)
  show "win_ok y'"
    using i advance_wait [OF _ e a] advance_close [OF _ _ d e a] advance_console [OF _ d a] advance_object [OF i a]
    by (simp add: win_ok_def y(2) win_inv_def)
next
  fix pc z
  assume "win_ok y" "y = z" "y' = z\<lparr>ws_threads := add_mset pc (ws_threads z)\<rparr>" "pc \<in> win_entries"
  then show "win_ok y'" using win_inv_call by (simp add: win_ok_def)
next
  fix z ts
  assume "win_ok y" "y = z" "y' = z\<lparr>ws_threads := add_mset PcKill ts\<rparr>" "ws_threads z = add_mset PcWatch ts"
  then show "win_ok y'" using win_inv_cancel by (simp add: win_ok_def)
qed

section \<open>The contract\<close>

definition win_outcome :: "win_sys \<Rightarrow> (ExitStatus \<times> gerror option) option" where
  "win_outcome y = (if wm_done (ws_p y) then Some (wm_waitStatus (ws_p y), wm_waitErr (ws_p y)) else None)"

definition win_closed :: "win_sys \<Rightarrow> gerror option option" where
  "win_closed y = (if wm_closeOnce (ws_p y) then Some (wm_closeErr (ws_p y)) else None)"

fun win_forced :: "win_label \<Rightarrow> bool" where
  "win_forced (WRun PcKill a) = (wr_terminate a = None)"
| "win_forced _ = False"

lemma advance_killed:
  "win_advance a pc p os = (ns, p', os') \<Longrightarrow> wm_killed p' \<Longrightarrow> wm_killed p \<or> pc = PcKill \<and> wr_terminate a = None"
  by (cases pc) (auto simp: win_plain dest!: win_Terminate_effect win_Kill_effect split: prod.splits if_splits option.splits)

lemma advance_closeErr:
  "win_advance a pc p os = (ns, p', os') \<Longrightarrow> wm_closeOnce p \<Longrightarrow> wm_closeOnce p' \<and> wm_closeErr p' = wm_closeErr p"
  by (cases pc) (auto simp: win_plain dest!: win_Terminate_effect win_Kill_effect split: prod.splits if_splits option.splits)

lemma advance_waitStatus:
  "win_advance a pc p os = (ns, p', os') \<Longrightarrow> \<not> wait_early pc \<Longrightarrow>
   wm_waitStatus p' = wm_waitStatus p \<and> wm_waitErr p' = wm_waitErr p \<and> (wm_done p \<longrightarrow> wm_done p')"
  by (cases pc) (auto simp: win_plain dest!: win_Terminate_effect win_Kill_effect split: prod.splits if_splits option.splits)

lemma done_not_early: "win_inv p os (add_mset pc ts) \<Longrightarrow> wm_done p \<Longrightarrow> \<not> wait_early pc"
  by (auto simp: win_inv_def wait_inv_def)

interpretation win_managed: managed_process win_step win_ok win_outcome win_closed "\<lambda>y. wm_killed (ws_p y)" win_forced
proof unfold_locales
  fix y l y' r e status err
  assume ok: "win_ok y"
  show "win_ok y'" if "win_step y l y'" using ok that by (rule win_ok_step)
  show "win_outcome y' = Some r" if "win_step y l y'" "win_outcome y = Some r"
    using that(1)
  proof (cases rule: win_step.cases)
    case (run pc ts a ns p' os')
    have "\<not> wait_early pc" using ok run that(2) done_not_early by (auto simp: win_ok_def win_outcome_def split: if_splits)
    then show ?thesis using advance_waitStatus [OF run(5)] run that(2) by (auto simp: win_outcome_def split: if_splits)
  qed (use that(2) in \<open>simp_all add: win_outcome_def split: if_splits\<close>)
  show "win_closed y' = Some e" if "win_step y l y'" "win_closed y = Some e"
    using that(1)
  proof (cases rule: win_step.cases)
    case (run pc ts a ns p' os')
    then show ?thesis using advance_closeErr [OF run(5)] that(2) by (auto simp: win_closed_def split: if_splits)
  qed (use that(2) in \<open>simp_all add: win_closed_def split: if_splits\<close>)
  show "wm_killed (ws_p y) \<or> win_forced l" if "win_step y l y'" "wm_killed (ws_p y')"
    using that(1)
  proof (cases rule: win_step.cases)
    case (run pc ts a ns p' os')
    then show ?thesis using advance_killed [OF run(5)] that(2) by auto
  qed (use that(2) in simp_all)
  show "wm_killed (ws_p y)" if "win_outcome y = Some (status, err)" "Reason status = ExitReasonKilled"
    using ok that by (auto simp: win_ok_def win_inv_def wait_inv_def win_outcome_def split: if_splits)
qed

lemma win_begin_ok: "win_ok (win_begin pid released)"
proof -
  have "phase_inv NotClosed (ws_p (win_begin pid released)) (ws_os (win_begin pid released)) {#}"
    by (simp add: phase_inv_def win_begin_def win_new_def)
  then show ?thesis
    by (auto simp: win_ok_def win_inv_def close_inv_def wait_inv_def console_inv_def object_inv_def win_begin_def win_new_def)
qed

section \<open>Progress\<close>

text \<open>The sections a call has before it at most.\<close>

fun win_rank :: "win_pc \<Rightarrow> nat" where
  "win_rank PcProcessID = 1" | "win_rank (PcResize _) = 1" | "win_rank PcTerminate = 4" | "win_rank PcKill = 1"
| "win_rank PcWatch = 2"
| "win_rank PcWait = 9" | "win_rank PcWaitBlocked = 8" | "win_rank PcWaitCode = 7" | "win_rank (PcWaitPublish _ _) = 6"
| "win_rank PcWaitSettle = 5" | "win_rank PcWaitDone = 1" | "win_rank PcWaitJoin = 1"
| "win_rank PcClose = 9" | "win_rank PcCloseLook = 8" | "win_rank PcCloseAwait = 7" | "win_rank PcCloseJoin = 1"
| "win_rank (PcConsoleFlag k) = (case k of NextReturn \<Rightarrow> 3 | NextWaitDone \<Rightarrow> 4 | NextResources \<Rightarrow> 6)"
| "win_rank (PcConsoleOnce k) = (case k of NextReturn \<Rightarrow> 2 | NextWaitDone \<Rightarrow> 3 | NextResources \<Rightarrow> 5)"
| "win_rank (PcConsoleCall k) = (case k of NextReturn \<Rightarrow> 1 | NextWaitDone \<Rightarrow> 2 | NextResources \<Rightarrow> 4)"
| "win_rank (PcConsoleJoin k) = (case k of NextReturn \<Rightarrow> 1 | NextWaitDone \<Rightarrow> 2 | NextResources \<Rightarrow> 4)"
| "win_rank PcResources = 3" | "win_rank PcCloseProcess = 2" | "win_rank PcCloseJob = 1" | "win_rank (PcReturned _) = 0"

definition win_work :: "win_sys \<Rightarrow> nat" where
  "win_work y = sum_mset (image_mset win_rank (ws_threads y))"

fun is_run :: "win_label \<Rightarrow> bool" where
  "is_run (WRun _ _) = True"
| "is_run WCancel = True"
| "is_run (WCall _) = False"

lemma advance_rank:
  "win_advance a pc p os = (ns, p', os') \<Longrightarrow> win_enabled pc p \<Longrightarrow> sum_list (map win_rank ns) < win_rank pc"
proof (cases pc)
  case (PcConsoleOnce k)
  then show "win_advance a pc p os = (ns, p', os') \<Longrightarrow> ?thesis" by (cases k) (auto split: prod.splits)
next
  case (PcConsoleCall k)
  then show "win_advance a pc p os = (ns, p', os') \<Longrightarrow> ?thesis" by (cases k) auto
next
  case (PcConsoleJoin k)
  then show "win_advance a pc p os = (ns, p', os') \<Longrightarrow> ?thesis" by (cases k) auto
qed (auto split: prod.splits if_splits option.splits win_next.splits)

lemma step_work:
  assumes "win_step y l y'"
  shows "if is_run l then win_work y' < win_work y else win_work y' \<le> win_work y + 9"
  using assms
proof (cases rule: win_step.cases)
  case (run pc ts a ns p' os')
  have "sum_mset (image_mset win_rank (mset ns)) = sum_list (map win_rank ns)" by (metis mset_map sum_mset_sum_list)
  then show ?thesis using run advance_rank [OF run(5,4)] by (simp add: win_work_def)
qed (auto simp: win_work_def win_entries_def)

lemma trace_work:
  "trace win_step y ls z \<Longrightarrow> length (filter is_run ls) + win_work z \<le> win_work y + 9 * length (filter (\<lambda>l. \<not> is_run l) ls)"
proof (induction rule: trace.induct)
  case (trace_snoc s ls t l u)
  then show ?case using step_work [of t l u] by (cases "is_run l") simp_all
qed simp

lemma win_close_subset: "set (wo_open (win_close x os)) \<subseteq> set (wo_open os)"
  using set_remove1_subset by simp

text \<open>Calls only ever close objects.\<close>

lemma advance_open:
  assumes "win_advance a pc p os = (ns, p', os')"
  shows "set (wo_open os') \<subseteq> set (wo_open os)"
  using assms win_close_subset set_remove1_subset
  by (cases pc) (fastforce simp: console_once_def close_files_def dest!: win_effects dest: notin_set_remove1
      split: prod.splits if_splits option.splits)+

lemma trace_open: "trace win_step y ls z \<Longrightarrow> set (wo_open (ws_os z)) \<subseteq> set (wo_open (ws_os y))"
proof (induction rule: trace.induct)
  case (trace_snoc s ls t l u)
  from trace_snoc.hyps(2) have "set (wo_open (ws_os u)) \<subseteq> set (wo_open (ws_os t))"
    by (cases rule: win_step.cases) (use advance_open in auto)
  then show ?case using trace_snoc.IH by blast
qed simp

fun is_returned :: "win_pc \<Rightarrow> bool" where
  "is_returned (PcReturned _) = True"
| "is_returned _ = False"

lemma returned_num:
  assumes "\<forall>pc \<in># ts. is_returned pc" and "\<And>r. \<not> P (PcReturned r)"
  shows "num P ts = 0"
proof -
  have "\<not> P pc" if "pc \<in># ts" for pc using assms that by (cases pc) auto
  then show ?thesis by (simp add: num_def filter_mset_eq_mempty_iff)
qed

lemma enabled_or_waits:
  "win_enabled pc p \<or> is_returned pc \<or> pc \<in> {PcWaitJoin, PcCloseAwait, PcWatch} \<and> \<not> wm_done p
   \<or> pc = PcCloseJoin \<and> \<not> wm_closeDone p \<or> joins_console pc \<and> \<not> wm_consoleDone p"
  by (cases pc) auto

lemma num_pos: "num P ts \<noteq> 0 \<longleftrightarrow> (\<exists>x \<in># ts. P x)"
  by (auto simp: num_def filter_mset_eq_mempty_iff)

text \<open>Whoever waits, waits for a thread that can go on.\<close>

lemma console_progress:
  assumes "win_inv p os ts" and "pc \<in># ts" and "joins_console pc"
  shows "\<exists>q \<in># ts. win_enabled q p"
proof (cases "wm_consoleDone p")
  case True
  then have "win_enabled pc p" using assms(3) by (cases pc) auto
  then show ?thesis using assms(2) by blast
next
  case False
  have "num joins_console ts \<noteq> 0" using assms(2,3) num_pos by blast
  then have "num in_console ts \<noteq> 0" using assms(1) False by (simp add: win_inv_def console_inv_def)
  then obtain q where "q \<in># ts" "in_console q" using num_pos by blast
  moreover then have "win_enabled q p" by (cases q) auto
  ultimately show ?thesis by blast
qed

lemma wait_progress:
  assumes "win_inv p os ts" and "wm_waitOnce p" and "\<not> wm_done p"
  shows "\<exists>q \<in># ts. win_enabled q p"
proof -
  have "num wait_early ts + num wait_late ts = 1" using assms by (simp add: win_inv_def wait_inv_def)
  then have "num wait_early ts \<noteq> 0 \<or> num wait_late ts \<noteq> 0" by linarith
  then obtain q where q: "q \<in># ts" "wait_early q \<or> wait_late q" using num_pos by blast
  then have "win_enabled q p \<or> joins_console q" by (cases q) auto
  then show ?thesis using q(1) console_progress [OF assms(1)] by blast
qed

lemma close_progress:
  assumes i: "win_inv p os ts" and j: "PcCloseJoin \<in># ts" and d: "\<not> wm_closeDone p"
  shows "\<exists>q \<in># ts. win_enabled q p"
proof -
  obtain ph where ph: "phase_inv ph p os ts" using i by (auto simp: win_inv_def close_inv_def)
  have "num ((=) PcCloseJoin) ts \<noteq> 0" using j num_pos by blast
  then have once: "wm_closeOnce p" and "num ((=) PcCloseAwait) ts = 0" "ph \<noteq> AllClosed"
    using ph d by (auto simp: phase_inv_def)
  then have a: "PcCloseAwait \<notin># ts" using num_pos by blast
  have "\<exists>q \<in># ts. close_early q \<or> close_console q \<or> q \<in> {PcResources, PcCloseProcess, PcCloseJob}"
    using ph once \<open>ph \<noteq> AllClosed\<close> num_pos [of close_early ts] num_pos [of close_console ts]
      num_pos [of "(=) PcResources" ts] num_pos [of "(=) PcCloseProcess" ts] num_pos [of "(=) PcCloseJob" ts]
    by (cases ph) (auto simp: phase_inv_def)
  then obtain q where q: "q \<in># ts" "close_early q \<or> close_console q \<or> q \<in> {PcResources, PcCloseProcess, PcCloseJob}" by blast
  then have "q \<noteq> PcCloseAwait" using a by blast
  then have "win_enabled q p \<or> joins_console q" using q(2) by (cases q) auto
  then show ?thesis using q(1) console_progress [OF i] by blast
qed

lemma win_progress:
  assumes "win_inv p os ts" and "wm_waitOnce p" and "pc \<in># ts" and "\<not> is_returned pc"
  shows "\<exists>pc' \<in># ts. win_enabled pc' p"
  using enabled_or_waits [of pc p] assms wait_progress [OF assms(1,2)] close_progress [OF assms(1)]
    console_progress [OF assms(1,3)] by blast

section \<open>A call on its own\<close>

text \<open>
  One call run to its end with the same answers throughout: what is left of it (its return, and
  a goroutine it started) and the state. Nine sections are enough for every call.
\<close>

fun win_call :: "nat \<Rightarrow> win_answers \<Rightarrow> win_pc \<Rightarrow> win_managed \<Rightarrow> win_os \<Rightarrow> win_pc list \<times> win_managed \<times> win_os" where
  "win_call 0 a pc p os = ([pc], p, os)"
| "win_call (Suc n) a pc p os =
     (if \<not> win_enabled pc p then ([pc], p, os)
      else case win_advance a pc p os of
        ([], p', os') \<Rightarrow> ([], p', os')
      | (pc' # spawned, p', os') \<Rightarrow>
          (case win_call n a pc' p' os' of (ts, p2, os2) \<Rightarrow> (ts @ spawned, p2, os2)))"

lemma win_call_trace:
  "win_call n a pc p os = (ts, p', os') \<Longrightarrow>
   \<exists>ls. trace win_step \<lparr>ws_p = p, ws_os = os, ws_threads = add_mset pc us\<rparr> ls
          \<lparr>ws_p = p', ws_os = os', ws_threads = us + mset ts\<rparr>"
proof (induction n arbitrary: pc p os ts us p' os')
  case 0
  then have "ts = [pc]" "p' = p" "os' = os" by simp_all
  then show ?case by (intro exI [of _ "[]"]) (simp add: trace_refl)
next
  case (Suc n)
  obtain ns q os1 where adv: "win_advance a pc p os = (ns, q, os1)" using prod_cases3 by blast
  show ?case
  proof (cases "win_enabled pc p")
    case True
    have step: "win_step \<lparr>ws_p = p, ws_os = os, ws_threads = add_mset pc us\<rparr> (WRun pc a)
        \<lparr>ws_p = q, ws_os = os1, ws_threads = us + mset ns\<rparr>"
      using win_step.run [of "\<lparr>ws_p = p, ws_os = os, ws_threads = add_mset pc us\<rparr>" pc us a ns q os1] True adv by simp
    show ?thesis
    proof (cases ns)
      case Nil
      then show ?thesis
        using Suc.prems True adv trace_one [where step = win_step, OF step] by (intro exI [of _ "[WRun pc a]"]) simp
    next
      case (Cons pc' spawned)
      obtain rs p2 os2 where c: "win_call n a pc' q os1 = (rs, p2, os2)" using prod_cases3 by blast
      from Suc.IH [OF this, of "us + mset spawned"] obtain ls where
        "trace win_step \<lparr>ws_p = q, ws_os = os1, ws_threads = us + mset ns\<rparr> ls
           \<lparr>ws_p = p2, ws_os = os2, ws_threads = us + mset spawned + mset rs\<rparr>"
        using Cons by (auto simp: ac_simps)
      from trace_append [where step = win_step, OF this trace_one [where step = win_step, OF step]]
      show ?thesis using Suc.prems True adv Cons c by (intro exI [of _ "[WRun pc a] @ ls"]) (auto simp: ac_simps)
    qed
  next
    case False
    then have "ts = [pc]" "p' = p" "os' = os" using Suc.prems by simp_all
    then show ?thesis by (intro exI [of _ "[]"]) (simp add: trace_refl)
  qed
qed

text \<open>Once \<open>Close\<close> was called and every thread has returned, the five objects are closed.\<close>

lemma all_closed:
  assumes i: "win_inv p os ts" and c: "wm_closeOnce p" and r: "\<forall>pc \<in># ts. is_returned pc"
  shows "set (wo_open os) \<inter> {InputWrite, OutputRead, Console, Job, Process} = {}"
proof -
  obtain ph where ph: "phase_inv ph p os ts" using i by (auto simp: win_inv_def close_inv_def)
  have "ph = AllClosed"
    using ph c returned_num [OF r, of close_early] returned_num [OF r, of close_console]
      returned_num [OF r, of "(=) PcResources"] returned_num [OF r, of "(=) PcCloseProcess"]
      returned_num [OF r, of "(=) PcCloseJob"]
    by (cases ph) (auto simp: phase_inv_def)
  then have "Process \<notin> set (wo_open os)" "Job \<notin> set (wo_open os)" "wm_consoleOnce p"
    using ph by (simp_all add: phase_inv_def)
  with i c show ?thesis by (simp add: win_inv_def console_inv_def object_inv_def)
qed

text \<open>A call keeps a thread until it returns, and a call of \<open>WaitStatus\<close> or \<open>Close\<close> is not forgotten.\<close>

lemma advance_continues:
  "win_advance a pc p os = (ns, p', os') \<Longrightarrow> win_enabled pc p \<Longrightarrow> ns \<noteq> []"
  by (cases pc) (auto split: prod.splits if_splits option.splits)

lemma trace_threads:
  "trace win_step y ls z \<Longrightarrow> size (ws_threads y) + length (filter (\<lambda>l. \<not> is_run l) ls) \<le> size (ws_threads z)"
proof (induction rule: trace.induct)
  case (trace_snoc s ls t l u)
  from trace_snoc.hyps(2) have "size (ws_threads t) + (if is_run l then 0 else 1) \<le> size (ws_threads u)"
  proof (cases rule: win_step.cases)
    case (run pc ts a ns p' os')
    then show ?thesis using advance_continues [OF run(5,4)] by (cases ns) auto
  qed simp_all
  then show ?case using trace_snoc.IH by (cases "is_run l") simp_all
qed simp

lemma advance_entered:
  "win_advance a pc p os = (ns, p', os') \<Longrightarrow>
   (wm_waitOnce p \<or> pc = PcWait \<longrightarrow> wm_waitOnce p') \<and> (wm_closeOnce p \<or> pc = PcClose \<longrightarrow> wm_closeOnce p')"
  by (cases pc) (auto simp: win_plain dest!: win_Terminate_effect win_Kill_effect split: prod.splits if_splits option.splits)

definition asked :: "win_pc \<Rightarrow> bool \<Rightarrow> win_sys \<Rightarrow> bool" where
  "asked pc once y \<longleftrightarrow> pc \<in># ws_threads y \<or> once"

lemma step_asked:
  assumes "win_step y l z"
  shows "(asked PcWait (wm_waitOnce (ws_p y)) y \<or> l = WCall PcWait \<longrightarrow> asked PcWait (wm_waitOnce (ws_p z)) z)
    \<and> (asked PcClose (wm_closeOnce (ws_p y)) y \<or> l = WCall PcClose \<longrightarrow> asked PcClose (wm_closeOnce (ws_p z)) z)"
  using assms
proof (cases rule: win_step.cases)
  case (run pc ts a ns p' os')
  then show ?thesis using advance_entered [OF run(5)] by (auto simp: asked_def)
qed (auto simp: asked_def)

lemma trace_asked:
  "trace win_step y ls z \<Longrightarrow>
   (WCall PcWait \<in> set ls \<longrightarrow> asked PcWait (wm_waitOnce (ws_p z)) z) \<and> (WCall PcClose \<in> set ls \<longrightarrow> asked PcClose (wm_closeOnce (ws_p z)) z)"
proof (induction rule: trace.induct)
  case (trace_snoc s ls t l u)
  then show ?case using step_asked [OF trace_snoc.hyps(2)] by auto
qed simp

lemma asked_stuck:
  assumes "asked pc once y" and "pc \<in> {PcWait, PcClose}" and "\<forall>q \<in># ws_threads y. \<not> win_enabled q (ws_p y)"
  shows once
  using assms by (auto simp: asked_def)

lemma returned_done:
  assumes "win_inv p os ts" and "wm_waitOnce p" and r: "\<forall>pc \<in># ts. is_returned pc"
  shows "wm_done p"
  using assms(1,2) returned_num [OF r, of wait_early] returned_num [OF r, of wait_late]
  by (simp add: win_inv_def wait_inv_def split: if_splits)

section \<open>Properties\<close>

text \<open>
  (C5) A managed Windows process, under every interleaving of its calls and of the goroutine
  that \<open>Close\<close> leaves behind: no Win32 call is ever made on an object that has been closed, and
  nothing is closed twice. Only the five objects handed over at the start are ever open; once
  \<open>Close\<close> was called and every thread has returned, all of them are released; and after
  \<open>WaitStatus\<close> was called the threads are never all stuck.
\<close>

theorem win_objects_safe:
  assumes "trace win_step (win_begin pid released) ls y"
  shows "\<not> wo_bad (ws_os y) \<and> distinct (wo_open (ws_os y))
    \<and> set (wo_open (ws_os y)) \<subseteq> {InputWrite, OutputRead, Console, Job, Process}
    \<and> (wm_closeOnce (ws_p y) \<and> (\<forall>pc \<in># ws_threads y. is_returned pc) \<longrightarrow> wo_open (ws_os y) = [])
    \<and> (\<forall>pc \<in># ws_threads y. wm_waitOnce (ws_p y) \<and> \<not> is_returned pc \<longrightarrow>
         (\<exists>pc' \<in># ws_threads y. win_enabled pc' (ws_p y)))"
proof -
  have i: "win_inv (ws_p y) (ws_os y) (ws_threads y)"
    using win_managed.trace_keeps [OF assms win_begin_ok] by (simp add: win_ok_def)
  moreover have sub: "set (wo_open (ws_os y)) \<subseteq> {InputWrite, OutputRead, Console, Job, Process}"
    using trace_open [OF assms] by (simp add: win_begin_def)
  moreover have "wo_open (ws_os y) = []" if "wm_closeOnce (ws_p y)" "\<forall>pc \<in># ws_threads y. is_returned pc"
  proof -
    have "set (wo_open (ws_os y)) = {}" using all_closed [OF i that] Int_absorb2 [OF sub] by simp
    then show ?thesis by simp
  qed
  ultimately show ?thesis using win_progress [OF i] by (auto simp: win_inv_def object_inv_def)
qed

text \<open>
  (C19) The status of a managed Windows process: every \<open>WaitStatus\<close> that returns gives the same
  status and error, whatever is called afterwards, and every \<open>Close\<close> the same error; the status
  says killed only if a \<open>Kill\<close> terminated the job successfully before.
\<close>

theorem win_wait_sound:
  assumes "trace win_step (win_begin pid released) ls y" and "trace win_step y ls' z"
  shows "(\<forall>r. win_outcome y = Some r \<longrightarrow> win_outcome z = Some r) \<and> (\<forall>e. win_closed y = Some e \<longrightarrow> win_closed z = Some e)
    \<and> (\<forall>status err. win_outcome y = Some (status, err) \<and> Reason status = ExitReasonKilled \<longrightarrow>
         (\<exists>a. WRun PcKill a \<in> set ls \<and> wr_terminate a = None))"
proof -
  have y: "win_ok y" using win_managed.trace_keeps [OF assms(1) win_begin_ok] .
  have "\<exists>a. WRun PcKill a \<in> set ls \<and> wr_terminate a = None"
    if "win_outcome y = Some (status, err)" "Reason status = ExitReasonKilled" for status err
  proof -
    have "\<not> wm_killed (ws_p (win_begin pid released))" by (simp add: win_begin_def win_new_def)
    from win_managed.kill_honest [OF assms(1) win_begin_ok this that] obtain l where "l \<in> set ls" "win_forced l" by blast
    then show ?thesis by (cases l rule: win_forced.cases) auto
  qed
  then show ?thesis
    using win_managed.outcome_once [OF assms(2) y] win_managed.released_once [OF assms(2) y] by blast
qed

text \<open>
  (C26) Calls end, and they end by returning. A run has at most nine sections per call made, so no
  interleaving goes on for ever on its own, and no call is lost: there are at least as many
  threads as calls. When \<open>WaitStatus\<close> was among the calls, a run stops only once every call, and
  every goroutine left behind, has returned: nobody waits for ever for \<open>done\<close> or for one of
  the three \<open>sync.Once\<close>. The status is then published, and if \<open>Close\<close> was called too
  every object of the process is released.
\<close>

theorem win_calls_end:
  assumes "trace win_step (win_begin pid released) ls y"
  shows "length (filter is_run ls) \<le> 9 * length (filter (\<lambda>l. \<not> is_run l) ls)
    \<and> length (filter (\<lambda>l. \<not> is_run l) ls) \<le> size (ws_threads y)
    \<and> (WCall PcWait \<in> set ls \<and> (\<forall>pc \<in># ws_threads y. \<not> win_enabled pc (ws_p y)) \<longrightarrow>
         (\<forall>pc \<in># ws_threads y. is_returned pc) \<and> win_outcome y \<noteq> None
         \<and> (WCall PcClose \<in> set ls \<longrightarrow> win_closed y \<noteq> None \<and> wo_open (ws_os y) = []))"
proof -
  have i: "win_inv (ws_p y) (ws_os y) (ws_threads y)"
    using win_managed.trace_keeps [OF assms win_begin_ok] by (simp add: win_ok_def)
  have sub: "set (wo_open (ws_os y)) \<subseteq> {InputWrite, OutputRead, Console, Job, Process}"
    using trace_open [OF assms] by (simp add: win_begin_def)
  have "(\<forall>pc \<in># ws_threads y. is_returned pc) \<and> win_outcome y \<noteq> None
      \<and> (WCall PcClose \<in> set ls \<longrightarrow> win_closed y \<noteq> None \<and> wo_open (ws_os y) = [])"
    if "WCall PcWait \<in> set ls" and stuck: "\<forall>pc \<in># ws_threads y. \<not> win_enabled pc (ws_p y)"
  proof -
    have w: "wm_waitOnce (ws_p y)" using trace_asked [OF assms] that asked_stuck by blast
    have r: "\<forall>pc \<in># ws_threads y. is_returned pc" using win_progress [OF i w] stuck by blast
    have "wm_closeOnce (ws_p y)" if "WCall PcClose \<in> set ls" using trace_asked [OF assms] that asked_stuck stuck by blast
    then show ?thesis
      using r returned_done [OF i w r] all_closed [OF i _ r] Int_absorb2 [OF sub] by (auto simp: win_outcome_def win_closed_def)
  qed
  then show ?thesis using trace_work [OF assms] trace_threads [OF assms] by (auto simp: win_work_def win_begin_def)
qed

section \<open>A run\<close>

text \<open>A concrete run for the witnesses: the process ends, is waited for and closed.\<close>

definition win_demo_answers :: win_answers where
  "win_demo_answers = \<lparr>wr_exited = False, wr_jobExited = False, wr_terminate = None, wr_resize = None, wr_event = Inr 0,
     wr_code = Inr 0, wr_closeInput = None, wr_closeOutput = None, wr_errText = (\<lambda>_. '''')\<rparr>"

definition win_demo_exited :: win_managed where
  "win_demo_exited = (win_new 7 True)\<lparr>wm_waitOnce := True, wm_done := True, wm_running := False,
     wm_waitStatus := \<lparr>Reason = ExitReasonExited, Code = 0, Signal = '''', ErrorText = ''''\<rparr>\<rparr>"

definition win_demo_closed :: win_managed where
  "win_demo_closed = win_demo_exited\<lparr>wm_closeOnce := True, wm_consoleClosing := True, wm_consoleOnce := True,
     wm_closeDone := True, wm_consoleDone := True, wm_resourcesClosed := True\<rparr>"

lemma win_demo_wait:
  "win_call 9 win_demo_answers PcWait (win_new 7 True) (ws_os (win_begin 7 True))
     = ([PcReturned None], win_demo_exited, ws_os (win_begin 7 True))"
  by code_simp

lemma win_demo_close:
  "win_call 9 win_demo_answers PcClose win_demo_exited (ws_os (win_begin 7 True))
     = ([PcReturned None], win_demo_closed, \<lparr>wo_open = [], wo_bad = False\<rparr>)"
  by code_simp

lemma win_call_run:
  assumes "pc \<in> win_entries" and "win_call n a pc (ws_p y) (ws_os y) = (ts, p', os')"
  shows "\<exists>ls. trace win_step y (WCall pc # ls) (y\<lparr>ws_p := p', ws_os := os', ws_threads := ws_threads y + mset ts\<rparr>)"
proof -
  have "win_step y (WCall pc) (y\<lparr>ws_threads := add_mset pc (ws_threads y)\<rparr>)" using assms(1) by (rule win_step.call)
  note call = trace_one [where step = win_step, OF this]
  obtain ls where "trace win_step (y\<lparr>ws_threads := add_mset pc (ws_threads y)\<rparr>) ls
      (y\<lparr>ws_p := p', ws_os := os', ws_threads := ws_threads y + mset ts\<rparr>)"
    using win_call_trace [OF assms(2), of "ws_threads y"] by (cases y) auto
  from trace_append [where step = win_step, OF this call] show ?thesis by auto
qed

definition win_demo_end :: win_sys where
  "win_demo_end = \<lparr>ws_p = win_demo_closed, ws_os = \<lparr>wo_open = [], wo_bad = False\<rparr>,
     ws_threads = {#PcReturned None, PcReturned None#}\<rparr>"

lemma win_demo_trace:
  "\<exists>ls. trace win_step (win_begin 7 True) ls win_demo_end \<and> WCall PcWait \<in> set ls \<and> WCall PcClose \<in> set ls"
proof -
  let ?y = "(win_begin 7 True)\<lparr>ws_p := win_demo_exited, ws_threads := {#PcReturned None#}\<rparr>"
  have "win_call 9 win_demo_answers PcWait (ws_p (win_begin 7 True)) (ws_os (win_begin 7 True))
      = ([PcReturned None], win_demo_exited, ws_os (win_begin 7 True))"
    using win_demo_wait by (simp add: win_begin_def)
  from win_call_run [OF _ this] obtain ls where 1: "trace win_step (win_begin 7 True) (WCall PcWait # ls) ?y"
    by (auto simp: win_entries_def win_begin_def)
  have "win_call 9 win_demo_answers PcClose (ws_p ?y) (ws_os ?y)
      = ([PcReturned None], win_demo_closed, \<lparr>wo_open = [], wo_bad = False\<rparr>)"
    using win_demo_close by simp
  from win_call_run [OF _ this] obtain ls' where 2: "trace win_step ?y (WCall PcClose # ls') win_demo_end"
    by (auto simp: win_entries_def win_begin_def win_demo_end_def)
  have "WCall PcWait \<in> set ((WCall PcWait # ls) @ WCall PcClose # ls')"
    "WCall PcClose \<in> set ((WCall PcWait # ls) @ WCall PcClose # ls')" by simp_all
  with trace_append [where step = win_step, OF 2 1] show ?thesis by blast
qed

theorem win_objects_safe_witness:
  "wo_open (ws_os win_demo_end) = [] \<and> \<not> wo_bad (ws_os win_demo_end)"
proof -
  obtain ls where "trace win_step (win_begin 7 True) ls win_demo_end" using win_demo_trace by blast
  moreover have "wm_closeOnce (ws_p win_demo_end)" "\<forall>pc \<in># ws_threads win_demo_end. is_returned pc"
    by (simp_all add: win_demo_end_def win_demo_closed_def)
  ultimately show ?thesis using win_objects_safe by blast
qed

theorem win_wait_sound_witness:
  "\<exists>ls. trace win_step (win_begin 7 True) ls win_demo_end
     \<and> win_outcome win_demo_end = Some (\<lparr>Reason = ExitReasonExited, Code = 0, Signal = '''', ErrorText = ''''\<rparr>, None)"
proof -
  obtain ls where t: "trace win_step (win_begin 7 True) ls win_demo_end" using win_demo_trace by blast
  have "win_outcome win_demo_end = Some (\<lparr>Reason = ExitReasonExited, Code = 0, Signal = '''', ErrorText = ''''\<rparr>, None)"
    by (simp add: win_outcome_def win_demo_end_def win_demo_closed_def win_demo_exited_def win_new_def)
  then show ?thesis using t win_wait_sound [OF t trace_refl] by blast
qed

theorem win_calls_end_witness:
  "\<exists>ls. trace win_step (win_begin 7 True) ls win_demo_end
     \<and> length (filter is_run ls) \<le> 9 * length (filter (\<lambda>l. \<not> is_run l) ls)
     \<and> win_outcome win_demo_end \<noteq> None \<and> win_closed win_demo_end \<noteq> None \<and> wo_open (ws_os win_demo_end) = []"
proof -
  obtain ls where t: "trace win_step (win_begin 7 True) ls win_demo_end" "WCall PcWait \<in> set ls" "WCall PcClose \<in> set ls"
    using win_demo_trace by blast
  moreover have "\<forall>pc \<in># ws_threads win_demo_end. \<not> win_enabled pc (ws_p win_demo_end)" by (simp add: win_demo_end_def)
  ultimately show ?thesis using win_calls_end [OF t(1)] by blast
qed

end
