(* ===== verification/Windows_Start.thy ===== *)
theory Windows_Start
  imports Windows_Pty "HOL-Library.List_Lexorder" "HOL-Library.Char_ord"
begin

text \<open>
  Starting a process in \<open>pty/windowspty/factory_windows.go\<close>: checking the description, the
  environment block, \<open>startManaged\<close> with all its failure paths, and the legacy process. Win32,
  \<open>exec.LookPath\<close>, the UTF-16 conversion and \<open>strings.ToUpper\<close> are parameters. A deferred
  function runs on the result of the rest of the function, so nested \<open>with_defer\<close>s run last
  in, first out, on every path.
\<close>

definition win_ErrInvalidProcessSpec :: gerror where
  "win_ErrInvalidProcessSpec = ErrNew ''windowspty: process specification contains NUL''"

section \<open>Checking the description\<close>

definition validateSpec :: "ProcessSpec \<Rightarrow> gerror option" where
  "validateSpec spec =
     (case ProcessSpec_Validate spec of
        Some err \<Rightarrow> Some err
      | None \<Rightarrow>
      case Size_Validate (InitialSize spec) of
        Some err \<Rightarrow> Some err
      | None \<Rightarrow>
          if sint (Cols (InitialSize spec)) > MaxInt16 \<or> sint (Rows (InitialSize spec)) > MaxInt16
          then Some win_ErrSizeOverflow
          else if \<exists>v \<in> set (spec_values spec). has_nul v then Some win_ErrInvalidProcessSpec
          else None)"

section \<open>The environment block\<close>

text \<open>UTF-16 code units; \<open>UTF16FromString\<close> ends its result with a zero.\<close>

type_synonym utf16 = "16 word list"

fun block_loop :: "(string \<Rightarrow> utf16 result) \<Rightarrow> string list \<Rightarrow> utf16 \<Rightarrow> utf16 result" where
  "block_loop UTF16FromString [] block = Inr block"
| "block_loop UTF16FromString (value # rest) block =
     (case UTF16FromString value of
        Inl _ \<Rightarrow> Inl win_ErrInvalidProcessSpec
      | Inr encoded \<Rightarrow> block_loop UTF16FromString rest (block @ encoded))"

definition environmentBlock ::
    "(string \<Rightarrow> string) \<Rightarrow> (string \<Rightarrow> utf16 result) \<Rightarrow> string list option \<Rightarrow> utf16 option result" where
  "environmentBlock ToUpper UTF16FromString environment =
     (case environment of
        None \<Rightarrow> Inr None
      | Some values0 \<Rightarrow>
          (case block_loop UTF16FromString (sort_key ToUpper values0) [] of
             Inl err \<Rightarrow> Inl err
           | Inr block0 \<Rightarrow>
               let block1 = block0 @ [0] in
               Inr (Some (if length block1 = 1 then block1 @ [0] else block1))))"

section \<open>Starting\<close>

record win_command =
  wc_application :: utf16
  wc_commandLine :: utf16
  wc_environment :: "utf16 option"
  wc_directory :: "utf16 option"

record win_api =
  wa_LookPath :: "string \<Rightarrow> string result"
  wa_UTF16FromString :: "string \<Rightarrow> utf16 result"
  wa_ComposeCommandLine :: "string list \<Rightarrow> string"
  wa_ToUpper :: "string \<Rightarrow> string"
  wa_CreatePipe :: "nat \<Rightarrow> gerror option"
  wa_CreatePseudoConsole :: "16 word \<times> 16 word \<Rightarrow> gerror option"
  wa_CreateJobObject :: "gerror option"
  wa_SetInformationJobObject :: "gerror option"
  wa_NewProcThreadAttributeList :: "gerror option"
  wa_UpdateAttribute :: "win_object \<Rightarrow> gerror option"
  wa_CreateProcess :: "win_command \<Rightarrow> 32 word result"
  wa_NewFile :: "win_object \<Rightarrow> bool"
  wa_FindRelease :: bool

text \<open>The strings of the call, before any object is created.\<close>

definition win_prepare :: "win_api \<Rightarrow> ProcessSpec \<Rightarrow> win_command result" where
  "win_prepare api spec =
     (case wa_LookPath api (Command spec) of
        Inl err \<Rightarrow> Inl (Errorf err [])
      | Inr executable \<Rightarrow>
      case wa_UTF16FromString api executable of
        Inl _ \<Rightarrow> Inl win_ErrInvalidProcessSpec
      | Inr application \<Rightarrow>
      case wa_UTF16FromString api (wa_ComposeCommandLine api (executable # Args spec)) of
        Inl _ \<Rightarrow> Inl win_ErrInvalidProcessSpec
      | Inr commandLine \<Rightarrow>
      case environmentBlock (wa_ToUpper api) (wa_UTF16FromString api) (Env spec) of
        Inl err \<Rightarrow> Inl err
      | Inr environment \<Rightarrow>
          if Dir spec \<noteq> ''''
          then case wa_UTF16FromString api (Dir spec) of
                 Inl _ \<Rightarrow> Inl win_ErrInvalidProcessSpec
               | Inr directory \<Rightarrow>
                   Inr \<lparr>wc_application = application, wc_commandLine = commandLine, wc_environment = environment,
                        wc_directory = Some directory\<rparr>
          else Inr \<lparr>wc_application = application, wc_commandLine = commandLine, wc_environment = environment,
                    wc_directory = None\<rparr>)"

text \<open>
  The local state of \<open>startManaged\<close>: which of the four pipe variables hold a handle, the four
  flags that say what is still owned, and what goes on after the return: a process with the
  goroutines that still work on it.
\<close>

type_synonym win_left = "(win_managed \<times> win_pc list) option"

record win_start =
  st_os :: win_os
  st_pipes :: "win_object list"
  st_consoleOwned :: bool
  st_jobOwned :: bool
  st_processOwned :: bool
  st_threadOwned :: bool
  st_left :: win_left

definition on_os :: "(win_os \<Rightarrow> win_os) \<Rightarrow> win_start \<Rightarrow> win_start" where
  "on_os f st = st\<lparr>st_os := f (st_os st)\<rparr>"

definition closeHandle :: "win_object \<Rightarrow> win_start \<Rightarrow> win_start" where
  "closeHandle x st =
     (if x \<in> set (st_pipes st) then (on_os (win_close x) st)\<lparr>st_pipes := remove1 x (st_pipes st)\<rparr> else st)"

definition with_defer :: "(win_start \<Rightarrow> win_start) \<Rightarrow> 'a \<times> win_start \<Rightarrow> 'a \<times> win_start" where
  "with_defer d r = (fst r, d (snd r))"

text \<open>From the created process to the result.\<close>

definition win_hand_over :: "win_api \<Rightarrow> 32 word \<Rightarrow> win_start \<Rightarrow> win_managed result \<times> win_start" where
  "win_hand_over api pid st =
     (let st1 = (on_os (win_close Thread) st)\<lparr>st_threadOwned := False\<rparr>;
          st2 = closeHandle OutputWrite (closeHandle InputRead st1);
          input = wa_NewFile api InputWrite; output' = wa_NewFile api OutputRead
      in if \<not> input \<or> \<not> output'
         then
           let st3 = (if input then (on_os (win_close InputWrite) st2)\<lparr>st_pipes := remove1 InputWrite (st_pipes st2)\<rparr> else st2);
               st4 = (if output' then (on_os (win_close OutputRead) st3)\<lparr>st_pipes := remove1 OutputRead (st_pipes st3)\<rparr> else st3)
           in (Inl (ErrNew ''windowspty: wrap pipe handles''), st4)
         else
           let st3 = st2\<lparr>st_pipes := remove1 OutputRead (remove1 InputWrite (st_pipes st2))\<rparr>;
               released = wa_FindRelease api;
               st4 = (if released then on_os (win_use Console) st3 else st3)
           in (Inr (win_new (ucast pid) released),
               st4\<lparr>st_consoleOwned := False, st_jobOwned := False, st_processOwned := False\<rparr>))"

text \<open>
  The context is cancelled once the process runs: \<open>Close\<close>, \<open>Kill\<close> and \<open>WaitStatus\<close> are called in
  turn. What is left of them is the goroutine that \<open>Close\<close> of a running process starts: it
  waits for \<open>done\<close> and then releases the handles, and \<open>startManaged\<close> does not wait for it. The
  first component is the threads that have not returned.
\<close>

definition win_abandon :: "win_answers \<Rightarrow> win_managed \<Rightarrow> win_os \<Rightarrow> win_pc list \<times> win_managed \<times> win_os" where
  "win_abandon a p os =
     (case win_call 9 a PcClose p os of (ts1, p1, os1) \<Rightarrow>
      case win_call 9 a PcKill p1 os1 of (ts2, p2, os2) \<Rightarrow>
      case win_call 9 a PcWait p2 os2 of (ts3, p3, os3) \<Rightarrow>
        (filter (\<lambda>pc. \<not> is_returned pc) (ts1 @ ts2 @ ts3), p3, os3))"

definition win_process_cleanup :: "win_start \<Rightarrow> win_start" where
  "win_process_cleanup st =
     (let st1 = (if st_threadOwned st then on_os (win_close Thread) st else st)
      in if st_processOwned st1
         then on_os (win_close Process) (on_os (win_use Process) (on_os (win_use Process) st1)) else st1)"

definition win_finish ::
    "win_api \<Rightarrow> win_answers \<Rightarrow> (nat \<Rightarrow> gctx) \<Rightarrow> 32 word \<Rightarrow> win_start \<Rightarrow> win_managed result \<times> win_start" where
  "win_finish api a ctx pid st =
     (case win_hand_over api pid st of
        (Inl err, st1) \<Rightarrow> (Inl err, st1)
      | (Inr p, st1) \<Rightarrow>
          (case ctx 1 of
             Some err \<Rightarrow> (case win_abandon a p (st_os st1) of (ts, p', os') \<Rightarrow> (Inl err, st1\<lparr>st_os := os', st_left := Some (p', ts)\<rparr>))
           | None \<Rightarrow> (Inr p, st1)))"

definition win_launch ::
    "win_api \<Rightarrow> win_answers \<Rightarrow> (nat \<Rightarrow> gctx) \<Rightarrow> win_command \<Rightarrow> win_start \<Rightarrow> win_managed result \<times> win_start" where
  "win_launch api a ctx command st =
     (case wa_UpdateAttribute api Console of
        Some err \<Rightarrow> (Inl (Errorf err []), st)
      | None \<Rightarrow>
      case wa_UpdateAttribute api Job of
        Some err \<Rightarrow> (Inl (Errorf err []), st)
      | None \<Rightarrow>
      case wa_CreateProcess api command of
        Inl err \<Rightarrow> (Inl (Errorf err []), st)
      | Inr pid \<Rightarrow>
          let st1 = (on_os (win_create Thread) (on_os (win_create Process) st))\<lparr>st_processOwned := True, st_threadOwned := True\<rparr>
          in with_defer win_process_cleanup (win_finish api a ctx pid st1))"

definition win_job :: "win_api \<Rightarrow> win_answers \<Rightarrow> (nat \<Rightarrow> gctx) \<Rightarrow> win_command \<Rightarrow> win_start \<Rightarrow> win_managed result \<times> win_start" where
  "win_job api a ctx command st =
     (case wa_CreateJobObject api of
        Some err \<Rightarrow> (Inl (Errorf err []), st)
      | None \<Rightarrow>
          let st1 = (on_os (win_create Job) st)\<lparr>st_jobOwned := True\<rparr>
          in with_defer (\<lambda>s. if st_jobOwned s then on_os (win_close Job) s else s)
               (case wa_SetInformationJobObject api of
                  Some err \<Rightarrow> (Inl (Errorf err []), st1)
                | None \<Rightarrow>
                case wa_NewProcThreadAttributeList api of
                  Some err \<Rightarrow> (Inl (Errorf err []), st1)
                | None \<Rightarrow>
                    with_defer (on_os (win_close Attributes))
                      (win_launch api a ctx command (on_os (win_create Attributes) st1))))"

definition startManaged ::
    "win_api \<Rightarrow> win_answers \<Rightarrow> (nat \<Rightarrow> gctx) option \<Rightarrow> ProcessSpec \<Rightarrow> win_os \<Rightarrow> win_managed result \<times> win_os \<times> win_left" where
  "startManaged api a ctx0 spec os =
     (case ctx0 of
        None \<Rightarrow> (Inl (ErrNew ''windowspty: nil context''), os, None)
      | Some ctx \<Rightarrow>
      case validateSpec spec of
        Some err \<Rightarrow> (Inl err, os, None)
      | None \<Rightarrow>
      case ctx 0 of
        Some err \<Rightarrow> (Inl err, os, None)
      | None \<Rightarrow>
      case win_prepare api spec of
        Inl err \<Rightarrow> (Inl err, os, None)
      | Inr command \<Rightarrow>
      case wa_CreatePipe api 0 of
        Some err \<Rightarrow> (Inl (Errorf err []), os, None)
      | None \<Rightarrow>
          let st0 = \<lparr>st_os = win_create InputWrite (win_create InputRead os), st_pipes = [InputRead, InputWrite],
                     st_consoleOwned = False, st_jobOwned = False, st_processOwned = False, st_threadOwned = False,
                     st_left = None\<rparr>;
              r = with_defer (closeHandle InputRead) (with_defer (closeHandle InputWrite)
                    (case wa_CreatePipe api 1 of
                       Some err \<Rightarrow> (Inl (Errorf err []), st0)
                     | None \<Rightarrow>
                         let st1 = (on_os (win_create OutputWrite) (on_os (win_create OutputRead) st0))
                                     \<lparr>st_pipes := [InputRead, InputWrite, OutputRead, OutputWrite]\<rparr>
                         in with_defer (closeHandle OutputRead) (with_defer (closeHandle OutputWrite)
                              (case wa_CreatePseudoConsole api
                                      (ucast (Cols (InitialSize spec)), ucast (Rows (InitialSize spec))) of
                                 Some err \<Rightarrow> (Inl (Errorf err []), st1)
                               | None \<Rightarrow>
                                   let st2 = (on_os (win_create Console) st1)\<lparr>st_consoleOwned := True\<rparr>
                                   in with_defer (\<lambda>s. if st_consoleOwned s then on_os (win_close Console) s else s)
                                        (win_job api a ctx command st2)))))
          in (fst r, st_os (snd r), st_left (snd r)))"

section \<open>The legacy process\<close>

text \<open>A started legacy process has a goroutine that kills it when its context ends.\<close>

definition win_Start ::
    "win_api \<Rightarrow> win_answers \<Rightarrow> (nat \<Rightarrow> gctx) option \<Rightarrow> ProcessSpec \<Rightarrow> win_os \<Rightarrow> win_managed result \<times> win_os \<times> win_left" where
  "win_Start api a ctx0 spec os =
     (case startManaged api a ctx0
             (if InitialSize spec = \<lparr>Cols = 0, Rows = 0\<rparr> then spec\<lparr>InitialSize := \<lparr>Cols = 80, Rows = 24\<rparr>\<rparr> else spec) os of
        (Inl err, os', left) \<Rightarrow> (Inl err, os', left)
      | (Inr managed, os', left) \<Rightarrow> (Inr managed, os', Some (managed, [PcWatch])))"

definition legacyWait :: "ExitStatus \<times> gerror option \<Rightarrow> gerror option" where
  "legacyWait waited =
     (case snd waited of
        Some err \<Rightarrow> Some err
      | None \<Rightarrow>
          if Code (fst waited) \<noteq> 0 then Some (Errorf (ErrNew ''windowspty: process exited with code'') [Code (fst waited)])
          else None)"

definition legacy_Close :: "gerror option \<Rightarrow> gerror option \<Rightarrow> ExitStatus \<times> gerror option \<Rightarrow> gerror option" where
  "legacy_Close closeErr killErr waited = errors_Join [closeErr, killErr, snd waited]"

section \<open>An abandoned process\<close>

abbreviation handed :: "win_object list" where
  "handed \<equiv> [InputWrite, OutputRead, Console, Job, Attributes, Process]"

lemma close_steps:
  "win_use x \<lparr>wo_open = xs, wo_bad = b\<rparr> = \<lparr>wo_open = xs, wo_bad = b \<or> x \<notin> set xs\<rparr>"
  "win_close x \<lparr>wo_open = xs, wo_bad = b\<rparr> = \<lparr>wo_open = remove1 x xs, wo_bad = b \<or> x \<notin> set xs\<rparr>"
  by (simp_all add: win_use_def win_close_def)

lemma abandon_close:
  "win_call 9 a PcClose (win_new pid rel) \<lparr>wo_open = handed, wo_bad = False\<rparr> =
     ([PcReturned (errors_Join [normalizeClose (wr_closeInput a), normalizeClose (wr_closeOutput a)]), PcCloseAwait],
      (win_new pid rel)\<lparr>wm_closeOnce := True, wm_closeDone := True,
         wm_closeErr := errors_Join [normalizeClose (wr_closeInput a), normalizeClose (wr_closeOutput a)]\<rparr>,
      \<lparr>wo_open = [Console, Job, Attributes, Process], wo_bad = False\<rparr>)"
  by (simp add: eval_nat_numeral close_files_def close_steps win_new_def)

lemma abandon_kill:
  assumes "wm_running p" "\<not> wm_resourcesClosed p"
  obtains r k where "win_call 9 a PcKill p \<lparr>wo_open = [Console, Job, Attributes, Process], wo_bad = False\<rparr> =
     ([PcReturned r], p\<lparr>wm_killed := k\<rparr>, \<lparr>wo_open = [Console, Job, Attributes, Process], wo_bad = False\<rparr>)"
proof -
  obtain r p' os' where "win_Kill a p \<lparr>wo_open = [Console, Job, Attributes, Process], wo_bad = False\<rparr> = (r, p', os')" using prod_cases3 by blast
  moreover have "os' = \<lparr>wo_open = [Console, Job, Attributes, Process], wo_bad = False\<rparr>" "\<exists>k. p' = p\<lparr>wm_killed := k\<rparr>"
    using calculation assms by (auto simp: win_Kill_def close_steps Let_def split: if_splits option.splits intro: exI [of _ "wm_killed p"])
  ultimately show ?thesis using that by (auto simp: eval_nat_numeral)
qed

lemma win_call_returned [simp]: "win_call n a (PcReturned r) p os = ([PcReturned r], p, os)"
  by (cases n) simp_all

abbreviation after_wait :: "win_managed \<Rightarrow> win_pc list \<times> win_managed \<times> win_os \<Rightarrow> bool" where
  "after_wait p res \<equiv> (\<exists>r p'. res = ([PcReturned r], p',
     \<lparr>wo_open = (if wm_released p then [Console, Job, Attributes, Process] else [Job, Attributes, Process]), wo_bad = False\<rparr>)
     \<and> wm_done p' \<and> wm_closeOnce p' = wm_closeOnce p)"

lemma abandon_settle:
  assumes "\<not> wm_consoleOnce p"
  shows "after_wait p (win_call (Suc (Suc (Suc (Suc (Suc n))))) a PcWaitSettle p
    \<lparr>wo_open = [Console, Job, Attributes, Process], wo_bad = False\<rparr>)"
  using assms by (auto simp: console_flag_def console_once_def console_returned_def close_steps)

lemma abandon_publish:
  assumes "\<not> wm_consoleOnce p"
  shows "after_wait p (win_call (Suc (Suc (Suc (Suc (Suc (Suc n)))))) a (PcWaitPublish status err) p
    \<lparr>wo_open = [Console, Job, Attributes, Process], wo_bad = False\<rparr>)"
  using abandon_settle [of "win_publish status err p" n a] assms
  by (subst win_call.simps) (auto simp: win_publish_def simp del: win_call.simps)

lemma win_call_go:
  "win_enabled pc p \<Longrightarrow> win_advance a pc p os = ([q], p', os') \<Longrightarrow> win_call (Suc n) a pc p os = win_call n a q p' os'"
  by (auto split: prod.split)

lemma abandon_wait:
  assumes "\<not> wm_waitOnce p" "\<not> wm_consoleOnce p"
  shows "after_wait p (win_call 9 a PcWait p \<lparr>wo_open = [Console, Job, Attributes, Process], wo_bad = False\<rparr>)"
proof -
  let ?o = "\<lparr>wo_open = [Console, Job, Attributes, Process], wo_bad = False\<rparr>" and ?p = "p\<lparr>wm_waitOnce := True\<rparr>"
  have published: "after_wait p (win_call n a (PcWaitPublish status err) ?p ?o)" if "6 \<le> n" for n status err
  proof -
    obtain m where "n = 6 + m" using \<open>6 \<le> n\<close> le_Suc_ex by blast
    then have "n = Suc (Suc (Suc (Suc (Suc (Suc m)))))" by simp
    then show ?thesis using abandon_publish [of ?p m a status err] assms by simp
  qed
  have "win_call (Suc 8) a PcWait p ?o = win_call 8 a PcWaitBlocked ?p ?o"
    by (rule win_call_go) (use assms in \<open>simp_all add: close_steps\<close>)
  moreover have "after_wait p (win_call (Suc 7) a PcWaitBlocked ?p ?o)"
  proof (cases "win_wait_event a")
    case None
    have "win_call (Suc 7) a PcWaitBlocked ?p ?o = win_call 7 a PcWaitCode ?p ?o"
      by (rule win_call_go) (simp_all add: None close_steps)
    also have "\<dots> = win_call (Suc 6) a PcWaitCode ?p ?o" by simp
    also obtain status err where "win_exit_code a = (status, err)" by fastforce
    then have "win_call (Suc 6) a PcWaitCode ?p ?o = win_call 6 a (PcWaitPublish status err) ?p ?o"
      by (intro win_call_go) (simp_all add: close_steps)
    finally show ?thesis using published [of 6 status err] by simp
  next
    case (Some err)
    have "win_call (Suc 7) a PcWaitBlocked ?p ?o = win_call 7 a (PcWaitPublish (failed_status a err) (Some err)) ?p ?o"
      by (rule win_call_go) (simp_all add: Some close_steps)
    then show ?thesis using published [of 7 "failed_status a err" "Some err"] by simp
  qed
  moreover have "Suc 8 = 9" "Suc 7 = 8" by simp_all
  ultimately show ?thesis by simp
qed

text \<open>The process keeps its invariant with the attribute list of \<open>startManaged\<close> beside its own objects.\<close>

lemma handed_ok: "win_ok \<lparr>ws_p = win_new pid rel, ws_os = \<lparr>wo_open = handed, wo_bad = False\<rparr>, ws_threads = {#}\<rparr>"
proof -
  have "phase_inv NotClosed (win_new pid rel) \<lparr>wo_open = handed, wo_bad = False\<rparr> {#}"
    by (simp add: phase_inv_def win_new_def)
  then show ?thesis
    by (auto simp: win_ok_def win_inv_def close_inv_def wait_inv_def console_inv_def object_inv_def win_new_def)
qed

lemma call_ok:
  assumes "win_ok y" and "pc \<in> win_entries" and "win_call n a pc (ws_p y) (ws_os y) = (ts, p', os')"
  shows "win_ok \<lparr>ws_p = p', ws_os = os', ws_threads = ws_threads y + mset ts\<rparr>"
proof -
  obtain ls where "trace win_step y (WCall pc # ls) (y\<lparr>ws_p := p', ws_os := os', ws_threads := ws_threads y + mset ts\<rparr>)"
    using win_call_run [OF assms(2,3)] by blast
  from win_managed.trace_keeps [OF this assms(1)] show ?thesis by (simp add: win_ok_def)
qed

lemma num_running: "(\<And>r. \<not> P (PcReturned r)) \<Longrightarrow> num P (filter_mset (\<lambda>pc. \<not> is_returned pc) ts) = num P ts"
proof -
  assume *: "\<And>r. \<not> P (PcReturned r)"
  have "\<not> is_returned x \<and> P x \<longleftrightarrow> P x" for x using * by (cases x) auto
  then show ?thesis by (simp add: num_def filter_filter_mset)
qed

lemma abandoned_ok:
  assumes "win_ok \<lparr>ws_p = p, ws_os = \<lparr>wo_open = xs, wo_bad = b\<rparr>, ws_threads = ts\<rparr>"
  shows "win_ok \<lparr>ws_p = p, ws_os = \<lparr>wo_open = remove1 Attributes xs, wo_bad = b\<rparr>, ws_threads = filter_mset (\<lambda>pc. \<not> is_returned pc) ts\<rparr>"
proof -
  let ?ts = "filter_mset (\<lambda>pc. \<not> is_returned pc) ts"
  have "win_inv p \<lparr>wo_open = xs, wo_bad = b\<rparr> ts" using assms by (simp add: win_ok_def)
  then have "win_inv p \<lparr>wo_open = xs, wo_bad = b\<rparr> ?ts"
  proof (rule win_inv_same)
    fix P assume "P \<in> {wait_early, wait_late, says_killed, close_early, close_console, (=) PcResources, (=) PcCloseProcess,
      (=) PcCloseJob, (=) PcCloseAwait, (=) PcCloseJoin, at_once, in_console, joins_console}"
    then have "\<not> P (PcReturned r)" for r by auto
    then show "num P ?ts = num P ts" by (rule num_running)
  qed
  moreover have "object_inv p \<lparr>wo_open = remove1 Attributes xs, wo_bad = b\<rparr>" if "object_inv p \<lparr>wo_open = xs, wo_bad = b\<rparr>"
    using that by (simp add: object_inv_def)
  moreover have "phase_inv ph p \<lparr>wo_open = remove1 Attributes xs, wo_bad = b\<rparr> ?ts = phase_inv ph p \<lparr>wo_open = xs, wo_bad = b\<rparr> ?ts" for ph
    by (simp add: phase_inv_def)
  moreover have "console_inv p \<lparr>wo_open = remove1 Attributes xs, wo_bad = b\<rparr> ?ts = console_inv p \<lparr>wo_open = xs, wo_bad = b\<rparr> ?ts"
    by (simp add: console_inv_def)
  ultimately show ?thesis by (simp add: win_ok_def win_inv_def close_inv_def)
qed

lemma abandon_ok:
  assumes "win_call 9 a PcClose (win_new pid rel) \<lparr>wo_open = handed, wo_bad = False\<rparr> = (ts1, p1, os1)"
    and "win_call 9 a PcKill p1 os1 = (ts2, p2, os2)" and "win_call 9 a PcWait p2 os2 = (ts3, p3, \<lparr>wo_open = xs, wo_bad = b\<rparr>)"
  shows "win_ok \<lparr>ws_p = p3, ws_os = \<lparr>wo_open = remove1 Attributes xs, wo_bad = b\<rparr>,
    ws_threads = filter_mset (\<lambda>pc. \<not> is_returned pc) (mset (ts1 @ ts2 @ ts3))\<rparr>"
proof -
  have e: "PcClose \<in> win_entries" "PcKill \<in> win_entries" "PcWait \<in> win_entries" by (simp_all add: win_entries_def)
  have "win_ok \<lparr>ws_p = p1, ws_os = os1, ws_threads = mset ts1\<rparr>"
    using call_ok [OF handed_ok [of pid rel] e(1)] assms(1) by simp
  then have "win_ok \<lparr>ws_p = p2, ws_os = os2, ws_threads = mset ts1 + mset ts2\<rparr>"
    using call_ok [OF _ e(2)] assms(2) by fastforce
  then have "win_ok \<lparr>ws_p = p3, ws_os = \<lparr>wo_open = xs, wo_bad = b\<rparr>, ws_threads = mset ts1 + mset ts2 + mset ts3\<rparr>"
    using call_ok [OF _ e(3)] assms(3) by fastforce
  from abandoned_ok [OF this] show ?thesis by (simp add: ac_simps)
qed

text \<open>
  What an abandoned process leaves: the pipes are closed, the console unless it was released to
  the client, and the goroutine that releases the rest.
\<close>

abbreviation still_open :: "bool \<Rightarrow> win_object list \<Rightarrow> win_object list" where
  "still_open rel xs \<equiv> (if rel then Console # Job # xs else Job # xs)"

lemma win_abandon_left:
  obtains p' where "win_abandon a (win_new pid rel) \<lparr>wo_open = handed, wo_bad = False\<rparr> =
      ([PcCloseAwait], p', \<lparr>wo_open = still_open rel [Attributes, Process], wo_bad = False\<rparr>)"
    "wm_done p'" "wm_closeOnce p'"
    "win_ok \<lparr>ws_p = p', ws_os = \<lparr>wo_open = still_open rel [Process], wo_bad = False\<rparr>, ws_threads = {#PcCloseAwait#}\<rparr>"
proof -
  let ?o = "\<lparr>wo_open = [Console, Job, Attributes, Process], wo_bad = False\<rparr>"
  define p1 where "p1 = (win_new pid rel)\<lparr>wm_closeOnce := True, wm_closeDone := True,
    wm_closeErr := errors_Join [normalizeClose (wr_closeInput a), normalizeClose (wr_closeOutput a)]\<rparr>"
  note 1 = abandon_close [of a pid rel, folded p1_def]
  have p1: "wm_running p1" "\<not> wm_resourcesClosed p1" by (simp_all add: p1_def win_new_def)
  obtain r2 k where 2: "win_call 9 a PcKill p1 ?o = ([PcReturned r2], p1\<lparr>wm_killed := k\<rparr>, ?o)" using abandon_kill [OF p1] by blast
  define p2 where "p2 = p1\<lparr>wm_killed := k\<rparr>"
  have p2: "\<not> wm_waitOnce p2" "\<not> wm_consoleOnce p2" "wm_released p2 = rel" "wm_closeOnce p2"
    by (simp_all add: p2_def p1_def win_new_def)
  obtain r3 p3 where 3: "win_call 9 a PcWait p2 ?o = ([PcReturned r3], p3,
      \<lparr>wo_open = still_open rel [Attributes, Process], wo_bad = False\<rparr>)"
    and p3: "wm_done p3" "wm_closeOnce p3"
    using abandon_wait [OF p2(1,2), of a] p2(3,4) by auto
  have "win_ok \<lparr>ws_p = p3, ws_os = \<lparr>wo_open = still_open rel [Process], wo_bad = False\<rparr>, ws_threads = {#PcCloseAwait#}\<rparr>"
    using abandon_ok [OF 1 2 [folded p2_def] 3] by (cases rel) simp_all
  moreover have "win_abandon a (win_new pid rel) \<lparr>wo_open = handed, wo_bad = False\<rparr> =
      ([PcCloseAwait], p3, \<lparr>wo_open = still_open rel [Attributes, Process], wo_bad = False\<rparr>)"
    unfolding win_abandon_def 1 by (simp add: 2 p2_def [symmetric] 3)
  ultimately show ?thesis using that p3 by blast
qed

section \<open>Every path releases what it created\<close>

abbreviation launched :: "win_object list" where
  "launched \<equiv> [InputRead, InputWrite, OutputRead, OutputWrite, Console, Job, Attributes, Process, Thread]"

definition start_state :: "win_object list \<Rightarrow> win_object list \<Rightarrow> bool \<Rightarrow> bool \<Rightarrow> bool \<Rightarrow> bool \<Rightarrow> win_start" where
  "start_state xs pipes c j p t = \<lparr>st_os = \<lparr>wo_open = xs, wo_bad = False\<rparr>, st_pipes = pipes, st_consoleOwned = c,
     st_jobOwned = j, st_processOwned = p, st_threadOwned = t, st_left = None\<rparr>"

text \<open>The state after a cancellation: the objects of the process, and the goroutine on it.\<close>

definition cancelled :: "win_object list \<Rightarrow> bool \<Rightarrow> win_start \<Rightarrow> bool" where
  "cancelled extra rel st \<longleftrightarrow>
     (\<exists>p. st = (start_state (still_open rel (extra @ [Process])) [] False False False False)\<lparr>st_left := Some (p, [PcCloseAwait])\<rparr>
        \<and> wm_done p \<and> wm_closeOnce p
        \<and> win_ok \<lparr>ws_p = p, ws_os = \<lparr>wo_open = still_open rel [Process], wo_bad = False\<rparr>, ws_threads = {#PcCloseAwait#}\<rparr>)"

lemmas start_steps = on_os_def closeHandle_def with_defer_def close_steps win_create_def start_state_def Let_def

abbreviation four_pipes :: "win_object list" where
  "four_pipes \<equiv> [InputRead, InputWrite, OutputRead, OutputWrite]"

text \<open>
  What a stage promises for the objects it was given: on success the process, with the five
  objects it keeps and the stage's own; on failure exactly what the stage was given is left to
  the deferred functions outside.
\<close>

definition left_open :: "win_object list \<Rightarrow> bool \<Rightarrow> win_start \<Rightarrow> bool" where
  "left_open xs j st \<longleftrightarrow>
     (\<exists>ps b. set ps \<subseteq> set four_pipes \<and> distinct ps \<and> st = start_state (ps @ xs) ps True j b False)"

lemma left_openI: "set ps \<subseteq> set four_pipes \<Longrightarrow> distinct ps \<Longrightarrow> st = start_state (ps @ xs) ps True j b False \<Longrightarrow> left_open xs j st"
  unfolding left_open_def by blast

lemma hand_over_cases:
  assumes "win_hand_over api pid (start_state launched four_pipes True True True True) = (r, st)"
  shows "case r of
     Inr p \<Rightarrow> p = win_new (ucast pid) (wa_FindRelease api) \<and> st = start_state handed [] False False False False
   | Inl err \<Rightarrow> st = start_state (filter (\<lambda>x. x \<in> set [InputWrite, OutputRead] \<longrightarrow> \<not> wa_NewFile api x)
         [InputWrite, OutputRead, Console, Job, Attributes, Process])
       (filter (\<lambda>x. \<not> wa_NewFile api x) [InputWrite, OutputRead]) True True True False"
  using assms by (auto simp: win_hand_over_def start_steps split: if_splits)

lemma launch_cases:
  assumes "win_launch api a ctx command (start_state [InputRead, InputWrite, OutputRead, OutputWrite, Console, Job, Attributes]
      four_pipes True True False False) = (r, st)"
  shows "case r of
     Inr p \<Rightarrow> (\<exists>pid. p = win_new pid (wa_FindRelease api)) \<and> st = start_state handed [] False False False False
   | Inl err \<Rightarrow> ctx 1 = Some err \<and> cancelled [Attributes] (wa_FindRelease api) st
       \<or> left_open [Console, Job, Attributes] True st"
proof -
  let ?s = "start_state [InputRead, InputWrite, OutputRead, OutputWrite, Console, Job, Attributes] four_pipes True True False False"
  consider (early) err where "r = Inl err" "st = ?s"
    | (made) pid where "with_defer win_process_cleanup
        (win_finish api a ctx pid (start_state launched four_pipes True True True True)) = (r, st)"
    using assms by (auto simp: win_launch_def on_os_def win_create_def start_state_def Let_def split: option.splits sum.splits)
  then show ?thesis
  proof cases
    case early
    then show ?thesis using left_openI [of four_pipes st] by simp
  next
    case made
    obtain r2 st2 where h: "win_hand_over api pid (start_state launched four_pipes True True True True) = (r2, st2)" by fastforce
    note c = hand_over_cases [OF h]
    show ?thesis
    proof (cases r2)
      case (Inl err)
      let ?ps = "filter (\<lambda>x. \<not> wa_NewFile api x) [InputWrite, OutputRead]"
      have "st = start_state (?ps @ [Console, Job, Attributes]) ?ps True True True False" "r = Inl err"
        using made h c Inl by (auto simp: win_finish_def win_process_cleanup_def start_steps)
      moreover have "set ?ps \<subseteq> set four_pipes" "distinct ?ps" by auto
      ultimately show ?thesis using left_openI [of ?ps st] by simp
    next
      case (Inr p)
      then have p: "p = win_new (ucast pid) (wa_FindRelease api)" and st2: "st2 = start_state handed [] False False False False"
        using c by simp_all
      show ?thesis
      proof (cases "ctx 1")
        case None
        then show ?thesis using made h Inr p st2 by (auto simp: win_finish_def win_process_cleanup_def start_steps)
      next
        case (Some err)
        obtain q where w: "win_abandon a p (st_os st2) =
            ([PcCloseAwait], q, \<lparr>wo_open = still_open (wa_FindRelease api) [Attributes, Process], wo_bad = False\<rparr>)"
          and q: "wm_done q" "wm_closeOnce q"
            "win_ok \<lparr>ws_p = q, ws_os = \<lparr>wo_open = still_open (wa_FindRelease api) [Process], wo_bad = False\<rparr>, ws_threads = {#PcCloseAwait#}\<rparr>"
          using win_abandon_left [of a "ucast pid" "wa_FindRelease api"] p st2 by (auto simp: start_state_def)
        have "r = Inl err" "st = (start_state (still_open (wa_FindRelease api) ([Attributes] @ [Process])) [] False False False False)
            \<lparr>st_left := Some (q, [PcCloseAwait])\<rparr>"
          using made h Inr Some w st2 by (auto simp: win_finish_def win_process_cleanup_def start_steps)
        then show ?thesis using q Some unfolding cancelled_def by auto
      qed
    qed
  qed
qed

lemma job_cases:
  assumes "win_job api a ctx command (start_state [InputRead, InputWrite, OutputRead, OutputWrite, Console] four_pipes True False False False) = (r, st)"
  shows "case r of
     Inr p \<Rightarrow> (\<exists>pid. p = win_new pid (wa_FindRelease api))
       \<and> st = start_state [InputWrite, OutputRead, Console, Job, Process] [] False False False False
   | Inl err \<Rightarrow> ctx 1 = Some err \<and> cancelled [] (wa_FindRelease api) st
       \<or> (\<exists>j. left_open [Console] j st)"
proof -
  let ?s = "start_state [InputRead, InputWrite, OutputRead, OutputWrite, Console, Job] four_pipes True True False False"
  let ?t = "start_state [InputRead, InputWrite, OutputRead, OutputWrite, Console, Job, Attributes] four_pipes True True False False"
  let ?d = "\<lambda>s. if st_jobOwned s then on_os (win_close Job) s else s"
  consider (early) err where "r = Inl err"
      "st = start_state [InputRead, InputWrite, OutputRead, OutputWrite, Console] four_pipes True False False False"
    | (job) err where "with_defer ?d (Inl err, ?s) = (r, st)"
    | (made) "with_defer ?d (with_defer (on_os (win_close Attributes)) (win_launch api a ctx command ?t)) = (r, st)"
    using assms by (auto simp: win_job_def on_os_def win_create_def start_state_def Let_def split: option.splits)
  then show ?thesis
  proof cases
    case early
    then show ?thesis using left_openI [of four_pipes st "[Console]" False] by auto
  next
    case job
    then have "r = Inl err" "st = start_state (four_pipes @ [Console]) four_pipes True True False False"
      by (simp_all add: start_steps)
    then show ?thesis using left_openI [of four_pipes st "[Console]" True] by auto
  next
    case made
    obtain r2 st2 where l: "win_launch api a ctx command ?t = (r2, st2)" by fastforce
    note c = launch_cases [OF l]
    show ?thesis
    proof (cases r2)
      case (Inr p)
      then show ?thesis using made l c by (auto simp: start_steps)
    next
      case (Inl err)
      then consider "ctx 1 = Some err" "cancelled [Attributes] (wa_FindRelease api) st2"
        | ps b where "set ps \<subseteq> set four_pipes" "distinct ps" "st2 = start_state (ps @ [Console, Job, Attributes]) ps True True b False"
        using c by (auto simp: left_open_def)
      then show ?thesis
      proof cases
        case 1
        then obtain p where "st2 = (start_state (still_open (wa_FindRelease api) ([Attributes] @ [Process])) [] False False False False)
            \<lparr>st_left := Some (p, [PcCloseAwait])\<rparr>" and p: "wm_done p \<and> wm_closeOnce p
            \<and> win_ok \<lparr>ws_p = p, ws_os = \<lparr>wo_open = still_open (wa_FindRelease api) [Process], wo_bad = False\<rparr>, ws_threads = {#PcCloseAwait#}\<rparr>"
          unfolding cancelled_def by blast
        then have "st = (start_state (still_open (wa_FindRelease api) ([] @ [Process])) [] False False False False)
            \<lparr>st_left := Some (p, [PcCloseAwait])\<rparr>" "r = Inl err"
          using made l Inl by (auto simp: start_steps)
        then show ?thesis using p 1(1) unfolding cancelled_def by auto
      next
        case (2 ps b)
        have n: "Attributes \<notin> set ps" "Job \<notin> set ps" using 2(1) by auto
        have "st = start_state (ps @ [Console]) ps True True b False" "r = Inl err"
          using made l Inl 2(3) n by (simp_all add: start_steps remove1_append)
        then show ?thesis using 2(1,2) left_openI [of ps st "[Console]" True b] by auto
      qed
    qed
  qed
qed

text \<open>The four deferred functions of the pipes, and the one of the console.\<close>

definition pipe_defers :: "win_start \<Rightarrow> win_start" where
  "pipe_defers st = closeHandle InputRead (closeHandle InputWrite (closeHandle OutputRead (closeHandle OutputWrite st)))"

lemma closeHandle_pipes:
  assumes "distinct ps"
  shows "closeHandle x (start_state ps ps c j p t) = start_state (filter ((\<noteq>) x) ps) (filter ((\<noteq>) x) ps) c j p t"
proof (cases "x \<in> set ps")
  case True
  then show ?thesis using assms by (simp add: start_steps distinct_remove1_removeAll removeAll_filter_not_eq)
next
  case False
  then have "filter ((\<noteq>) x) ps = ps" by (auto simp: filter_id_conv)
  then show ?thesis using False by (simp add: start_steps)
qed

definition start_defers :: "win_start \<Rightarrow> win_start" where
  "start_defers st = pipe_defers (if st_consoleOwned st then on_os (win_close Console) st else st)"

lemma pipe_defers_all:
  assumes "set ps \<subseteq> set four_pipes" and "distinct ps"
  shows "pipe_defers (start_state ps ps c j p t) = start_state [] [] c j p t"
proof -
  have "filter ((\<noteq>) InputRead) (filter ((\<noteq>) InputWrite) (filter ((\<noteq>) OutputRead) (filter ((\<noteq>) OutputWrite) ps))) = []"
    using assms(1) by (auto simp: filter_empty_conv)
  then show ?thesis unfolding pipe_defers_def using assms(2) by (simp only: closeHandle_pipes distinct_filter)
qed

lemma startManaged_eq:
  assumes "wa_CreatePipe api 0 = None" "wa_CreatePipe api 1 = None" "validateSpec spec = None" "ctx 0 = None"
    "win_prepare api spec = Inr command"
    "wa_CreatePseudoConsole api (ucast (Cols (InitialSize spec)), ucast (Rows (InitialSize spec))) = None"
    "win_job api a ctx command (start_state (four_pipes @ [Console]) four_pipes True False False False) = (r, st)"
  shows "startManaged api a (Some ctx) spec \<lparr>wo_open = [], wo_bad = False\<rparr> = (r, st_os (start_defers st), st_left (start_defers st))"
  using assms
  by (simp add: startManaged_def with_defer_def pipe_defers_def start_defers_def Let_def on_os_def win_create_def start_state_def)

lemma startManaged_job:
  assumes "win_job api a ctx command (start_state (four_pipes @ [Console]) four_pipes True False False False) = (r, st)"
  shows "case r of
     Inr p \<Rightarrow> (\<exists>pid. p = win_new pid (wa_FindRelease api))
       \<and> start_defers st = start_state [InputWrite, OutputRead, Console, Job, Process] [] False False False False
   | Inl err \<Rightarrow> ctx 1 = Some err \<and> cancelled [] (wa_FindRelease api) (start_defers st)
       \<or> (\<exists>j b. start_defers st = start_state [] [] True j b False)"
proof -
  have j: "win_job api a ctx command (start_state [InputRead, InputWrite, OutputRead, OutputWrite, Console] four_pipes True False False False) = (r, st)"
    using assms by simp
  note c = job_cases [OF j]
  show ?thesis
  proof (cases r)
    case (Inr p)
    then show ?thesis using c by (auto simp: start_steps pipe_defers_def start_defers_def)
  next
    case (Inl err)
    then consider "ctx 1 = Some err" "cancelled [] (wa_FindRelease api) st"
      | ps j b where "set ps \<subseteq> set four_pipes" "distinct ps" "st = start_state (ps @ [Console]) ps True j b False"
      using c by (auto simp: left_open_def)
    then show ?thesis
    proof cases
      case 1
      then have "start_defers st = st" by (auto simp: cancelled_def start_steps pipe_defers_def start_defers_def)
      then show ?thesis using Inl 1 by simp
    next
      case (2 ps j b)
      then have "Console \<notin> set ps" by auto
      then have "(if st_consoleOwned st then on_os (win_close Console) st else st) = start_state ps ps True j b False"
        using 2(3) by (simp add: start_steps remove1_append)
      then show ?thesis using pipe_defers_all [OF 2(1,2)] Inl by (auto simp: start_defers_def)
    qed
  qed
qed

lemma startManaged_early:
  assumes "\<not> (\<exists>ctx command. ctx0 = Some ctx \<and> validateSpec spec = None \<and> ctx 0 = None \<and> win_prepare api spec = Inr command
    \<and> wa_CreatePipe api 0 = None \<and> wa_CreatePipe api 1 = None
    \<and> wa_CreatePseudoConsole api (ucast (Cols (InitialSize spec)), ucast (Rows (InitialSize spec))) = None)"
  shows "\<exists>err. startManaged api a ctx0 spec \<lparr>wo_open = [], wo_bad = False\<rparr> = (Inl err, \<lparr>wo_open = [], wo_bad = False\<rparr>, None)"
  using assms by (auto simp: startManaged_def start_steps split: option.splits sum.splits)

text \<open>What the pending goroutine does, whatever else is called: it ends, and then all is released.\<close>

lemma pending_releases:
  assumes t: "trace win_step y ls z" and ok: "win_ok y" and "wm_done (ws_p y)" and "wm_closeOnce (ws_p y)"
    and sub: "set (wo_open (ws_os y)) \<subseteq> {InputWrite, OutputRead, Console, Job, Process}"
  shows "\<not> wo_bad (ws_os z) \<and> length (filter is_run ls) \<le> win_work y + 9 * length (filter (\<lambda>l. \<not> is_run l) ls)
    \<and> ((\<forall>pc \<in># ws_threads z. \<not> win_enabled pc (ws_p z)) \<longrightarrow> (\<forall>pc \<in># ws_threads z. is_returned pc) \<and> wo_open (ws_os z) = [])"
proof -
  have i: "win_inv (ws_p z) (ws_os z) (ws_threads z)" using win_managed.trace_keeps [OF t ok] by (simp add: win_ok_def)
  have "win_outcome z \<noteq> None" "win_closed z \<noteq> None"
    using win_managed.outcome_once [OF t ok] win_managed.released_once [OF t ok] assms(3,4)
    by (auto simp: win_outcome_def win_closed_def)
  then have "wm_done (ws_p z)" and c: "wm_closeOnce (ws_p z)"
    by (auto simp: win_outcome_def win_closed_def split: if_splits)
  then have w: "wm_waitOnce (ws_p z)" using i by (simp add: win_inv_def wait_inv_def)
  have s: "set (wo_open (ws_os z)) \<subseteq> {InputWrite, OutputRead, Console, Job, Process}" using trace_open [OF t] sub by blast
  have "(\<forall>pc \<in># ws_threads z. is_returned pc) \<and> wo_open (ws_os z) = []"
    if "\<forall>pc \<in># ws_threads z. \<not> win_enabled pc (ws_p z)"
  proof -
    have r: "\<forall>pc \<in># ws_threads z. is_returned pc" using win_progress [OF i w] that by blast
    then show ?thesis using all_closed [OF i c r] Int_absorb2 [OF s] by simp
  qed
  moreover have "\<not> wo_bad (ws_os z)" using i by (simp add: win_inv_def object_inv_def)
  ultimately show ?thesis using trace_work [OF t] by simp
qed

text \<open>
  (C16) \<open>startManaged\<close> never leaks and never closes twice. On success exactly the five objects of
  the process are open, so the managed process starts in the state its own theorems begin with;
  and only a valid description gets there. Whatever fails on the way (the check, the context,
  any of the Win32 calls, wrapping the pipes), every object created so far is closed exactly once before
  the error is returned. If the context is cancelled once the process runs, the context's error is
  returned when the process has ended and its pipes are closed, while the console,
  the job and the process handle may still be open: they belong to the goroutine that \<open>Close\<close>
  left behind. From there on, in every interleaving, no object is misused, the goroutine makes at most
  seven steps, and once no thread can go on every thread has returned and every object is closed.
\<close>

theorem startManaged_releases:
  "case startManaged api a ctx0 spec \<lparr>wo_open = [], wo_bad = False\<rparr> of
     (Inr p, os, left) \<Rightarrow> left = None \<and> validateSpec spec = None
       \<and> (\<exists>pid. \<lparr>ws_p = p, ws_os = os, ws_threads = {#}\<rparr> = win_begin pid (wa_FindRelease api))
   | (Inl err, os, None) \<Rightarrow> os = \<lparr>wo_open = [], wo_bad = False\<rparr>
   | (Inl err, os, Some (p, ts)) \<Rightarrow>
       (\<exists>ctx. ctx0 = Some ctx \<and> ctx 1 = Some err) \<and> wm_done p \<and> ts = [PcCloseAwait]
       \<and> \<not> wo_bad os \<and> set (wo_open os) \<subseteq> {Console, Job, Process}
       \<and> (\<forall>ls z. trace win_step \<lparr>ws_p = p, ws_os = os, ws_threads = mset ts\<rparr> ls z \<longrightarrow>
            \<not> wo_bad (ws_os z) \<and> length (filter is_run ls) \<le> 7 + 9 * length (filter (\<lambda>l. \<not> is_run l) ls)
            \<and> ((\<forall>pc \<in># ws_threads z. \<not> win_enabled pc (ws_p z)) \<longrightarrow>
                 (\<forall>pc \<in># ws_threads z. is_returned pc) \<and> wo_open (ws_os z) = []))"
proof (cases "\<exists>ctx command. ctx0 = Some ctx \<and> validateSpec spec = None \<and> ctx 0 = None \<and> win_prepare api spec = Inr command
    \<and> wa_CreatePipe api 0 = None \<and> wa_CreatePipe api 1 = None
    \<and> wa_CreatePseudoConsole api (ucast (Cols (InitialSize spec)), ucast (Rows (InitialSize spec))) = None")
  case True
  then obtain ctx command where *: "ctx0 = Some ctx" "validateSpec spec = None" "ctx 0 = None" "win_prepare api spec = Inr command"
    "wa_CreatePipe api 0 = None" "wa_CreatePipe api 1 = None"
    "wa_CreatePseudoConsole api (ucast (Cols (InitialSize spec)), ucast (Rows (InitialSize spec))) = None" by blast
  obtain r st where j: "win_job api a ctx command (start_state (four_pipes @ [Console]) four_pipes True False False False) = (r, st)"
    by fastforce
  note e = startManaged_eq [OF *(5,6,2,3,4,7) j] and c = startManaged_job [OF j]
  show ?thesis
  proof (cases r)
    case (Inr p)
    then show ?thesis using e c *(1,2) by (auto simp: win_begin_def start_state_def)
  next
    case (Inl err)
    with c consider "ctx 1 = Some err" "cancelled [] (wa_FindRelease api) (start_defers st)"
      | j b where "start_defers st = start_state [] [] True j b False" by auto
    then show ?thesis
    proof cases
      case 1
      let ?os = "\<lparr>wo_open = still_open (wa_FindRelease api) [Process], wo_bad = False\<rparr>"
      obtain p where d: "start_defers st = (start_state (still_open (wa_FindRelease api) [Process]) [] False False False False)
          \<lparr>st_left := Some (p, [PcCloseAwait])\<rparr>" and p: "wm_done p" "wm_closeOnce p"
        and ok: "win_ok \<lparr>ws_p = p, ws_os = ?os, ws_threads = {#PcCloseAwait#}\<rparr>"
        using 1(2) unfolding cancelled_def append_Nil by blast
      have "startManaged api a ctx0 spec \<lparr>wo_open = [], wo_bad = False\<rparr> = (Inl err, ?os, Some (p, [PcCloseAwait]))"
        using e *(1) Inl d by (simp add: start_state_def)
      moreover note pending_releases [OF _ ok]
      ultimately show ?thesis using *(1) 1(1) p by (simp add: win_work_def)
    next
      case 2
      then show ?thesis using e *(1) Inl by (simp add: start_state_def)
    qed
  qed
next
  case False
  then show ?thesis using startManaged_early [of ctx0 spec api a] by auto
qed

section \<open>A cancelled start\<close>

text \<open>Everything succeeds, and the context ends while the process is being created.\<close>

definition win_demo_api :: win_api where
  "win_demo_api = \<lparr>wa_LookPath = Inr, wa_UTF16FromString = (\<lambda>s. Inr (map of_char s @ [0])), wa_ComposeCommandLine = concat,
     wa_ToUpper = (\<lambda>s. s), wa_CreatePipe = (\<lambda>_. None), wa_CreatePseudoConsole = (\<lambda>_. None), wa_CreateJobObject = None,
     wa_SetInformationJobObject = None, wa_NewProcThreadAttributeList = None, wa_UpdateAttribute = (\<lambda>_. None),
     wa_CreateProcess = (\<lambda>_. Inr 7), wa_NewFile = (\<lambda>_. True), wa_FindRelease = True\<rparr>"

definition win_demo_spec :: ProcessSpec where
  "win_demo_spec = \<lparr>Command = ''sh'', Args = [], Env = None, Dir = '''', InitialSize = \<lparr>Cols = 80, Rows = 24\<rparr>\<rparr>"

definition win_demo_ctx :: "nat \<Rightarrow> gctx" where
  "win_demo_ctx n = (if n = 0 then None else Some (Lib CtxCanceled))"

definition win_demo_left :: win_managed where
  "win_demo_left = (win_new 7 True)\<lparr>wm_closeOnce := True, wm_closeDone := True, wm_waitOnce := True, wm_done := True, wm_running := False,
     wm_killed := True, wm_waitStatus := \<lparr>Reason = ExitReasonKilled, Code = 0, Signal = '''', ErrorText = ''''\<rparr>\<rparr>"

lemma win_demo_start:
  "startManaged win_demo_api win_demo_answers (Some win_demo_ctx) win_demo_spec \<lparr>wo_open = [], wo_bad = False\<rparr>
     = (Inl (Lib CtxCanceled), \<lparr>wo_open = [Console, Job, Process], wo_bad = False\<rparr>, Some (win_demo_left, [PcCloseAwait]))"
  by code_simp

lemma win_demo_release:
  "fst (win_call 9 win_demo_answers PcCloseAwait win_demo_left \<lparr>wo_open = [Console, Job, Process], wo_bad = False\<rparr>) = [PcReturned None]"
  by code_simp

theorem startManaged_releases_witness:
  "\<exists>ls z. trace win_step \<lparr>ws_p = win_demo_left, ws_os = \<lparr>wo_open = [Console, Job, Process], wo_bad = False\<rparr>,
       ws_threads = {#PcCloseAwait#}\<rparr> ls z
     \<and> length (filter is_run ls) \<le> 7 + 9 * length (filter (\<lambda>l. \<not> is_run l) ls) \<and> \<not> wo_bad (ws_os z) \<and> wo_open (ws_os z) = []"
proof -
  obtain p' os' where "win_call 9 win_demo_answers PcCloseAwait win_demo_left \<lparr>wo_open = [Console, Job, Process], wo_bad = False\<rparr>
      = ([PcReturned None], p', os')"
    using win_demo_release by (metis prod.collapse)
  from win_call_trace [OF this, of "{#}"] obtain ls where
    "trace win_step \<lparr>ws_p = win_demo_left, ws_os = \<lparr>wo_open = [Console, Job, Process], wo_bad = False\<rparr>, ws_threads = {#PcCloseAwait#}\<rparr>
       ls \<lparr>ws_p = p', ws_os = os', ws_threads = {#PcReturned None#}\<rparr>" by auto
  then show ?thesis
    using startManaged_releases [where api = win_demo_api and a = win_demo_answers and ?ctx0.0 = "Some win_demo_ctx" and spec = win_demo_spec]
    unfolding win_demo_start by fastforce
qed

end
