(* ===== verification/Windows_Env.thy ===== *)
theory Windows_Env
  imports Windows_Start
begin

text \<open>
  What \<open>pty/windowspty/factory_windows.go\<close> hands to the system: the environment block, read back
  the way Windows reads it, and the size given to the pseudo console.
\<close>

section \<open>The environment block is read back\<close>

text \<open>How the system reads a block: entries end with a zero, the block with an empty entry.\<close>

function block_entries :: "utf16 \<Rightarrow> utf16 list" where
  "block_entries ws =
     (let entry = takeWhile (\<lambda>u. u \<noteq> 0) ws in
      if entry = [] then [] else entry # block_entries (drop (Suc (length entry)) ws))"
  by pat_completeness auto
termination
proof (relation "measure length", simp, goal_cases)
  case (1 ws entry)
  then have "ws \<noteq> []" by auto
  then show ?case by simp
qed

declare block_entries.simps [simp del]

text \<open>
  What is documented of \<open>UTF16FromString\<close>: a string without NUL becomes its code units, none of
  them zero, and a final zero; a string with NUL is refused. Only the empty string has no code
  unit.
\<close>

definition utf16_ok :: "(string \<Rightarrow> utf16 result) \<Rightarrow> (string \<Rightarrow> utf16) \<Rightarrow> bool" where
  "utf16_ok u units \<longleftrightarrow>
     (\<forall>s. if has_nul s then isl (u s)
           else u s = Inr (units s @ [0]) \<and> 0 \<notin> set (units s) \<and> (units s = [] \<longleftrightarrow> s = []))"

definition joined :: "(string \<Rightarrow> utf16) \<Rightarrow> string list \<Rightarrow> utf16" where
  "joined units vs = concat (map (\<lambda>v. units v @ [0]) vs)"

lemma block_loop_joined:
  assumes "utf16_ok u units" and "\<forall>v \<in> set vs. \<not> has_nul v"
  shows "block_loop u vs block = Inr (block @ joined units vs)"
  using assms(2)
proof (induction vs arbitrary: block)
  case (Cons v vs)
  then have "u v = Inr (units v @ [0])" using assms(1) by (simp add: utf16_ok_def)
  then show ?case using Cons by (simp add: joined_def)
qed (simp add: joined_def)

lemma block_loop_nul:
  assumes "utf16_ok u units" and "\<exists>v \<in> set vs. has_nul v"
  shows "block_loop u vs block = Inl win_ErrInvalidProcessSpec"
  using assms(2)
proof (induction vs arbitrary: block)
  case (Cons v vs)
  have "isl (u v)" if "has_nul v" using assms(1) that by (simp add: utf16_ok_def)
  then show ?case using Cons by (cases "u v") auto
qed simp

lemma environmentBlock_joined:
  assumes "utf16_ok u units" and "\<forall>v \<in> set env. \<not> has_nul v"
  shows "environmentBlock up u (Some env) =
    Inr (Some (joined units (sort_key up env) @ (if env = [] then [0, 0] else [0])))"
proof -
  have "joined units vs = [] \<longleftrightarrow> vs = []" for vs by (cases vs) (simp_all add: joined_def)
  moreover have "sort_key up env = [] \<longleftrightarrow> env = []" by (metis length_0_conv length_sort)
  ultimately show ?thesis
    using block_loop_joined [OF assms(1), of "sort_key up env" "[]"] assms(2) by (simp add: environmentBlock_def Let_def)
qed

lemma block_entries_joined:
  assumes "utf16_ok u units" and "\<forall>v \<in> set vs. \<not> has_nul v \<and> v \<noteq> []"
  shows "block_entries (joined units vs @ 0 # rest) = map units vs"
  using assms(2)
proof (induction vs)
  case (Cons v vs)
  have v: "0 \<notin> set (units v)" "units v \<noteq> []" using assms(1) Cons.prems by (auto simp: utf16_ok_def)
  have t: "takeWhile (\<lambda>w. w \<noteq> 0) (units v @ 0 # xs) = units v" for xs
    using v(1) by (subst takeWhile_append2) auto
  show ?case using Cons v(2) by (subst block_entries.simps) (simp add: joined_def t)
qed (subst block_entries.simps, simp add: joined_def)

text \<open>
  (C27) The environment block says what was asked for: for entries without NUL and none of them
  empty, the system reads back exactly the given entries, in order of their upper-case forms and
  otherwise in the given order, and an empty environment as empty; the block always ends with
  two zeros. An entry with NUL is refused, and a nil environment gives no block, which inherits.
\<close>

theorem environment_roundtrip:
  assumes "utf16_ok u units"
  shows "environmentBlock up u None = Inr None
    \<and> ((\<exists>v \<in> set env. has_nul v) \<longrightarrow> environmentBlock up u (Some env) = Inl win_ErrInvalidProcessSpec)
    \<and> ((\<forall>v \<in> set env. \<not> has_nul v \<and> v \<noteq> []) \<longrightarrow>
         (\<exists>block vs. environmentBlock up u (Some env) = Inr (Some block) \<and> block_entries block = map units vs
            \<and> mset vs = mset env \<and> sorted (map up vs) \<and> (\<forall>k. filter (\<lambda>v. up v = k) vs = filter (\<lambda>v. up v = k) env)
            \<and> (\<exists>pre. block = pre @ [0, 0])))"
proof (intro conjI impI)
  show "environmentBlock up u None = Inr None" by (simp add: environmentBlock_def)
  show "environmentBlock up u (Some env) = Inl win_ErrInvalidProcessSpec" if "\<exists>v \<in> set env. has_nul v"
    using block_loop_nul [OF assms, of "sort_key up env" "[]"] that by (simp add: environmentBlock_def)
  assume plain: "\<forall>v \<in> set env. \<not> has_nul v \<and> v \<noteq> []"
  let ?vs = "sort_key up env"
  let ?block = "joined units ?vs @ (if env = [] then [0, 0] else [0])"
  have "environmentBlock up u (Some env) = Inr (Some ?block)" using environmentBlock_joined [OF assms] plain by simp
  moreover have "block_entries ?block = map units ?vs"
    using block_entries_joined [OF assms, of ?vs] plain by (cases "env = []") auto
  moreover have "\<exists>pre. ?block = pre @ [0, 0]"
  proof (cases "env = []")
    case False
    then have "?vs \<noteq> []" by (metis length_0_conv length_sort)
    then obtain ws w where "?vs = ws @ [w]" by (metis append_butlast_last_id)
    then show ?thesis using False by (simp add: joined_def)
  qed (simp add: joined_def)
  ultimately show "\<exists>block vs. environmentBlock up u (Some env) = Inr (Some block) \<and> block_entries block = map units vs
      \<and> mset vs = mset env \<and> sorted (map up vs) \<and> (\<forall>k. filter (\<lambda>v. up v = k) vs = filter (\<lambda>v. up v = k) env)
      \<and> (\<exists>pre. block = pre @ [0, 0])"
    using sort_key_stable [of up _ env] by (intro exI [of _ ?block] exI [of _ ?vs]) simp
qed

text \<open>A conversion with the documented behaviour: each byte is one code unit.\<close>

definition ascii_units :: "string \<Rightarrow> utf16" where
  "ascii_units s = map (\<lambda>c. of_nat (of_char c)) s"

definition ascii_utf16 :: "string \<Rightarrow> utf16 result" where
  "ascii_utf16 s = (if has_nul s then Inl (ErrNew ''EINVAL'') else Inr (ascii_units s @ [0]))"

lemma ascii_unit:
  assumes "c \<noteq> CHR 0x00"
  shows "(of_nat (of_char c) :: 16 word) \<noteq> 0"
proof -
  have "(of_char c :: nat) \<noteq> of_char (CHR 0x00)" using assms by (simp only: of_char_eq_iff not_False_eq_True)
  then have "0 < (of_char c :: nat)" by simp
  moreover have "(of_char c :: nat) < 2 ^ 16" by (rule less_trans [OF nat_of_char_less_256]) simp
  ultimately have "\<not> 2 ^ 16 dvd (of_char c :: nat)" by (rule nat_dvd_not_less)
  then show ?thesis by (simp add: word_of_nat_eq_0_iff)
qed

lemma ascii_utf16_ok: "utf16_ok ascii_utf16 ascii_units"
proof -
  have "0 \<notin> set (ascii_units s)" if "\<not> has_nul s" for s
  proof
    assume "0 \<in> set (ascii_units s)"
    then obtain c where c: "c \<in> set s" "(of_nat (of_char c) :: 16 word) = 0"
      unfolding ascii_units_def set_map by (elim imageE) (rule that, assumption, erule sym)
    then have "c \<noteq> CHR 0x00" using that by (auto simp only: has_nul_def)
    then show False using ascii_unit c(2) by metis
  qed
  then show ?thesis unfolding utf16_ok_def ascii_utf16_def by (simp add: ascii_units_def)
qed

theorem environment_roundtrip_witness:
  "\<exists>block vs. environmentBlock id ascii_utf16 (Some [''B=2'', ''A=1'']) = Inr (Some block)
     \<and> block_entries block = map ascii_units vs \<and> mset vs = {#''A=1'', ''B=2''#} \<and> sorted vs"
proof -
  have "\<exists>block vs. environmentBlock id ascii_utf16 (Some [''B=2'', ''A=1'']) = Inr (Some block)
      \<and> block_entries block = map ascii_units vs \<and> mset vs = mset [''B=2'', ''A=1''] \<and> sorted (map id vs)"
    using environment_roundtrip [OF ascii_utf16_ok, of id "[''B=2'', ''A=1'']", THEN conjunct2, THEN conjunct2, THEN mp]
    unfolding has_nul_def by (elim exE conjE meta_impE) (simp, blast)
  moreover have "mset [''B=2'', ''A=1''] = {#''A=1'', ''B=2''#}" by (simp only: mset.simps add_mset_commute)
  ultimately show ?thesis unfolding list.map_id by (simp only:)
qed

lemma list_le_Nil: "(s :: string) \<le> [] \<longleftrightarrow> s = []"
  by (cases s) simp_all

lemma sort_key_Nil_first:
  assumes "[] \<in> set env" and "\<forall>v \<in> set env. up v = [] \<longleftrightarrow> v = []"
  obtains vs where "sort_key up env = [] # vs"
proof (cases "sort_key up env")
  case Nil
  then show ?thesis using assms(1) by (metis list.set(1) empty_iff set_sort)
next
  case (Cons v vs)
  have "sorted (map up (v # vs))" using sorted_sort_key [of up env] Cons by simp
  moreover have "[] \<in> set (v # vs)" using assms(1) set_sort [of up env] Cons by simp
  moreover have "up [] = []" using assms by blast
  ultimately have "up v \<le> []" by (metis list.set_map image_eqI list.simps(9) order_refl set_ConsD sorted_simps(2))
  moreover have "v \<in> set env" using set_sort [of up env] Cons by (metis list.set_intros(1))
  ultimately have "v = []" using assms(2) by (simp add: list_le_Nil)
  then show ?thesis using Cons by (intro that) simp
qed

text \<open>
  (C39) An empty entry drops the whole environment. \<open>environmentBlock\<close> accepts it, and where upper
  case keeps the non-empty entries non-empty it sorts first; its final zero is then the first
  code unit of the block, which the system reads as the end of an empty environment.
\<close>

theorem environment_empty_entry:
  assumes "utf16_ok u units" and "\<forall>v \<in> set env. \<not> has_nul v"
    and "[] \<in> set env" and "\<forall>v \<in> set env. up v = [] \<longleftrightarrow> v = []"
  shows "\<exists>block. environmentBlock up u (Some env) = Inr (Some block) \<and> block_entries block = []"
proof -
  obtain vs where vs: "sort_key up env = [] # vs" using sort_key_Nil_first [OF assms(3,4)] .
  have "units [] = []" using assms(1) by (simp add: utf16_ok_def has_nul_def)
  then have "block_entries (joined units ([] # vs) @ rest) = []" for rest
    by (subst block_entries.simps) (simp add: joined_def)
  then show ?thesis unfolding environmentBlock_joined [OF assms(1,2)] vs by simp
qed

theorem environment_empty_entry_witness:
  "\<exists>block. environmentBlock id ascii_utf16 (Some [''PATH=x'', '''']) = Inr (Some block) \<and> block_entries block = []"
  by (rule environment_empty_entry [OF ascii_utf16_ok]) (simp_all add: has_nul_def)

section \<open>Sizes\<close>

definition win_size_ok :: "Size \<Rightarrow> bool" where
  "win_size_ok sz \<longleftrightarrow> 0 < sint (Cols sz) \<and> sint (Cols sz) \<le> MaxInt16 \<and> 0 < sint (Rows sz) \<and> sint (Rows sz) \<le> MaxInt16"

lemma int16_exact:
  fixes n :: "64 word"
  assumes "0 < sint n" and "sint n \<le> MaxInt16"
  shows "sint (ucast n :: 16 word) = sint n"
proof -
  have "uint (ucast n :: 16 word) = sint n" using assms by (intro ucast_16_exact) (simp_all add: MaxInt16_def)
  moreover have "sint (ucast n :: 16 word) = signed_take_bit 15 (uint (ucast n :: 16 word))" by (simp only: sint_uint) simp
  ultimately show ?thesis using assms by (simp only:) (simp add: signed_take_bit_int_eq_self MaxInt16_def)
qed

text \<open>
  The console is resized exactly for a running process whose console is not closing and
  with both dimensions between 1 and 32767, and then with exactly those numbers: what the call
  reads in its int16 coordinates is what the caller gave. A non-positive dimension is refused
  as ErrInvalidSize, a larger one as ErrSizeOverflow, and a late resize is accepted without
  touching the console.
\<close>

theorem win_Resize_exact:
  "win_Resize (\<lambda>(x, y). f (sint x) (sint y)) sz p os =
     (if \<not> win_size_ok sz
      then (Some (if sint (Cols sz) \<le> 0 \<or> sint (Rows sz) \<le> 0 then Pty ErrInvalidSize else win_ErrSizeOverflow), os)
      else if wm_running p \<and> \<not> wm_consoleClosing p
      then (map_option (\<lambda>err. Errorf err []) (f (sint (Cols sz)) (sint (Rows sz))), win_use Console os)
      else (None, os))"
proof (cases "win_size_ok sz")
  case True
  then have "sint (ucast (Cols sz) :: 16 word) = sint (Cols sz)" "sint (ucast (Rows sz) :: 16 word) = sint (Rows sz)"
    by (simp_all add: win_size_ok_def int16_exact)
  then show ?thesis using True
    by (auto simp: win_Resize_def win_size_ok_def Size_Validate_def split: option.splits)
next
  case False
  then show ?thesis by (auto simp: win_Resize_def win_size_ok_def Size_Validate_def MaxInt16_def)
qed

end
