(* ===== verification/Spec2Isabelle.thy ===== *)
theory Spec2Isabelle
  imports Mux_Conn Mux_Peer_Sys Pty_Bridge Pty_Bounds Pty_Lifecycle Pty_Attach Pty_Protocol_List
    Pty_Client Unix_Pty Windows_Env
begin

text \<open>
  Verification of streammux, a Go library that multiplexes requests, responses and events of
  many streams over one connection, and of its terminal (PTY) session manager.

  \<^bold>\<open>Parts of the program.\<close> \<open>frame.go\<close> defines headers and frames and their validation;
  \<open>codec.go\<close> reads and writes frames on a byte stream; \<open>conn.go\<close> owns one stream with a single
  write loop; \<open>peer.go\<close> puts requests, responses, events, per-stream workers, bounded queues
  and a weighted scheduler on top of a connection. Under \<open>pty/\<close>, \<open>pty.go\<close> and \<open>size_codec.go\<close>
  hold values and the size codec, \<open>bridge.go\<close> forwards one process to one stream, \<open>manager.go\<close>
  keeps many sessions with history, attachments and observers, \<open>protocol.go\<close> offers a manager
  to a remote peer, and \<open>unixpty\<close> and \<open>windowspty\<close> start processes.

  \<^bold>\<open>Conventions.\<close> A struct is a record whose fields are the struct's, prefixed where Isabelle
  needs distinct names; \<open>uint16/32/64\<close> are words, Go's \<open>int\<close> (64 bit on the supported
  platforms) is \<open>int\<close> where the code only compares and adds bounded sizes; a Go map is an
  association list with distinct keys (\<open>gomap\<close> in \<open>Mux_Prelude\<close>), whose order stands for the
  order a \<open>range\<close> loop happens to take; errors are values of \<open>gerror\<close> with the sentinels of the
  source, \<open>Errorf\<close> for wrapped ones, and \<open>errorsIs\<close> models \<open>errors.Is\<close>. Goroutines interleave
  at their critical sections: every section between \<open>Lock\<close> and \<open>Unlock\<close> is one definition on
  the whole state, and an inductive step relation with labels lets them happen in any order;
  \<open>trace\<close> is its closure. A channel a goroutine waits on is a guard of the step that needs it.
  Code the repository only calls (streams, processes, handlers, the scheduler of the Go
  runtime) is a parameter or an argument of the step.

  \<^bold>\<open>Shared theories.\<close> \<open>Mux_Prelude\<close>: errors, maps, traces and the locales \<open>step_invariant\<close>
  (an invariant of every step holds after every trace), \<open>fifo_observation\<close> (what goes in comes
  out in order) and \<open>byte_queue\<close> (a bounded queue with byte accounting); each is interpreted on
  the model where it is used. \<open>Go_Lib\<close>: big-endian integers, scripted readers and \<open>io.ReadFull\<close>.

  \<^bold>\<open>Framing.\<close> \<open>Mux_Frame\<close> models \<open>frame.go\<close>: which headers are valid, and that \<open>newFrame\<close> makes
  exactly the valid frames. \<open>Mux_Codec\<close> models \<open>codec.go\<close>: reading inverts writing for any split
  of the bytes, a delivered frame is valid and is byte for byte the front of the stream, a cut
  stream is reported as such, and a failed write leaves a prefix of one frame.

  \<^bold>\<open>Connection.\<close> \<open>Mux_Conn\<close> models \<open>conn.go\<close> as steps of senders, the write loop and \<open>Close\<close>
  over any transport: the bytes on the stream are the accepted frames in order, \<open>Send\<close> returns
  nil only for a frame written completely, the first error is final.

  \<^bold>\<open>Peer.\<close> \<open>Mux_Peer\<close> has the state and every critical section of \<open>peer.go\<close>; \<open>Mux_Peer_Out\<close> the
  outbound queues and the scheduler (no class starves, full load follows the weights, a pick is
  work-conserving; one cursor shared by the classes can starve a stream inside its class);
  \<open>Mux_Peer_In\<close> the inbound queues and workers; \<open>Mux_Peer_Calls\<close> correlation, registration,
  statistics; \<open>Mux_Peer_Sys\<close> the running peer: limits, order per stream, every send answered
  once, handlers called in order, the first failure final; the counters compared with the limits
  equal the bytes and frames queued.

  \<^bold>\<open>PTY values and bridge.\<close> \<open>Pty_Base\<close> models \<open>pty.go\<close> and \<open>size_codec.go\<close>; \<open>Pty_Bridge\<close> models
  \<open>bridge.go\<close> for any process and sender, and shows that the program's three write loops agree.
  Nothing is assumed of the sender: the theorem on \<open>RunOutput\<close> wraps it so that the frames given to
  it and its answers are recorded (\<open>recording\<close>), since \<open>SendOwned\<close> may report an error for
  a frame that is written nevertheless.

  \<^bold>\<open>Session manager.\<close> \<open>pty/manager.go\<close> is modelled by \<open>Pty_Types\<close> (configuration, sessions,
  attachments, observers and the manager as records; sessions are never forgotten by the store,
  only taken off the registry \<open>m_sessions\<close>, as pointers to them survive), \<open>Pty_History\<close> (the
  history and its two eviction loops with termination proofs), \<open>Pty_Queues\<close> (attachment and
  observer queues, fan-out), \<open>Pty_Manager\<close> (the operations) and \<open>Pty_Life\<close> (the step relation
  \<open>manager_step\<close>). \<open>Pty_Limits\<close>, \<open>Pty_Delivery\<close> and \<open>Pty_Delivery_Sys\<close> prove its invariants;
  \<open>Pty_Reach\<close> states what sinks receive and what the history holds, \<open>Pty_Bounds\<close> all limits,
  \<open>Pty_Lifecycle\<close> the one-way lifecycle and that the end of a session returns, \<open>Pty_Attach\<close>
  the replay interval that \<open>Attach\<close> reports and a divergence of \<open>Done\<close> from its comment.
  What the history keeps of a chunk is exact (\<open>kept\<close> in \<open>Pty_History\<close>: all of it, or its newest bytes
  if it alone exceeds the smaller history limit), and so is what is replayed from it.

  \<^bold>\<open>Protocol adapter.\<close> \<open>pty/protocol.go\<close> offers a manager to a remote peer. \<open>Pty_Cursor\<close> models
  the cursors of \<open>List\<close> down to decimal digits and base64, \<open>Pty_Protocol\<close> the configuration,
  messages and the calls it makes on manager and peer, \<open>Pty_Handlers\<close> the eight handlers, the
  output sink, the attachment watcher, registration and \<open>Close\<close>. A handler is a function on the
  \<open>world\<close> (manager system, adapter, frames given to the peer, backend calls); before each
  critical section \<open>tick\<close> lets the other goroutines act (\<open>e_rely\<close>), which may be any run of
  manager steps (\<open>rely_ok\<close>) that leaves a reserved session number alone. \<open>encoding/json\<close> is the
  parameter \<open>json\<close>, assumed to read back what it wrote only where a client's view is stated. \<open>Pty_Closed\<close>
  and \<open>Pty_Protocol_Runs\<close> prove what every operation does to the world; \<open>Pty_Protocol_Props\<close> that
  the adapter refines the manager, sends typed frames only and does nothing without
  authorization; \<open>Pty_Protocol_List\<close> that listing by cursor is complete; \<open>Pty_Protocol_Attach\<close>
  what a client that attaches receives.
  \<open>Pty_Client\<close> collects the output from the client's frames.

  \<^bold>\<open>Backends.\<close> \<open>Pty_Backend\<close> states what a managed process promises (locale \<open>managed_process\<close>: one
  final exit status, one final result of \<open>Close\<close>, killed only after a kill); both backends
  interpret it. \<open>Unix_Pty\<close> models \<open>unixpty/factory_unix.go\<close> with the child, its signals and the
  waiting goroutine as steps; \<open>signalGroup\<close> is given the system's \<open>kill\<close> as a function on the
  system's state, so the log of signals holds what the code called and nothing else. \<open>Windows_Pty\<close> models the managed process of
  \<open>windowspty/factory_windows.go\<close> as a multiset of threads, each between two of its critical
  sections, over the Win32 objects that are open; using or closing a closed object is recorded
  in \<open>wo_bad\<close> and proved not to happen. A \<open>sync.Once\<close> is entered by one thread, and the others wait
  until its body has returned; \<open>ClosePseudoConsole\<close> is entered in one section and returns in a
  later one. A thread inside a Win32 call counts as able to go on: that the call returns is
  the system's part. The goroutine that \<open>Close\<close> leaves behind and the one that \<open>Factory.Start\<close>
  leaves with a legacy process (\<open>PcWatch\<close>) are threads like the calls. \<open>Windows_Start\<close> models
  \<open>startManaged\<close> with its deferred functions and failure paths, and the legacy process; besides
  its result it gives the goroutines that still run at its return, as after a cancellation the
  handles are released by the one \<open>Close\<close> started, which may also run earlier: the two share no
  object, so only the order is different. \<open>Windows_Env\<close> reads the environment block
  back and bounds sizes. The operating system's answers are parameters throughout; where a
  call is described as an answer (\<open>win_answers\<close>), any answer may come at any step.

  \<^bold>\<open>End to end.\<close> The theorem below composes manager, adapter, peer and codec: the output a client
  reads from the bytes of the connection is, byte for byte, the output the process wrote.

  \<^bold>\<open>Bounds and fuel.\<close> Loops are recursive functions with termination proofs; the one loop that
  could run forever (\<open>evict_retained\<close>) has not returning as a value, and is proved to return in
  every reachable state. \<open>small\<close> says that a session published fewer than \<open>2^64\<close> chunks, the
  range of its sequence numbers. \<open>win_call\<close> runs one Windows call alone with fuel 9: it is
  proved that no call has more sections. \<open>client_list\<close> follows cursors with one request more than
  there are sessions, which is proved enough.

  \<^bold>\<open>Not modelled.\<close> Real time: a timeout is a step that may happen. The memory model below the
  mutexes: fields the code guards by a lock are read and written in that lock's step. The
  operating systems, \<open>encoding/json\<close>, \<open>exec.LookPath\<close> and the UTF-16 conversion are outside the
  repository and are parameters. Of the remaining lines, comments, imports, interface
  declarations, accessors that return a field and the texts of wrapped errors carry no logic
  of their own. Tests and examples.
\<close>

section \<open>From the terminal to the client\<close>

lemma peer_taken_output:
  assumes "NewPeer conn pc = Inr p0" and "trace peer_step (psys_start p0) ls s"
  obtains rest where "client_output c sid (map or_frame (ps_accepted s)) = client_output c sid (map or_frame (ps_taken s)) @ rest"
    and "\<not> p_closed (ps_peer s) \<Longrightarrow> queue_of (ps_peer s) sid = [] \<Longrightarrow> rest = []"
proof -
  have "Mux_Peer_Sys.hist_ok (ps_peer s) (ps_inflight s) (ps_accepted s) (ps_taken s)"
    using peer_reachable [OF assms] by (simp add: psys_ok_def core_ok_def)
  from Mux_Peer_Sys.hist_okD(5) [OF this, of sid] obtain dropped where
    d: "on_stream sid (ps_accepted s) = on_stream sid (ps_taken s) @ queue_of (ps_peer s) sid @ dropped"
      "\<not> p_closed (ps_peer s) \<longrightarrow> dropped = []" by blast
  have out: "client_output c sid (map or_frame xs) = client_output c sid (map or_frame (on_stream sid xs))" for xs
    by (simp add: client_output_stream [symmetric, of _ _ "map or_frame xs"] filter_map comp_def)
  show thesis
    by (rule that [of "client_output c sid (map or_frame (queue_of (ps_peer s) sid @ dropped))"])
      (use d out [of "ps_accepted s"] out [of "ps_taken s"] in simp_all)
qed

lemma kept_length: "length (kept mc d) \<le> length d"
  by (simp add: kept_def)

lemma stream_of_chunks:
  assumes "Pty_Delivery.stream_of mc pub b evs" and "\<forall>d \<in> set pub. length d < n"
  shows "\<forall>ev \<in> set evs. length (Data ev) < n"
proof
  fix ev assume "ev \<in> set evs"
  then have "Data ev \<in> set (map (chunk_at mc pub b) [0..<length evs])"
    using assms(1) unfolding Pty_Delivery.stream_of_def by (metis image_eqI list.set_map)
  then obtain j where j: "j < length evs" "Data ev = chunk_at mc pub b j" by auto
  then have "fst b + j < length pub" using assms(1) by (simp add: Pty_Delivery.stream_of_def)
  then have "length (pub ! (fst b + j)) < n" using assms(2) nth_mem by blast
  then show "length (Data ev) < n" using kept_length [of mc "pub ! (fst b + j)"] by (auto simp: j(2) chunk_at_def)
qed

lemma stream_of_front:
  assumes "Pty_Delivery.stream_of mc pub b evs" and "map Data evs = out @ rest"
  shows "fst b + length out \<le> length pub" and "j < length out \<Longrightarrow> out ! j = chunk_at mc pub b j"
proof -
  have len: "length evs = length out + length rest" using arg_cong [OF assms(2), of length] by simp
  then show "fst b + length out \<le> length pub" using assms(1) by (simp add: Pty_Delivery.stream_of_def)
  have "out @ rest = map (chunk_at mc pub b) [0..<length evs]" using assms by (simp add: Pty_Delivery.stream_of_def)
  then have "(out @ rest) ! j = map (chunk_at mc pub b) [0..<length evs] ! j" by simp
  then show "out ! j = chunk_at mc pub b j" if "j < length out" using that len by (simp add: nth_append)
qed

text \<open>
  (C4) Terminal output end to end. Take any run of a session manager and what it has given to the
  sink of one attachment; let the protocol adapter turn that into frames and hand them to a
  peer; take any run of the peer, in which other streams and classes may be scheduled as they
  like; write the frames it picked with the encoder and read the bytes back with the decoder,
  however the transport splits them. The output chunks the client finds on its stream are then
  the session's output from the chunk the attachment starts with, in order and without gap or
  repeat, each byte for byte what the process wrote; only a replayed chunk that alone exceeds
  a history limit is its newest bytes up to that limit (\<open>kept\<close>); and when the peer is open with nothing queued on that stream, the
  client has all the output the sink was given.
\<close>

theorem terminal_to_client:
  assumes "NewManager parent factory mc = Inr m" and "trace manager_step (new_msys m) mls y" and "small y"
    and "k < length (m_atts (y_m y))" and "a = m_atts (y_m y) ! k" and "pub = y_published y (at_session a)"
    and "\<forall>d \<in> set pub. length d < 2 ^ 32" and "first = fst (y_base y k)"
    and "calm e" and "encodes e" and "pc_Version (cfg w) \<noteq> 0" and "MessageTypes_validate (pc_Types (cfg w)) = None"
    and "mget (pr_sinks (w_proto w)) k = Some sk" and "sid = sk_streamID sk"
    and "client_output (cfg w) sid (map fst (w_sent w)) = []"
    and "NewPeer conn pc = Inr p0" and "trace peer_step (psys_start p0) pls s"
    and "filter (\<lambda>f. StreamID (Header f) = sid) (map or_frame (ps_accepted s))
      = filter (\<lambda>f. StreamID (Header f) = sid) (map fst (w_sent (sink_all e k (y_sent y k) w)))"
    and "honest_writer wr snk" and "sendAll c wr v (map or_frame (ps_taken s)) = (None, v')" and "snk v = []"
    and "clean r" and "content r = snk v'"
  shows "\<exists>frames r' n. receiveAll c (length (ps_taken s)) r = (frames, None, r')
    \<and> first + n \<le> length pub
    \<and> length (client_output (cfg w) sid frames) = n
    \<and> (\<forall>j < n. client_output (cfg w) sid frames ! j =
         (if snd (y_base y k) \<le> first + j then pub ! (first + j) else kept mc (pub ! (first + j))))
    \<and> (\<not> p_closed (ps_peer s) \<and> queue_of (ps_peer s) sid = [] \<longrightarrow>
         n = length (filter (\<lambda>ev. \<exists>out. ev = AttachmentOutput out) (y_sent y k)))"
proof -
  define taken where "taken = map or_frame (ps_taken s)"
  let ?out = "client_output (cfg w) sid"
  obtain se where g: "att_good mc pub (y_base y k) (y_sent y k) (se_exit se) (att_link se k a) a"
    using reachable_att_good [OF assms(1-5)] unfolding assms(6) by blast
  obtain evs ex where sent: "y_sent y k = map AttachmentOutput evs @ ex" and st: "Pty_Delivery.stream_of mc pub (y_base y k) evs"
    and ex: "ex = [] \<or> (\<exists>x. ex = [AttachmentExit x])"
    using att_good_sent [OF g] by blast
  have "\<forall>ev \<in> set evs. length (Data ev) < 2 ^ 32"
    by (rule stream_of_chunks [OF st assms(7)])
  from sink_client [OF assms(9-12) this ex refl assms(13)] have
    "?out (map fst (w_sent (sink_all e k (y_sent y k) w))) = map Data evs" using assms(14,15) sent by simp
  then have acc: "?out (map or_frame (ps_accepted s)) = map Data evs"
    using client_output_stream [of "cfg w" sid] assms(18) by metis
  obtain rest where rest: "map Data evs = ?out taken @ rest"
    "\<not> p_closed (ps_peer s) \<Longrightarrow> queue_of (ps_peer s) sid = [] \<Longrightarrow> rest = []"
    using peer_taken_output [OF assms(16,17), of "cfg w" sid] unfolding acc taken_def by blast
  have "content r = concat (map wire (map stamped taken)) @ []" "\<forall>f \<in> set (map stamped taken). Validate c f = None"
    using sendAll_wire [OF assms(19,20)] assms(21,23) by (simp_all add: comp_def taken_def)
  from receiveAll_wire [OF assms(22) this] obtain r' where
    r': "receiveAll c (length (ps_taken s)) r = (map stamped taken, None, r')" by (auto simp: taken_def)
  have n: "length (filter (\<lambda>ev. \<exists>out. ev = AttachmentOutput out) (y_sent y k)) = length evs"
    using ex by (auto simp: sent filter_map comp_def)
  show ?thesis
    using r' stream_of_front [OF st rest(1)] rest(2) arg_cong [OF rest(1), of length] n
    by (intro exI [of _ "map stamped taken"] exI [of _ r'] exI [of _ "length (?out taken)"])
      (simp add: client_output_stamped assms(8) chunk_at_def)
qed

definition demo_sink_world :: world where
  "demo_sink_world = set_sink 0 \<lparr>sk_streamID = 1, sk_replayLast = 0, sk_replayEnded = True\<rparr> (demo_world demo_m5 None)"

definition demo_output :: frame where
  "demo_output = signal_frame (cfg demo_sink_world) 7 1 [7, 8]"

lemma demo_output_val: "demo_output = \<lparr>Header = \<lparr>PayloadLength = 2, Version = 1, MessageType = 7, Flags = FlagEvent,
    CorrelationID = 0, StreamID = 1\<rparr>, Payload = [7, 8]\<rparr>"
  by (simp add: demo_output_def signal_frame_def demo_sink_world_def set_sink_def demo_world_def demo_protocol_def
      DefaultProtocolConfig_def)

lemma demo_sink_world_parts:
  "pc_Version (cfg demo_sink_world) \<noteq> 0" "MessageTypes_validate (pc_Types (cfg demo_sink_world)) = None"
  "mget (pr_sinks (w_proto demo_sink_world)) 0 = Some \<lparr>sk_streamID = 1, sk_replayLast = 0, sk_replayEnded = True\<rparr>"
  "w_sent demo_sink_world = []" "mt_Output (pc_Types (cfg demo_sink_world)) = 7"
  "w_sent (sink_all demo_env 0 [AttachmentOutput \<lparr>Sequence = 1, Data = [7, 8]\<rparr>] demo_sink_world) = [(demo_output, TrafficBulk)]"
  by code_simp+

lemma demo_output_sent: "sendAll DefaultConfig bufferWrite [] [demo_output] = (None, wire (stamped demo_output))"
proof -
  have "Validate DefaultConfig (stamped demo_output) = None"
    by (simp add: Validate_iff go_int_def DefaultConfig_def DefaultMaxFrameBytes_def demo_output_val stamped_def
        well_formed_def withDefaults_def)
  then show ?thesis by (simp add: WriteFrame_def Let_def NewEncoder_def bufferWrite_full wire_def stamped_def)
qed

theorem terminal_to_client_witness:
  "\<exists>frames r'. receiveAll DefaultConfig 1 [(wire (stamped demo_output), None)] = (frames, None, r')
     \<and> client_output (cfg demo_sink_world) 1 frames = [[7, 8]]"
proof -
  let ?f = demo_output and ?y = "demo_y demo_m5 [[7, 8]] [AttachmentOutput \<lparr>Sequence = 1, Data = [7, 8]\<rparr>]"
  have "StreamID (Header ?f) = 1" "length (Payload ?f) \<le> 1000" by (simp_all add: demo_output_val)
  from single_trace [OF this] obtain s where s:
    "trace peer_step (psys_start (fresh_peer (MaxFrameBytes DefaultConfig) std_config :: unit peer)) (single_labels ?f) s"
    "ps_accepted s = [single_request ?f]" "ps_taken s = [single_request ?f]" "\<not> p_closed (ps_peer s)" by blast
  have k: "0 < length (m_atts (y_m ?y))" "at_session (m_atts (y_m ?y) ! 0) = 1" using demo_att by (simp_all add: demo_y_def)
  have pub: "y_published ?y 1 = [[7, 8]]" "y_base ?y 0 = (0, 0)" "y_sent ?y 0 = [AttachmentOutput \<lparr>Sequence = 1, Data = [7, 8]\<rparr>]"
    by (simp_all add: demo_y_def)
  have "queue_of (ps_peer s) 1 = []"
    using peer_reachable [OF run_new s(1)] Mux_Peer_Sys.hist_okD(5) [of "ps_peer s" "ps_inflight s" "ps_accepted s" "ps_taken s" 1]
    by (auto simp: psys_ok_def core_ok_def s(2,3) single_request_def demo_output_val)
  moreover have "filter (\<lambda>f. StreamID (Header f) = 1) (map or_frame (ps_accepted s))
      = filter (\<lambda>f. StreamID (Header f) = 1) (map fst (w_sent (sink_all demo_env 0 (y_sent ?y 0) demo_sink_world)))"
    by (simp add: s(2) pub demo_sink_world_parts single_request_def del: sink_all.simps)
  moreover have "sendAll DefaultConfig bufferWrite [] (map or_frame (ps_taken s)) = (None, wire (stamped ?f))"
    using demo_output_sent by (simp add: s(3) single_request_def)
  ultimately obtain frames r' n where
    "receiveAll DefaultConfig 1 [(wire (stamped ?f), None)] = (frames, None, r')" "n = 1"
    "length (client_output (cfg demo_sink_world) 1 frames) = n"
    "\<forall>j < n. client_output (cfg demo_sink_world) 1 frames ! j = [[7, 8]] ! j"
    using terminal_to_client [OF demo_new demo_trace demo_small k(1) refl refl _ refl demo_calm demo_sink_world_parts(1-3)
        refl _ run_new s(1) _ bufferWrite_honest, of DefaultConfig "[]" "wire (stamped ?f)" "[(wire (stamped ?f), None)]"]
      k(2) pub s(3,4) by (auto simp: demo_sink_world_parts)
  then show ?thesis by (auto simp: length_Suc_conv)
qed

end
